(* ===== verification/QueryParser.thy ===== *)
theory QueryParser
  imports JsStrings
begin

text \<open>
  The search query parser (\<open>utils/search/queryParser.ts\<close>): a query is split at the word
  OR into groups, and every group into conditions. The regular expressions of the parser's
  own source are written out as scanners; the ones a user types are compiled by
  \<open>mk_regex pattern flags\<close>, which is \<open>None\<close> where \<open>new RegExp\<close> throws a
  \<open>SyntaxError\<close>. A condition carries \<open>RegexVal\<close> or \<open>TextVal\<close> for the code's pair of
  \<open>value\<close> and \<open>isRegex\<close>.
\<close>

datatype 'r cvalue = RegexVal 'r | TextVal string

datatype 'r condition = Plain "'r cvalue" | Field string "'r cvalue"

section \<open>Scanners\<close>

definition not_space :: "char \<Rightarrow> bool" where
  "not_space c = (\<not> is_space c)"

definition is_regex_flag :: "char \<Rightarrow> bool" where
  "is_regex_flag c = (c \<in> set ''gimsuy'')"

text \<open>The lookahead \<open>(?=\s|,|$)\<close>.\<close>

definition at_token_end :: "string \<Rightarrow> bool" where
  "at_token_end s = (case s of [] \<Rightarrow> True | c # _ \<Rightarrow> is_space c \<or> c = CHR '','')"

text \<open>
  \<open>^\/(.+?)\/([gimsuy]*)?(?=\s|,|$)\<close>: the shortest non-empty body without a line break that
  is followed by a slash, flags and the lookahead. The result is the pattern and the flags;
  \<open>body\<close> holds the characters of the pattern read so far, reversed.
\<close>

fun scan_regex :: "string \<Rightarrow> string \<Rightarrow> (string \<times> string) option" where
  "scan_regex body [] = None"
| "scan_regex body (c # cs) =
     (if c = CHR ''/'' \<and> body \<noteq> [] \<and> at_token_end (dropWhile is_regex_flag cs)
      then Some (rev body, takeWhile is_regex_flag cs)
      else if is_newline c then None
      else scan_regex (c # body) cs)"

definition regex_token :: "string \<Rightarrow> (string \<times> string) option" where
  "regex_token s = (case s of c # cs \<Rightarrow> if c = CHR ''/'' then scan_regex [] cs else None | [] \<Rightarrow> None)"

text \<open>The text \<open>regexMatch[0]\<close>.\<close>

definition regex_text :: "string \<Rightarrow> string \<Rightarrow> string" where
  "regex_text pattern flags = ''/'' @ pattern @ ''/'' @ flags"

text \<open>The result is the value, \<open>isRegex\<close> and the number of characters consumed.\<close>

definition matchRegexToken :: "(string \<Rightarrow> string \<Rightarrow> 'r option) \<Rightarrow> string \<Rightarrow> ('r cvalue \<times> nat) option" where
  "matchRegexToken mk_regex s =
     (case regex_token s of
        None \<Rightarrow> None
      | Some (pattern, flags) \<Rightarrow>
          Some (case mk_regex pattern flags of
                  Some r \<Rightarrow> (RegexVal r, length (regex_text pattern flags))
                | None \<Rightarrow> (TextVal (regex_text pattern flags), length (regex_text pattern flags))))"

text \<open>\<open>^(\w+):\<close>\<close>

definition field_prefix :: "string \<Rightarrow> string option" where
  "field_prefix s =
     (let w = takeWhile is_word s in
      if w \<noteq> [] \<and> prefix '':'' (dropWhile is_word s) then Some w else None)"

text \<open>\<open>^"([^"]*)"\<close>, and the same for the single quote.\<close>

definition quoted :: "char \<Rightarrow> string \<Rightarrow> string option" where
  "quoted q s =
     (case s of
        [] \<Rightarrow> None
      | c # cs \<Rightarrow> if c = q \<and> q \<in> set cs then Some (takeWhile (\<lambda>x. x \<noteq> q) cs) else None)"

definition unquoted :: "string \<Rightarrow> string" where
  "unquoted s = takeWhile (\<lambda>c. \<not> is_space c \<and> c \<noteq> CHR '','') s"

definition matchFieldCondition ::
    "(string \<Rightarrow> string \<Rightarrow> 'r option) \<Rightarrow> string \<Rightarrow> ('r condition \<times> nat) option" where
  "matchFieldCondition mk_regex s =
     (case field_prefix s of
        None \<Rightarrow> None
      | Some w \<Rightarrow>
          (let fieldName = lower w; pos = length w + 1; afterColon = drop pos s in
           case matchRegexToken mk_regex afterColon of
             Some (v, n) \<Rightarrow> Some (Field fieldName v, pos + n)
           | None \<Rightarrow>
           (case quoted CHR 0x22 afterColon of
             Some v \<Rightarrow> Some (Field fieldName (TextVal v), pos + (length v + 2))
           | None \<Rightarrow>
           (case quoted CHR 0x27 afterColon of
             Some v \<Rightarrow> Some (Field fieldName (TextVal v), pos + (length v + 2))
           | None \<Rightarrow>
             (let v = unquoted afterColon in
              if v \<noteq> [] then Some (Field fieldName (TextVal v), pos + length v) else None)))))"

text \<open>
  \<open>^([^\s:]+)(?=\s|$|[a-zA-Z]+:)\<close>: the longest run of characters other than white space and
  colons after which the lookahead holds.
\<close>

definition at_word_end :: "string \<Rightarrow> bool" where
  "at_word_end s =
     (s = [] \<or> is_space (hd s) \<or>
      (takeWhile is_alpha s \<noteq> [] \<and> prefix '':'' (dropWhile is_alpha s)))"

fun word_length :: "string \<Rightarrow> nat \<Rightarrow> nat option" where
  "word_length s 0 = None"
| "word_length s (Suc n) = (if at_word_end (drop (Suc n) s) then Some (Suc n) else word_length s n)"

definition match_word :: "string \<Rightarrow> string option" where
  "match_word s =
     map_option (\<lambda>n. take n s) (word_length s (length (takeWhile (\<lambda>c. \<not> is_space c \<and> c \<noteq> CHR '':'') s)))"

definition match_nonspace :: "string \<Rightarrow> string option" where  \<comment> \<open>\<open>^(\S+)\<close>\<close>
  "match_nonspace s = (let w = takeWhile not_space s in if w \<noteq> [] then Some w else None)"

section \<open>Segments\<close>

text \<open>
  One round of the loop of \<open>parseSegment\<close>: the condition found at the start of
  \<open>remaining\<close>, which does not start with white space, and the characters consumed;
  \<open>None\<close> is the \<open>break\<close>.
\<close>

definition next_condition ::
    "(string \<Rightarrow> string \<Rightarrow> 'r option) \<Rightarrow> string \<Rightarrow> ('r condition \<times> nat) option" where
  "next_condition mk_regex remaining =
     (case matchFieldCondition mk_regex remaining of
        Some r \<Rightarrow> Some r
      | None \<Rightarrow>
      (case matchRegexToken mk_regex remaining of
        Some (v, n) \<Rightarrow> Some (Plain v, n)
      | None \<Rightarrow>
      (case match_word remaining of
        Some w \<Rightarrow> Some (Plain (TextVal w), length w)
      | None \<Rightarrow>
      (case match_nonspace remaining of
        Some w \<Rightarrow> Some (Plain (TextVal w), length w)
      | None \<Rightarrow> None))))"

lemma scan_regex_bounds:
  "scan_regex body s = Some (p, f) \<Longrightarrow> p \<noteq> [] \<and> (\<exists>rest. rev body @ s = p @ ''/'' @ f @ rest)"
proof (induction body s rule: scan_regex.induct)
  case (2 body c cs)
  show ?case
  proof (cases "c = CHR ''/'' \<and> body \<noteq> [] \<and> at_token_end (dropWhile is_regex_flag cs)")
    case True
    with 2 have p: "p = rev body" and f: "f = takeWhile is_regex_flag cs" by auto
    have "rev body @ c # cs = p @ ''/'' @ f @ dropWhile is_regex_flag cs"
      using True p f by simp
    with True p show ?thesis by blast
  next
    case False
    with "2.prems" have nl: "\<not> is_newline c" and r: "scan_regex (c # body) cs = Some (p, f)"
      by (auto split: if_splits)
    from "2.IH" [OF False nl r] show ?thesis by simp
  qed
qed simp

lemma regex_token_prefix:
  "regex_token s = Some (p, f) \<Longrightarrow> prefix (regex_text p f) s \<and> p \<noteq> []"
  by (auto dest!: scan_regex_bounds simp: regex_token_def regex_text_def prefix_def split: list.splits if_splits)

lemma matchRegexToken_progress:
  "matchRegexToken mk s = Some (v, n) \<Longrightarrow> 2 \<le> n \<and> n \<le> length s"
  by (auto simp: matchRegexToken_def regex_text_def split: option.splits
      dest!: regex_token_prefix prefix_length_le)

lemma word_length_le: "word_length s n = Some k \<Longrightarrow> 0 < k \<and> k \<le> n"
  by (induction n) (auto split: if_splits)

lemma match_word_prefix: "match_word s = Some w \<Longrightarrow> w \<noteq> [] \<and> prefix w s"
  using word_length_le take_is_prefix
  by (fastforce simp: match_word_def length_takeWhile_le)


lemma match_nonspace_prefix: "match_nonspace s = Some w \<Longrightarrow> w \<noteq> [] \<and> prefix w s"
  by (auto simp: match_nonspace_def Let_def takeWhile_is_prefix split: if_splits)

lemma field_prefix_SomeD:
  assumes "field_prefix s = Some w"
  shows "w \<noteq> []" "s = w @ '':'' @ drop (length w + 1) s" "list_all is_word w"
proof -
  from assms have w: "w = takeWhile is_word s" and ne: "w \<noteq> []"
    and c: "prefix '':'' (dropWhile is_word s)"
    by (auto simp: field_prefix_def Let_def split: if_splits)
  from c obtain t where t: "dropWhile is_word s = '':'' @ t" by (auto elim: prefixE)
  have s: "s = w @ '':'' @ t" using w t by (metis takeWhile_dropWhile_id)
  from ne show "w \<noteq> []" .
  show "s = w @ '':'' @ drop (length w + 1) s" by (subst (2) s) (use s in simp)
  show "list_all is_word w" unfolding w list_all_iff by (auto dest: set_takeWhileD)
qed

lemma quoted_length: "quoted q s = Some v \<Longrightarrow> length v + 2 \<le> length s"
proof -
  assume "quoted q s = Some v"
  then obtain cs where s: "s = q # cs" and q: "q \<in> set cs" and v: "v = takeWhile (\<lambda>x. x \<noteq> q) cs"
    by (auto simp: quoted_def split: list.splits if_splits)
  have "length v < length cs" unfolding v using q by (induction cs) auto
  with s show ?thesis by simp
qed

lemma matchFieldCondition_progress:
  assumes "matchFieldCondition mk s = Some (cond, n)"
  shows "0 < n \<and> n \<le> length s"
proof -
  from assms obtain w where w: "field_prefix s = Some w"
    by (auto simp: matchFieldCondition_def split: option.splits)
  define t where "t = drop (length w + 1) s"
  have len: "length s = length w + 1 + length t"
    by (subst field_prefix_SomeD(2) [OF w]) (simp add: t_def)
  have "length (unquoted t) \<le> length t" by (simp add: unquoted_def length_takeWhile_le)
  moreover from assms w have "n = length w + 1 + length (unquoted t) \<or>
      (\<exists>v k. matchRegexToken mk t = Some (v, k) \<and> n = length w + 1 + k) \<or>
      (\<exists>q v. quoted q t = Some v \<and> n = length w + 1 + (length v + 2))"
    unfolding matchFieldCondition_def
    by (fastforce simp: Let_def t_def split: option.splits if_splits prod.splits)
  ultimately show ?thesis
    using len by (auto dest!: matchRegexToken_progress quoted_length)
qed

lemma next_condition_progress:
  assumes "next_condition mk s = Some (cond, n)"
  shows "0 < n \<and> n \<le> length s"
proof -
  have "w \<noteq> [] \<and> prefix w s \<Longrightarrow> 0 < length w \<and> length w \<le> length s" for w
    by (auto dest: prefix_length_le)
  with assms show ?thesis
    by (auto simp: next_condition_def split: option.splits prod.splits
        dest!: matchFieldCondition_progress matchRegexToken_progress match_word_prefix match_nonspace_prefix)
qed

lemma next_condition_nonblank:
  assumes "s \<noteq> []" "\<not> is_space (hd s)"
  shows "next_condition mk s \<noteq> None"
proof -
  have "takeWhile not_space s \<noteq> []" using assms by (cases s) (auto simp: not_space_def)
  then show ?thesis
    by (auto simp: next_condition_def match_nonspace_def Let_def split: option.splits)
qed

text \<open>The loop of \<open>parseSegment\<close>: every round consumes a character, so it ends.\<close>

function parseSegment :: "(string \<Rightarrow> string \<Rightarrow> 'r option) \<Rightarrow> string \<Rightarrow> 'r condition list" where
  "parseSegment mk_regex segment =
     (let remaining = trim_start segment in
      case next_condition mk_regex remaining of
        None \<Rightarrow> []
      | Some (cond, n) \<Rightarrow> cond # parseSegment mk_regex (drop n remaining))"
  by pat_completeness auto
termination
proof (relation "measure (\<lambda>(mk, s). length s)", goal_cases)
  case (2 mk s r x cond n)
  then have "0 < n \<and> n \<le> length (trim_start s)" using next_condition_progress by metis
  moreover have "length (trim_start s) \<le> length s" by (rule length_trim_start)
  ultimately show ?case using 2 by simp arith
qed simp

declare parseSegment.simps [simp del]

section \<open>OR groups\<close>

text \<open>
  \<open>/\s+OR\s+/i\<close> at the start of a string; the result is what follows the match. The first
  \<open>\s+\<close> takes the whole run of white space, as an O has to follow.
\<close>

definition match_or :: "string \<Rightarrow> string option" where
  "match_or s =
     (if s \<noteq> [] \<and> is_space (hd s)
      then (case dropWhile is_space s of
              a # b # c # cs \<Rightarrow>
                if lower [a, b] = ''or'' \<and> is_space c then Some (dropWhile is_space cs) else None
            | _ \<Rightarrow> None)
      else None)"

lemma match_or_length: "match_or s = Some t \<Longrightarrow> length t < length s"
proof -
  assume "match_or s = Some t"
  then obtain a b c cs where d: "dropWhile is_space s = a # b # c # cs" and t: "t = dropWhile is_space cs"
    by (auto simp: match_or_def split: if_splits list.splits)
  have "length (a # b # c # cs) \<le> length s" unfolding d [symmetric] by (rule length_dropWhile_le)
  moreover have "length t \<le> length cs" unfolding t by (rule length_dropWhile_le)
  ultimately show ?thesis by simp
qed

text \<open>\<open>query.split(/\s+OR\s+/i)\<close>; \<open>piece\<close> is the piece read so far, reversed.\<close>

function split_or :: "string \<Rightarrow> string \<Rightarrow> string list" where
  "split_or piece [] = [rev piece]"
| "split_or piece (c # cs) =
     (case match_or (c # cs) of
        Some rest \<Rightarrow> rev piece # split_or [] rest
      | None \<Rightarrow> split_or (c # piece) cs)"
  by pat_completeness auto
termination
  by (relation "measure (\<lambda>(piece, s). length s)") (auto dest: match_or_length)

definition parseQuery :: "(string \<Rightarrow> string \<Rightarrow> 'r option) \<Rightarrow> string \<Rightarrow> 'r condition list list" where
  "parseQuery mk_regex queryString =
     (if queryString = [] then []
      else (let query = trim queryString in
            if query = [] then []
            else filter (\<lambda>conditions. conditions \<noteq> [])
                   (map (\<lambda>segment. parseSegment mk_regex (trim segment)) (split_or [] query))))"

end
