(* ===== verification/Highlight.thy ===== *)
theory Highlight
  imports QueryParser
begin

text \<open>
  The coloured overlay of the search field (\<open>utils/search/highlightTokens.ts\<close>): the query is
  cut into runs of plain text, regular expressions and invalid regular expressions. The
  overlay is drawn under the text field, so the runs have to be the query, character for
  character; that is what the lemmas here show, with the pattern syntax shared with the parser.
\<close>

datatype token_kind = PlainText | RegexText | InvalidRegex

type_synonym highlight_token = "string \<times> token_kind"

definition isValidRegex :: "(string \<Rightarrow> string \<Rightarrow> 'r option) \<Rightarrow> string \<Rightarrow> string \<Rightarrow> bool" where
  "isValidRegex mk_regex pattern flags = (case mk_regex pattern flags of Some _ \<Rightarrow> True | None \<Rightarrow> False)"

text \<open>\<open>pushToken\<close>: an empty text is dropped, a text of the last token's kind is appended to it.\<close>

definition pushToken :: "highlight_token list \<Rightarrow> string \<Rightarrow> token_kind \<Rightarrow> highlight_token list" where
  "pushToken tokens text kind =
     (if text = [] then tokens
      else if tokens \<noteq> [] \<and> snd (last tokens) = kind
      then butlast tokens @ [(fst (last tokens) @ text, kind)]
      else tokens @ [(text, kind)])"

text \<open>\<open>fieldRegexTokenPattern\<close>: the field name with its colon, the pattern and the flags.\<close>

definition field_regex_token :: "string \<Rightarrow> (string \<times> string \<times> string) option" where
  "field_regex_token s =
     (case field_prefix s of
        None \<Rightarrow> None
      | Some w \<Rightarrow>
          (case regex_token (drop (length w + 1) s) of
             None \<Rightarrow> None
           | Some (pattern, flags) \<Rightarrow> Some (w @ '':'', pattern, flags)))"

definition regex_kind :: "(string \<Rightarrow> string \<Rightarrow> 'r option) \<Rightarrow> string \<Rightarrow> string \<Rightarrow> token_kind" where
  "regex_kind mk_regex pattern flags = (if isValidRegex mk_regex pattern flags then RegexText else InvalidRegex)"

text \<open>The loop over \<open>index\<close>; the last argument is \<open>query.slice(index)\<close>.\<close>

function tokenize ::
    "(string \<Rightarrow> string \<Rightarrow> 'r option) \<Rightarrow> highlight_token list \<Rightarrow> string \<Rightarrow> string \<Rightarrow> highlight_token list" where
  "tokenize mk_regex tokens plainBuffer [] = pushToken tokens plainBuffer PlainText"
| "tokenize mk_regex tokens plainBuffer (c # cs) =
     (case field_regex_token (c # cs) of
        Some (f, p, fl) \<Rightarrow>
          tokenize mk_regex
            (pushToken (pushToken (pushToken tokens plainBuffer PlainText) f PlainText)
               (regex_text p fl) (regex_kind mk_regex p fl))
            [] (drop (length f + length (regex_text p fl)) (c # cs))
      | None \<Rightarrow>
      (case regex_token (c # cs) of
        Some (p, fl) \<Rightarrow>
          tokenize mk_regex
            (pushToken (pushToken tokens plainBuffer PlainText) (regex_text p fl) (regex_kind mk_regex p fl))
            [] (drop (length (regex_text p fl)) (c # cs))
      | None \<Rightarrow> tokenize mk_regex tokens (plainBuffer @ [c]) cs))"
  by pat_completeness auto
termination
  by (relation "measure (\<lambda>(mk, tokens, buf, s). length s)") (auto simp: regex_text_def)

definition tokenizeSearchHighlights :: "(string \<Rightarrow> string \<Rightarrow> 'r option) \<Rightarrow> string \<Rightarrow> highlight_token list" where
  "tokenizeSearchHighlights mk_regex query = (if query = [] then [] else tokenize mk_regex [] [] query)"

section \<open>The overlay is the query\<close>

definition overlay :: "highlight_token list \<Rightarrow> string" where
  "overlay tokens = concat (map fst tokens)"

lemma overlay_push [simp]: "overlay (pushToken tokens text kind) = overlay tokens @ text"
  by (cases tokens rule: rev_cases) (auto simp: overlay_def pushToken_def)

lemma regex_token_drop:
  "regex_token s = Some (p, fl) \<Longrightarrow> regex_text p fl @ drop (length (regex_text p fl)) s = s"
  by (auto dest!: regex_token_prefix simp: prefix_def)

lemma field_regex_token_drop:
  assumes "field_regex_token s = Some (f, p, fl)"
  shows "f @ regex_text p fl @ drop (length f + length (regex_text p fl)) s = s"
proof -
  from assms obtain w where w: "field_prefix s = Some w" and f: "f = w @ '':''"
    and r: "regex_token (drop (length w + 1) s) = Some (p, fl)"
    by (auto simp: field_regex_token_def split: option.splits)
  have "f @ drop (length f) s = s"
    using field_prefix_SomeD(2) [OF w] f by simp
  moreover have "regex_text p fl @ drop (length (regex_text p fl)) (drop (length f) s) = drop (length f) s"
    using regex_token_drop [of "drop (length f) s"] r f by simp
  ultimately show ?thesis by (metis add.commute drop_drop)
qed

lemma overlay_tokenize: "overlay (tokenize mk tokens buf s) = overlay tokens @ buf @ s"
proof (induction mk tokens buf s rule: tokenize.induct)
  case (2 mk tokens buf c cs)
  show ?case
  proof (cases "field_regex_token (c # cs)")
    case (Some a)
    then obtain f p fl where a: "field_regex_token (c # cs) = Some (f, p, fl)" by (cases a) auto
    from 2(3) [OF a refl refl] field_regex_token_drop [OF a] a show ?thesis by simp
  next
    case None
    note n = None
    show ?thesis
    proof (cases "regex_token (c # cs)")
      case (Some a)
      then obtain p fl where a: "regex_token (c # cs) = Some (p, fl)" by (cases a) auto
      from 2(2) [OF n a refl] regex_token_drop [OF a] n a show ?thesis by simp
    next
      case None
      from 2(1) [OF n None] n None show ?thesis by simp
    qed
  qed
qed simp

section \<open>No run is empty, neighbours differ in kind\<close>

fun kinds_alternate :: "highlight_token list \<Rightarrow> bool" where
  "kinds_alternate (t # u # ts) = (snd t \<noteq> snd u \<and> kinds_alternate (u # ts))"
| "kinds_alternate _ = True"

definition tokens_ok :: "highlight_token list \<Rightarrow> bool" where
  "tokens_ok tokens \<longleftrightarrow> list_all (\<lambda>t. fst t \<noteq> []) tokens \<and> kinds_alternate tokens"

lemma kinds_alternate_snoc:
  "kinds_alternate (ts @ [t]) \<longleftrightarrow> kinds_alternate ts \<and> (ts \<noteq> [] \<longrightarrow> snd (last ts) \<noteq> snd t)"
  by (induction ts rule: kinds_alternate.induct) auto

lemma kinds_alternate_snoc2:
  "kinds_alternate (ts @ [t, u]) \<longleftrightarrow> kinds_alternate (ts @ [t]) \<and> snd t \<noteq> snd u"
  using kinds_alternate_snoc [of "ts @ [t]" u] by simp

lemma push_ok: "tokens_ok tokens \<Longrightarrow> tokens_ok (pushToken tokens text kind)"
  by (cases tokens rule: rev_cases) (auto simp: tokens_ok_def pushToken_def kinds_alternate_snoc kinds_alternate_snoc2)

lemma tokenize_ok: "tokens_ok tokens \<Longrightarrow> tokens_ok (tokenize mk tokens buf s)"
  by (induction mk tokens buf s rule: tokenize.induct) (simp_all add: push_ok split: option.splits prod.splits)

interpretation pusher: machine "\<lambda>tokens (text, kind). pushToken tokens text kind" tokens_ok
  by unfold_locales (auto intro: push_ok)

section \<open>Properties\<close>

text \<open>
  Highlight is query: the coloured runs of the search field spell the query, none is empty
  and neighbouring runs differ in kind.
\<close>
theorem highlight_is_query:
  "concat (map fst (tokenizeSearchHighlights mk query)) = query \<and>
   list_all (\<lambda>t. fst t \<noteq> []) (tokenizeSearchHighlights mk query) \<and>
   kinds_alternate (tokenizeSearchHighlights mk query)"
proof (cases "query = []")
  case False
  with overlay_tokenize [of mk "[]" "[]" query] tokenize_ok [of "[]" mk "[]" query] show ?thesis
    by (simp add: tokenizeSearchHighlights_def overlay_def tokens_ok_def)
qed (simp add: tokenizeSearchHighlights_def)

end
