(* ===== verification/JsMap.thy ===== *)
theory JsMap
  imports Prelude
begin

text \<open>
  JavaScript's \<open>Map\<close> and plain objects used as dictionaries: an association list in
  enumeration order with distinct keys. Setting a present key keeps its place, setting a new
  key appends it, and deleting removes it; this is what the language specifies for
  \<open>Map\<close> and, for keys that are not array indices, for objects.
\<close>

type_synonym ('k, 'v) js_map = "('k \<times> 'v) list"

abbreviation map_get :: "('k, 'v) js_map \<Rightarrow> 'k \<Rightarrow> 'v option" where
  "map_get \<equiv> map_of"

abbreviation map_set :: "'k \<Rightarrow> 'v \<Rightarrow> ('k, 'v) js_map \<Rightarrow> ('k, 'v) js_map" where
  "map_set \<equiv> AList.update"

abbreviation map_delete :: "'k \<Rightarrow> ('k, 'v) js_map \<Rightarrow> ('k, 'v) js_map" where
  "map_delete \<equiv> AList.delete"

abbreviation map_keys :: "('k, 'v) js_map \<Rightarrow> 'k list" where
  "map_keys m \<equiv> map fst m"

abbreviation map_wf :: "('k, 'v) js_map \<Rightarrow> bool" where
  "map_wf m \<equiv> distinct (map fst m)"

definition map_has :: "('k, 'v) js_map \<Rightarrow> 'k \<Rightarrow> bool" where
  "map_has m k = (map_of m k \<noteq> None)"

lemma map_has_iff: "map_has m k \<longleftrightarrow> k \<in> set (map_keys m)"
  by (metis map_has_def map_of_eq_None_iff set_map)

interpretation js: keyed_store map_of AList.update AList.delete "\<lambda>m. distinct (map fst m)"
  by unfold_locales (auto simp: update_conv' delete_conv' distinct_update distinct_delete)

text \<open>\<open>{ ...base, k1: v1, ... }\<close>\<close>

definition spread :: "('k, 'v) js_map \<Rightarrow> ('k, 'v) js_map \<Rightarrow> ('k, 'v) js_map" where
  "spread base ext = foldl (\<lambda>m (k, v). map_set k v m) base ext"

lemma spread_wf: "map_wf base \<Longrightarrow> map_wf (spread base ext)"
  unfolding spread_def by (rule js.wf_puts)

lemma spread_get: "map_wf base \<Longrightarrow> map_get (spread base ext) = map_get base ++ map_of (rev ext)"
  unfolding spread_def by (rule js.get_puts)

lemma update_fresh: "k \<notin> fst ` set m \<Longrightarrow> AList.update k v m = m @ [(k, v)]"
  by (induction m) auto

lemma spread_fresh:
  "distinct (map fst ext) \<Longrightarrow> fst ` set ext \<inter> fst ` set base = {} \<Longrightarrow> spread base ext = base @ ext"
proof (induction ext arbitrary: base)
  case (Cons kv ext)
  obtain k v where kv: "kv = (k, v)" by (cases kv)
  with Cons.prems have "map_set k v base = base @ [(k, v)]"
    by (intro update_fresh) auto
  with Cons kv show ?case by (simp add: spread_def)
qed (simp add: spread_def)

lemma map_set_keys:
  "map_keys (map_set k v m) = (if k \<in> set (map_keys m) then map_keys m else map_keys m @ [k])"
  by (induction m) auto

end
