(* ===== verification/JsValue.thy ===== *)
theory JsValue
  imports JsMap JsStrings "HOL-Library.Monad_Syntax"
begin

text \<open>
  The JSON documents the frontend receives (Kubernetes objects, saved settings) as
  JavaScript values, with the operators the code applies to them. A result of type
  \<open>jsv option\<close> is \<open>None\<close> where the language throws a \<open>TypeError\<close>.

  Bounds of the model: numbers are the integers of these documents (replica counts, ports,
  exit codes), written in decimal; strings are as in \<open>JsStrings\<close>; the association list of a
  \<open>JObj\<close> is in enumeration order, and a property that is not listed reads as
  \<open>undefined\<close>.
\<close>

datatype jsv =
    JUndef
  | JNull
  | JBool bool
  | JNum int
  | JStr string
  | JArr "jsv list"
  | JObj "(string \<times> jsv) list"

fun nullish :: "jsv \<Rightarrow> bool" where
  "nullish JUndef = True"
| "nullish JNull = True"
| "nullish _ = False"

fun truthy :: "jsv \<Rightarrow> bool" where
  "truthy JUndef = False"
| "truthy JNull = False"
| "truthy (JBool b) = b"
| "truthy (JNum n) = (n \<noteq> 0)"
| "truthy (JStr s) = (s \<noteq> [])"
| "truthy (JArr _) = True"
| "truthy (JObj _) = True"

section \<open>Property access\<close>

text \<open>Reading a property of a value that is neither \<open>undefined\<close> nor \<open>null\<close>.\<close>

fun js_member :: "jsv \<Rightarrow> string \<Rightarrow> jsv" where
  "js_member (JObj kvs) k = (case map_of kvs k of None \<Rightarrow> JUndef | Some v \<Rightarrow> v)"
| "js_member (JArr xs) k = (if k = ''length'' then JNum (int (length xs)) else JUndef)"
| "js_member (JStr s) k = (if k = ''length'' then JNum (int (length s)) else JUndef)"
| "js_member _ k = JUndef"

definition jget :: "jsv \<Rightarrow> string \<Rightarrow> jsv option" where  \<comment> \<open>\<open>v.k\<close>\<close>
  "jget v k = (if nullish v then None else Some (js_member v k))"

definition jopt :: "jsv \<Rightarrow> string \<Rightarrow> jsv" where  \<comment> \<open>\<open>v?.k\<close>\<close>
  "jopt v k = (if nullish v then JUndef else js_member v k)"

definition jpath :: "jsv \<Rightarrow> string list \<Rightarrow> jsv option" where  \<comment> \<open>\<open>v.k1?.k2?.k3\<close>\<close>
  "jpath v ks =
     (case ks of [] \<Rightarrow> Some v | k # ks' \<Rightarrow> map_option (\<lambda>x. foldl jopt x ks') (jget v k))"

section \<open>Operators\<close>

definition jor :: "jsv \<Rightarrow> jsv \<Rightarrow> jsv" where  \<comment> \<open>\<open>a || b\<close>\<close>
  "jor a b = (if truthy a then a else b)"

definition jcoalesce :: "jsv \<Rightarrow> jsv \<Rightarrow> jsv" where  \<comment> \<open>\<open>a ?? b\<close>\<close>
  "jcoalesce a b = (if nullish a then b else a)"

text \<open>\<open>v.k1?.k2 || d\<close> and \<open>v.k1?.k2 ?? d\<close>.\<close>

definition path_or :: "jsv \<Rightarrow> string list \<Rightarrow> jsv \<Rightarrow> jsv option" where
  "path_or v ks d = map_option (\<lambda>x. jor x d) (jpath v ks)"

definition path_coalesce :: "jsv \<Rightarrow> string list \<Rightarrow> jsv \<Rightarrow> jsv option" where
  "path_coalesce v ks d = map_option (\<lambda>x. jcoalesce x d) (jpath v ks)"

abbreviation path_str :: "jsv \<Rightarrow> string list \<Rightarrow> string \<Rightarrow> jsv option" where
  "path_str v ks s \<equiv> path_or v ks (JStr s)"

section \<open>Conversion to strings\<close>

fun jstring :: "jsv \<Rightarrow> string" where  \<comment> \<open>\<open>String(v)\<close>, \<open>`${v}`\<close>\<close>
  "jstring JUndef = ''undefined''"
| "jstring JNull = ''null''"
| "jstring (JBool b) = (if b then ''true'' else ''false'')"
| "jstring (JNum n) = show_int n"
| "jstring (JStr s) = s"
| "jstring (JArr xs) = join '','' (map (\<lambda>x. if nullish x then '''' else jstring x) xs)"
| "jstring (JObj _) = ''[object Object]''"

definition jjoin :: "string \<Rightarrow> jsv list \<Rightarrow> jsv" where  \<comment> \<open>\<open>xs.join(sep)\<close>\<close>
  "jjoin sep xs = JStr (join sep (map (\<lambda>x. if nullish x then '''' else jstring x) xs))"

section \<open>Arrays\<close>

text \<open>The receiver of an array method: anything else has no such method and throws.\<close>

fun jarr :: "jsv \<Rightarrow> jsv list option" where
  "jarr (JArr xs) = Some xs"
| "jarr _ = None"

text \<open>\<open>for (const x of v)\<close> and \<open>[...v]\<close>.\<close>

fun jiter :: "jsv \<Rightarrow> jsv list option" where
  "jiter (JArr xs) = Some xs"
| "jiter (JStr s) = Some (map (\<lambda>c. JStr [c]) s)"
| "jiter _ = None"

definition jmap :: "(jsv \<Rightarrow> jsv option) \<Rightarrow> jsv list \<Rightarrow> jsv list option" where
  "jmap f xs = those (map f xs)"

fun jfind :: "(jsv \<Rightarrow> bool option) \<Rightarrow> jsv list \<Rightarrow> jsv option" where
  "jfind p [] = Some JUndef"
| "jfind p (x # xs) = do { b \<leftarrow> p x; if b then Some x else jfind p xs }"

fun jfilter :: "(jsv \<Rightarrow> bool option) \<Rightarrow> jsv list \<Rightarrow> jsv list option" where
  "jfilter p [] = Some []"
| "jfilter p (x # xs) = do { b \<leftarrow> p x; ys \<leftarrow> jfilter p xs; Some (if b then x # ys else ys) }"

fun jsome :: "('a \<Rightarrow> bool option) \<Rightarrow> 'a list \<Rightarrow> bool option" where  \<comment> \<open>\<open>xs.some(p)\<close>\<close>
  "jsome p [] = Some False"
| "jsome p (x # xs) = do { b \<leftarrow> p x; if b then Some True else jsome p xs }"

fun jevery :: "('a \<Rightarrow> bool option) \<Rightarrow> 'a list \<Rightarrow> bool option" where  \<comment> \<open>\<open>xs.every(p)\<close>\<close>
  "jevery p [] = Some True"
| "jevery p (x # xs) = do { b \<leftarrow> p x; if b then jevery p xs else Some False }"

text \<open>Loops \<open>(v || []).forEach(x => ... push ...)\<close>: collect what every element contributes.\<close>

definition jflat :: "(jsv \<Rightarrow> jsv list option) \<Rightarrow> jsv list \<Rightarrow> jsv list option" where
  "jflat f xs = map_option concat (those (map f xs))"

text \<open>\<open>Object.entries\<close> and \<open>Object.keys\<close>.\<close>

fun jentries :: "jsv \<Rightarrow> (string \<times> jsv) list option" where
  "jentries (JObj kvs) = Some kvs"
| "jentries (JArr xs) = Some (map (\<lambda>(i, x). (show_nat i, x)) (enumerate 0 xs))"
| "jentries (JStr s) = Some (map (\<lambda>(i, c). (show_nat i, JStr [c])) (enumerate 0 s))"
| "jentries JUndef = None"
| "jentries JNull = None"
| "jentries _ = Some []"

definition jkeys :: "jsv \<Rightarrow> string list option" where
  "jkeys v = map_option (map fst) (jentries v)"

section \<open>Facts\<close>

lemma jopt_nullish [simp]: "nullish v \<Longrightarrow> jopt v k = JUndef"
  by (simp add: jopt_def)

lemma foldl_jopt_undef [simp]: "foldl jopt JUndef ks = JUndef"
  by (induction ks) (auto simp: jopt_def)

text \<open>An optional chain throws only when its first receiver is nullish.\<close>

lemma jpath_total: "\<not> nullish v \<Longrightarrow> jpath v ks \<noteq> None"
  by (cases ks) (auto simp: jpath_def jget_def)

lemma path_or_total: "\<not> nullish v \<Longrightarrow> path_or v ks d \<noteq> None"
  by (simp add: path_or_def jpath_total)

lemma jsome_all_defined: "\<forall>x \<in> set xs. p x \<noteq> None \<Longrightarrow> jsome p xs = Some (\<exists>x \<in> set xs. p x = Some True)"
  by (induction xs) (auto split: bind_splits)

lemma jevery_all_defined: "\<forall>x \<in> set xs. p x \<noteq> None \<Longrightarrow> jevery p xs = Some (\<forall>x \<in> set xs. p x = Some True)"
  by (induction xs) (auto split: bind_splits)

lemma truthy_not_nullish: "truthy v \<Longrightarrow> \<not> nullish v"
  by (cases v) auto

declare jget_def [js_defs] jopt_def [js_defs] jpath_def [js_defs] jor_def [js_defs]
  jcoalesce_def [js_defs] path_or_def [js_defs] path_coalesce_def [js_defs] jjoin_def [js_defs]
  jmap_def [js_defs] jflat_def [js_defs] jkeys_def [js_defs]

end
