(* ===== verification/FieldsCommon.thy ===== *)
theory FieldsCommon
  imports JsValue
begin

text \<open>
  Search field tables, part one: the vocabulary of the tables and the fields of pods and of
  the workload kinds (\<open>utils/search/fieldMappings/\<close> \<open>common.ts\<close>, \<open>pods.ts\<close>,
  \<open>workloads.ts\<close>, \<open>deployments.ts\<close>, \<open>statefulsets.ts\<close>, \<open>daemonsets.ts\<close>,
  \<open>replicasets.ts\<close>, \<open>jobs.ts\<close>, \<open>cronjobs.ts\<close>). A table maps a field name to its
  extractor and its aliases; an extractor returns \<open>None\<close> where the code throws.
\<close>

record field_def =
  extractor :: "jsv \<Rightarrow> jsv option"
  aliases :: "string list"

type_synonym field_table = "(string, field_def) js_map"

abbreviation field :: "(jsv \<Rightarrow> jsv option) \<Rightarrow> string list \<Rightarrow> field_def" where
  "field e as \<equiv> \<lparr>extractor = e, aliases = as\<rparr>"

section \<open>Shapes shared by the extractors\<close>

text \<open>\<open>String(v.k1?.k2 || d)\<close> and \<open>String(v.k1?.k2 ?? d)\<close>.\<close>

definition string_or :: "jsv \<Rightarrow> string list \<Rightarrow> jsv \<Rightarrow> jsv option" where
  "string_or v ks d = map_option (\<lambda>x. JStr (jstring x)) (path_or v ks d)"

definition string_coalesce :: "jsv \<Rightarrow> string list \<Rightarrow> jsv \<Rightarrow> jsv option" where
  "string_coalesce v ks d = map_option (\<lambda>x. JStr (jstring x)) (path_coalesce v ks d)"

text \<open>\<open>String((v.k1?.k2 || []).length)\<close>.\<close>

definition string_length :: "jsv \<Rightarrow> string list \<Rightarrow> jsv option" where
  "string_length v ks =
     do { xs \<leftarrow> path_or v ks (JArr []); n \<leftarrow> jget xs ''length''; Some (JStr (jstring n)) }"

text \<open>\<open>(v.k1?.k2 || []).join(sep)\<close>.\<close>

definition join_path :: "string \<Rightarrow> jsv \<Rightarrow> string list \<Rightarrow> jsv option" where
  "join_path sep v ks = do { a \<leftarrow> path_or v ks (JArr []); xs \<leftarrow> jarr a; Some (jjoin sep xs) }"

text \<open>\<open>(v.k1?.k2 || []).map(x => f x).join(sep)\<close>.\<close>

definition map_join :: "string \<Rightarrow> (jsv \<Rightarrow> jsv option) \<Rightarrow> jsv \<Rightarrow> string list \<Rightarrow> jsv option" where
  "map_join sep f v ks =
     do { a \<leftarrow> path_or v ks (JArr []); xs \<leftarrow> jarr a; ys \<leftarrow> jmap f xs; Some (jjoin sep ys) }"

text \<open>\<open>Object.entries(v.k1?.k2 || {}).map(([k, x]) => `${k}=${x}`).join(sep)\<close>.\<close>

definition entries_join :: "string \<Rightarrow> jsv \<Rightarrow> jsv option" where
  "entries_join sep v =
     map_option (\<lambda>es. JStr (join sep (map (\<lambda>(k, x). k @ ''='' @ jstring x) es))) (jentries v)"

definition entries_path :: "jsv \<Rightarrow> string list \<Rightarrow> jsv option" where
  "entries_path v ks = do { o' \<leftarrow> path_or v ks (JObj []); entries_join '' '' o' }"

text \<open>\<open>[...containers, ...initContainers].map(c => c.key).join(' ')\<close> under a pod spec.\<close>

definition container_names :: "string \<Rightarrow> string list \<Rightarrow> jsv \<Rightarrow> jsv option" where
  "container_names key spec v =
     do { a \<leftarrow> path_or v (spec @ [''containers'']) (JArr []);
          b \<leftarrow> path_or v (spec @ [''initContainers'']) (JArr []);
          xs \<leftarrow> jiter a; ys \<leftarrow> jiter b;
          names \<leftarrow> jmap (\<lambda>c. jget c key) (xs @ ys);
          Some (jjoin '' '' names) }"

text \<open>\<open>owners.find(owner => owner.controller)\<close> and a field of the owner found.\<close>

definition find_controller :: "jsv \<Rightarrow> jsv option" where
  "find_controller v =
     do { a \<leftarrow> path_or v [''metadata'', ''ownerReferences''] (JArr []); owners \<leftarrow> jarr a;
          jfind (\<lambda>owner. map_option truthy (jget owner ''controller'')) owners }"

definition controller_field :: "string \<Rightarrow> jsv \<Rightarrow> jsv option" where
  "controller_field key v =
     do { c \<leftarrow> find_controller v; if truthy c then jget c key else Some (JStr '''') }"

declare string_or_def [js_defs] string_coalesce_def [js_defs] string_length_def [js_defs]
  join_path_def [js_defs] map_join_def [js_defs] entries_join_def [js_defs]
  entries_path_def [js_defs] container_names_def [js_defs] find_controller_def [js_defs]
  controller_field_def [js_defs]

section \<open>Common fields\<close>

definition commonFields :: field_table where
  "commonFields = [
     (''name'', field (\<lambda>item. path_str item [''metadata'', ''name''] '''') [''n'']),
     (''namespace'', field (\<lambda>item. path_str item [''metadata'', ''namespace''] '''') [''ns'']),
     (''labels'', field (\<lambda>item. entries_path item [''metadata'', ''labels'']) [''label'', ''l'']),
     (''annotations'', field (\<lambda>item. entries_path item [''metadata'', ''annotations''])
        [''annotation'', ''a'']),
     (''uid'', field (\<lambda>item. path_str item [''metadata'', ''uid''] '''') [])]"

section \<open>Pods\<close>

text \<open>The loop over the init containers: \<open>Some (Some s)\<close> is an early return.\<close>

fun search_init_loop :: "jsv list \<Rightarrow> string option option" where
  "search_init_loop [] = Some None"
| "search_init_loop (status # rest) =
     do { terminated \<leftarrow> jpath status [''state'', ''terminated''];
          waiting \<leftarrow> jpath status [''state'', ''waiting''];
          running \<leftarrow> jpath status [''state'', ''running''];
          if truthy terminated \<and> js_member terminated ''exitCode'' \<noteq> JNum 0
          then Some (Some ''Init:Error'')
          else if truthy waiting \<and> js_member waiting ''reason'' = JStr ''CrashLoopBackOff''
          then Some (Some ''Init:CrashLoopBackOff'')
          else if running = JUndef \<and> terminated = JUndef
          then Some (Some ''Init:Running'')
          else search_init_loop rest }"

definition blocking_reasons :: "jsv list" where
  "blocking_reasons = [JStr ''CrashLoopBackOff'', JStr ''ErrImagePull'', JStr ''ImagePullBackOff'']"

fun search_waiting_loop :: "jsv list \<Rightarrow> jsv option option" where
  "search_waiting_loop [] = Some None"
| "search_waiting_loop (status # rest) =
     do { waiting \<leftarrow> jpath status [''state'', ''waiting''];
          let reason = js_member waiting ''reason'' in
          if truthy waiting \<and> reason \<in> set blocking_reasons then Some (Some reason)
          else search_waiting_loop rest }"

definition getPodStatusForSearch :: "jsv \<Rightarrow> jsv option" where
  "getPodStatusForSearch pod =
     do { deleted \<leftarrow> jpath pod [''metadata'', ''deletionTimestamp''];
          if truthy deleted then Some (JStr ''Terminating'')
          else do {
            inits \<leftarrow> jpath pod [''status'', ''initContainerStatuses''];
            verdict \<leftarrow> (if truthy inits then jiter inits \<bind> search_init_loop else Some None);
            case verdict of
              Some s \<Rightarrow> Some (JStr s)
            | None \<Rightarrow>
                do { statuses \<leftarrow> path_or pod [''status'', ''containerStatuses''] (JArr []);
                     reason \<leftarrow> jiter statuses \<bind> search_waiting_loop;
                     case reason of
                       Some r \<Rightarrow> Some r
                     | None \<Rightarrow> path_str pod [''status'', ''phase''] ''Unknown'' } } }"

text \<open>JavaScript \<open>+\<close> with a number on the left and a value that is not nullish on the right.\<close>

fun jplus :: "jsv \<Rightarrow> jsv \<Rightarrow> jsv" where
  "jplus (JNum m) (JNum n) = JNum (m + n)"
| "jplus (JNum m) (JBool b) = JNum (m + (if b then 1 else 0))"
| "jplus a b = JStr (jstring a @ jstring b)"

definition restart_sum :: "jsv \<Rightarrow> jsv option" where
  "restart_sum pod =
     do { a \<leftarrow> path_or pod [''status'', ''containerStatuses''] (JArr []); xs \<leftarrow> jarr a;
          counts \<leftarrow> jmap (\<lambda>curr. path_or curr [''restartCount''] (JNum 0)) xs;
          Some (JStr (jstring (foldl jplus (JNum 0) counts))) }"

definition podFields :: field_table where
  "podFields = spread commonFields [
     (''nodename'', field (\<lambda>pod. path_str pod [''spec'', ''nodeName''] '''') [''node'']),
     (''status'', field (\<lambda>pod. getPodStatusForSearch pod) [''phase'', ''s'']),
     (''ip'', field (\<lambda>pod. path_str pod [''status'', ''podIP''] '''') [''podip'']),
     (''hostip'', field (\<lambda>pod. path_str pod [''status'', ''hostIP''] '''') []),
     (''restarts'', field (\<lambda>pod. restart_sum pod) [''restart'']),
     (''controlledby'', field (\<lambda>pod. controller_field ''kind'' pod) [''controller'', ''owner'']),
     (''controllername'', field (\<lambda>pod. controller_field ''name'' pod) [''ownername'']),
     (''container'', field (\<lambda>pod. container_names ''name'' [''spec''] pod) [''containers'']),
     (''image'', field (\<lambda>pod. container_names ''image'' [''spec''] pod) [''images'']),
     (''serviceaccount'', field (\<lambda>pod.
        do { a \<leftarrow> jpath pod [''spec'', ''serviceAccountName''];
             b \<leftarrow> jpath pod [''spec'', ''serviceAccount''];
             Some (jor (jor a b) (JStr '''')) }) [''sa'']),
     (''qos'', field (\<lambda>pod. path_str pod [''status'', ''qosClass''] '''') [''qosclass''])]"

section \<open>Workload kinds\<close>

definition getOwnerInfo :: "jsv \<Rightarrow> jsv option" where
  "getOwnerInfo item =
     do { c \<leftarrow> find_controller item;
          if truthy c
          then do { k \<leftarrow> jget c ''kind''; n \<leftarrow> jget c ''name''; Some (JObj [(''kind'', k), (''name'', n)]) }
          else Some JNull }"

definition owner_info_field :: "string \<Rightarrow> jsv \<Rightarrow> jsv option" where
  "owner_info_field key item =
     do { owner \<leftarrow> getOwnerInfo item;
          if truthy owner then jget owner key else Some (JStr '''') }"

abbreviation template_spec :: "string list" where
  "template_spec \<equiv> [''spec'', ''template'', ''spec'']"

definition workloadCommonFields :: field_table where
  "workloadCommonFields = spread commonFields [
     (''image'', field (\<lambda>item. container_names ''image'' template_spec item) [''images'']),
     (''container'', field (\<lambda>item. container_names ''name'' template_spec item) [''containers'']),
     (''serviceaccount'', field (\<lambda>item.
        do { a \<leftarrow> jpath item (template_spec @ [''serviceAccountName'']);
             b \<leftarrow> jpath item (template_spec @ [''serviceAccount'']);
             Some (jor (jor a b) (JStr '''')) }) [''sa'']),
     (''selector'', field (\<lambda>item. entries_path item [''spec'', ''selector'', ''matchLabels'']) [''sel'']),
     (''controlledby'', field (\<lambda>item. owner_info_field ''kind'' item) [''controller'', ''owner'']),
     (''controllername'', field (\<lambda>item. owner_info_field ''name'' item) [''ownername''])]"

definition deploymentFields :: field_table where
  "deploymentFields = spread workloadCommonFields [
     (''replicas'', field (\<lambda>item. string_or item [''spec'', ''replicas''] (JNum 0)) [''desired'']),
     (''ready'', field (\<lambda>item. string_or item [''status'', ''readyReplicas''] (JNum 0)) [''readyreplicas'']),
     (''available'', field (\<lambda>item. string_or item [''status'', ''availableReplicas''] (JNum 0))
        [''availablereplicas'']),
     (''updated'', field (\<lambda>item. string_or item [''status'', ''updatedReplicas''] (JNum 0))
        [''updatedreplicas'']),
     (''strategy'', field (\<lambda>item. path_str item [''spec'', ''strategy'', ''type''] '''') [''updatestrategy'']),
     (''paused'', field (\<lambda>item. string_or item [''spec'', ''paused''] (JBool False)) [])]"

definition statefulSetFields :: field_table where
  "statefulSetFields = spread workloadCommonFields [
     (''replicas'', field (\<lambda>item. string_or item [''spec'', ''replicas''] (JNum 0)) [''desired'']),
     (''ready'', field (\<lambda>item. string_or item [''status'', ''readyReplicas''] (JNum 0)) [''readyreplicas'']),
     (''current'', field (\<lambda>item. string_or item [''status'', ''currentReplicas''] (JNum 0))
        [''currentreplicas'']),
     (''updated'', field (\<lambda>item. string_or item [''status'', ''updatedReplicas''] (JNum 0))
        [''updatedreplicas'']),
     (''servicename'', field (\<lambda>item. path_str item [''spec'', ''serviceName''] '''')
        [''service'', ''headless'']),
     (''podmanagementpolicy'', field (\<lambda>item. path_str item [''spec'', ''podManagementPolicy''] ''OrderedReady'')
        [''podpolicy'']),
     (''updatestrategy'', field (\<lambda>item. path_str item [''spec'', ''updateStrategy'', ''type''] ''RollingUpdate'')
        [''strategy''])]"

definition daemonSetFields :: field_table where
  "daemonSetFields = spread workloadCommonFields [
     (''desired'', field (\<lambda>item. string_or item [''status'', ''desiredNumberScheduled''] (JNum 0))
        [''desirednumber'']),
     (''current'', field (\<lambda>item. string_or item [''status'', ''currentNumberScheduled''] (JNum 0))
        [''currentnumber'']),
     (''ready'', field (\<lambda>item. string_or item [''status'', ''numberReady''] (JNum 0)) [''readynumber'']),
     (''available'', field (\<lambda>item. string_or item [''status'', ''numberAvailable''] (JNum 0))
        [''availablenumber'']),
     (''updated'', field (\<lambda>item. string_or item [''status'', ''updatedNumberScheduled''] (JNum 0))
        [''updatednumber'']),
     (''misscheduled'', field (\<lambda>item. string_or item [''status'', ''numberMisscheduled''] (JNum 0)) []),
     (''updatestrategy'', field (\<lambda>item. path_str item [''spec'', ''updateStrategy'', ''type''] ''RollingUpdate'')
        [''strategy''])]"

definition replicaSetFields :: field_table where
  "replicaSetFields = spread workloadCommonFields [
     (''replicas'', field (\<lambda>item. string_or item [''spec'', ''replicas''] (JNum 0)) [''desired'']),
     (''current'', field (\<lambda>item. string_or item [''status'', ''replicas''] (JNum 0)) [''currentreplicas'']),
     (''ready'', field (\<lambda>item. string_or item [''status'', ''readyReplicas''] (JNum 0)) [''readyreplicas'']),
     (''available'', field (\<lambda>item. string_or item [''status'', ''availableReplicas''] (JNum 0))
        [''availablereplicas'']),
     (''fulllabeled'', field (\<lambda>item. string_or item [''status'', ''fullyLabeledReplicas''] (JNum 0))
        [''labeled''])]"

text \<open>\<open>conditions[conditions.length - 1].type || ''\<close>\<close>

definition getJobCondition :: "jsv \<Rightarrow> jsv option" where
  "getJobCondition job =
     do { a \<leftarrow> path_or job [''status'', ''conditions''] (JArr []); conditions \<leftarrow> jiter a;
          if conditions = [] then Some (JStr '''')
          else path_str (last conditions) [''type''] '''' }"

definition jobFields :: field_table where
  "jobFields = spread commonFields [
     (''completions'', field (\<lambda>item. string_or item [''spec'', ''completions''] (JNum 1)) []),
     (''parallelism'', field (\<lambda>item. string_or item [''spec'', ''parallelism''] (JNum 1)) []),
     (''succeeded'', field (\<lambda>item. string_or item [''status'', ''succeeded''] (JNum 0)) [''success'']),
     (''failed'', field (\<lambda>item. string_or item [''status'', ''failed''] (JNum 0)) [''failures'']),
     (''active'', field (\<lambda>item. string_or item [''status'', ''active''] (JNum 0)) [''running'']),
     (''condition'', field (\<lambda>item. getJobCondition item) [''status'', ''state'']),
     (''backofflimit'', field (\<lambda>item. string_or item [''spec'', ''backoffLimit''] (JNum 6)) [''backoff'']),
     (''image'', field (\<lambda>item. container_names ''image'' template_spec item) [''images'']),
     (''container'', field (\<lambda>item. container_names ''name'' template_spec item) [''containers'']),
     (''serviceaccount'', field (\<lambda>item. path_str item (template_spec @ [''serviceAccountName'']) '''') [''sa'']),
     (''controlledby'', field (\<lambda>item. controller_field ''kind'' item) [''controller'', ''owner'']),
     (''controllername'', field (\<lambda>item. controller_field ''name'' item) [''ownername''])]"

abbreviation job_template_spec :: "string list" where
  "job_template_spec \<equiv> [''spec'', ''jobTemplate'', ''spec'', ''template'', ''spec'']"

definition cronJobFields :: field_table where
  "cronJobFields = spread commonFields [
     (''schedule'', field (\<lambda>item. path_str item [''spec'', ''schedule''] '''') [''cron'']),
     (''suspend'', field (\<lambda>item. string_or item [''spec'', ''suspend''] (JBool False))
        [''suspended'', ''paused'']),
     (''concurrencypolicy'', field (\<lambda>item. path_str item [''spec'', ''concurrencyPolicy''] ''Allow'')
        [''concurrency'']),
     (''lastscheduled'', field (\<lambda>item. path_str item [''status'', ''lastScheduleTime''] '''')
        [''lastrun'', ''lastschedule'']),
     (''successfuljobs'', field (\<lambda>item. string_coalesce item [''spec'', ''successfulJobsHistoryLimit''] (JNum 3))
        [''successhistory'']),
     (''failedjobs'', field (\<lambda>item. string_coalesce item [''spec'', ''failedJobsHistoryLimit''] (JNum 1))
        [''failhistory'']),
     (''activejobs'', field (\<lambda>item. string_length item [''status'', ''active'']) [''active'', ''running'']),
     (''image'', field (\<lambda>item. container_names ''image'' job_template_spec item) [''images'']),
     (''container'', field (\<lambda>item. container_names ''name'' job_template_spec item) [''containers'']),
     (''serviceaccount'', field (\<lambda>item. path_str item (job_template_spec @ [''serviceAccountName'']) '''')
        [''sa''])]"

declare commonFields_def [field_defs] podFields_def [field_defs] workloadCommonFields_def [field_defs]
  deploymentFields_def [field_defs] statefulSetFields_def [field_defs] daemonSetFields_def [field_defs]
  replicaSetFields_def [field_defs] jobFields_def [field_defs] cronJobFields_def [field_defs]

end
