(* ===== verification/FieldsCluster.thy ===== *)
theory FieldsCluster
  imports FieldsCommon
begin

text \<open>
  Search field tables, part two: nodes, namespaces, events, services, endpoints, network
  policies, webhooks, priority classes, leases and CSI objects
  (\<open>utils/search/fieldMappings/\<close> \<open>nodes.ts\<close>, \<open>namespaces.ts\<close>, \<open>events.ts\<close>,
  \<open>services.ts\<close>, \<open>endpoints.ts\<close>, \<open>networkpolicies.ts\<close>, \<open>webhooks.ts\<close>,
  \<open>priorityclasses.ts\<close>, \<open>leases.ts\<close>, \<open>csidrivers.ts\<close>, \<open>csinodes.ts\<close>).
\<close>

section \<open>Nodes\<close>

definition find_by_type :: "string \<Rightarrow> jsv \<Rightarrow> string list \<Rightarrow> jsv option" where
  "find_by_type ty v ks =
     do { a \<leftarrow> path_or v ks (JArr []); xs \<leftarrow> jarr a;
          jfind (\<lambda>c. map_option (\<lambda>t. t = JStr ty) (jget c ''type'')) xs }"

definition getNodeStatus :: "jsv \<Rightarrow> jsv option" where
  "getNodeStatus node =
     do { readyCondition \<leftarrow> find_by_type ''Ready'' node [''status'', ''conditions''];
          Some (JStr (if jopt readyCondition ''status'' = JStr ''True'' then ''Ready'' else ''NotReady'')) }"

definition role_prefix :: string where
  "role_prefix = ''node-role.kubernetes.io/''"

definition getNodeRoles :: "jsv \<Rightarrow> jsv option" where
  "getNodeRoles node =
     do { labels \<leftarrow> path_or node [''metadata'', ''labels''] (JObj []); es \<leftarrow> jentries labels;
          let roles = map (\<lambda>(key, _). drop (length role_prefix) key)
                        (filter (\<lambda>(key, _). starts_with key role_prefix) es) in
          Some (JStr (if roles \<noteq> [] then join '' '' roles else ''worker'')) }"

definition getConditionStatus :: "jsv \<Rightarrow> string \<Rightarrow> jsv option" where
  "getConditionStatus node conditionType =
     do { condition \<leftarrow> find_by_type conditionType node [''status'', ''conditions''];
          Some (jor (jopt condition ''status'') (JStr '''')) }"

definition node_address :: "string \<Rightarrow> jsv \<Rightarrow> jsv option" where
  "node_address ty item =
     do { addr \<leftarrow> find_by_type ty item [''status'', ''addresses''];
          Some (jor (jopt addr ''address'') (JStr '''')) }"

definition taint_text :: "jsv \<Rightarrow> jsv option" where
  "taint_text t =
     do { k \<leftarrow> jget t ''key''; v \<leftarrow> jget t ''value''; e \<leftarrow> jget t ''effect'';
          Some (JStr (jstring k @ ''='' @ jstring v @ '':'' @ jstring e)) }"

definition nodeFields :: field_table where
  "nodeFields = [
     (''name'', field (\<lambda>item. path_str item [''metadata'', ''name''] '''') [''n'']),
     (''labels'', field (\<lambda>item. entries_path item [''metadata'', ''labels'']) [''label'', ''l'']),
     (''annotations'', field (\<lambda>item. entries_path item [''metadata'', ''annotations''])
        [''annotation'', ''a'']),
     (''uid'', field (\<lambda>item. path_str item [''metadata'', ''uid''] '''') []),
     (''status'', field (\<lambda>item. getNodeStatus item) [''state'']),
     (''role'', field (\<lambda>item. getNodeRoles item) [''roles'']),
     (''version'', field (\<lambda>item. path_str item [''status'', ''nodeInfo'', ''kubeletVersion''] '''')
        [''kubeletversion'', ''k8sversion'']),
     (''os'', field (\<lambda>item. path_str item [''status'', ''nodeInfo'', ''osImage''] '''') [''osimage'']),
     (''kernel'', field (\<lambda>item. path_str item [''status'', ''nodeInfo'', ''kernelVersion''] '''')
        [''kernelversion'']),
     (''containerruntime'', field (\<lambda>item. path_str item [''status'', ''nodeInfo'', ''containerRuntimeVersion''] '''')
        [''runtime'', ''cri'']),
     (''arch'', field (\<lambda>item. path_str item [''status'', ''nodeInfo'', ''architecture''] '''')
        [''architecture'']),
     (''podcidr'', field (\<lambda>item. path_str item [''spec'', ''podCIDR''] '''') [''cidr'']),
     (''internalip'', field (\<lambda>item. node_address ''InternalIP'' item) [''ip'']),
     (''externalip'', field (\<lambda>item. node_address ''ExternalIP'' item) [''extip'']),
     (''hostname'', field (\<lambda>item. node_address ''Hostname'' item) [''host'']),
     (''memorypressure'', field (\<lambda>item. getConditionStatus item ''MemoryPressure'') [''memory'']),
     (''diskpressure'', field (\<lambda>item. getConditionStatus item ''DiskPressure'') [''disk'']),
     (''pidpressure'', field (\<lambda>item. getConditionStatus item ''PIDPressure'') [''pid'']),
     (''unschedulable'', field (\<lambda>item. string_or item [''spec'', ''unschedulable''] (JBool False))
        [''cordon'', ''cordoned'']),
     (''taints'', field (\<lambda>item. map_join '' '' taint_text item [''spec'', ''taints'']) [''taint''])]"

section \<open>Namespaces and events\<close>

definition namespaceFields :: field_table where
  "namespaceFields = [
     (''name'', field (\<lambda>item. path_str item [''metadata'', ''name''] '''') [''n'']),
     (''labels'', field (\<lambda>item. entries_path item [''metadata'', ''labels'']) [''label'', ''l'']),
     (''annotations'', field (\<lambda>item. entries_path item [''metadata'', ''annotations''])
        [''annotation'', ''a'']),
     (''uid'', field (\<lambda>item. path_str item [''metadata'', ''uid''] '''') []),
     (''status'', field (\<lambda>item. path_str item [''status'', ''phase''] ''Unknown'') [''phase'', ''state'']),
     (''finalizers'', field (\<lambda>item. join_path '' '' item [''spec'', ''finalizers'']) [''finalizer''])]"

text \<open>\<open>`${x.kind}/${x.name}`\<close> for an object that is there, the empty string otherwise.\<close>

definition kind_slash_name :: "jsv \<Rightarrow> jsv option" where
  "kind_slash_name x =
     do { k \<leftarrow> jget x ''kind''; n \<leftarrow> jget x ''name''; Some (JStr (jstring k @ ''/'' @ jstring n)) }"

definition ref_or_empty :: "jsv \<Rightarrow> string list \<Rightarrow> jsv option" where
  "ref_or_empty item ks =
     do { obj \<leftarrow> jpath item ks; if \<not> truthy obj then Some (JStr '''') else kind_slash_name obj }"

definition event_source :: "jsv \<Rightarrow> jsv option" where
  "event_source item =
     do { src \<leftarrow> jget item ''source'';
          if \<not> truthy src then Some (JStr '''')
          else do { c \<leftarrow> path_str src [''component''] ''''; h \<leftarrow> path_str src [''host''] '''';
                    Some (JStr (jstring c @ ''/'' @ jstring h)) } }"

definition eventFields :: field_table where
  "eventFields = [
     (''name'', field (\<lambda>item. path_str item [''metadata'', ''name''] '''') [''n'']),
     (''namespace'', field (\<lambda>item. path_str item [''metadata'', ''namespace''] '''') [''ns'']),
     (''type'', field (\<lambda>item. path_str item [''type''] '''') [''t'', ''kind'']),
     (''reason'', field (\<lambda>item. path_str item [''reason''] '''') [''r'']),
     (''message'', field (\<lambda>item. path_str item [''message''] '''') [''msg'', ''m'']),
     (''object'', field (\<lambda>item. ref_or_empty item [''involvedObject''])
        [''involvedobject'', ''involved'', ''obj'']),
     (''objectkind'', field (\<lambda>item. path_str item [''involvedObject'', ''kind''] '''') [''objkind'', ''ok'']),
     (''objectname'', field (\<lambda>item. path_str item [''involvedObject'', ''name''] '''') [''objname'', ''on'']),
     (''source'', field (\<lambda>item. event_source item) [''src'']),
     (''count'', field (\<lambda>item. string_or item [''count''] (JNum 1)) [''c'']),
     (''uid'', field (\<lambda>item. path_str item [''metadata'', ''uid''] '''') []),
     (''labels'', field (\<lambda>item. entries_path item [''metadata'', ''labels'']) [''label'', ''l'']),
     (''annotations'', field (\<lambda>item. entries_path item [''metadata'', ''annotations''])
        [''annotation'', ''a''])]"

section \<open>Services and endpoints\<close>

text \<open>\<open>item.status?.loadBalancer?.ingress?.map(i => i.ip || i.hostname).join(' ') || ''\<close>\<close>

definition load_balancer_ips :: "jsv \<Rightarrow> jsv option" where
  "load_balancer_ips item =
     do { ing \<leftarrow> jpath item [''status'', ''loadBalancer'', ''ingress''];
          if nullish ing then Some (JStr '''')
          else do { xs \<leftarrow> jarr ing;
                    ys \<leftarrow> jmap (\<lambda>i. do { a \<leftarrow> jget i ''ip''; b \<leftarrow> jget i ''hostname''; Some (jor a b) }) xs;
                    Some (jor (jjoin '' '' ys) (JStr '''')) } }"

definition node_ports :: "jsv \<Rightarrow> jsv option" where
  "node_ports item =
     do { a \<leftarrow> path_or item [''spec'', ''ports''] (JArr []); ports \<leftarrow> jarr a;
          with_node \<leftarrow> jfilter (\<lambda>p. map_option truthy (jget p ''nodePort'')) ports;
          texts \<leftarrow> jmap (\<lambda>p. string_or p [''nodePort''] JUndef) with_node;
          Some (jjoin '' '' texts) }"

text \<open>\<open>String(p.key)\<close>\<close>

definition string_field :: "string \<Rightarrow> jsv \<Rightarrow> jsv option" where
  "string_field key p = map_option (\<lambda>x. JStr (jstring x)) (jget p key)"

definition serviceFields :: field_table where
  "serviceFields = spread commonFields [
     (''type'', field (\<lambda>item. path_str item [''spec'', ''type''] ''ClusterIP'') [''servicetype'']),
     (''clusterip'', field (\<lambda>item. path_str item [''spec'', ''clusterIP''] '''') [''ip'', ''cluster-ip'']),
     (''externalip'', field (\<lambda>item. join_path '' '' item [''spec'', ''externalIPs''])
        [''external-ip'', ''extip'']),
     (''loadbalancerip'', field (\<lambda>item. load_balancer_ips item) [''lbip'', ''loadbalancer'']),
     (''port'', field (\<lambda>item. map_join '' '' (string_field ''port'') item [''spec'', ''ports'']) [''ports'']),
     (''targetport'', field (\<lambda>item. map_join '' '' (string_field ''targetPort'') item [''spec'', ''ports''])
        [''targetports'']),
     (''nodeport'', field (\<lambda>item. node_ports item) [''nodeports'']),
     (''protocol'', field (\<lambda>item. map_join '' '' (\<lambda>p. jget p ''protocol'') item [''spec'', ''ports''])
        [''protocols'']),
     (''selector'', field (\<lambda>item. entries_path item [''spec'', ''selector'']) [''sel'']),
     (''sessionaffinity'', field (\<lambda>item. path_str item [''spec'', ''sessionAffinity''] ''None'')
        [''affinity'', ''session'']),
     (''externalname'', field (\<lambda>item. path_str item [''spec'', ''externalName''] '''') [''extname'']),
     (''headless'', field (\<lambda>item. map_option
        (\<lambda>x. JStr (if x = JStr ''None'' then ''true'' else ''false'')) (jpath item [''spec'', ''clusterIP''])) [])]"

text \<open>\<open>(item.subsets || []).forEach(subset => (subset.key || []).forEach(x => push f x))\<close>\<close>

definition over_subsets :: "string \<Rightarrow> (jsv \<Rightarrow> jsv list option) \<Rightarrow> jsv \<Rightarrow> jsv list option" where
  "over_subsets key f item =
     do { a \<leftarrow> path_or item [''subsets''] (JArr []); subsets \<leftarrow> jarr a;
          jflat (\<lambda>subset. do { b \<leftarrow> path_or subset [key] (JArr []); xs \<leftarrow> jarr b; jflat f xs }) subsets }"

text \<open>The loops that add up \<open>(subset.key || []).length\<close>.\<close>

definition subset_count :: "string \<Rightarrow> jsv \<Rightarrow> jsv option" where
  "subset_count key item =
     do { a \<leftarrow> path_or item [''subsets''] (JArr []); subsets \<leftarrow> jarr a;
          ns \<leftarrow> jmap (\<lambda>subset. do { b \<leftarrow> path_or subset [key] (JArr []); xs \<leftarrow> jarr b;
                                    Some (JNum (int (length xs))) }) subsets;
          Some (JStr (jstring (foldl jplus (JNum 0) ns))) }"

definition port_protocol :: "jsv \<Rightarrow> jsv list option" where
  "port_protocol port =
     do { p \<leftarrow> jget port ''port''; proto \<leftarrow> path_str port [''protocol''] ''TCP'';
          Some [JStr (jstring p @ ''/'' @ jstring proto)] }"

definition target_refs :: "jsv \<Rightarrow> jsv list option" where
  "target_refs addr =
     do { ref \<leftarrow> jget addr ''targetRef'';
          if truthy ref then map_option (\<lambda>r. [r]) (kind_slash_name ref) else Some [] }"

definition endpointsFields :: field_table where
  "endpointsFields = spread commonFields [
     (''subsets'', field (\<lambda>item. string_or item [''subsets'', ''length''] (JNum 0)) [''subsetcount'']),
     (''addresses'', field (\<lambda>item. map_option (jjoin '' '')
        (over_subsets ''addresses'' (\<lambda>addr. map_option (\<lambda>x. [x]) (jget addr ''ip'')) item)) [''ips'', ''ip'']),
     (''ready'', field (\<lambda>item. subset_count ''addresses'' item) [''readycount'']),
     (''notready'', field (\<lambda>item. subset_count ''notReadyAddresses'' item) [''notreadycount'']),
     (''ports'', field (\<lambda>item. map_option (\<lambda>xs. jjoin '' '' (uniq xs)) (over_subsets ''ports'' port_protocol item))
        [''port'']),
     (''targetref'', field (\<lambda>item. map_option (\<lambda>xs. jjoin '' '' (uniq xs)) (over_subsets ''addresses'' target_refs item))
        [''target'', ''targets''])]"

section \<open>Network policies\<close>

definition pod_selector_text :: "jsv \<Rightarrow> jsv option" where
  "pod_selector_text item =
     do { selector \<leftarrow> path_or item [''spec'', ''podSelector'', ''matchLabels''] (JObj []);
          ks \<leftarrow> jkeys selector;
          if ks = [] then Some (JStr ''all'') else entries_join '' '' selector }"

text \<open>\<open>(item.spec?.key || []).length > 0 ? 'true' : 'false'\<close>\<close>

definition has_rules :: "string \<Rightarrow> jsv \<Rightarrow> jsv option" where
  "has_rules key item =
     do { rules \<leftarrow> path_or item [''spec'', key] (JArr []); n \<leftarrow> jget rules ''length'';
          Some (JStr (case n of JNum k \<Rightarrow> if k > 0 then ''true'' else ''false'' | _ \<Rightarrow> ''false'')) }"

definition networkPolicyFields :: field_table where
  "networkPolicyFields = spread commonFields [
     (''podselector'', field (\<lambda>item. pod_selector_text item) [''selector'', ''pods'']),
     (''policytype'', field (\<lambda>item.
        do { a \<leftarrow> path_or item [''spec'', ''policyTypes''] (JArr [JStr ''Ingress'']); xs \<leftarrow> jarr a;
             Some (jjoin '' '' xs) }) [''policytypes'', ''type'', ''types'']),
     (''ingress'', field (\<lambda>item. has_rules ''ingress'' item) [''hasingress'']),
     (''egress'', field (\<lambda>item. has_rules ''egress'' item) [''hasegress'']),
     (''ingresscount'', field (\<lambda>item. string_or item [''spec'', ''ingress'', ''length''] (JNum 0))
        [''ingressrules'']),
     (''egresscount'', field (\<lambda>item. string_or item [''spec'', ''egress'', ''length''] (JNum 0))
        [''egressrules''])]"

section \<open>Webhook configurations\<close>

definition over_webhooks :: "(jsv \<Rightarrow> jsv list option) \<Rightarrow> jsv \<Rightarrow> jsv option" where
  "over_webhooks f item =
     do { a \<leftarrow> path_or item [''webhooks''] (JArr []); whs \<leftarrow> jarr a;
          map_option (\<lambda>xs. jjoin '' '' (uniq xs)) (jflat f whs) }"

definition wh_value :: "string \<Rightarrow> string \<Rightarrow> jsv \<Rightarrow> jsv list option" where
  "wh_value key d wh = map_option (\<lambda>x. [x]) (path_str wh [key] d)"

definition wh_service :: "jsv \<Rightarrow> jsv list option" where
  "wh_service wh =
     do { svc \<leftarrow> jpath wh [''clientConfig'', ''service''];
          if truthy svc
          then do { ns \<leftarrow> jget svc ''namespace''; n \<leftarrow> jget svc ''name'';
                    Some [JStr (jstring ns @ ''/'' @ jstring n)] }
          else Some [] }"

definition wh_rules :: "string \<Rightarrow> jsv \<Rightarrow> jsv list option" where
  "wh_rules key wh =
     do { a \<leftarrow> path_or wh [''rules''] (JArr []); rules \<leftarrow> jarr a;
          jflat (\<lambda>rule. do { b \<leftarrow> path_or rule [key] (JArr []); jarr b }) rules }"

definition webhookBaseFields :: field_table where
  "webhookBaseFields = spread commonFields [
     (''webhooks'', field (\<lambda>item. string_or item [''webhooks'', ''length''] (JNum 0))
        [''webhookcount'', ''count'']),
     (''failurepolicy'', field (\<lambda>item. over_webhooks (wh_value ''failurePolicy'' ''Fail'') item)
        [''failure'', ''onfailure'']),
     (''sideeffects'', field (\<lambda>item. over_webhooks (wh_value ''sideEffects'' ''Unknown'') item)
        [''sideeffect'']),
     (''service'', field (\<lambda>item. over_webhooks wh_service item) [''services'', ''target'']),
     (''resources'', field (\<lambda>item. over_webhooks (wh_rules ''resources'') item) [''resource'']),
     (''operations'', field (\<lambda>item. over_webhooks (wh_rules ''operations'') item)
        [''operation'', ''ops''])]"

definition validatingWebhookFields :: field_table where
  "validatingWebhookFields = webhookBaseFields"

definition mutatingWebhookFields :: field_table where
  "mutatingWebhookFields = spread webhookBaseFields [
     (''reinvocation'', field (\<lambda>item. over_webhooks (wh_value ''reinvocationPolicy'' ''Never'') item)
        [''reinvocationpolicy''])]"

section \<open>Priority classes, leases and CSI objects\<close>

definition bool_text :: "bool \<Rightarrow> jsv" where
  "bool_text b = JStr (if b then ''true'' else ''false'')"

definition priorityClassFields :: field_table where
  "priorityClassFields = spread commonFields [
     (''value'', field (\<lambda>item. string_or item [''value''] (JNum 0)) [''priority'', ''priorityvalue'']),
     (''globaldefault'', field (\<lambda>item. map_option (\<lambda>x. bool_text (truthy x)) (jget item ''globalDefault''))
        [''default'', ''isdefault'']),
     (''preemption'', field (\<lambda>item. path_str item [''preemptionPolicy''] ''PreemptLowerPriority'')
        [''preemptionpolicy'', ''preemptlowerpriority'']),
     (''description'', field (\<lambda>item. path_str item [''description''] '''') [''desc''])]"

definition leaseFields :: field_table where
  "leaseFields = spread commonFields [
     (''holder'', field (\<lambda>item. path_str item [''spec'', ''holderIdentity''] '''')
        [''holderidentity'', ''leader'', ''owner'']),
     (''duration'', field (\<lambda>item. string_or item [''spec'', ''leaseDurationSeconds''] (JStr ''''))
        [''leaseduration'', ''leasedurationseconds'']),
     (''transitions'', field (\<lambda>item. string_or item [''spec'', ''leaseTransitions''] (JNum 0))
        [''leasetransitions'', ''changes''])]"

text \<open>\<open>(item.spec?.key ?? d) ? 'true' : 'false'\<close>\<close>

definition flag_text :: "string \<Rightarrow> bool \<Rightarrow> jsv \<Rightarrow> jsv option" where
  "flag_text key d item =
     map_option (\<lambda>x. bool_text (truthy x)) (path_coalesce item [''spec'', key] (JBool d))"

definition csiDriverFields :: field_table where
  "csiDriverFields = spread commonFields [
     (''attachrequired'', field (\<lambda>item. flag_text ''attachRequired'' True item) [''attach'', ''attachreq'']),
     (''podinfoonmount'', field (\<lambda>item. flag_text ''podInfoOnMount'' False item) [''podinfo'']),
     (''storagecapacity'', field (\<lambda>item. flag_text ''storageCapacity'' False item) [''capacity'']),
     (''volumemodes'', field (\<lambda>item. join_path '','' item [''spec'', ''volumeLifecycleModes''])
        [''volumelifecyclemodes'', ''modes'']),
     (''fsgrouppolicy'', field (\<lambda>item. path_str item [''spec'', ''fsGroupPolicy''] '''')
        [''fsgroup'', ''fspolicy''])]"

definition csiNodeFields :: field_table where
  "csiNodeFields = spread commonFields [
     (''drivercount'', field (\<lambda>item. string_length item [''spec'', ''drivers'']) [''drivers'', ''numDrivers'']),
     (''drivernames'', field (\<lambda>item. map_join '','' (\<lambda>d. jget d ''name'') item [''spec'', ''drivers''])
        [''driver'']),
     (''nodeids'', field (\<lambda>item. map_join '','' (\<lambda>d. jget d ''nodeID'') item [''spec'', ''drivers''])
        [''nodeid''])]"

declare find_by_type_def [js_defs] getNodeStatus_def [js_defs] getNodeRoles_def [js_defs]
  role_prefix_def [js_defs] getConditionStatus_def [js_defs] node_address_def [js_defs]
  nodeFields_def [field_defs] namespaceFields_def [field_defs] eventFields_def [field_defs]
  serviceFields_def [field_defs] endpointsFields_def [field_defs] networkPolicyFields_def [field_defs]
  webhookBaseFields_def [field_defs] validatingWebhookFields_def [field_defs]
  mutatingWebhookFields_def [field_defs] priorityClassFields_def [field_defs] leaseFields_def [field_defs]
  csiDriverFields_def [field_defs] csiNodeFields_def [field_defs]

end
