(* ===== verification/FieldsConfig.thy ===== *)
theory FieldsConfig
  imports FieldsCluster
begin

text \<open>
  Search field tables, part three: secrets, config maps, service accounts, roles and bindings,
  autoscalers, disruption budgets, quotas and limit ranges
  (\<open>utils/search/fieldMappings/\<close> \<open>secrets.ts\<close>, \<open>configmaps.ts\<close>,
  \<open>serviceaccounts.ts\<close>, \<open>roles.ts\<close>, \<open>clusterroles.ts\<close>, \<open>rolebindings.ts\<close>,
  \<open>clusterrolebindings.ts\<close>, \<open>hpas.ts\<close>, \<open>pdbs.ts\<close>, \<open>resourcequotas.ts\<close>,
  \<open>limitranges.ts\<close>).
\<close>

section \<open>Secrets, config maps, service accounts\<close>

definition secretFields :: field_table where
  "secretFields = spread commonFields [
     (''type'', field (\<lambda>item. path_str item [''type''] ''Opaque'') [''secrettype'']),
     (''keycount'', field (\<lambda>item. string_coalesce item [''dataKeys''] (JNum 0)) [''count'', ''datakeys''])]"

definition key_list :: "string \<Rightarrow> jsv \<Rightarrow> string list option" where
  "key_list key item = do { d \<leftarrow> path_or item [key] (JObj []); jkeys d }"

definition configMapFields :: field_table where
  "configMapFields = spread commonFields [
     (''keys'', field (\<lambda>item. map_option (\<lambda>ks. JStr (join '' '' ks)) (key_list ''data'' item))
        [''key'', ''datakeys'']),
     (''keycount'', field (\<lambda>item. map_option (\<lambda>ks. JStr (show_nat (length ks))) (key_list ''data'' item))
        [''count'']),
     (''binarykeys'', field (\<lambda>item. map_option (\<lambda>ks. JStr (join '' '' ks)) (key_list ''binaryData'' item))
        [''binarykey'', ''binary''])]"

definition serviceAccountFields :: field_table where
  "serviceAccountFields = spread commonFields [
     (''secrets'', field (\<lambda>item. map_join '' '' (\<lambda>s. jget s ''name'') item [''secrets'']) [''secret'']),
     (''secretcount'', field (\<lambda>item. string_length item [''secrets'']) [''secretscount'', ''numsecrets'']),
     (''imagepullsecrets'', field (\<lambda>item. map_join '' '' (\<lambda>s. jget s ''name'') item [''imagePullSecrets''])
        [''pullsecrets'', ''imagepull'']),
     (''automount'', field (\<lambda>item. map_option
        (\<lambda>v. JStr (if v = JUndef then ''true'' else jstring v)) (jget item ''automountServiceAccountToken''))
        [''automounttoken'', ''automountserviceaccounttoken''])]"

section \<open>Roles\<close>

definition rule_text :: "jsv \<Rightarrow> jsv option" where
  "rule_text r =
     do { verbs \<leftarrow> join_path '','' r [''verbs'']; resources \<leftarrow> join_path '','' r [''resources''];
          a \<leftarrow> path_or r [''apiGroups''] (JArr [JStr '''']); gs \<leftarrow> jarr a;
          Some (JStr (jstring (jjoin '','' gs) @ ''/'' @ jstring resources @ '':'' @ jstring verbs)) }"

text \<open>\<open>rules.forEach(r => (r.key || []).forEach(x => set.add(f x)))\<close>, joined.\<close>

definition over_rules :: "string \<Rightarrow> (jsv \<Rightarrow> jsv) \<Rightarrow> jsv \<Rightarrow> jsv option" where
  "over_rules key f item =
     do { a \<leftarrow> path_or item [''rules''] (JArr []); rules \<leftarrow> jarr a;
          xs \<leftarrow> jflat (\<lambda>r. do { b \<leftarrow> path_or r [key] (JArr []); ys \<leftarrow> jarr b; Some (map f ys) }) rules;
          Some (jjoin '' '' (uniq xs)) }"

definition roleFields :: field_table where
  "roleFields = spread commonFields [
     (''rules'', field (\<lambda>item. map_join '' '' rule_text item [''rules'']) [''rule'']),
     (''rulecount'', field (\<lambda>item. string_length item [''rules'']) [''rulescount'', ''numrules'']),
     (''verbs'', field (\<lambda>item. over_rules ''verbs'' (\<lambda>v. v) item) [''verb'']),
     (''resources'', field (\<lambda>item. over_rules ''resources'' (\<lambda>r. r) item) [''resource'']),
     (''apigroups'', field (\<lambda>item. over_rules ''apiGroups'' (\<lambda>g. jor g (JStr ''core'')) item)
        [''apigroup'', ''groups'', ''group''])]"

definition aggregation_text :: "jsv \<Rightarrow> jsv option" where
  "aggregation_text r = do { m \<leftarrow> path_or r [''matchLabels''] (JObj []); entries_join '','' m }"

definition clusterRoleFields :: field_table where
  "clusterRoleFields = spread roleFields [
     (''aggregation'', field (\<lambda>item. map_join '' '' aggregation_text item
          [''aggregationRule'', ''clusterRoleSelectors''])
        [''aggregate'', ''aggregationrule''])]"

section \<open>Role bindings\<close>

definition role_ref :: "jsv \<Rightarrow> jsv option" where
  "role_ref item =
     do { ref \<leftarrow> path_or item [''roleRef''] (JObj []);
          k \<leftarrow> path_str ref [''kind''] ''''; n \<leftarrow> path_str ref [''name''] '''';
          Some (JStr (jstring k @ ''/'' @ jstring n)) }"

text \<open>\<open>subjects.filter(s => s.kind === kind).map(f).join(' ')\<close>\<close>

definition subjects_of :: "string \<Rightarrow> (jsv \<Rightarrow> jsv option) \<Rightarrow> jsv \<Rightarrow> jsv option" where
  "subjects_of kind f item =
     do { a \<leftarrow> path_or item [''subjects''] (JArr []); subjects \<leftarrow> jarr a;
          chosen \<leftarrow> jfilter (\<lambda>s. map_option (\<lambda>k. k = JStr kind) (jget s ''kind'')) subjects;
          ys \<leftarrow> jmap f chosen; Some (jjoin '' '' ys) }"

definition account_text :: "jsv \<Rightarrow> jsv option" where
  "account_text s =
     do { ns \<leftarrow> jget s ''namespace''; n \<leftarrow> jget s ''name'';
          Some (if truthy ns then JStr (jstring ns @ ''/'' @ jstring n) else n) }"

definition subject_kinds :: "jsv \<Rightarrow> jsv option" where
  "subject_kinds item =
     do { a \<leftarrow> path_or item [''subjects''] (JArr []); subjects \<leftarrow> jarr a;
          ks \<leftarrow> jmap (\<lambda>s. jget s ''kind'') subjects; Some (jjoin '' '' (uniq ks)) }"

definition roleBindingFields :: field_table where
  "roleBindingFields = spread commonFields [
     (''roleref'', field (\<lambda>item. role_ref item) [''role'', ''ref'']),
     (''rolerefkind'', field (\<lambda>item. path_str item [''roleRef'', ''kind''] '''') [''refkind'']),
     (''rolerefname'', field (\<lambda>item. path_str item [''roleRef'', ''name''] '''') [''refname'', ''rolename'']),
     (''subjects'', field (\<lambda>item. map_join '' '' kind_slash_name item [''subjects'']) [''subject'']),
     (''subjectcount'', field (\<lambda>item. string_length item [''subjects'']) [''subjectscount'', ''numsubjects'']),
     (''subjectkind'', field (\<lambda>item. subject_kinds item) [''subjectkinds'']),
     (''subjectnames'', field (\<lambda>item. map_join '' '' (\<lambda>s. jget s ''name'') item [''subjects''])
        [''subjectname'']),
     (''users'', field (\<lambda>item. subjects_of ''User'' (\<lambda>s. jget s ''name'') item) [''user'']),
     (''groups'', field (\<lambda>item. subjects_of ''Group'' (\<lambda>s. jget s ''name'') item) [''group'']),
     (''serviceaccounts'', field (\<lambda>item. subjects_of ''ServiceAccount'' account_text item)
        [''serviceaccount'', ''sa''])]"

definition clusterRoleBindingFields :: field_table where
  "clusterRoleBindingFields = roleBindingFields"

section \<open>Autoscalers, disruption budgets, quotas and limit ranges\<close>

definition hpaFields :: field_table where
  "hpaFields = spread commonFields [
     (''target'', field (\<lambda>item. ref_or_empty item [''spec'', ''scaleTargetRef''])
        [''reference'', ''ref'', ''scaletarget'']),
     (''targetkind'', field (\<lambda>item. path_str item [''spec'', ''scaleTargetRef'', ''kind''] '''')
        [''kind'', ''refkind'']),
     (''targetname'', field (\<lambda>item. path_str item [''spec'', ''scaleTargetRef'', ''name''] '''')
        [''refname'']),
     (''minreplicas'', field (\<lambda>item. string_coalesce item [''spec'', ''minReplicas''] (JNum 1)) [''min'']),
     (''maxreplicas'', field (\<lambda>item. string_or item [''spec'', ''maxReplicas''] (JStr '''')) [''max'']),
     (''currentreplicas'', field (\<lambda>item. string_coalesce item [''status'', ''currentReplicas''] (JStr ''''))
        [''current'', ''replicas'']),
     (''desiredreplicas'', field (\<lambda>item. string_coalesce item [''status'', ''desiredReplicas''] (JStr ''''))
        [''desired'']),
     (''metrics'', field (\<lambda>item. map_join '' '' (\<lambda>m. jget m ''type'') item [''spec'', ''metrics''])
        [''metrictype''])]"

definition pdbFields :: field_table where
  "pdbFields = spread commonFields [
     (''minavailable'', field (\<lambda>item. string_coalesce item [''spec'', ''minAvailable''] (JStr '''')) [''min'']),
     (''maxunavailable'', field (\<lambda>item. string_coalesce item [''spec'', ''maxUnavailable''] (JStr ''''))
        [''max'']),
     (''selector'', field (\<lambda>item. entries_path item [''spec'', ''selector'', ''matchLabels'']) [''podselector'']),
     (''currenthealthy'', field (\<lambda>item. string_coalesce item [''status'', ''currentHealthy''] (JStr ''''))
        [''healthy'', ''current'']),
     (''desiredhealthy'', field (\<lambda>item. string_coalesce item [''status'', ''desiredHealthy''] (JStr ''''))
        [''desired'']),
     (''disruptionsallowed'', field (\<lambda>item. string_coalesce item [''status'', ''disruptionsAllowed''] (JStr ''''))
        [''allowed'', ''disruptions'']),
     (''expectedpods'', field (\<lambda>item. string_coalesce item [''status'', ''expectedPods''] (JStr ''''))
        [''expected'', ''pods''])]"

definition resourceQuotaFields :: field_table where
  "resourceQuotaFields = spread commonFields [
     (''hard'', field (\<lambda>item. entries_path item [''spec'', ''hard'']) [''limits'', ''resources'']),
     (''used'', field (\<lambda>item. entries_path item [''status'', ''used'']) [''usage'']),
     (''scopes'', field (\<lambda>item. join_path '' '' item [''spec'', ''scopes'']) [''scope'']),
     (''resourcecount'', field (\<lambda>item.
        do { h \<leftarrow> path_or item [''spec'', ''hard''] (JObj []); ks \<leftarrow> jkeys h;
             Some (JStr (show_nat (length ks))) }) [''count''])]"

text \<open>\<open>limits.some(l => l.type === ty) ? 'true' : 'false'\<close>\<close>

definition has_limit :: "string \<Rightarrow> jsv \<Rightarrow> jsv option" where
  "has_limit ty item =
     do { a \<leftarrow> path_or item [''spec'', ''limits''] (JArr []); limits \<leftarrow> jarr a;
          b \<leftarrow> jsome (\<lambda>l. map_option (\<lambda>t. t = JStr ty) (jget l ''type'')) limits;
          Some (bool_text b) }"

definition limitRangeFields :: field_table where
  "limitRangeFields = spread commonFields [
     (''limittype'', field (\<lambda>item. map_join '' '' (\<lambda>l. jget l ''type'') item [''spec'', ''limits''])
        [''type'', ''types'']),
     (''limitcount'', field (\<lambda>item. string_or item [''spec'', ''limits'', ''length''] (JNum 0))
        [''count'', ''limits'']),
     (''hascontainer'', field (\<lambda>item. has_limit ''Container'' item) [''container'']),
     (''haspod'', field (\<lambda>item. has_limit ''Pod'' item) [''pod'']),
     (''haspvc'', field (\<lambda>item. has_limit ''PersistentVolumeClaim'' item) [''pvc''])]"

declare secretFields_def [field_defs] configMapFields_def [field_defs] serviceAccountFields_def [field_defs]
  roleFields_def [field_defs] clusterRoleFields_def [field_defs] roleBindingFields_def [field_defs]
  clusterRoleBindingFields_def [field_defs] hpaFields_def [field_defs] pdbFields_def [field_defs]
  resourceQuotaFields_def [field_defs] limitRangeFields_def [field_defs]

end
