(* ===== verification/FieldRegistry.thy ===== *)
theory FieldRegistry
  imports FieldsConfig
begin

text \<open>
  The registry of field tables (\<open>utils/search/fieldMappings/index.ts\<close>): one table per
  resource type, \<open>commonFields\<close> for every other type, and the lookup of a field by its name
  or one of its aliases. The tables are plain objects, so a lookup by name also finds what
  every object inherits from \<open>Object.prototype\<close>: the result \<open>Inherited\<close>. Resource types
  are names of the program's own views, never a name of \<open>Object.prototype\<close>.
\<close>

definition registry :: "(string, field_table) js_map" where
  "registry = [
     (''pods'', podFields),
     (''deployments'', deploymentFields),
     (''statefulsets'', statefulSetFields),
     (''daemonsets'', daemonSetFields),
     (''replicasets'', replicaSetFields),
     (''jobs'', jobFields),
     (''cronjobs'', cronJobFields),
     (''nodes'', nodeFields),
     (''services'', serviceFields),
     (''secrets'', secretFields),
     (''configmaps'', configMapFields),
     (''namespaces'', namespaceFields),
     (''events'', eventFields),
     (''serviceaccounts'', serviceAccountFields),
     (''roles'', roleFields),
     (''clusterroles'', clusterRoleFields),
     (''rolebindings'', roleBindingFields),
     (''clusterrolebindings'', clusterRoleBindingFields),
     (''networkpolicies'', networkPolicyFields),
     (''hpas'', hpaFields),
     (''pdbs'', pdbFields),
     (''resourcequotas'', resourceQuotaFields),
     (''limitranges'', limitRangeFields),
     (''endpoints'', endpointsFields),
     (''validatingwebhookconfigurations'', validatingWebhookFields),
     (''mutatingwebhookconfigurations'', mutatingWebhookFields),
     (''priorityclasses'', priorityClassFields),
     (''leases'', leaseFields),
     (''csidrivers'', csiDriverFields),
     (''csinodes'', csiNodeFields)]"

definition getFieldsForResource :: "string \<Rightarrow> field_table" where
  "getFieldsForResource resourceType =
     (case map_of registry resourceType of Some t \<Rightarrow> t | None \<Rightarrow> commonFields)"

datatype field_lookup = Found field_def | Inherited | NotFound

definition object_prototype_names :: "string list" where
  "object_prototype_names =
     [''constructor'', ''__defineGetter__'', ''__defineSetter__'', ''hasOwnProperty'',
      ''__lookupGetter__'', ''__lookupSetter__'', ''isPrototypeOf'', ''propertyIsEnumerable'',
      ''toString'', ''valueOf'', ''__proto__'', ''toLocaleString'']"

definition getFieldByName :: "string \<Rightarrow> string \<Rightarrow> field_lookup" where
  "getFieldByName resourceType fieldName =
     (let fields = getFieldsForResource resourceType;
          normalizedName = lower fieldName
      in case map_of fields normalizedName of
           Some f \<Rightarrow> Found f
         | None \<Rightarrow>
             if normalizedName \<in> set object_prototype_names then Inherited
             else case List.find (\<lambda>(key, f). normalizedName \<in> set (aliases f)) fields of
                    Some (key, f) \<Rightarrow> Found f
                  | None \<Rightarrow> NotFound)"

definition getAvailableFieldNames :: "string \<Rightarrow> string list" where
  "getAvailableFieldNames resourceType =
     concat (map (\<lambda>(key, f). key # aliases f) (getFieldsForResource resourceType))"

definition getFieldsMetadata :: "string \<Rightarrow> (string \<times> string list) list" where
  "getFieldsMetadata resourceType = map (\<lambda>(name, f). (name, aliases f)) (getFieldsForResource resourceType)"

declare registry_def [field_defs] object_prototype_names_def [js_defs]

section \<open>The tables are unambiguous\<close>

text \<open>
  In a table no name or alias occurs twice, and none is a name of \<open>Object.prototype\<close>; every
  table of the registry has this, so a lookup has at most one candidate.
\<close>

definition table_names :: "field_table \<Rightarrow> string list" where
  "table_names t = concat (map (\<lambda>(k, f). k # aliases f) t)"

definition table_ok :: "field_table \<Rightarrow> bool" where
  "table_ok t \<longleftrightarrow>
     distinct (table_names t) \<and> list_all (\<lambda>n. n \<notin> set object_prototype_names) (table_names t)"

lemma keys_in_table_names: "fst ` set t \<subseteq> set (table_names t)"
  by (force simp: table_names_def)

lemma distinct_table_keys: "distinct (table_names t) \<Longrightarrow> distinct (map fst t)"
proof (induction t)
  case (Cons kf t)
  then show ?case
    using keys_in_table_names [of t] by (cases kf) (auto simp: table_names_def)
qed simp

lemma table_okI:
  "table_names t = ns \<Longrightarrow> distinct ns \<Longrightarrow> list_all (\<lambda>n. n \<notin> set object_prototype_names) ns \<Longrightarrow> table_ok t"
  by (simp add: table_ok_def)

text \<open>A table built by spreading another one: only the new names have to be looked at.\<close>

lemma table_names_spread:
  assumes "table_ok base" "distinct (table_names ext)"
    and "set (table_names ext) \<inter> set (table_names base) = {}"
  shows "table_names (spread base ext) = table_names base @ table_names ext"
proof -
  have "fst ` set ext \<inter> fst ` set base = {}"
    using assms(3) keys_in_table_names [of ext] keys_in_table_names [of base] by blast
  then have "spread base ext = base @ ext"
    using assms(2) by (intro spread_fresh distinct_table_keys)
  then show ?thesis by (simp add: table_names_def)
qed

lemma table_names_ext:
  assumes "table_ok base" "table_names base = bn" "table_names ext = ns" "distinct ns"
    and "list_all (\<lambda>n. n \<notin> set bn \<and> n \<notin> set object_prototype_names) ns"
  shows "table_ok (spread base ext) \<and> table_names (spread base ext) = bn @ ns"
proof -
  have fresh: "set (table_names ext) \<inter> set (table_names base) = {}"
    using assms by (auto simp: list_all_iff)
  have names: "table_names (spread base ext) = bn @ ns"
    using table_names_spread [OF assms(1) _ fresh] assms(2-4) by simp
  show ?thesis
    using names assms fresh by (auto simp: table_ok_def list_all_iff)
qed

definition common_names :: "string list" where
  "common_names =
    [''name'', ''n'', ''namespace'', ''ns'', ''labels'', ''label'', ''l'', ''annotations'',
     ''annotation'', ''a'', ''uid'']"

lemma table_names_common: "table_names commonFields = common_names"
  by (simp add: commonFields_def table_names_def common_names_def)

lemma tables_ok_base [simp]:
  "table_ok commonFields" "table_ok nodeFields" "table_ok namespaceFields" "table_ok eventFields"
  unfolding commonFields_def nodeFields_def namespaceFields_def eventFields_def
  by (rule table_okI, simp add: table_names_def, simp, simp add: object_prototype_names_def)+

lemmas table_ok_common =
  table_names_ext [OF tables_ok_base(1) table_names_common, THEN conjunct1]

lemma tables_ok_1 [simp]:
  "table_ok podFields" "table_ok jobFields" "table_ok cronJobFields"
  unfolding podFields_def jobFields_def cronJobFields_def
  by (rule table_ok_common, simp add: table_names_def, simp,
      simp add: common_names_def object_prototype_names_def)+

lemma tables_ok_2 [simp]:
  "table_ok serviceFields" "table_ok secretFields" "table_ok configMapFields" "table_ok serviceAccountFields"
  unfolding serviceFields_def secretFields_def configMapFields_def serviceAccountFields_def
  by (rule table_ok_common, simp add: table_names_def, simp,
      simp add: common_names_def object_prototype_names_def)+

lemma tables_ok_3 [simp]:
  "table_ok roleBindingFields" "table_ok limitRangeFields"
  unfolding roleBindingFields_def limitRangeFields_def
  by (rule table_ok_common, simp add: table_names_def, simp,
      simp add: common_names_def object_prototype_names_def)+

lemma tables_ok_4 [simp]:
  "table_ok networkPolicyFields" "table_ok hpaFields" "table_ok pdbFields" "table_ok resourceQuotaFields"
  unfolding networkPolicyFields_def hpaFields_def pdbFields_def resourceQuotaFields_def
  by (rule table_ok_common, simp add: table_names_def, simp,
      simp add: common_names_def object_prototype_names_def)+

lemma tables_ok_5 [simp]:
  "table_ok endpointsFields" "table_ok priorityClassFields" "table_ok leaseFields" "table_ok csiDriverFields" "table_ok csiNodeFields"
  unfolding endpointsFields_def priorityClassFields_def leaseFields_def csiDriverFields_def csiNodeFields_def
  by (rule table_ok_common, simp add: table_names_def, simp,
      simp add: common_names_def object_prototype_names_def)+

lemma workloadCommonFields_names: "table_ok workloadCommonFields \<and> table_names workloadCommonFields =
    common_names @ [''image'', ''images'', ''container'', ''containers'', ''serviceaccount'', ''sa'',
      ''selector'', ''sel'', ''controlledby'', ''controller'', ''owner'', ''controllername'', ''ownername'']"
  unfolding workloadCommonFields_def
  by (rule table_names_ext [OF tables_ok_base(1) table_names_common], simp add: table_names_def, simp,
      simp add: common_names_def object_prototype_names_def)

lemma roleFields_names: "table_ok roleFields \<and> table_names roleFields =
    common_names @ [''rules'', ''rule'', ''rulecount'', ''rulescount'', ''numrules'', ''verbs'', ''verb'',
      ''resources'', ''resource'', ''apigroups'', ''apigroup'', ''groups'', ''group'']"
  unfolding roleFields_def
  by (rule table_names_ext [OF tables_ok_base(1) table_names_common], simp add: table_names_def, simp,
      simp add: common_names_def object_prototype_names_def)

lemma webhookBaseFields_names: "table_ok webhookBaseFields \<and> table_names webhookBaseFields =
    common_names @ [''webhooks'', ''webhookcount'', ''count'', ''failurepolicy'', ''failure'', ''onfailure'',
      ''sideeffects'', ''sideeffect'', ''service'', ''services'', ''target'', ''resources'', ''resource'',
      ''operations'', ''operation'', ''ops'']"
  unfolding webhookBaseFields_def
  by (rule table_names_ext [OF tables_ok_base(1) table_names_common], simp add: table_names_def, simp,
      simp add: common_names_def object_prototype_names_def)

lemmas table_ok_workload = table_names_ext
  [OF workloadCommonFields_names [THEN conjunct1] workloadCommonFields_names [THEN conjunct2], THEN conjunct1]

lemma tables_ok_workload [simp]:
  "table_ok deploymentFields" "table_ok statefulSetFields" "table_ok daemonSetFields"
  "table_ok replicaSetFields"
  unfolding deploymentFields_def statefulSetFields_def daemonSetFields_def replicaSetFields_def
  by (rule table_ok_workload, simp add: table_names_def, simp,
      simp add: common_names_def object_prototype_names_def)+

lemma tables_ok_derived [simp]:
  "table_ok clusterRoleFields" "table_ok mutatingWebhookFields"
  unfolding clusterRoleFields_def mutatingWebhookFields_def
  by (rule table_names_ext [OF roleFields_names [THEN conjunct1] roleFields_names [THEN conjunct2], THEN conjunct1]
        table_names_ext [OF webhookBaseFields_names [THEN conjunct1] webhookBaseFields_names [THEN conjunct2], THEN conjunct1],
      simp add: table_names_def, simp, simp add: common_names_def object_prototype_names_def)+

lemma tables_ok_named [simp]:
  "table_ok workloadCommonFields" "table_ok roleFields" "table_ok webhookBaseFields"
  "table_ok clusterRoleBindingFields" "table_ok validatingWebhookFields"
  using workloadCommonFields_names [THEN conjunct1] roleFields_names [THEN conjunct1]
    webhookBaseFields_names [THEN conjunct1]
  by (simp_all only: clusterRoleBindingFields_def validatingWebhookFields_def tables_ok_3)

lemma registry_all_ok: "list_all (\<lambda>e. table_ok (snd e)) registry"
  by (simp add: registry_def)

lemma registry_tables_ok: "(rt, t) \<in> set registry \<Longrightarrow> table_ok t"
  using registry_all_ok unfolding list_all_iff by fastforce

lemma getFieldsForResource_ok: "table_ok (getFieldsForResource rt)"
proof (cases "map_of registry rt")
  case None
  then show ?thesis by (simp add: getFieldsForResource_def)
next
  case (Some t)
  then have "table_ok t" by (intro registry_tables_ok map_of_SomeD)
  with Some show ?thesis by (simp add: getFieldsForResource_def)
qed

lemma distinct_concat_unique:
  assumes "distinct (concat (map g xs))" "x \<in> set xs" "y \<in> set xs" "n \<in> set (g x)" "n \<in> set (g y)"
  shows "x = y"
  using assms
proof (induction xs)
  case (Cons a xs)
  have "x = a \<Longrightarrow> y \<in> set xs \<Longrightarrow> False" "y = a \<Longrightarrow> x \<in> set xs \<Longrightarrow> False"
    using Cons.prems by auto
  with Cons show ?case by auto
qed simp

lemma table_ok_unique:
  assumes "table_ok t" "(k, f) \<in> set t" "(k', f') \<in> set t"
    and "n \<in> set (k # aliases f)" "n \<in> set (k' # aliases f')"
  shows "k' = k \<and> f' = f"
proof -
  have "(k', f') = (k, f)"
    using assms by (intro distinct_concat_unique [of "\<lambda>(k, f). k # aliases f" t _ _ n])
      (simp_all add: table_ok_def table_names_def)
  then show ?thesis by simp
qed

lemma table_ok_not_inherited:
  assumes "table_ok t" "(k, f) \<in> set t" "n \<in> set (k # aliases f)"
  shows "n \<notin> set object_prototype_names"
proof -
  have "n \<in> set (table_names t)" using assms(2,3) by (force simp: table_names_def)
  with assms(1) show ?thesis by (auto simp: table_ok_def list_all_iff)
qed

lemma find_unique:
  assumes "x \<in> set xs" "P x" "\<And>y. y \<in> set xs \<Longrightarrow> P y \<Longrightarrow> y = x"
  shows "List.find P xs = Some x"
  using assms
proof (induction xs)
  case (Cons a xs)
  show ?case
  proof (cases "P a")
    case True
    then have "a = x" by (rule Cons.prems(3) [OF list.set_intros(1)])
    with True show ?thesis by simp
  next
    case False
    then have "x \<in> set xs" using Cons.prems(1,2) by auto
    from Cons.IH [OF this Cons.prems(2)] Cons.prems(3) False show ?thesis by simp
  qed
qed simp

lemma lookup_in_table:
  assumes t: "table_ok (getFieldsForResource rt)"
    and kf: "(k, f) \<in> set (getFieldsForResource rt)"
    and n: "lower n \<in> set (k # aliases f)"
  shows "getFieldByName rt n = Found f"
proof (cases "map_of (getFieldsForResource rt) (lower n)")
  case (Some f')
  then have "(lower n, f') \<in> set (getFieldsForResource rt)" by (rule map_of_SomeD)
  with table_ok_unique [OF t kf _ n] have "f' = f" by simp
  with Some show ?thesis by (simp add: getFieldByName_def Let_def)
next
  case None
  have "k \<noteq> lower n" using None kf by (metis map_of_eq_None_iff fst_conv imageI)
  with n have al: "lower n \<in> set (aliases f)" by auto
  have "List.find (\<lambda>(key, f). lower n \<in> set (aliases f)) (getFieldsForResource rt) = Some (k, f)"
  proof (rule find_unique [OF kf])
    show "case (k, f) of (key, f) \<Rightarrow> lower n \<in> set (aliases f)" using al by simp
    fix y assume y: "y \<in> set (getFieldsForResource rt)"
      and m: "case y of (key, f) \<Rightarrow> lower n \<in> set (aliases f)"
    obtain k' f' where kf': "y = (k', f')" by (cases y)
    with m have "lower n \<in> set (k' # aliases f')" by simp
    from table_ok_unique [OF t kf y [unfolded kf'] n this] kf' show "y = (k, f)" by simp
  qed
  with None table_ok_not_inherited [OF t kf n] show ?thesis
    by (simp add: getFieldByName_def Let_def)
qed

lemma map_of_missing: "n \<notin> set (table_names t) \<Longrightarrow> map_of t n = None"
  using keys_in_table_names [of t] by (metis map_of_eq_None_iff subsetD)

lemma lookup_missing:
  assumes "lower n \<notin> set (table_names (getFieldsForResource rt))" "lower n \<notin> set object_prototype_names"
  shows "getFieldByName rt n = NotFound"
proof -
  have "List.find (\<lambda>(key, f). lower n \<in> set (aliases f)) (getFieldsForResource rt) = None"
    using assms(1) by (force simp: find_None_iff table_names_def)
  with map_of_missing [OF assms(1)] assms(2) show ?thesis by (simp add: getFieldByName_def Let_def)
qed

lemma lookup_inherited:
  assumes "lower n \<in> set object_prototype_names"
  shows "getFieldByName rt n = Inherited"
proof -
  have "lower n \<notin> set (table_names (getFieldsForResource rt))"
    using getFieldsForResource_ok [of rt] assms unfolding table_ok_def list_all_iff by blast
  with map_of_missing assms show ?thesis by (simp add: getFieldByName_def Let_def)
qed

lemma available_names: "getAvailableFieldNames rt = table_names (getFieldsForResource rt)"
  by (simp add: getAvailableFieldNames_def table_names_def)

lemma serviceFields_names: "table_names serviceFields =
    common_names @ [''type'', ''servicetype'', ''clusterip'', ''ip'', ''cluster-ip'', ''externalip'',
      ''external-ip'', ''extip'', ''loadbalancerip'', ''lbip'', ''loadbalancer'', ''port'', ''ports'',
      ''targetport'', ''targetports'', ''nodeport'', ''nodeports'', ''protocol'', ''protocols'',
      ''selector'', ''sel'', ''sessionaffinity'', ''affinity'', ''session'', ''externalname'', ''extname'',
      ''headless'']"
  unfolding serviceFields_def
  by (rule table_names_ext [OF tables_ok_base(1) table_names_common, THEN conjunct2],
      simp add: table_names_def, simp, simp add: common_names_def object_prototype_names_def)

lemma csiNodeFields_names: "table_names csiNodeFields =
    common_names @ [''drivercount'', ''drivers'', ''numDrivers'', ''drivernames'', ''driver'', ''nodeids'', ''nodeid'']"
  unfolding csiNodeFields_def
  by (rule table_names_ext [OF tables_ok_base(1) table_names_common, THEN conjunct2],
      simp add: table_names_def, simp, simp add: common_names_def object_prototype_names_def)

lemma registry_at:
  "getFieldsForResource ''services'' = serviceFields"
  "getFieldsForResource ''csinodes'' = csiNodeFields"
  "getFieldsForResource ''namespaces'' = namespaceFields"
  by (simp_all add: getFieldsForResource_def registry_def)

end
