(* ===== verification/QueryParserProps.thy ===== *)
theory QueryParserProps
  imports QueryParser
begin

text \<open>
  What the query parser promises: no query that says anything is dropped, and the texts the
  documentation shows (quoted field conditions, plain words, OR groups) are read back as the
  conditions they were written for.
\<close>

lemma is_space_blank [simp]: "is_space CHR '' ''"
  by (simp add: is_space_def)

section \<open>Nothing is dropped\<close>

lemma parseSegment_Nil [simp]: "parseSegment mk [] = []"
  by (simp add: parseSegment.simps [of mk "[]"] trim_start_def next_condition_def
      matchFieldCondition_def field_prefix_def matchRegexToken_def regex_token_def match_word_def
      match_nonspace_def)

lemma parseSegment_eq_Nil: "parseSegment mk s = [] \<longleftrightarrow> trim_start s = []"
proof
  assume e: "trim_start s = []"
  then have "parseSegment mk s = parseSegment mk []"
    unfolding parseSegment.simps [of mk s] parseSegment.simps [of mk "[]"] trim_start_def
    by (simp only: dropWhile.simps)
  then show "parseSegment mk s = []" by simp
next
  assume "parseSegment mk s = []"
  then have "next_condition mk (trim_start s) = None"
    by (auto simp: parseSegment.simps [of mk s] Let_def split: option.splits)
  then show "trim_start s = []"
    using next_condition_nonblank trim_start_hd by blast
qed

lemma parseSegment_step:
  "next_condition mk (trim_start s) = Some (c, n) \<Longrightarrow>
   parseSegment mk s = c # parseSegment mk (drop n (trim_start s))"
  by (subst parseSegment.simps) (simp add: Let_def)

lemma split_or_nonempty [simp]: "split_or piece s \<noteq> []"
  by (induction piece s rule: split_or.induct) (auto split: option.splits)

lemma hd_split_or: "\<exists>u. hd (split_or piece s) = rev piece @ u"
  by (induction piece s rule: split_or.induct) (auto split: option.splits)

lemma match_or_hd: "match_or s \<noteq> None \<Longrightarrow> s \<noteq> [] \<and> is_space (hd s)"
  by (auto simp: match_or_def split: if_splits)

lemma hd_split_or_nonspace:
  assumes "s \<noteq> []" "\<not> is_space (hd s)"
  shows "\<exists>u. hd (split_or [] s) = hd s # u"
proof -
  obtain c cs where s: "s = c # cs" using assms by (cases s) auto
  then have "match_or s = None" using match_or_hd assms by (metis list.sel(1))
  with s hd_split_or [of "[c]" cs] show ?thesis by simp
qed

lemma trim_eq_Nil: "trim s = [] \<longleftrightarrow> trim_start s = []"
proof -
  have "dropWhile is_space (rev t) = [] \<longleftrightarrow> t = []" if "t = [] \<or> \<not> is_space (hd t)" for t
    using that by (cases t) (auto simp: dropWhile_eq_Nil_conv)
  then show ?thesis
    using trim_start_hd by (auto simp: trim_def)
qed

lemma trim_Nil [simp]: "trim [] = []"
  by (simp add: trim_def trim_start_def)

lemma hd_trim: "trim s \<noteq> [] \<Longrightarrow> \<not> is_space (hd (trim s))"
proof -
  assume ne: "trim s \<noteq> []"
  then obtain t where t: "trim_start s = trim s @ t"
    unfolding trim_def by (metis rev_append rev_rev_ident takeWhile_dropWhile_id)
  then have "hd (trim s) = hd (trim_start s)" using ne by simp
  with ne t show ?thesis using trim_start_hd [of s] by simp
qed

lemma trim_trim_start: "trim_start (trim s) = trim s"
  using hd_trim trim_start_id by blast

lemma trim_nonspace_hd: "s \<noteq> [] \<Longrightarrow> \<not> is_space (hd s) \<Longrightarrow> trim s \<noteq> []"
  by (simp add: trim_eq_Nil trim_start_id)

section \<open>The tokens of a rendered query\<close>

text \<open>No separator of OR groups starts inside \<open>s\<close>.\<close>

fun no_or :: "string \<Rightarrow> bool" where
  "no_or [] = True"
| "no_or (c # cs) = (match_or (c # cs) = None \<and> no_or cs)"

text \<open>A text that stands between two blanks without taking part in a separator.\<close>

definition token_ok :: "string \<Rightarrow> bool" where
  "token_ok t \<longleftrightarrow> t \<noteq> [] \<and> \<not> is_space (hd t) \<and> \<not> is_space (last t) \<and> no_or ('' '' @ t @ '' '')"

lemma dropWhile_append_last:
  "v \<noteq> [] \<Longrightarrow> \<not> P (last v) \<Longrightarrow> dropWhile P (v @ r) = dropWhile P v @ r \<and> dropWhile P v \<noteq> []"
  by (induction v) (auto split: if_splits)

lemma match_or_extend:
  assumes "v \<noteq> []" "\<not> is_space (last v)" "is_space c" "match_or (v @ '' '') = None"
  shows "match_or (v @ c # r) = None"
proof -
  define d where "d = dropWhile is_space v"
  have d: "dropWhile is_space (v @ x) = d @ x" "d \<noteq> []" for x
    using dropWhile_append_last [of v is_space x] assms(1,2) by (auto simp: d_def)
  have not_r: "to_lower c \<noteq> CHR ''r''" using assms(3)
    by (auto simp: is_space_def to_lower_def)
  show ?thesis
  proof (cases d)
    case (Cons a d1)
    with d assms(1,3,4) not_r show ?thesis
      by (cases d1; cases "tl d1")
         (auto simp: match_or_def lower_def hd_append split: if_splits list.splits)
  qed (use d in simp)
qed


lemma no_or_suffix: "no_or (u @ v) \<Longrightarrow> no_or v"
  by (induction u) auto

lemma split_or_skip:
  "(\<And>u v. s = u @ v \<Longrightarrow> v \<noteq> [] \<Longrightarrow> match_or (v @ r) = None) \<Longrightarrow>
   split_or piece (s @ r) = split_or (rev s @ piece) r"
proof (induction s arbitrary: piece)
  case (Cons a s)
  have "match_or ((a # s) @ r) = None" using Cons.prems [of "[]"] by simp
  moreover have "split_or (a # piece) (s @ r) = split_or (rev s @ a # piece) r"
    by (rule Cons.IH) (use Cons.prems in \<open>metis append_Cons\<close>)
  ultimately show ?case by simp
qed simp

lemma no_or_split: "no_or s \<Longrightarrow> split_or piece s = [rev piece @ s]"
  by (induction s arbitrary: piece) auto

lemma match_or_shrink: "match_or (v @ '' '') = None \<Longrightarrow> match_or v = None"
proof (rule ccontr)
  assume a: "match_or (v @ '' '') = None" and "match_or v \<noteq> None"
  then obtain x y z zs where "v \<noteq> []" "is_space (hd v)" "dropWhile is_space v = x # y # z # zs"
    and "lower [x, y] = ''or''" "is_space z"
    by (auto simp: match_or_def split: if_splits list.splits)
  moreover from this have "dropWhile is_space (v @ '' '') = x # y # z # zs @ '' ''"
    by (metis append_Cons dropWhile_append dropWhile_eq_Nil_conv list.distinct(1))
  ultimately show False using a by (simp add: match_or_def hd_append)
qed

lemma token_suffix:
  assumes t: "token_ok t" and v: "CHR '' '' # t = a @ v" "v \<noteq> []" and r: "r = [] \<or> is_space (hd r)"
  shows "match_or (v @ r) = None"
proof -
  have "'' '' @ t @ '' '' = a @ v @ '' ''" using v(1) by (metis append.assoc append_Cons append_Nil)
  with t have "no_or (v @ '' '')" using no_or_suffix unfolding token_ok_def by metis
  with v(2) have n: "match_or (v @ '' '') = None" by (cases v) auto
  have "last v = last t" using v t by (metis last_ConsR last_appendR token_ok_def)
  then have l: "\<not> is_space (last v)" using t by (simp add: token_ok_def)
  show ?thesis
  proof (cases r)
    case Nil
    with n show ?thesis by (simp add: match_or_shrink)
  next
    case (Cons c r')
    with r match_or_extend [OF v(2) l _ n] show ?thesis by simp
  qed
qed

text \<open>A blank between two tokens is no separator, and an OR between two blanks is one.\<close>

lemma split_or_token:
  assumes "token_ok t" "r = [] \<or> is_space (hd r)"
  shows "split_or piece (t @ r) = split_or (rev t @ piece) r"
    and "split_or piece (CHR '' '' # t @ r) = split_or (rev t @ CHR '' '' # piece) r"
proof -
  show "split_or piece (t @ r) = split_or (rev t @ piece) r"
    by (rule split_or_skip) (use token_suffix [OF assms(1) _ _ assms(2)] in \<open>metis append_Cons\<close>)
  have "split_or piece ((CHR '' '' # t) @ r) = split_or (rev (CHR '' '' # t) @ piece) r"
    by (rule split_or_skip) (use token_suffix [OF assms(1) _ _ assms(2)] in \<open>metis append_Cons\<close>)
  then show "split_or piece (CHR '' '' # t @ r) = split_or (rev t @ CHR '' '' # piece) r" by simp
qed

lemma split_or_tokens:
  "ts \<noteq> [] \<Longrightarrow> list_all token_ok ts \<Longrightarrow> r = [] \<or> is_space (hd r) \<Longrightarrow>
   split_or piece (CHR '' '' # join '' '' ts @ r) = split_or (rev (join '' '' ts) @ CHR '' '' # piece) r"
proof (induction ts arbitrary: piece)
  case (Cons t ts)
  then show ?case
    by (cases "ts = []") (simp_all add: split_or_token(2) join_Cons del: split_or.simps)
qed simp

lemma split_or_group:
  assumes "ts \<noteq> []" "list_all token_ok ts" "r = [] \<or> is_space (hd r)"
  shows "split_or piece (join '' '' ts @ r) = split_or (rev (join '' '' ts) @ piece) r"
proof (cases ts)
  case (Cons t ts')
  with assms show ?thesis
    by (cases "ts' = []") (simp_all add: split_or_token(1) split_or_tokens join_Cons del: split_or.simps)
qed (use assms in simp)

lemma split_or_OR:
  assumes "r \<noteq> []" "\<not> is_space (hd r)"
  shows "split_or piece ('' OR '' @ r) = rev piece # split_or [] r"
proof -
  have "\<not> is_space CHR ''O''" "lower ''OR'' = ''or''" by code_simp+
  with assms have "match_or ('' OR '' @ r) = Some r"
    by (cases r) (simp_all add: match_or_def)
  then show ?thesis by simp
qed

section \<open>Reading tokens back\<close>

definition reads :: "(string \<Rightarrow> string \<Rightarrow> 'r option) \<Rightarrow> string \<Rightarrow> 'r condition \<Rightarrow> bool" where
  "reads mk t c \<longleftrightarrow>
     (\<forall>r. r = [] \<or> is_space (hd r) \<longrightarrow> next_condition mk (t @ r) = Some (c, length t))"

lemma readsD: "reads mk t c \<Longrightarrow> r = [] \<or> is_space (hd r) \<Longrightarrow> next_condition mk (t @ r) = Some (c, length t)"
  unfolding reads_def by blast

lemma parseSegment_blank: "parseSegment mk (CHR '' '' # s) = parseSegment mk s"
  unfolding parseSegment.simps [of mk s] parseSegment.simps [of mk "CHR '' '' # s"]
  by (simp add: trim_start_def)

lemma parseSegment_tokens:
  "list_all2 (reads mk) ts cs \<Longrightarrow> list_all token_ok ts \<Longrightarrow> parseSegment mk (join '' '' ts) = cs"
proof (induction rule: list_all2_induct)
  case (Cons t ts c cs)
  let ?r = "if ts = [] then [] else CHR '' '' # join '' '' ts"
  have j: "join '' '' (t # ts) = t @ ?r" by (simp add: join_Cons)
  have "t \<noteq> []" "\<not> is_space (hd t)" using Cons.prems by (auto simp: token_ok_def)
  then have "trim_start (t @ ?r) = t @ ?r" by (intro trim_start_id) simp
  moreover have "next_condition mk (t @ ?r) = Some (c, length t)"
    by (rule readsD [OF Cons.hyps(1)]) simp
  ultimately have "parseSegment mk (join '' '' (t # ts)) = c # parseSegment mk ?r"
    unfolding j using parseSegment_step [of mk "t @ ?r" c "length t"] by simp
  then show ?case using Cons by (cases "ts = []") (auto simp: parseSegment_blank)
qed simp

definition group_text :: "(string \<times> 'r condition) list \<Rightarrow> string" where
  "group_text g = join '' '' (map fst g)"

definition group_ok :: "(string \<Rightarrow> string \<Rightarrow> 'r option) \<Rightarrow> (string \<times> 'r condition) list \<Rightarrow> bool" where
  "group_ok mk g \<longleftrightarrow> g \<noteq> [] \<and> (\<forall>(t, c) \<in> set g. token_ok t \<and> reads mk t c)"

lemma join_ends:
  "ts \<noteq> [] \<Longrightarrow> list_all token_ok ts \<Longrightarrow>
   join '' '' ts \<noteq> [] \<and> \<not> is_space (hd (join '' '' ts)) \<and> \<not> is_space (last (join '' '' ts))"
proof (induction ts)
  case (Cons t ts)
  then show ?case by (cases "ts = []") (auto simp: token_ok_def join_Cons)
qed simp

lemma group_tokens_ok: "group_ok mk g \<Longrightarrow> map fst g \<noteq> [] \<and> list_all token_ok (map fst g)"
  by (auto simp: group_ok_def list_all_iff)

lemma group_text_ends:
  "group_ok mk g \<Longrightarrow> group_text g \<noteq> [] \<and> \<not> is_space (hd (group_text g)) \<and> \<not> is_space (last (group_text g))"
  unfolding group_text_def using group_tokens_ok join_ends by blast

lemma parse_group: "group_ok mk g \<Longrightarrow> parseSegment mk (trim (group_text g)) = map snd g"
proof -
  assume g: "group_ok mk g"
  then have "list_all2 (reads mk) (map fst g) (map snd g)"
    by (auto simp: group_ok_def list_all2_map1 list_all2_map2 list_all2_same split: prod.splits)
  with g group_tokens_ok [OF g] group_text_ends [OF g] show ?thesis
    unfolding group_text_def by (simp add: trim_id parseSegment_tokens)
qed

lemma split_or_groups:
  "gs \<noteq> [] \<Longrightarrow> list_all (group_ok mk) gs \<Longrightarrow>
   split_or [] (join '' OR '' (map group_text gs)) = map group_text gs"
proof (induction gs)
  case (Cons g gs)
  have g: "group_ok mk g" using Cons.prems by simp
  note split = split_or_group [OF conjunct1 [OF group_tokens_ok [OF g]] conjunct2 [OF group_tokens_ok [OF g]]]
  show ?case
  proof (cases gs)
    case Nil
    with split [of "[]" "[]"] show ?thesis by (simp add: group_text_def)
  next
    case (Cons h hs)
    let ?rest = "join '' OR '' (map group_text gs)"
    have h: "group_text h \<noteq> []" "\<not> is_space (hd (group_text h))"
      using Cons.prems Cons group_text_ends [of mk h] by auto
    have rest: "?rest \<noteq> []" "\<not> is_space (hd ?rest)"
      using h Cons by (cases hs; simp)+
    have "split_or [] (join '' OR '' (map group_text (g # gs)))
        = split_or (rev (group_text g)) ('' OR '' @ ?rest)"
      using split [of "'' OR '' @ ?rest" "[]"] Cons
      by (simp add: group_text_def del: split_or.simps)
    also have "\<dots> = group_text g # split_or [] ?rest"
      using split_or_OR [OF rest] by simp
    finally show ?thesis using Cons.IH Cons.prems Cons by simp
  qed
qed simp

lemma parse_groups:
  assumes "list_all (group_ok mk) gs"
  shows "parseQuery mk (join '' OR '' (map group_text gs)) = map (map snd) gs"
proof (cases "gs = []")
  case False
  let ?q = "join '' OR '' (map group_text gs)"
  have ends: "?q \<noteq> [] \<and> \<not> is_space (hd ?q) \<and> \<not> is_space (last ?q)"
    using assms False
  proof (induction gs)
    case (Cons g gs)
    then show ?case using group_text_ends [of mk g] by (cases "gs = []") (auto simp: join_Cons)
  qed simp
  then have "parseQuery mk ?q =
      filter (\<lambda>cs. cs \<noteq> []) (map (\<lambda>g. parseSegment mk (trim (group_text g))) gs)"
    using split_or_groups [OF False assms] by (simp add: parseQuery_def trim_id comp_def)
  also have "map (\<lambda>g. parseSegment mk (trim (group_text g))) gs = map (map snd) gs"
    using assms parse_group by (auto simp: list_all_iff)
  also have "filter (\<lambda>cs. cs \<noteq> []) (map (map snd) gs) = map (map snd) gs"
    using assms by (induction gs) (auto simp: group_ok_def)
  finally show ?thesis .
qed (simp add: parseQuery_def)

section \<open>The documented syntax\<close>

text \<open>
  The forms the documentation of the parser lists: \<open>UnquotedField\<close> is \<open>name:value\<close>,
  \<open>QuotedField\<close> is \<open>name:"a value"\<close>, \<open>RegexField\<close> is \<open>name:/pattern/flags\<close> and
  \<open>BareRegex\<close> is \<open>/pattern/flags\<close>; and the quotes of the other kind the parser takes as well,
  \<open>SingleQuotedField\<close>. A pattern may hold slashes, but none that would end it: a slash after
  the first character that is followed by flags and a blank or comma.
\<close>

datatype search_term =
    Word string
  | UnquotedField string string
  | QuotedField string string
  | SingleQuotedField string string
  | RegexField string string string
  | BareRegex string string

fun term_text :: "search_term \<Rightarrow> string" where
  "term_text (Word w) = w"
| "term_text (UnquotedField f v) = f @ '':'' @ v"
| "term_text (QuotedField f v) = f @ '':'' @ [CHR 0x22] @ v @ [CHR 0x22]"
| "term_text (SingleQuotedField f v) = f @ '':'' @ [CHR 0x27] @ v @ [CHR 0x27]"
| "term_text (RegexField f p fl) = f @ '':'' @ regex_text p fl"
| "term_text (BareRegex p fl) = regex_text p fl"

definition regex_value :: "(string \<Rightarrow> string \<Rightarrow> 'r option) \<Rightarrow> string \<Rightarrow> string \<Rightarrow> 'r cvalue" where
  "regex_value mk p fl = (case mk p fl of Some r \<Rightarrow> RegexVal r | None \<Rightarrow> TextVal (regex_text p fl))"

fun term_condition :: "(string \<Rightarrow> string \<Rightarrow> 'r option) \<Rightarrow> search_term \<Rightarrow> 'r condition" where
  "term_condition mk (Word w) = Plain (TextVal w)"
| "term_condition mk (UnquotedField f v) = Field (lower f) (TextVal v)"
| "term_condition mk (QuotedField f v) = Field (lower f) (TextVal v)"
| "term_condition mk (SingleQuotedField f v) = Field (lower f) (TextVal v)"
| "term_condition mk (RegexField f p fl) = Field (lower f) (regex_value mk p fl)"
| "term_condition mk (BareRegex p fl) = Plain (regex_value mk p fl)"

text \<open>No slash of a pattern closes it; \<open>started\<close> says whether the pattern has a character before.\<close>

definition closes :: "string \<Rightarrow> bool" where
  "closes s \<longleftrightarrow> dropWhile is_regex_flag s \<noteq> [] \<and> at_token_end (dropWhile is_regex_flag s)"

fun no_close :: "bool \<Rightarrow> string \<Rightarrow> bool" where
  "no_close started [] = True"
| "no_close started (c # cs) = (\<not> (c = CHR ''/'' \<and> started \<and> closes cs) \<and> no_close True cs)"

definition pattern_ok :: "string \<Rightarrow> string \<Rightarrow> bool" where
  "pattern_ok p fl \<longleftrightarrow>
     p \<noteq> [] \<and> list_all (\<lambda>c. \<not> is_newline c) p \<and> no_close False p \<and> no_or p \<and> list_all is_regex_flag fl"

fun term_ok :: "search_term \<Rightarrow> bool" where
  "term_ok (Word w) =
     (w \<noteq> [] \<and> list_all (\<lambda>c. not_space c \<and> c \<noteq> CHR '':'') w \<and> hd w \<noteq> CHR ''/'' \<and> lower w \<noteq> ''or'')"
| "term_ok (UnquotedField f v) =
     (f \<noteq> [] \<and> list_all is_word f \<and> v \<noteq> [] \<and> list_all (\<lambda>c. not_space c \<and> c \<noteq> CHR '','') v \<and>
      hd v \<notin> {CHR 0x22, CHR 0x27, CHR ''/''})"
| "term_ok (QuotedField f v) = (f \<noteq> [] \<and> list_all is_word f \<and> CHR 0x22 \<notin> set v \<and> no_or v)"
| "term_ok (SingleQuotedField f v) = (f \<noteq> [] \<and> list_all is_word f \<and> CHR 0x27 \<notin> set v \<and> no_or v)"
| "term_ok (RegexField f p fl) = (f \<noteq> [] \<and> list_all is_word f \<and> pattern_ok p fl)"
| "term_ok (BareRegex p fl) = pattern_ok p fl"

lemma not_or_char: "d \<in> {CHR 0x22, CHR 0x27, CHR ''/'', CHR '':''} \<Longrightarrow> \<not> is_space d \<and> to_lower d \<noteq> CHR ''o'' \<and> to_lower d \<noteq> CHR ''r''"
  by (auto simp: is_space_def to_lower_def Let_def)

lemma match_or_hd_nonspace: "\<not> is_space c \<Longrightarrow> match_or (c # s) = None"
  by (simp add: match_or_def)

lemma no_or_nonspace: "list_all not_space s \<Longrightarrow> no_or r \<Longrightarrow> no_or (s @ r)"
  by (induction s) (auto simp: not_space_def match_or_hd_nonspace)

lemma match_or_append:
  assumes "match_or v = None" "\<not> is_space d" "to_lower d \<noteq> CHR ''o''" "to_lower d \<noteq> CHR ''r''"
  shows "match_or (v @ d # r) = None"
proof (cases "v \<noteq> [] \<and> is_space (hd v)")
  case True
  show ?thesis
  proof (cases "dropWhile is_space v")
    case Nil
    then have "dropWhile is_space (v @ d # r) = d # r"
      using assms(2) by (simp add: dropWhile_append)
    with assms(3) show ?thesis by (auto simp: match_or_def lower_def split: list.splits)
  next
    case (Cons a w)
    then have "dropWhile is_space (v @ d # r) = a # w @ d # r"
      by (metis append_Cons dropWhile_append dropWhile_eq_Nil_conv list.distinct(1))
    with True Cons assms show ?thesis
      by (cases w; cases "tl w") (auto simp: match_or_def lower_def hd_append split: if_splits list.splits)
  qed
qed (use assms(2) in \<open>auto simp: match_or_def hd_append\<close>)

lemma no_or_append:
  assumes "d \<in> {CHR 0x22, CHR 0x27, CHR ''/'', CHR '':''}" "no_or v" "no_or (d # s)"
  shows "no_or (v @ d # s)"
  using assms(2,3)
proof (induction v)
  case (Cons c v)
  then show ?case using match_or_append [of "c # v" d s] not_or_char [OF assms(1)] by simp
qed simp

lemma word_char: "is_word c \<Longrightarrow> not_space c \<and> c \<noteq> CHR '':'' \<and> c \<noteq> CHR ''/''"
  by (auto simp: is_word_def is_alpha_def is_digit_def is_space_def not_space_def Let_def)

lemma match_or_blank [simp]: "match_or '' '' = None"
  by (simp add: match_or_def)

lemma no_or_blank: "no_or '' ''"
  by simp

lemma match_or_delimiter [simp]:
  "match_or (CHR 0x22 # s) = None" "match_or (CHR 0x27 # s) = None" "match_or (CHR ''/'' # s) = None" "match_or (CHR '':'' # s) = None"
  by (simp_all add: match_or_hd_nonspace not_or_char)

lemma colon_not_space [simp]: "\<not> is_space CHR '':''"
  using not_or_char by simp

lemma not_word [simp]: "\<not> is_word CHR '':''" "is_space c \<Longrightarrow> \<not> is_word c"
  using word_char by (auto simp: not_space_def)

lemma slash_not_word: "\<not> is_word CHR ''/''"
  using word_char by blast

lemma word_list: "list_all is_word f \<Longrightarrow> list_all not_space f"
  using word_char by (auto simp: list_all_iff)

text \<open>A field name and its colon after a blank start no separator.\<close>

lemma match_or_field:
  assumes "f \<noteq> []" "list_all is_word f" "s \<noteq> []" "\<not> is_space (hd s)"
  shows "match_or (CHR '' '' # f @ CHR '':'' # s) = None"
proof -
  obtain a g where f: "f = a # g" using assms(1) by (cases f) auto
  have a: "\<not> is_space a" using assms(2) f word_char by (auto simp: not_space_def)
  then have d: "dropWhile is_space (CHR '' '' # f @ CHR '':'' # s) = a # g @ CHR '':'' # s"
    by (simp add: f)
  show ?thesis
  proof (cases g)
    case Nil
    with d show ?thesis using not_or_char [of "CHR '':''"]
      by (auto simp: match_or_def lower_def split: list.splits)
  next
    case (Cons b h)
    with d assms f word_char not_or_char [of "CHR '':''"] show ?thesis
      by (cases h) (auto simp: match_or_def lower_def not_space_def split: list.splits)
  qed
qed

lemma field_token_ok:
  assumes "f \<noteq> []" "list_all is_word f" "s \<noteq> []" "\<not> is_space (hd s)" "\<not> is_space (last s)"
    and "no_or (s @ '' '')"
  shows "token_ok (f @ CHR '':'' # s)"
proof -
  have "no_or (f @ CHR '':'' # s @ '' '')"
    by (rule no_or_nonspace [OF word_list [OF assms(2)]]) (use assms(6) in simp)
  moreover have "match_or (CHR '' '' # f @ CHR '':'' # s @ '' '') = None"
    using match_or_field [of f "s @ '' ''"] assms by simp
  moreover have "\<not> is_space (hd f)" using assms(1,2) word_char by (cases f) (auto simp: not_space_def)
  ultimately show ?thesis using assms by (simp add: token_ok_def)
qed

lemma word_token_ok:
  assumes "w \<noteq> []" "list_all not_space w" "lower w \<noteq> ''or''"
  shows "token_ok w"
proof -
  obtain a g where w: "w = a # g" using assms(1) by (cases w) auto
  have "match_or (CHR '' '' # w @ '' '') = None"
    using assms w
    by (cases g; cases "tl g") (auto simp: match_or_def not_space_def lower_def split: list.splits)
  moreover have "no_or (w @ '' '')" by (rule no_or_nonspace [OF assms(2) no_or_blank])
  moreover have "\<not> is_space (hd w)" "\<not> is_space (last w)"
    using assms(1,2) hd_in_set [of w] last_in_set [of w] by (auto simp: list_all_iff not_space_def)
  ultimately show ?thesis using assms(1) by (simp add: token_ok_def)
qed

lemma flag_char: "is_regex_flag c \<Longrightarrow> not_space c \<and> c \<noteq> CHR ''/''"
  by (auto simp: is_regex_flag_def not_space_def is_space_def)

lemma pattern_text_ok:
  assumes "pattern_ok p fl"
  shows "no_or (regex_text p fl @ '' '')" "\<not> is_space (hd (regex_text p fl))"
    "\<not> is_space (last (regex_text p fl))" "regex_text p fl \<noteq> []"
proof -
  have fl: "list_all not_space fl" using assms flag_char by (auto simp: pattern_ok_def list_all_iff)
  have "no_or (CHR ''/'' # fl @ '' '')"
    using no_or_nonspace [OF fl no_or_blank] by simp
  then show "no_or (regex_text p fl @ '' '')"
    using assms no_or_append [of "CHR ''/''" p "fl @ '' ''"]
    by (simp add: regex_text_def pattern_ok_def)
  show "\<not> is_space (last (regex_text p fl))"
    using fl last_in_set [of fl] not_or_char [of "CHR ''/''"]
    by (cases "fl = []") (auto simp: regex_text_def list_all_iff not_space_def)
qed (use not_or_char [of "CHR ''/''"] in \<open>simp_all add: regex_text_def\<close>)

lemma bare_token_ok:
  assumes "s \<noteq> []" "hd s = CHR ''/''" "\<not> is_space (last s)" "no_or (s @ '' '')"
  shows "token_ok s"
proof -
  have "match_or (CHR '' '' # s @ '' '') = None"
    using assms(1,2) not_or_char [of "CHR ''/''"] by (cases s) (auto simp: match_or_def lower_def split: list.splits)
  with assms not_or_char [of "CHR ''/''"] show ?thesis by (simp add: token_ok_def)
qed

lemma quoted_token_ok:
  assumes "q \<in> {CHR 0x22, CHR 0x27}" "f \<noteq> []" "list_all is_word f" "no_or v"
  shows "token_ok (f @ CHR '':'' # q # v @ [q])"
proof -
  have "no_or ((q # v @ [q]) @ '' '')"
    using assms no_or_append [of q v "'' ''"] by auto
  with assms show ?thesis using field_token_ok [of f "q # v @ [q]"] not_or_char [of q] by auto
qed

lemma term_token_ok: "term_ok t \<Longrightarrow> token_ok (term_text t)"
proof (cases t)
  case (Word w)
  assume "term_ok t"
  with Word word_token_ok [of w] show ?thesis by (simp add: list_all_iff)
next
  case (UnquotedField f v)
  assume t: "term_ok t"
  then have v: "list_all not_space v" "v \<noteq> []" using UnquotedField by (auto simp: list_all_iff)
  then have "\<not> is_space (hd v)" "\<not> is_space (last v)" "no_or (v @ '' '')"
    using hd_in_set [of v] last_in_set [of v] no_or_nonspace [OF v(1) no_or_blank]
    by (simp_all add: list_all_iff not_space_def)
  with t UnquotedField v show ?thesis using field_token_ok [of f v] by simp
next
  case (QuotedField f v)
  assume "term_ok t"
  with QuotedField quoted_token_ok [of "CHR 0x22" f v] show ?thesis by simp
next
  case (SingleQuotedField f v)
  assume "term_ok t"
  with SingleQuotedField quoted_token_ok [of "CHR 0x27" f v] show ?thesis by simp
next
  case (RegexField f p fl)
  assume "term_ok t"
  with RegexField pattern_text_ok [of p fl] field_token_ok [of f "regex_text p fl"] show ?thesis by simp
next
  case (BareRegex p fl)
  assume "term_ok t"
  with BareRegex pattern_text_ok [of p fl] bare_token_ok [of "regex_text p fl"] show ?thesis
    by (simp add: regex_text_def)
qed

section \<open>The value scanners on a token\<close>

lemma takeWhile_stop: "list_all P w \<Longrightarrow> r = [] \<or> \<not> P (hd r) \<Longrightarrow> takeWhile P (w @ r) = w \<and> dropWhile P (w @ r) = r"
  by (induction w) (cases r; auto)+

lemma field_prefix_reads:
  assumes "f \<noteq> []" "list_all is_word f"
  shows "field_prefix (f @ CHR '':'' # s) = Some f"
  using assms takeWhile_stop [of is_word f "CHR '':'' # s"]
  by (simp add: field_prefix_def Let_def)

lemma field_prefix_word:
  assumes "list_all (\<lambda>c. not_space c \<and> c \<noteq> CHR '':'') w" "r = [] \<or> is_space (hd r)"
  shows "field_prefix (w @ r) = None"
proof -
  have "\<not> prefix '':'' (dropWhile is_word (w @ r))"
    using assms
  proof (induction w)
    case Nil
    then show ?case by (cases r) auto
  qed auto
  then show ?thesis by (simp add: field_prefix_def Let_def)
qed

lemma closes_append:
  assumes "\<not> closes cs"
  shows "\<not> at_token_end (dropWhile is_regex_flag (cs @ CHR ''/'' # r))"
proof (cases "dropWhile is_regex_flag cs")
  case Nil
  then have "\<forall>c \<in> set cs. is_regex_flag c" by (simp add: dropWhile_eq_Nil_conv)
  moreover have "\<not> is_regex_flag CHR ''/''" using flag_char by blast
  ultimately have "dropWhile is_regex_flag (cs @ CHR ''/'' # r) = CHR ''/'' # r"
    by (simp add: dropWhile_append2)
  then show ?thesis using not_or_char [of "CHR ''/''"] by (simp add: at_token_end_def)
next
  case (Cons a w)
  then have "dropWhile is_regex_flag (cs @ CHR ''/'' # r) = a # w @ CHR ''/'' # r"
    by (metis append_Cons dropWhile_append dropWhile_eq_Nil_conv list.distinct(1))
  with Cons assms show ?thesis by (simp add: closes_def at_token_end_def)
qed

lemma scan_regex_reads:
  "list_all (\<lambda>c. \<not> is_newline c) p \<Longrightarrow> no_close (body \<noteq> []) p \<Longrightarrow> body \<noteq> [] \<or> p \<noteq> [] \<Longrightarrow>
   list_all is_regex_flag fl \<Longrightarrow> r = [] \<or> is_space (hd r) \<Longrightarrow>
   scan_regex body (p @ CHR ''/'' # fl @ r) = Some (rev body @ p, fl)"
proof (induction p arbitrary: body)
  case Nil
  have "r = [] \<or> \<not> is_regex_flag (hd r)" using Nil.prems(5) flag_char by (auto simp: not_space_def)
  with Nil takeWhile_stop [of is_regex_flag fl r] show ?case
    by (auto simp: at_token_end_def split: list.splits)
next
  case (Cons c p)
  have "\<not> (c = CHR ''/'' \<and> body \<noteq> [] \<and> at_token_end (dropWhile is_regex_flag (p @ CHR ''/'' # fl @ r)))"
    using Cons.prems(2) closes_append [of p] by auto
  moreover have "scan_regex (c # body) (p @ CHR ''/'' # fl @ r) = Some (rev (c # body) @ p, fl)"
    by (rule Cons.IH) (use Cons.prems in auto)
  ultimately show ?case using Cons.prems(1) by simp
qed

lemma regex_reads:
  assumes "pattern_ok p fl" "r = [] \<or> is_space (hd r)"
  shows "regex_token (regex_text p fl @ r) = Some (p, fl)"
proof -
  have "scan_regex [] (p @ CHR ''/'' # fl @ r) = Some (rev [] @ p, fl)"
    by (rule scan_regex_reads) (use assms in \<open>auto simp: pattern_ok_def\<close>)
  then show ?thesis by (simp add: regex_token_def regex_text_def)
qed

lemma regex_matched:
  "pattern_ok p fl \<Longrightarrow> r = [] \<or> is_space (hd r) \<Longrightarrow>
   matchRegexToken mk (regex_text p fl @ r) = Some (regex_value mk p fl, length (regex_text p fl))"
  by (simp add: matchRegexToken_def regex_reads regex_value_def split: option.splits)

lemma regex_token_other: "s = [] \<or> hd s \<noteq> CHR ''/'' \<Longrightarrow> matchRegexToken mk s = None"
  by (cases s) (auto simp: matchRegexToken_def regex_token_def)

lemma quoted_other: "s = [] \<or> hd s \<noteq> q \<Longrightarrow> quoted q s = None"
  by (cases s) (auto simp: quoted_def)

lemma quoted_reads: "q \<notin> set v \<Longrightarrow> quoted q (q # v @ q # r) = Some v"
  by (induction v) (auto simp: quoted_def)

lemma word_length_self: "at_word_end (drop n s) \<Longrightarrow> 0 < n \<Longrightarrow> word_length s n = Some n"
  by (cases n) auto

lemma word_reads:
  assumes "term_ok (Word w)" "r = [] \<or> is_space (hd r)"
  shows "match_word (w @ r) = Some w"
proof -
  have "takeWhile (\<lambda>c. \<not> is_space c \<and> c \<noteq> CHR '':'') (w @ r) = w"
    by (intro conjunct1 [OF takeWhile_stop]) (use assms in \<open>auto simp: not_space_def\<close>)
  moreover have "word_length (w @ r) (length w) = Some (length w)"
    by (rule word_length_self) (use assms in \<open>auto simp: at_word_end_def\<close>)
  ultimately show ?thesis by (simp add: match_word_def)
qed

lemma term_reads: "term_ok t \<Longrightarrow> reads mk (term_text t) (term_condition mk t)"
  unfolding reads_def
proof (intro allI impI)
  fix r :: string
  assume t: "term_ok t" and r: "r = [] \<or> is_space (hd r)"
  note field = matchFieldCondition_def field_prefix_reads next_condition_def Let_def
  show "next_condition mk (term_text t @ r) = Some (term_condition mk t, length (term_text t))"
  proof (cases t)
    case (Word w)
    then have "matchRegexToken mk (w @ r) = None" using t by (intro regex_token_other) simp
    with Word t r word_reads [of w r] field_prefix_word [of w r] show ?thesis
      by (simp add: next_condition_def matchFieldCondition_def)
  next
    case (UnquotedField f v)
    have "unquoted (v @ r) = v"
      unfolding unquoted_def
      by (intro conjunct1 [OF takeWhile_stop]) (use t r UnquotedField in \<open>auto simp: not_space_def\<close>)
    moreover have "matchRegexToken mk (v @ r) = None" "quoted CHR 0x22 (v @ r) = None"
      "quoted CHR 0x27 (v @ r) = None"
      using t UnquotedField by (auto intro!: regex_token_other quoted_other)
    ultimately show ?thesis using t UnquotedField by (simp add: field)
  next
    case (QuotedField f v)
    have "matchRegexToken mk (CHR 0x22 # v @ CHR 0x22 # r) = None" by (rule regex_token_other) simp
    with t QuotedField quoted_reads [of "CHR 0x22" v r] show ?thesis by (simp add: field)
  next
    case (SingleQuotedField f v)
    have "matchRegexToken mk (CHR 0x27 # v @ CHR 0x27 # r) = None" "quoted CHR 0x22 (CHR 0x27 # v @ CHR 0x27 # r) = None"
      by (auto intro!: regex_token_other quoted_other)
    with t SingleQuotedField quoted_reads [of "CHR 0x27" v r] show ?thesis by (simp add: field)
  next
    case (RegexField f p fl)
    with t r regex_matched [of p fl r mk] show ?thesis by (simp add: field)
  next
    case (BareRegex p fl)
    have "field_prefix (regex_text p fl @ r) = None"
      by (simp add: field_prefix_def regex_text_def slash_not_word)
    with BareRegex t r regex_matched [of p fl r mk] show ?thesis
      by (simp add: next_condition_def matchFieldCondition_def)
  qed
qed

section \<open>The round trip\<close>

definition query_text :: "search_term list list \<Rightarrow> string" where
  "query_text gs = join '' OR '' (map (\<lambda>g. join '' '' (map term_text g)) gs)"

definition query_ok :: "search_term list list \<Rightarrow> bool" where
  "query_ok gs \<longleftrightarrow> list_all (\<lambda>g. g \<noteq> [] \<and> list_all term_ok g) gs"

lemma query_roundtrip:
  assumes "query_ok gs"
  shows "parseQuery mk (query_text gs) = map (map (term_condition mk)) gs"
proof -
  let ?pair = "\<lambda>t. (term_text t, term_condition mk t)"
  have "list_all (group_ok mk) (map (map ?pair) gs)"
    using assms term_token_ok term_reads
    by (fastforce simp: query_ok_def group_ok_def list_all_iff)
  from parse_groups [OF this] show ?thesis
    by (simp add: query_text_def group_text_def comp_def)
qed

lemma parseQuery_empty: "parseQuery mk q = [] \<longleftrightarrow> trim q = []"
proof
  assume e: "parseQuery mk q = []"
  show "trim q = []"
  proof (rule ccontr)
    assume t: "trim q \<noteq> []"
    then have q: "q \<noteq> []" by auto
    let ?seg = "hd (split_or [] (trim q))"
    obtain u where u: "?seg = hd (trim q) # u" using hd_split_or_nonspace t hd_trim by blast
    then have "trim ?seg \<noteq> []" using hd_trim [OF t] by (intro trim_nonspace_hd) simp_all
    then have "parseSegment mk (trim ?seg) \<noteq> []" by (simp add: parseSegment_eq_Nil trim_trim_start)
    moreover have "?seg \<in> set (split_or [] (trim q))" by simp
    ultimately show False using e t q by (auto simp: parseQuery_def filter_empty_conv)
  qed
qed (simp add: parseQuery_def)

lemma parseQuery_groups_nonempty: "g \<in> set (parseQuery mk q) \<Longrightarrow> g \<noteq> []"
  by (auto simp: parseQuery_def Let_def split: if_splits)

end
