(* ===== verification/FilterEngine.thy ===== *)
theory FilterEngine
  imports FieldRegistry QueryParserProps
begin

text \<open>
  The filter built from a search query (\<open>utils/search/filterEngine.ts\<close>). A filter returns
  \<open>None\<close> where the code throws. \<open>mk_regex\<close> compiles a user's pattern (as in
  \<open>QueryParser\<close>) and \<open>rx_test\<close> is its \<open>test\<close> with \<open>lastIndex\<close> reset to 0.
\<close>

definition testRegex :: "('r \<Rightarrow> string \<Rightarrow> bool) \<Rightarrow> 'r \<Rightarrow> jsv \<Rightarrow> bool" where
  "testRegex rx_test regex v = rx_test regex (jstring (jor v (JStr [])))"

text \<open>\<open>v.toLowerCase().includes(text.toLowerCase())\<close>: only strings have the method.\<close>

fun includes_ignoring_case :: "jsv \<Rightarrow> string \<Rightarrow> bool option" where
  "includes_ignoring_case (JStr s) text = Some (str_includes (lower s) (lower text))"
| "includes_ignoring_case _ text = None"

definition match_value :: "('r \<Rightarrow> string \<Rightarrow> bool) \<Rightarrow> 'r cvalue \<Rightarrow> jsv \<Rightarrow> bool option" where
  "match_value rx_test cv v =
     (case cv of
        RegexVal r \<Rightarrow> Some (testRegex rx_test r v)
      | TextVal t \<Rightarrow> includes_ignoring_case v t)"

definition matchCondition ::
    "('r \<Rightarrow> string \<Rightarrow> bool) \<Rightarrow> jsv \<Rightarrow> 'r condition \<Rightarrow> string \<Rightarrow> bool option" where
  "matchCondition rx_test item cond resourceType =
     (case cond of
        Plain cv \<Rightarrow>
          do { name \<leftarrow> path_str item [''metadata'', ''name''] ''''; match_value rx_test cv name }
      | Field fieldName cv \<Rightarrow>
          (case getFieldByName resourceType fieldName of
             NotFound \<Rightarrow> Some False
           | Inherited \<Rightarrow> None
           | Found f \<Rightarrow> do { v \<leftarrow> extractor f item; match_value rx_test cv v }))"

definition matchGroups ::
    "('r \<Rightarrow> string \<Rightarrow> bool) \<Rightarrow> string \<Rightarrow> 'r condition list list \<Rightarrow> jsv \<Rightarrow> bool option" where
  "matchGroups rx_test resourceType groups item =
     jsome (\<lambda>group. jevery (\<lambda>cond. matchCondition rx_test item cond resourceType) group) groups"

definition createFilter ::
    "(string \<Rightarrow> string \<Rightarrow> 'r option) \<Rightarrow> ('r \<Rightarrow> string \<Rightarrow> bool) \<Rightarrow> string \<Rightarrow> string \<Rightarrow> jsv \<Rightarrow> bool option" where
  "createFilter mk_regex rx_test resourceType queryString =
     (let groups = parseQuery mk_regex queryString in
      if groups = [] then (\<lambda>item. Some True) else matchGroups rx_test resourceType groups)"

section \<open>Groups are alternatives, conditions are conjuncts\<close>

text \<open>The conditions of a group that do not throw on the item decide it.\<close>

lemma matchGroups_dnf:
  assumes "\<And>g c. g \<in> set groups \<Longrightarrow> c \<in> set g \<Longrightarrow> matchCondition rx item c rt \<noteq> None"
  shows "matchGroups rx rt groups item =
    Some (\<exists>g \<in> set groups. \<forall>c \<in> set g. matchCondition rx item c rt = Some True)"
proof -
  have every: "jevery (\<lambda>c. matchCondition rx item c rt) g =
      Some (\<forall>c \<in> set g. matchCondition rx item c rt = Some True)" if "g \<in> set groups" for g
    using that assms by (intro jevery_all_defined) blast
  then have "jsome (\<lambda>g. jevery (\<lambda>c. matchCondition rx item c rt) g) groups =
      Some (\<exists>g \<in> set groups. jevery (\<lambda>c. matchCondition rx item c rt) g = Some True)"
    by (intro jsome_all_defined) simp
  with every show ?thesis by (simp add: matchGroups_def)
qed

lemma matchCondition_word:
  assumes "path_str item [''metadata'', ''name''] '''' = Some (JStr name)"
  shows "matchCondition rx item (Plain (TextVal w)) rt = Some (str_includes (lower name) (lower w))"
  using assms by (simp add: matchCondition_def match_value_def)

lemma matchCondition_field:
  assumes "getFieldByName rt f = Found d" "extractor d item = Some (JStr v)"
  shows "matchCondition rx item (Field f (TextVal t)) rt = Some (str_includes (lower v) (lower t))"
  using assms by (simp add: matchCondition_def match_value_def)

lemma advertised_found:
  assumes "(k, d) \<in> set (getFieldsForResource rt)" "n \<in> set (k # aliases d)" "lower n = n"
  shows "getFieldByName rt n = Found d"
  using lookup_in_table [OF getFieldsForResource_ok assms(1)] assms(2,3) by simp

lemma getFieldByName_lower: "getFieldByName rt (lower f) = getFieldByName rt f"
  by (simp add: getFieldByName_def)

lemma createFilter_blank: "trim q = [] \<Longrightarrow> createFilter mk rx rt q item = Some True"
  using parseQuery_empty [of mk q] by (simp add: createFilter_def)

lemma createFilter_query:
  "query_ok gs \<Longrightarrow> gs \<noteq> [] \<Longrightarrow>
   createFilter mk rx rt (query_text gs) item = matchGroups rx rt (map (map (term_condition mk)) gs) item"
  by (simp add: createFilter_def query_roundtrip)

section \<open>Queries that are misread\<close>

lemmas parser_defs = next_condition_def matchFieldCondition_def field_prefix_def matchRegexToken_def
  regex_token_def quoted_def unquoted_def match_word_def match_nonspace_def at_word_end_def not_space_def

lemma read_hyphenated: "next_condition mk ''cluster-ip:10.0.0.1'' = Some (Plain (TextVal ''cluster-i''), 9)"
  by (simp add: parser_defs js_defs eval_nat_numeral)

lemma read_remainder: "next_condition mk ''p:10.0.0.1'' = Some (Field ''p'' (TextVal ''10.0.0.1''), 10)"
  by (simp add: parser_defs js_defs eval_nat_numeral)

lemma parse_hyphenated:
  "parseSegment mk ''cluster-ip:10.0.0.1'' = [Plain (TextVal ''cluster-i''), Field ''p'' (TextVal ''10.0.0.1'')]"
proof -
  have t: "trim_start ''cluster-ip:10.0.0.1'' = ''cluster-ip:10.0.0.1''" "trim_start ''p:10.0.0.1'' = ''p:10.0.0.1''"
    by (simp_all add: trim_start_id is_space_def)
  from parseSegment_step [of mk "''p:10.0.0.1''" "Field ''p'' (TextVal ''10.0.0.1'')" 10] read_remainder [of mk] t
  have "parseSegment mk ''p:10.0.0.1'' = [Field ''p'' (TextVal ''10.0.0.1'')]" by simp
  with parseSegment_step [of mk "''cluster-ip:10.0.0.1''" "Plain (TextVal ''cluster-i'')" 9] read_hyphenated [of mk] t show ?thesis
    by simp
qed

lemma no_blank_no_or: "list_all not_space s \<Longrightarrow> no_or s"
  using no_or_nonspace [of s "[]"] by simp

lemma parseQuery_single:
  assumes "list_all not_space q" "q \<noteq> []"
  shows "parseQuery mk q = [parseSegment mk q]"
proof -
  have t: "trim q = q"
    using assms hd_in_set [of q] last_in_set [of q] by (intro trim_id) (auto simp: list_all_iff not_space_def)
  have "parseSegment mk q \<noteq> []" using t assms(2) trim_eq_Nil parseSegment_eq_Nil by metis
  with t no_or_split [OF no_blank_no_or [OF assms(1)], of "[]"] assms(2) show ?thesis
    by (simp add: parseQuery_def)
qed

lemma filter_inherited:
  assumes "lower n \<in> set object_prototype_names" "term_ok (UnquotedField n v)"
  shows "createFilter mk rx rt (n @ '':'' @ v) item = None"
proof -
  have "query_ok [[UnquotedField n v]]" using assms(2) by (simp add: query_ok_def)
  from createFilter_query [OF this, of mk rx rt item] lookup_inherited [of "lower n" rt] assms(1)
  show ?thesis by (simp add: query_text_def matchGroups_def matchCondition_def)
qed

lemma csi_node_lookup: "getFieldByName ''csinodes'' ''numDrivers'' = NotFound"
proof (rule lookup_missing)
  have l: "lower ''numDrivers'' = ''numdrivers''" by code_simp
  show "lower ''numDrivers'' \<notin> set (table_names (getFieldsForResource ''csinodes''))"
    by (simp add: l registry_at csiNodeFields_names common_names_def)
  show "lower ''numDrivers'' \<notin> set object_prototype_names"
    by (simp add: l object_prototype_names_def)
qed

section \<open>Properties\<close>

text \<open>
  C1: a query written in the documented syntax (words, patterns, field conditions
  with plain, quoted or regex values, groups separated by OR; no quoted value or pattern holds the
  separator of the groups) selects an item exactly when all conditions of one of its groups match
  it, provided no condition throws on the item.
\<close>
theorem search_query_meaning:
  assumes "query_ok gs" "gs \<noteq> []"
    and "\<forall>g \<in> set gs. \<forall>t \<in> set g. matchCondition rx item (term_condition mk t) rt \<noteq> None"
  shows "createFilter mk rx rt (query_text gs) item =
    Some (\<exists>g \<in> set gs. \<forall>t \<in> set g. matchCondition rx item (term_condition mk t) rt = Some True)"
proof -
  have "matchGroups rx rt (map (map (term_condition mk)) gs) item =
      Some (\<exists>g \<in> set (map (map (term_condition mk)) gs). \<forall>c \<in> set g. matchCondition rx item c rt = Some True)"
    by (rule matchGroups_dnf) (use assms(3) in auto)
  with assms show ?thesis by (simp add: createFilter_query)
qed

theorem search_query_meaning_witness:
  "createFilter (\<lambda>p f. Some (p, f)) (\<lambda>(p, f) s. str_includes s p) ''pods'' ''web prod OR db''
     (JObj [(''metadata'', JObj [(''name'', JStr ''my-DB-0'')])]) = Some True"
proof -
  let ?mk = "\<lambda>p f. Some (p, f)" and ?rx = "\<lambda>(p, f) s. str_includes s p"
  let ?item = "JObj [(''metadata'', JObj [(''name'', JStr ''my-DB-0'')])]"
  let ?gs = "[[Word ''web'', Word ''prod''], [Word ''db'']]"
  have ok: "query_ok ?gs" by code_simp
  have m: "\<forall>g \<in> set ?gs. \<forall>t \<in> set g. matchCondition ?rx ?item (term_condition ?mk t) ''pods'' \<noteq> None"
    by (auto simp: matchCondition_def match_value_def js_defs)
  have qt: "query_text ?gs = ''web prod OR db''" by code_simp
  have name: "path_str ?item [''metadata'', ''name''] '''' = Some (JStr ''my-DB-0'')"
    by (simp add: path_or_def jpath_def jget_def jopt_def jor_def)
  have "str_includes (lower ''my-DB-0'') (lower ''db'')" by code_simp
  with matchCondition_word [OF name, of ?rx "''db''" "''pods''"]
  have hit: "matchCondition ?rx ?item (term_condition ?mk (Word ''db'')) ''pods'' = Some True" by simp
  show ?thesis using search_query_meaning [OF ok _ m] hit unfolding qt by simp
qed

text \<open>
  Search by advertised field: a field condition with a quoted value, under any lower-case
  name or alias the registry advertises for the resource type, selects exactly the items
  whose extracted text contains the value, ignoring case. The value may hold anything but a
  double quote and the separator of OR groups.
\<close>
theorem search_by_advertised_field:
  assumes "(k, d) \<in> set (getFieldsForResource rt)" "n \<in> set (k # aliases d)" "lower n = n"
    and "term_ok (QuotedField n v)" "extractor d item = Some (JStr x)"
  shows "createFilter mk rx rt (n @ '':'' @ [CHR 0x22] @ v @ [CHR 0x22]) item =
    Some (str_includes (lower x) (lower v))"
proof -
  have "query_ok [[QuotedField n v]]" using assms(4) by (simp add: query_ok_def)
  from createFilter_query [OF this, of mk rx rt item] show ?thesis
    using matchCondition_field [OF advertised_found [OF assms(1-3)] assms(5), of rx v] assms(3)
    by (simp add: query_text_def matchGroups_def)
qed

theorem search_by_advertised_field_witness:
  "createFilter (\<lambda>p f. Some (p, f)) (\<lambda>(p, f) s. str_includes s p) ''namespaces'' (''phase'' @ '':'' @ [CHR 0x22] @ ''term'' @ [CHR 0x22])
     (JObj [(''status'', JObj [(''phase'', JStr ''Terminating'')])]) = Some True"
proof -
  let ?d = "field (\<lambda>item. path_str item [''status'', ''phase''] ''Unknown'') [''phase'', ''state'']"
  have mem: "(''status'', ?d) \<in> set (getFieldsForResource ''namespaces'')"
    by (simp add: registry_at namespaceFields_def)
  have low: "lower ''phase'' = ''phase''" and ok: "term_ok (QuotedField ''phase'' ''term'')"
    and hit: "str_includes (lower ''Terminating'') (lower ''term'')" by code_simp+
  have x: "extractor ?d (JObj [(''status'', JObj [(''phase'', JStr ''Terminating'')])]) = Some (JStr ''Terminating'')"
    by (simp add: js_defs)
  show ?thesis using search_by_advertised_field [OF mem _ low ok x] hit by simp
qed

text \<open>
  C24: parsing the text of a query written in the documented syntax gives back its groups and its
  conditions, in order, whatever the compiler of regular expressions accepts (a pattern it rejects
  is searched for as text). The forms are words, \<open>/pattern/flags\<close>, \<open>name:value\<close>, values in double or
  single quotes, and \<open>name:/pattern/flags\<close>, joined by blanks and by OR. What the parser cannot read
  is left out: a name is a run of word characters and flags are of \<open>gimsuy\<close>; a word holds no colon, does not start with a slash and is not OR; a plain value holds
  no comma and starts with no quote or slash; a quoted value does not hold its quote; a pattern holds
  no line break and no slash that would end it; and no quoted value or pattern holds the separator of
  the groups, at which the parser splits before it looks at quotes.
\<close>
theorem query_parse_roundtrip:
  assumes "query_ok gs"
  shows "parseQuery mk (query_text gs) = map (map (term_condition mk)) gs"
  by (rule query_roundtrip [OF assms])

theorem query_parse_roundtrip_witness:
  "parseQuery (\<lambda>p f. Some (p, f))
     (query_text [[Word ''web'', QuotedField ''status'' ''not ready''],
        [BareRegex ''^/api'' '''', RegexField ''name'' ''^a'' ''i'']]) =
   [[Plain (TextVal ''web''), Field ''status'' (TextVal ''not ready'')],
    [Plain (RegexVal (''^/api'', '''')), Field ''name'' (RegexVal (''^a'', ''i''))]]"
  by (subst query_parse_roundtrip) code_simp+

text \<open>
  Quoted separator misread: a quoted value that holds the separator of the groups is cut in two.
\<close>
theorem quoted_separator_misread:
  "split_or [] (''name:'' @ [CHR 0x22] @ ''a OR b'' @ [CHR 0x22]) =
     [''name:'' @ [CHR 0x22] @ ''a'', ''b'' @ [CHR 0x22]]"
  by code_simp

text \<open>
  C9: the parser returns no condition only for a blank query, and no group
  it returns is empty; so a query that says something never turns into the filter that
  matches everything.
\<close>
theorem query_never_dropped:
  "(parseQuery mk q = [] \<longleftrightarrow> trim q = []) \<and> [] \<notin> set (parseQuery mk q)"
  using parseQuery_empty parseQuery_groups_nonempty by blast

text \<open>
  Hyphenated alias misread: the registry advertises names with a hyphen for services, but a
  field name of the parser is a run of word characters, so the condition is read as a search
  for part of the name and a condition on another field.
\<close>
theorem hyphenated_alias_misread:
  "''cluster-ip'' \<in> set (getAvailableFieldNames ''services'') \<and>
   parseQuery mk ''cluster-ip:10.0.0.1'' =
     [[Plain (TextVal ''cluster-i''), Field ''p'' (TextVal ''10.0.0.1'')]]"
proof
  show "''cluster-ip'' \<in> set (getAvailableFieldNames ''services'')"
    by (simp add: available_names registry_at serviceFields_names)
  show "parseQuery mk ''cluster-ip:10.0.0.1'' =
     [[Plain (TextVal ''cluster-i''), Field ''p'' (TextVal ''10.0.0.1'')]]"
    using parseQuery_single [of "''cluster-ip:10.0.0.1''" mk] parse_hyphenated [of mk]
    by (simp add: not_space_def is_space_def)
qed

text \<open>
  Inherited name throws: a condition on a name every object inherits makes the filter throw
  on every item, whatever the resource type.
\<close>
theorem inherited_name_throws:
  "createFilter mk rx rt ''constructor:x'' item = None \<and> createFilter mk rx rt ''__proto__:x'' item = None"
proof -
  have ok: "term_ok (UnquotedField ''constructor'' ''x'')" "term_ok (UnquotedField ''__proto__'' ''x'')"
    and low: "lower ''constructor'' \<in> set object_prototype_names" "lower ''__proto__'' \<in> set object_prototype_names"
    by code_simp+
  from filter_inherited [OF low(1) ok(1), of mk rx rt item]
    filter_inherited [OF low(2) ok(2), of mk rx rt item] show ?thesis by simp
qed

text \<open>
  Camel case alias unreachable: the lookup compares aliases with the lower-cased name, so the
  advertised alias \<open>numDrivers\<close> of CSI nodes finds nothing: a condition on it matches no item.
\<close>
theorem camel_case_alias_unreachable:
  "''numDrivers'' \<in> set (getAvailableFieldNames ''csinodes'') \<and>
   matchCondition rx item (Field ''numDrivers'' cv) ''csinodes'' = Some False"
  by (simp add: available_names registry_at csiNodeFields_names matchCondition_def csi_node_lookup)

end
