(* ===== verification/ResourceEvents.thy ===== *)
theory ResourceEvents
  imports JsValue
begin

text \<open>
  Watch events applied to a list of resources (\<open>hooks/useResourceEventHandler.tsx\<close> and
  \<open>arrayToMap\<close> of \<open>hooks/useResource.tsx\<close>). The resources a view shows are a \<open>Map\<close> from
  UID to resource. \<open>applyResourceEvents\<close> returns the very map it was given when no event
  changes it; the model has the contents of the map, not its identity.
\<close>

type_synonym resource_map = "(jsv, jsv) js_map"

datatype event_type = ADDED | MODIFIED | DELETED | OtherEvent string

record resource_event =
  type :: event_type
  resource :: jsv
  event_namespace :: "string option"

definition resource_uid :: "jsv \<Rightarrow> jsv" where  \<comment> \<open>\<open>resource?.metadata?.uid\<close>\<close>
  "resource_uid r = jopt (jopt r ''metadata'') ''uid''"

definition being_deleted :: "jsv \<Rightarrow> bool" where  \<comment> \<open>\<open>resource.metadata?.deletionTimestamp\<close>\<close>
  "being_deleted r = truthy (jopt (jopt r ''metadata'') ''deletionTimestamp'')"

section \<open>The batch handler\<close>

definition apply_event :: "resource_map \<Rightarrow> resource_event \<Rightarrow> resource_map" where
  "apply_event m e =
     (let uid = resource_uid (resource e); exists = map_has m uid in
      if \<not> truthy uid then m
      else if type e = ADDED \<and> exists then m
      else if type e = DELETED \<and> \<not> exists then m
      else if type e = MODIFIED \<and> \<not> exists \<and> being_deleted (resource e) then m
      else if type e \<noteq> ADDED \<and> type e \<noteq> MODIFIED \<and> type e \<noteq> DELETED then m
      else if type e = DELETED then map_delete uid m
      else map_set uid (resource e) m)"

definition applyResourceEvents :: "resource_map \<Rightarrow> resource_event list \<Rightarrow> resource_map" where
  "applyResourceEvents previous events = foldl apply_event previous events"

section \<open>The single-event handlers\<close>

definition handleResourceEvent :: "resource_event \<Rightarrow> resource_map \<Rightarrow> resource_map" where
  "handleResourceEvent event previous = applyResourceEvents previous [event]"

definition namespace_selected :: "string list \<Rightarrow> string option \<Rightarrow> bool" where
  "namespace_selected selectedNamespaces ns =
     (''*'' \<in> set selectedNamespaces \<or> selectedNamespaces = [] \<or>
      (case ns of Some n \<Rightarrow> n | None \<Rightarrow> '''') \<in> set selectedNamespaces)"

definition handleNamespacedEvent :: "string list \<Rightarrow> resource_event \<Rightarrow> resource_map \<Rightarrow> resource_map" where
  "handleNamespacedEvent selectedNamespaces event prev =
     (if \<not> namespace_selected selectedNamespaces (event_namespace event) then prev
      else (let uid = resource_uid (resource event) in
            if \<not> truthy uid then prev
            else (case type event of
                    ADDED \<Rightarrow> if map_has prev uid then prev else map_set uid (resource event) prev
                  | MODIFIED \<Rightarrow>
                      if map_has prev uid then map_set uid (resource event) prev
                      else if being_deleted (resource event) then prev
                      else map_set uid (resource event) prev
                  | DELETED \<Rightarrow> if \<not> map_has prev uid then prev else map_delete uid prev
                  | OtherEvent _ \<Rightarrow> prev)))"

section \<open>Lists\<close>

text \<open>\<open>arrayToMap\<close>: it throws on an item that is \<open>undefined\<close> or \<open>null\<close>.\<close>

definition arrayToMap :: "jsv list \<Rightarrow> resource_map option" where
  "arrayToMap items =
     fold (\<lambda>item acc. do { m \<leftarrow> acc; md \<leftarrow> jget item ''metadata'';
             let uid = jopt md ''uid'' in Some (if truthy uid then map_set uid item m else m) })
       items (Some [])"

section \<open>Abstract view\<close>

text \<open>
  What a view shows, as a partial function from UID to resource; \<open>abs_event\<close> is the
  effect of an event on it.
\<close>

definition abs_event :: "(jsv \<rightharpoonup> jsv) \<Rightarrow> resource_event \<Rightarrow> (jsv \<rightharpoonup> jsv)" where
  "abs_event s e =
     (let u = resource_uid (resource e) in
      if \<not> truthy u then s
      else (case type e of
              ADDED \<Rightarrow> (if s u = None then s(u \<mapsto> resource e) else s)
            | MODIFIED \<Rightarrow> (if s u = None \<and> being_deleted (resource e) then s else s(u \<mapsto> resource e))
            | DELETED \<Rightarrow> s(u := None)
            | OtherEvent _ \<Rightarrow> s))"

lemma apply_event_abs:
  assumes "map_wf m"
  shows "map_get (apply_event m e) = abs_event (map_get m) e"
proof -
  define g where "g = map_get m"
  have m: "map_has m u \<longleftrightarrow> g u \<noteq> None" "map_get (map_set u v m) = g(u \<mapsto> v)"
    "map_get (map_delete u m) = g(u := None)" "map_get m = g" for u v
    using assms by (auto simp: g_def map_has_def js.get_put js.get_del)
  show ?thesis
    by (cases "type e"; cases "g (resource_uid (resource e))")
       (simp_all add: apply_event_def abs_event_def Let_def m fun_upd_idem)
qed

lemma apply_event_wf: "map_wf m \<Longrightarrow> map_wf (apply_event m e)"
  by (simp add: apply_event_def Let_def js.wf_put js.wf_del)

interpretation handler: machine apply_event "\<lambda>m. distinct (map fst m)"
  by unfold_locales (rule apply_event_wf)

lemma applyResourceEvents_wf: "map_wf m \<Longrightarrow> map_wf (applyResourceEvents m es)"
  unfolding applyResourceEvents_def by (rule handler.run_good)

lemma applyResourceEvents_abs:
  "map_wf m \<Longrightarrow> map_get (applyResourceEvents m es) = foldl abs_event (map_get m) es"
  unfolding applyResourceEvents_def
  by (induction es arbitrary: m) (simp_all add: apply_event_abs apply_event_wf)

lemma handlers_agree:
  "handleNamespacedEvent ns e m =
     (if namespace_selected ns (event_namespace e) then handleResourceEvent e m else m)"
  by (cases "type e")
     (simp_all add: handleNamespacedEvent_def handleResourceEvent_def applyResourceEvents_def
        apply_event_def Let_def)

lemma applyResourceEvents_append:
  "applyResourceEvents m (es @ fs) = applyResourceEvents (applyResourceEvents m es) fs"
  by (simp add: applyResourceEvents_def)

section \<open>Replaying a journal over a list\<close>

text \<open>
  A list request races with the watch: the events received while it is in flight are kept and
  applied to its result, although the result may already contain some of them. \<open>happens\<close> is
  the server's own history: objects are created when absent, changed and deleted when present.
\<close>

fun happens :: "(jsv \<rightharpoonup> jsv) \<Rightarrow> resource_event \<Rightarrow> bool" where
  "happens s e =
     (let u = resource_uid (resource e) in
      truthy u \<and>
      (case type e of ADDED \<Rightarrow> s u = None | MODIFIED \<Rightarrow> s u \<noteq> None | DELETED \<Rightarrow> s u \<noteq> None | OtherEvent _ \<Rightarrow> False))"

fun history :: "(jsv \<rightharpoonup> jsv) \<Rightarrow> resource_event list \<Rightarrow> bool" where
  "history s [] = True"
| "history s (e # es) = (happens s e \<and> history (abs_event s e) es)"

declare happens.simps [simp del]

lemma history_append: "history s (es @ fs) \<longleftrightarrow> history s es \<and> history (foldl abs_event s es) fs"
  by (induction es arbitrary: s) auto

text \<open>
  The entry of one UID depends only on the events about it: \<open>entry_step\<close> is such an event's
  effect on the entry, \<open>entry_history\<close> the server's discipline for it.
\<close>

definition about :: "jsv \<Rightarrow> resource_event \<Rightarrow> bool" where
  "about u e \<longleftrightarrow> resource_uid (resource e) = u"

definition entry_step :: "jsv option \<Rightarrow> resource_event \<Rightarrow> jsv option" where
  "entry_step x e =
     (case type e of
        ADDED \<Rightarrow> (if x = None then Some (resource e) else x)
      | MODIFIED \<Rightarrow> (if x = None \<and> being_deleted (resource e) then None else Some (resource e))
      | DELETED \<Rightarrow> None
      | OtherEvent _ \<Rightarrow> x)"

fun entry_history :: "jsv option \<Rightarrow> resource_event list \<Rightarrow> bool" where
  "entry_history x [] = True"
| "entry_history x (e # es) =
     ((case type e of ADDED \<Rightarrow> x = None | MODIFIED \<Rightarrow> x \<noteq> None | DELETED \<Rightarrow> x \<noteq> None | OtherEvent _ \<Rightarrow> False) \<and>
      entry_history (entry_step x e) es)"

lemma abs_event_entry:
  "truthy u \<Longrightarrow> abs_event s e u = (if about u e then entry_step (s u) e else s u)"
  by (cases "type e") (auto simp: abs_event_def about_def entry_step_def Let_def)

lemma abs_event_falsy: "\<not> truthy u \<Longrightarrow> abs_event s e u = s u"
  by (cases "type e") (auto simp: abs_event_def Let_def)

lemma abs_events_entry:
  "truthy u \<Longrightarrow> foldl abs_event s es u = foldl entry_step (s u) (filter (about u) es)"
  by (induction es arbitrary: s) (simp_all add: abs_event_entry)

lemma abs_events_falsy: "\<not> truthy u \<Longrightarrow> foldl abs_event s es u = s u"
  by (induction es arbitrary: s) (simp_all add: abs_event_falsy)

lemma history_entry: "truthy u \<Longrightarrow> history s es \<Longrightarrow> entry_history (s u) (filter (about u) es)"
proof (induction es arbitrary: s)
  case (Cons e es)
  have "entry_history (abs_event s e u) (filter (about u) es)"
    by (rule Cons.IH) (use Cons.prems in simp_all)
  moreover have "resource_uid (resource e) = u" if "about u e" using that by (simp add: about_def)
  ultimately show ?case using Cons.prems
    by (cases "about u e"; cases "type e") (simp_all add: abs_event_entry happens.simps)
qed simp

lemma entry_after_delete:
  assumes "list_ex (\<lambda>e. type e = DELETED) es"
  shows "foldl entry_step x es = foldl entry_step y es"
proof -
  obtain ps d qs where "es = ps @ d # qs" and d: "type d = DELETED"
    using assms by (auto simp: list_ex_iff dest: split_list)
  then show ?thesis by (simp add: entry_step_def)
qed

lemma entry_modified:
  assumes "\<forall>e \<in> set es. type e = MODIFIED" "es \<noteq> []" "x \<noteq> None" "y \<noteq> None"
  shows "foldl entry_step x es = foldl entry_step y es \<and> foldl entry_step x es \<noteq> None"
proof -
  have some: "(\<forall>e \<in> set es. type e = MODIFIED) \<Longrightarrow> z \<noteq> None \<Longrightarrow> foldl entry_step z es \<noteq> None" for z es
    by (induction es arbitrary: z) (auto simp: entry_step_def)
  obtain e es' where "es = e # es'" using assms(2) by (cases es) auto
  moreover from this assms have "entry_step x e = Some (resource e)" "entry_step y e = Some (resource e)"
    by (auto simp: entry_step_def)
  ultimately show ?thesis using some [of es' "Some (resource e)"] assms(1) by simp
qed

lemma entry_history_no_delete:
  "entry_history x es \<Longrightarrow> \<not> list_ex (\<lambda>e. type e = DELETED) es \<Longrightarrow> x \<noteq> None \<Longrightarrow> \<forall>e \<in> set es. type e = MODIFIED"
proof (induction es arbitrary: x)
  case (Cons e es)
  then have "type e = MODIFIED" by (cases "type e") auto
  with Cons show ?case by (simp add: entry_step_def)
qed simp

lemma entry_replay:
  assumes "entry_history x es"
  shows "foldl entry_step (foldl entry_step x es) es = foldl entry_step x es"
proof (cases "list_ex (\<lambda>e. type e = DELETED) es")
  case True
  then show ?thesis by (rule entry_after_delete)
next
  case no_del: False
  show ?thesis
  proof (cases es)
    case (Cons e es')
    show ?thesis
    proof (cases x)
      case None
      with assms no_del Cons have e: "type e = ADDED" by (cases "type e") auto
      with assms None Cons have h: "entry_history (Some (resource e)) es'" by (simp add: entry_step_def)
      have mods: "\<forall>e \<in> set es'. type e = MODIFIED"
        by (rule entry_history_no_delete [OF h]) (use no_del Cons in simp_all)
      show ?thesis
      proof (cases "es' = []")
        case False
        from entry_modified [OF mods False, of "Some (resource e)" "Some (resource e)"]
        obtain z where z: "foldl entry_step (Some (resource e)) es' = Some z" by auto
        with entry_modified [OF mods False, of "Some z" "Some (resource e)"] None Cons e show ?thesis
          by (simp add: entry_step_def)
      qed (use None Cons e in \<open>simp add: entry_step_def\<close>)
    next
      case (Some y)
      then have "\<forall>e \<in> set es. type e = MODIFIED" using assms no_del entry_history_no_delete by blast
      from entry_modified [OF this] Cons Some show ?thesis by blast
    qed
  qed simp
qed

lemma replay_converges:
  assumes "history s (as @ bs)"
  shows "foldl abs_event (foldl abs_event s as) (as @ bs) = foldl abs_event s (as @ bs)"
proof
  fix u
  have "foldl abs_event (foldl abs_event s as) as u = foldl abs_event s as u" for u
  proof (cases "truthy u")
    case True
    have "history s as" using assms by (simp add: history_append)
    then have "entry_history (s u) (filter (about u) as)" by (rule history_entry [OF True])
    then show ?thesis using entry_replay by (simp add: abs_events_entry [OF True])
  qed (simp add: abs_events_falsy)
  then have "foldl abs_event (foldl abs_event s as) as = foldl abs_event s as" by blast
  then show "foldl abs_event (foldl abs_event s as) (as @ bs) u = foldl abs_event s (as @ bs) u" by simp
qed

section \<open>Properties\<close>

text \<open>
  C2: a list taken after some of the watch events, with the whole
  journal of events replayed over it, shows the state the server reaches after all of them:
  replaying events the list already contains neither loses an update, nor resurrects a deleted
  resource, nor drops a new one. The events are any history the server can have.
\<close>
theorem list_watch_converges:
  assumes "history s (seen @ later)" "map_wf m" "map_get m = foldl abs_event s seen"
  shows "map_get (applyResourceEvents m (seen @ later)) = foldl abs_event s (seen @ later)"
  using applyResourceEvents_abs [OF assms(2)] replay_converges [OF assms(1)] assms(3) by simp

theorem list_watch_converges_witness:
  "map_get (applyResourceEvents [(JStr ''a'', JObj [(''metadata'', JObj [(''uid'', JStr ''a'')])])]
     ([\<lparr>type = ADDED, resource = JObj [(''metadata'', JObj [(''uid'', JStr ''a'')])], event_namespace = None\<rparr>] @
      [\<lparr>type = DELETED, resource = JObj [(''metadata'', JObj [(''uid'', JStr ''a'')])], event_namespace = None\<rparr>]))
   = Map.empty"
proof -
  let ?r = "JObj [(''metadata'', JObj [(''uid'', JStr ''a'')])]"
  let ?add = "\<lparr>type = ADDED, resource = ?r, event_namespace = None\<rparr>"
  let ?del = "\<lparr>type = DELETED, resource = ?r, event_namespace = None\<rparr>"
  have u: "resource_uid ?r = JStr ''a''" by (simp add: resource_uid_def jopt_def)
  have h: "history Map.empty ([?add] @ [?del])"
    by (simp add: happens.simps abs_event_def u)
  have m: "map_get [(JStr ''a'', ?r)] = foldl abs_event Map.empty [?add]"
    by (simp add: abs_event_def u Let_def)
  from list_watch_converges [OF h _ m] show ?thesis by (simp add: abs_event_def u Let_def)
qed

text \<open>
  C35: the map under a sequence of events is the abstract state under it,
  however the sequence is cut into batches, and the map keeps one entry per UID.
\<close>
theorem event_batches_refine:
  assumes "map_wf m"
  shows "map_wf (foldl applyResourceEvents m batches) \<and>
    map_get (foldl applyResourceEvents m batches) = foldl abs_event (map_get m) (concat batches)"
  using assms
proof (induction batches arbitrary: m)
  case (Cons b bs)
  then show ?case using applyResourceEvents_wf [of m b] applyResourceEvents_abs [of m b] by simp
qed simp

theorem event_batches_refine_witness:
  "map_wf (foldl applyResourceEvents []
     [[\<lparr>type = ADDED, resource = JObj [(''metadata'', JObj [(''uid'', JStr ''a'')])], event_namespace = None\<rparr>], []])"
  by (rule conjunct1 [OF event_batches_refine]) simp

text \<open>
  Namespaced handler agrees: the single-event handler for selected namespaces, written
  out case by case, does to an event of a selected namespace what the batch handler does,
  and ignores every other event.
\<close>
theorem namespaced_handler_agrees:
  "handleNamespacedEvent selectedNamespaces e m =
     (if namespace_selected selectedNamespaces (event_namespace e) then applyResourceEvents m [e] else m)"
  by (simp add: handlers_agree handleResourceEvent_def)

end
