(* ===== verification/ResourceSync.thy ===== *)
theory ResourceSync
  imports ResourceEvents
begin

text \<open>
  One mounted instance of the resource hook (\<open>createNamespacedResourceHook\<close> of
  \<open>hooks/useResource.tsx\<close>): it lists the resources of its scope while the watch delivers
  events, and shows pages as they arrive. \<open>view_key\<close> stands for the pair of \<open>dataKey\<close>
  (context and resource type) and \<open>scopeKey\<close>. The steps are the code's callbacks: the start of
  \<open>fetchData\<close>, a \<open>list-page\<close> event, a batch of watch events, the completion of the list with
  its items or an error, and the effect's cleanup. Latency measurements, progress numbers and
  the snapshot cache are not part of this state (the cache has its own theory; here a step gets
  what it reads from it).
\<close>

type_synonym view_key = "string \<times> string"

record sync_env =
  key :: view_key
  current_context :: string
  scope :: "string list"

record hook_event =
  watch :: resource_event
  event_context :: "string option"

record sync =
  cancelled :: bool
  running :: bool
  journal :: "resource_event list option"
  partial :: resource_map
  keep_snapshot :: bool
  refreshing :: bool
  loading :: bool
  list_error :: "string option"
  snapshot :: "view_key \<times> resource_map"
  loaded_scope :: "view_key option"

definition broad :: "sync_env \<Rightarrow> bool" where
  "broad env = (scope env = [''''])"

section \<open>Steps\<close>

text \<open>\<open>fetchData\<close> up to the request; \<open>cached\<close> is \<open>readResourceSnapshot(cacheKey)\<close>.\<close>

definition start_fetch :: "sync_env \<Rightarrow> resource_map option \<Rightarrow> sync \<Rightarrow> sync" where
  "start_fetch env cached s =
     (if cancelled s \<or> running s then s
      else (let keep = ((case cached of Some m \<Rightarrow> m \<noteq> [] | None \<Rightarrow> False) \<or> loaded_scope s = Some (key env)) in
        s\<lparr>running := True, journal := Some [], partial := [], keep_snapshot := keep, refreshing := keep,
          snapshot := (case cached of
                         Some m \<Rightarrow> (if fst (snapshot s) = key env then snapshot s else (key env, m))
                       | None \<Rightarrow> snapshot s),
          loading := True, list_error := None\<rparr>))"

text \<open>The listener for \<open>list-page\<close>; \<open>active\<close> is \<open>activeRequests.has(event.requestId)\<close>.\<close>

definition add_page :: "resource_map \<Rightarrow> jsv list \<Rightarrow> resource_map" where
  "add_page m items =
     fold (\<lambda>item m. let uid = resource_uid item in if truthy uid then map_set uid item m else m) items m"

definition page_arrives :: "sync_env \<Rightarrow> bool \<Rightarrow> string option \<Rightarrow> jsv list \<Rightarrow> sync \<Rightarrow> sync" where
  "page_arrives env active ctx items s =
     (if cancelled s \<or> \<not> active \<or> (case ctx of Some c \<Rightarrow> c \<noteq> [] \<and> c \<noteq> current_context env | None \<Rightarrow> False)
      then s
      else (let p = add_page (partial s) items;
                j = (case journal s of Some es \<Rightarrow> es | None \<Rightarrow> [])
            in s\<lparr>partial := p,
                 snapshot := (if keep_snapshot s then snapshot s else (key env, applyResourceEvents p j))\<rparr>))"

text \<open>\<open>handleEvents\<close>: the events of this context and scope are journalled and applied.\<close>

definition event_matches :: "sync_env \<Rightarrow> hook_event \<Rightarrow> bool" where
  "event_matches env e =
     (if (case event_context e of Some c \<Rightarrow> c \<noteq> [] \<and> c \<noteq> current_context env | None \<Rightarrow> False) then False
      else (let ns = jcoalesce (jopt (jopt (resource (watch e)) ''metadata'') ''namespace'')
                       (case event_namespace (watch e) of Some n \<Rightarrow> JStr n | None \<Rightarrow> JUndef)
            in (broad env \<or> ns \<in> JStr ` set (scope env)) \<and> truthy (resource_uid (resource (watch e)))))"

definition watch_arrives :: "sync_env \<Rightarrow> hook_event list \<Rightarrow> sync \<Rightarrow> sync" where
  "watch_arrives env events s =
     (let matching = map watch (filter (event_matches env) events) in
      s\<lparr>journal := map_option (\<lambda>j. j @ matching) (journal s),
        snapshot := (if fst (snapshot s) = key env
                     then (key env, applyResourceEvents (snd (snapshot s)) matching)
                     else snapshot s)\<rparr>)"

text \<open>The \<open>finally\<close> block of \<open>fetchData\<close>.\<close>

definition finish_fetch :: "sync \<Rightarrow> sync" where
  "finish_fetch s =
     s\<lparr>journal := None, running := False, loading := (if cancelled s then loading s else False)\<rparr>"

text \<open>
  The list failed: \<open>denied\<close> is the condition under which the hook falls back to the selected
  namespaces instead of reporting the error (\<open>broad && !selection.has('*') && forbidden\<close>).
\<close>

definition fetch_failed :: "bool \<Rightarrow> string \<Rightarrow> sync \<Rightarrow> sync" where
  "fetch_failed denied msg s =
     finish_fetch (if cancelled s \<or> denied then s else s\<lparr>list_error := Some msg\<rparr>)"

definition fetch_done :: "sync_env \<Rightarrow> jsv list \<Rightarrow> sync \<Rightarrow> sync" where
  "fetch_done env items s =
     (if cancelled s then finish_fetch s
      else (case arrayToMap items of
              None \<Rightarrow> fetch_failed False ''TypeError'' s
            | Some m \<Rightarrow>
                finish_fetch (s\<lparr>snapshot := (key env, applyResourceEvents m (case journal s of Some j \<Rightarrow> j | None \<Rightarrow> [])),
                               loaded_scope := Some (key env), list_error := None\<rparr>)))"

definition cleanup :: "sync \<Rightarrow> sync" where
  "cleanup s = s\<lparr>cancelled := True\<rparr>"

text \<open>\<open>data\<close>: what the hook hands out, for the namespaces the user selected.\<close>

definition shown :: "sync_env \<Rightarrow> string list \<Rightarrow> sync \<Rightarrow> jsv list" where
  "shown env selected s =
     (if fst (snapshot s) \<noteq> key env \<or> selected = [] then []
      else filter (\<lambda>item. ''*'' \<in> set selected \<or>
              jopt (jopt item ''metadata'') ''namespace'' \<in> JStr ` set selected)
            (map snd (snd (snapshot s))))"

section \<open>What happens while a list is in flight\<close>

datatype in_flight =
    Page bool "string option" "jsv list"
  | Watch "hook_event list"

fun flight_step :: "sync_env \<Rightarrow> sync \<Rightarrow> in_flight \<Rightarrow> sync" where
  "flight_step env s (Page active ctx items) = page_arrives env active ctx items s"
| "flight_step env s (Watch events) = watch_arrives env events s"

fun flight_events :: "sync_env \<Rightarrow> in_flight \<Rightarrow> resource_event list" where
  "flight_events env (Page active ctx items) = []"
| "flight_events env (Watch events) = map watch (filter (event_matches env) events)"

lemma flight_step_frame [simp]:
  "cancelled (flight_step env s f) = cancelled s"
  "running (flight_step env s f) = running s"
  by (cases f; simp add: page_arrives_def watch_arrives_def Let_def)+

lemma flight_step_journal:
  "journal (flight_step env s f) = map_option (\<lambda>j. j @ flight_events env f) (journal s)"
  by (cases f; cases "journal s") (simp_all add: page_arrives_def watch_arrives_def Let_def)

lemma flight_journal:
  "journal s = Some j \<Longrightarrow>
   journal (foldl (flight_step env) s fs) = Some (j @ concat (map (flight_events env) fs)) \<and>
   cancelled (foldl (flight_step env) s fs) = cancelled s"
  by (induction fs arbitrary: s j) (simp_all add: flight_step_journal)

lemma arrayToMap_wf: "arrayToMap items = Some m \<Longrightarrow> map_wf m"
proof -
  have "fold (\<lambda>item acc. do { m \<leftarrow> acc; md \<leftarrow> jget item ''metadata'';
             let uid = jopt md ''uid'' in Some (if truthy uid then map_set uid item m else m) })
       items acc = Some m \<Longrightarrow> (\<And>m. acc = Some m \<Longrightarrow> map_wf m) \<Longrightarrow> map_wf m" for acc
    by (induction items arbitrary: acc) (fastforce simp: Let_def js.wf_put split: bind_splits if_splits)+
  from this [of "Some []"] show "arrayToMap items = Some m \<Longrightarrow> map_wf m" by (simp add: arrayToMap_def)
qed

lemma start_fetch_journal:
  "\<not> cancelled s \<Longrightarrow> \<not> running s \<Longrightarrow>
   journal (start_fetch env cached s) = Some [] \<and> \<not> cancelled (start_fetch env cached s)"
  by (simp add: start_fetch_def Let_def)

text \<open>A request from start to completion, with what arrives in between.\<close>

definition list_round :: "sync_env \<Rightarrow> resource_map option \<Rightarrow> in_flight list \<Rightarrow> jsv list \<Rightarrow> sync \<Rightarrow> sync" where
  "list_round env cached fs items s = fetch_done env items (foldl (flight_step env) (start_fetch env cached s) fs)"

definition flight_history :: "sync_env \<Rightarrow> in_flight list \<Rightarrow> resource_event list" where
  "flight_history env fs = concat (map (flight_events env) fs)"

lemma list_round_done:
  assumes "\<not> cancelled s" "\<not> running s" "arrayToMap items = Some m"
  shows "snapshot (list_round env cached fs items s) = (key env, applyResourceEvents m (flight_history env fs))"
    and "journal (list_round env cached fs items s) = None"
    and "\<not> running (list_round env cached fs items s)" "\<not> loading (list_round env cached fs items s)"
    and "list_error (list_round env cached fs items s) = None"
proof -
  let ?t = "foldl (flight_step env) (start_fetch env cached s) fs"
  have j: "journal ?t = Some (flight_history env fs)" and c: "\<not> cancelled ?t"
    using flight_journal [of "start_fetch env cached s" "[]" env fs] start_fetch_journal [of s env cached] assms(1,2)
    by (simp_all add: flight_history_def)
  show "snapshot (list_round env cached fs items s) = (key env, applyResourceEvents m (flight_history env fs))"
    "journal (list_round env cached fs items s) = None"
    "\<not> running (list_round env cached fs items s)" "\<not> loading (list_round env cached fs items s)"
    "list_error (list_round env cached fs items s) = None"
    using j c assms(3) by (simp_all add: list_round_def fetch_done_def finish_fetch_def)
qed

lemma later_watches:
  assumes "fst (snapshot s) = key env" "map_wf (snd (snapshot s))"
  shows "fst (snapshot (foldl (\<lambda>s es. watch_arrives env es s) s ws)) = key env \<and>
    map_get (snd (snapshot (foldl (\<lambda>s es. watch_arrives env es s) s ws))) =
      foldl abs_event (map_get (snd (snapshot s))) (flight_history env (map Watch ws))"
  using assms
proof (induction ws arbitrary: s)
  case (Cons w ws)
  let ?es = "map watch (filter (event_matches env) w)"
  have n: "snapshot (watch_arrives env w s) = (key env, applyResourceEvents (snd (snapshot s)) ?es)"
    using Cons.prems by (simp add: watch_arrives_def Let_def)
  from Cons.IH [of "watch_arrives env w s"] n applyResourceEvents_wf applyResourceEvents_abs Cons.prems
  show ?case by (simp add: flight_history_def)
qed (simp add: flight_history_def)

section \<open>Properties\<close>

text \<open>Concrete values for the witnesses: a view of pods that receives one addition.\<close>

definition sample_env :: sync_env where
  "sample_env = \<lparr>key = (''c/pods'', ''all''), current_context = ''c'', scope = ['''']\<rparr>"

definition sample_state :: sync where
  "sample_state = \<lparr>cancelled = False, running = False, journal = None, partial = [], keep_snapshot = False,
     refreshing = False, loading = False, list_error = None, snapshot = ((''c/pods'', ''all''), []),
     loaded_scope = None\<rparr>"

definition sample_pod :: jsv where
  "sample_pod = JObj [(''metadata'', JObj [(''uid'', JStr ''a'')])]"

definition sample_added :: hook_event where
  "sample_added = \<lparr>watch = \<lparr>type = ADDED, resource = sample_pod, event_namespace = None\<rparr>, event_context = None\<rparr>"

lemma sample_uid: "resource_uid sample_pod = JStr ''a''"
  by (simp add: sample_pod_def resource_uid_def jopt_def)

lemma sample_list: "arrayToMap [sample_pod] = Some [(JStr ''a'', sample_pod)]"
  by (simp add: sample_pod_def arrayToMap_def jget_def jopt_def Let_def)

lemma sample_flight: "flight_history sample_env [Watch [sample_added]] = [watch sample_added]"
  by (simp add: flight_history_def event_matches_def broad_def sample_env_def sample_added_def sample_uid)

text \<open>
  List round keeps events: however pages and watch batches arrive while a list is in flight,
  the view ends with the list's items and every matching event of the flight applied to them,
  in order, and the hook is no longer loading and shows no error.
\<close>
theorem list_round_keeps_events:
  assumes "\<not> cancelled s" "\<not> running s" "arrayToMap items = Some m"
  shows "snapshot (list_round env cached fs items s) = (key env, applyResourceEvents m (flight_history env fs)) \<and>
    journal (list_round env cached fs items s) = None \<and> \<not> loading (list_round env cached fs items s) \<and>
    list_error (list_round env cached fs items s) = None"
  using list_round_done [OF assms] by blast

theorem list_round_keeps_events_witness:
  "snapshot (list_round sample_env None [Watch [sample_added]] [] sample_state) =
     (key sample_env, [(JStr ''a'', sample_pod)])"
proof -
  have s: "\<not> cancelled sample_state" "\<not> running sample_state" by (simp_all add: sample_state_def)
  have l: "arrayToMap [] = Some []" by (simp add: arrayToMap_def)
  have "applyResourceEvents [] [watch sample_added] = [(JStr ''a'', sample_pod)]"
    by (simp add: applyResourceEvents_def apply_event_def sample_added_def sample_uid map_has_def)
  with list_round_keeps_events [OF s l, of sample_env None "[Watch [sample_added]]"] sample_flight
  show ?thesis by simp
qed

text \<open>
  C3: when the matching events of the flight and those delivered afterwards are a
  history of the server from the state the request started in, and the list is the server's state
  at some point of the flight, the view shows the state at the end of the history.
\<close>
theorem view_converges:
  assumes "\<not> cancelled s" "\<not> running s" "arrayToMap items = Some m"
    and "flight_history env fs = seen @ later" "map_get m = foldl abs_event s0 seen"
    and "history s0 (flight_history env (fs @ map Watch ws))"
  shows "map_get (snd (snapshot (foldl (\<lambda>s es. watch_arrives env es s) (list_round env cached fs items s) ws))) =
    foldl abs_event s0 (flight_history env (fs @ map Watch ws))"
proof -
  note res = list_round_done(1) [OF assms(1-3), of env cached fs]
  note wf = arrayToMap_wf [OF assms(3)]
  have "history s0 (seen @ later)" using assms(4,6) by (simp add: flight_history_def history_append)
  then have "map_get (applyResourceEvents m (seen @ later)) = foldl abs_event s0 (seen @ later)"
    using applyResourceEvents_abs [OF wf] replay_converges assms(5) by simp
  with later_watches [of "list_round env cached fs items s" env ws] res applyResourceEvents_wf [OF wf] assms(4)
  show ?thesis by (simp add: flight_history_def)
qed

theorem view_converges_witness:
  "map_get (snd (snapshot (list_round sample_env None [Watch [sample_added]] [sample_pod] sample_state))) =
     [JStr ''a'' \<mapsto> sample_pod]"
proof -
  have s: "\<not> cancelled sample_state" "\<not> running sample_state" by (simp_all add: sample_state_def)
  have f: "flight_history sample_env [Watch [sample_added]] = [watch sample_added] @ []"
    by (simp add: sample_flight)
  have e: "abs_event Map.empty (watch sample_added) = [JStr ''a'' \<mapsto> sample_pod]"
    by (simp add: abs_event_def sample_added_def sample_uid Let_def)
  have m: "map_get [(JStr ''a'', sample_pod)] = foldl abs_event Map.empty [watch sample_added]"
    by (simp add: e)
  have h0: "history Map.empty [watch sample_added]"
    by (simp add: happens.simps sample_added_def sample_uid)
  have h: "history Map.empty (flight_history sample_env ([Watch [sample_added]] @ map Watch []))"
    using h0 by (simp add: sample_flight)
  from view_converges [OF s sample_list f m h, of None] show ?thesis
    by (simp add: sample_flight e)
qed

text \<open>
  Cancelled view frozen: after the effect's cleanup, neither pages nor the end of the request
  change what the hook shows, and a list that fails never replaces what is shown.
\<close>
theorem cancelled_view_frozen:
  "snapshot (page_arrives env active ctx items (cleanup s)) = snapshot s \<and>
   snapshot (fetch_done env items (cleanup s)) = snapshot s \<and>
   snapshot (fetch_failed denied msg s) = snapshot s"
  by (simp add: page_arrives_def fetch_done_def fetch_failed_def finish_fetch_def cleanup_def)

end
