(* ===== verification/NamespaceQuery.thy ===== *)
theory NamespaceQuery
  imports Complex_Main JsStrings
begin

text \<open>
  Choosing and fetching the scope of a namespaced list (\<open>utils/namespaceQuery.ts\<close>): which
  namespaces to query for a selection, and the pool of workers that lists them. Times are
  milliseconds; measured durations are rationals. The size estimate \<open>observeNamespaceList\<close>
  takes the encoded size of an item as a parameter.
\<close>

definition NAMESPACE_QUERY_CONCURRENCY :: nat where "NAMESPACE_QUERY_CONCURRENCY = 4"
definition MiB :: nat where "MiB = 1024 * 1024"
definition OBSERVATION_TTL :: int where "OBSERVATION_TTL = 5 * 60000"

record observation =
  count :: nat
  bytes :: nat
  durationMs :: rat
  observedAt :: int

section \<open>Selections\<close>

datatype ns_selection = NoSelection | OneNamespace string | Namespaces "string list"

definition namespaceSelection :: "ns_selection \<Rightarrow> string list" where
  "namespaceSelection v =
     (case v of
        NoSelection \<Rightarrow> []
      | _ \<Rightarrow> (let values = (case v of Namespaces xs \<Rightarrow> xs | OneNamespace x \<Rightarrow> [x] | NoSelection \<Rightarrow> []) in
             if ''*'' \<in> set values \<or> '''' \<in> set values then [''*''] else sort (uniq values)))"

record scope_options =
  broadDenied :: bool
  reuseBroad :: bool
  scopedDurationMs :: "rat option"
  now :: int

definition coverage :: "string list \<Rightarrow> string list \<Rightarrow> rat" where
  "coverage selected available =
     (let known = uniq (filter (\<lambda>ns. ns \<noteq> '''' \<and> ns \<noteq> ''*'') available) in
      if known \<noteq> [] then of_nat (length (filter (\<lambda>ns. ns \<in> set known) selected)) / of_nat (length known)
      else 0)"

definition div_up :: "nat \<Rightarrow> nat \<Rightarrow> nat" where  \<comment> \<open>\<open>Math.ceil(a / b)\<close>\<close>
  "div_up a b = (a + b - 1) div b"

definition chooseNamespaceScope ::
    "string list \<Rightarrow> string list \<Rightarrow> observation option \<Rightarrow> scope_options \<Rightarrow> string list" where
  "chooseNamespaceScope selected available obs options =
     (if selected = [] then []
      else if ''*'' \<in> set selected then ['''']
      else if broadDenied options then selected
      else (let cov = coverage selected available;
                n = length selected;
                unknown = (if n \<ge> 4 \<and> cov \<ge> 1 / 2 then [''''] else selected)
        in case obs of
             None \<Rightarrow> unknown
           | Some x \<Rightarrow>
               if \<not> now options - observedAt x < OBSERVATION_TTL then unknown
               else (let small = count x \<le> 500 \<and> bytes x \<le> 5 * MiB \<and> durationMs x \<le> 2000;
                         scopedEstimate = (case scopedDurationMs options of
                             None \<Rightarrow> 2000
                           | Some d \<Rightarrow> of_nat (div_up n NAMESPACE_QUERY_CONCURRENCY) * d)
                     in if small \<and> (n \<ge> 2 \<or> reuseBroad options) then ['''']
                        else if n \<ge> 4 \<and> cov \<ge> 4 / 5 \<and> count x \<le> 5000 \<and> bytes x \<le> 20 * MiB \<and>
                                durationMs x \<le> scopedEstimate then ['''']
                        else selected)))"

section \<open>Size estimate\<close>

definition sample_size :: "nat \<Rightarrow> nat" where "sample_size n = min n 32"

definition sample_index :: "nat \<Rightarrow> nat \<Rightarrow> nat" where
  "sample_index n i = (if sample_size n = n then i else (i * n) div sample_size n)"

definition observeNamespaceList :: "('a \<Rightarrow> nat) \<Rightarrow> 'a list \<Rightarrow> rat \<Rightarrow> int \<Rightarrow> observation" where
  "observeNamespaceList encoded items duration t =
     (let n = length items; k = sample_size n;
          (largest, total) = foldl (\<lambda>(largest, total) i.
              let b = encoded (items ! sample_index n i) in (max largest b, total + b + (if i \<noteq> 0 then 1 else 0)))
            (0, 2) [0..<k]
      in \<lparr>count = n, bytes = (if n \<le> k then total else 2 + n * (largest + 1)), durationMs = duration, observedAt = t\<rparr>)"

section \<open>Permission errors\<close>

text \<open>\<open>/\bw\b/i\<close> for a lower-case word \<open>w\<close>; \<open>prev\<close> is whether a word character precedes.\<close>

fun word_in :: "string \<Rightarrow> bool \<Rightarrow> string \<Rightarrow> bool" where
  "word_in w prev [] = False"
| "word_in w prev (c # cs) =
     ((\<not> prev \<and> prefix w (map to_lower (c # cs)) \<and>
       (case drop (length w) (c # cs) of [] \<Rightarrow> True | d # _ \<Rightarrow> \<not> is_word d))
      \<or> word_in w (is_word c) cs)"

definition isNamespaceForbidden :: "string \<Rightarrow> bool" where
  "isNamespaceForbidden error \<longleftrightarrow> word_in ''forbidden'' False error \<or> word_in ''403'' False error"

section \<open>The worker pool\<close>

text \<open>
  \<open>listNamespaceScope\<close> as a step relation; \<open>outcome i\<close> is what the one call for index \<open>i\<close>
  settles with. A worker is between calls (\<open>Idle\<close>), waits for the
  list of one index (\<open>Running\<close>), or has settled. Every other step of the program is the
  environment's: the request ceases to be current.
\<close>

datatype worker = Idle | Running nat | Finished | Rejected string

record 'a pool =
  next_index :: nat
  failed :: bool
  is_current :: bool
  results :: "nat \<rightharpoonup> 'a list"
  workers :: "worker list"

definition pool_start :: "'n list \<Rightarrow> 'a pool" where
  "pool_start namespaces =
     \<lparr>next_index = 0, failed = False, is_current = True, results = Map.empty,
      workers = replicate (min NAMESPACE_QUERY_CONCURRENCY (length namespaces)) Idle\<rparr>"

definition may_claim :: "'n list \<Rightarrow> 'a pool \<Rightarrow> bool" where
  "may_claim namespaces s \<longleftrightarrow> \<not> failed s \<and> is_current s \<and> next_index s < length namespaces"

inductive pool_step :: "(nat \<Rightarrow> string + 'a list) \<Rightarrow> 'n list \<Rightarrow> 'a pool \<Rightarrow> 'a pool \<Rightarrow> bool"
  for outcome :: "nat \<Rightarrow> string + 'a list" and namespaces :: "'n list" where
  claim: "w < length (workers s) \<Longrightarrow> workers s ! w = Idle \<Longrightarrow> may_claim namespaces s \<Longrightarrow>
    pool_step outcome namespaces s
      (s\<lparr>next_index := next_index s + 1, workers := (workers s)[w := Running (next_index s)]\<rparr>)"
| leave: "w < length (workers s) \<Longrightarrow> workers s ! w = Idle \<Longrightarrow> \<not> may_claim namespaces s \<Longrightarrow>
    pool_step outcome namespaces s (s\<lparr>workers := (workers s)[w := Finished]\<rparr>)"
| resolve: "w < length (workers s) \<Longrightarrow> workers s ! w = Running i \<Longrightarrow> outcome i = Inr items \<Longrightarrow>
    pool_step outcome namespaces s
      (s\<lparr>results := (results s)(i \<mapsto> items), workers := (workers s)[w := Idle]\<rparr>)"
| reject: "w < length (workers s) \<Longrightarrow> workers s ! w = Running i \<Longrightarrow> outcome i = Inl err \<Longrightarrow>
    pool_step outcome namespaces s (s\<lparr>failed := True, workers := (workers s)[w := Rejected err]\<rparr>)"
| outdate: "pool_step outcome namespaces s (s\<lparr>is_current := False\<rparr>)"

inductive_cases pool_stepE: "pool_step outcome namespaces s t"

fun has_settled :: "worker \<Rightarrow> bool" where
  "has_settled Finished = True"
| "has_settled (Rejected _) = True"
| "has_settled _ = False"

definition settled :: "'a pool \<Rightarrow> bool" where
  "settled s \<longleftrightarrow> list_all has_settled (workers s)"

text \<open>After \<open>Promise.allSettled\<close>: the first rejection, or the flattened results.\<close>

fun first_rejection :: "worker list \<Rightarrow> string option" where
  "first_rejection [] = None"
| "first_rejection (Rejected e # ws) = Some e"
| "first_rejection (_ # ws) = first_rejection ws"

definition pool_result :: "('a \<Rightarrow> bool) \<Rightarrow> 'n list \<Rightarrow> 'a pool \<Rightarrow> string + 'a list" where
  "pool_result present namespaces s =
     (case first_rejection (workers s) of
        Some e \<Rightarrow> Inl e
      | None \<Rightarrow> Inr (filter present
          (concat (map (\<lambda>i. case results s i of Some xs \<Rightarrow> xs | None \<Rightarrow> []) [0..<length namespaces]))))"

section \<open>The invariant of the pool\<close>

definition pool_inv :: "(nat \<Rightarrow> string + 'a list) \<Rightarrow> 'n list \<Rightarrow> 'a pool \<Rightarrow> bool" where
  "pool_inv outcome namespaces s \<longleftrightarrow>
     length (workers s) = min NAMESPACE_QUERY_CONCURRENCY (length namespaces) \<and>
     next_index s \<le> length namespaces \<and>
     (\<forall>w < length (workers s). \<forall>i. workers s ! w = Running i \<longrightarrow> i < next_index s \<and> results s i = None) \<and>
     (\<forall>w < length (workers s). \<forall>v < length (workers s). \<forall>i.
        workers s ! w = Running i \<longrightarrow> workers s ! v = Running i \<longrightarrow> w = v) \<and>
     (\<forall>i xs. results s i = Some xs \<longrightarrow> i < next_index s \<and> outcome i = Inr xs) \<and>
     (\<forall>i < next_index s. results s i \<noteq> None \<or> Running i \<in> set (workers s) \<or>
        (\<exists>e. outcome i = Inl e \<and> Rejected e \<in> set (workers s))) \<and>
     (\<forall>e. Rejected e \<in> set (workers s) \<longrightarrow> failed s \<and> (\<exists>i < next_index s. outcome i = Inl e)) \<and>
     (failed s \<longrightarrow> (\<exists>e. Rejected e \<in> set (workers s))) \<and>
     (Finished \<in> set (workers s) \<longrightarrow> failed s \<or> \<not> is_current s \<or> next_index s = length namespaces)"

lemma pool_inv_start: "pool_inv outcome namespaces (pool_start namespaces)"
  by (auto simp: pool_inv_def pool_start_def)

lemma set_update_other: "w < length xs \<Longrightarrow> xs ! w \<noteq> x \<Longrightarrow> x \<in> set xs \<Longrightarrow> x \<in> set (xs[w := y])"
  by (metis in_set_conv_nth length_list_update nth_list_update_neq)

lemma set_update_new: "x \<in> set (xs[w := y]) \<Longrightarrow> x = y \<or> x \<in> set xs"
  using set_update_subset_insert by fastforce

lemma pool_invD:
  assumes "pool_inv outcome namespaces s"
  shows "length (workers s) = min NAMESPACE_QUERY_CONCURRENCY (length namespaces)"
    and "next_index s \<le> length namespaces"
    and "\<And>w i. w < length (workers s) \<Longrightarrow> workers s ! w = Running i \<Longrightarrow> i < next_index s \<and> results s i = None"
    and "\<And>w v i. w < length (workers s) \<Longrightarrow> v < length (workers s) \<Longrightarrow>
      workers s ! w = Running i \<Longrightarrow> workers s ! v = Running i \<Longrightarrow> w = v"
    and "\<And>i xs. results s i = Some xs \<Longrightarrow> i < next_index s \<and> outcome i = Inr xs"
    and "\<And>i. i < next_index s \<Longrightarrow> results s i \<noteq> None \<or> Running i \<in> set (workers s) \<or>
        (\<exists>e. outcome i = Inl e \<and> Rejected e \<in> set (workers s))"
    and "\<And>e. Rejected e \<in> set (workers s) \<Longrightarrow> failed s \<and> (\<exists>i < next_index s. outcome i = Inl e)"
    and "failed s \<Longrightarrow> \<exists>e. Rejected e \<in> set (workers s)"
    and "Finished \<in> set (workers s) \<Longrightarrow> failed s \<or> \<not> is_current s \<or> next_index s = length namespaces"
  using assms unfolding pool_inv_def by blast+

lemma set_update_keep: "w < length xs \<Longrightarrow> x \<in> set xs \<Longrightarrow> xs ! w = x \<or> x \<in> set (xs[w := y])"
  using set_update_other by metis

lemma inv_claim:
  assumes inv: "pool_inv outcome namespaces s" and w: "w < length (workers s)" "workers s ! w = Idle" "may_claim namespaces s"
  shows "pool_inv outcome namespaces (s\<lparr>next_index := next_index s + 1, workers := (workers s)[w := Running (next_index s)]\<rparr>)"
proof -
  note I = pool_invD [OF inv]
  note new = set_update_new [of _ "workers s" w "Running (next_index s)"]
  note keep = set_update_keep [OF w(1), of _ "Running (next_index s)"]
  have m: "Running (next_index s) \<in> set ((workers s)[w := Running (next_index s)])"
    using w(1) by (rule set_update_memI)
  have r: "results s (next_index s) = None" using I(5) by (cases "results s (next_index s)") auto
  show ?thesis
    unfolding pool_inv_def
  proof (intro conjI, goal_cases)
    case 1 then show ?case using I(1) by simp
  next
    case 2 then show ?case using w(3) by (simp add: may_claim_def)
  next
    case 3 then show ?case using I(3) r w(1) by (auto simp: nth_list_update less_Suc_eq)
  next
    case 4 then show ?case using I(4) I(3) [of _ "next_index s"] w(1) by (auto simp: nth_list_update)
  next
    case 5 then show ?case using I(5) by (auto simp: less_Suc_eq)
  next
    case 6 then show ?case using I(6) keep m w(2) by (auto simp: less_Suc_eq)
  next
    case 7 then show ?case using I(7) by (auto dest!: new) (meson less_SucI)
  next
    case 8 then show ?case using w(3) by (simp add: may_claim_def)
  next
    case 9 then show ?case using I(9) w(3) by (auto dest!: new simp: may_claim_def)
  qed
qed

lemma inv_leave:
  assumes inv: "pool_inv outcome namespaces s" and w: "w < length (workers s)" "workers s ! w = Idle" "\<not> may_claim namespaces s"
  shows "pool_inv outcome namespaces (s\<lparr>workers := (workers s)[w := Finished]\<rparr>)"
proof -
  note I = pool_invD [OF inv]
  note new = set_update_new [of _ "workers s" w Finished]
  note keep = set_update_keep [OF w(1), of _ Finished]
  show ?thesis
    unfolding pool_inv_def
  proof (intro conjI, goal_cases)
    case 1 then show ?case using I(1) by simp
  next
    case 2 then show ?case using I(2) by simp
  next
    case 3 then show ?case using I(3) w(1) by (auto simp: nth_list_update)
  next
    case 4 then show ?case using I(4) w(1) by (auto simp: nth_list_update)
  next
    case 5 then show ?case using I(5) by simp
  next
    case 6 then show ?case using I(6) keep w(2) by simp (metis worker.distinct(1,5))
  next
    case 7 then show ?case using I(7) by (auto dest!: new)
  next
    case 8 then show ?case using I(8) keep w(2) by simp (metis worker.distinct(5))
  next
    case 9 then show ?case using I(2) w(3) by (auto simp: may_claim_def)
  qed
qed

lemma inv_resolve:
  assumes inv: "pool_inv outcome namespaces s" and w: "w < length (workers s)" "workers s ! w = Running i" "outcome i = Inr items"
  shows "pool_inv outcome namespaces (s\<lparr>results := (results s)(i \<mapsto> items), workers := (workers s)[w := Idle]\<rparr>)"
proof -
  note I = pool_invD [OF inv]
  note new = set_update_new [of _ "workers s" w Idle]
  note keep = set_update_keep [OF w(1), of _ Idle]
  show ?thesis
    unfolding pool_inv_def
  proof (intro conjI, goal_cases)
    case 1 then show ?case using I(1) by simp
  next
    case 2 then show ?case using I(2) by simp
  next
    case 3 then show ?case using I(3) I(4) w by (auto simp: nth_list_update)
  next
    case 4 then show ?case using I(4) w(1) by (auto simp: nth_list_update)
  next
    case 5 then show ?case using I(3,5) w by auto
  next
    case 6 then show ?case using I(6) keep w by simp (metis worker.distinct(9) worker.inject(1))
  next
    case 7 then show ?case using I(7) by (auto dest!: new)
  next
    case 8 then show ?case using I(8) keep w(2) by simp (metis worker.distinct(9))
  next
    case 9 then show ?case using I(9) by (auto dest!: new)
  qed
qed

lemma inv_reject:
  assumes inv: "pool_inv outcome namespaces s" and w: "w < length (workers s)" "workers s ! w = Running i" "outcome i = Inl err"
  shows "pool_inv outcome namespaces (s\<lparr>failed := True, workers := (workers s)[w := Rejected err]\<rparr>)"
proof -
  note I = pool_invD [OF inv]
  note new = set_update_new [of _ "workers s" w "Rejected err"]
  note keep = set_update_keep [OF w(1), of _ "Rejected err"]
  have m: "Rejected err \<in> set ((workers s)[w := Rejected err])"
    using w(1) by (rule set_update_memI)
  show ?thesis
    unfolding pool_inv_def
  proof (intro conjI, goal_cases)
    case 1 then show ?case using I(1) by simp
  next
    case 2 then show ?case using I(2) by simp
  next
    case 3 then show ?case using I(3) w(1) by (auto simp: nth_list_update)
  next
    case 4 then show ?case using I(4) w(1) by (auto simp: nth_list_update)
  next
    case 5 then show ?case using I(5) by simp
  next
    case 6 then show ?case using I(6) keep m w by simp (metis worker.distinct(9) worker.inject(1))
  next
    case 7 then show ?case using I(7) I(3) w by (auto dest!: new)
  next
    case 8 then show ?case using m by auto
  next
    case 9 then show ?case by simp
  qed
qed

lemma pool_inv_step:
  assumes inv: "pool_inv outcome namespaces s" and step: "pool_step outcome namespaces s t"
  shows "pool_inv outcome namespaces t"
  using step
proof cases
  case (claim w)
  then show ?thesis using inv_claim [OF inv] by simp
next
  case (leave w)
  then show ?thesis using inv_leave [OF inv] by simp
next
  case (resolve w i items)
  then show ?thesis using inv_resolve [OF inv] by simp
next
  case (reject w i err)
  then show ?thesis using inv_reject [OF inv] by simp
next
  case outdate
  then show ?thesis using inv by (simp add: pool_inv_def)
qed

interpretation pool: transition_system "\<lambda>s. s = pool_start namespaces" "pool_step outcome namespaces"
    "pool_inv outcome namespaces" for outcome :: "nat \<Rightarrow> string + 'a list" and namespaces :: "'n list"
  using pool_inv_start pool_inv_step by unfold_locales auto

section \<open>What the pool returns\<close>

lemma first_rejection_None: "first_rejection ws = None \<longleftrightarrow> (\<forall>e. Rejected e \<notin> set ws)"
  by (induction ws rule: first_rejection.induct) auto

lemma first_rejection_Some: "first_rejection ws = Some e \<Longrightarrow> Rejected e \<in> set ws"
  by (induction ws rule: first_rejection.induct) auto

lemma settled_not_running: "settled s \<Longrightarrow> Running i \<notin> set (workers s) \<and> Idle \<notin> set (workers s)"
  by (auto simp: settled_def list_all_iff)

lemma settled_all_claimed:
  assumes inv: "pool_inv outcome namespaces s" and "settled s" "is_current s" "\<forall>e. Rejected e \<notin> set (workers s)"
  shows "next_index s = length namespaces"
proof (cases "namespaces = []")
  case True
  then show ?thesis using pool_invD(2) [OF inv] by simp
next
  case False
  have "workers s \<noteq> []"
    using pool_invD(1) [OF inv] False by (cases namespaces) (auto simp: NAMESPACE_QUERY_CONCURRENCY_def)
  then obtain w where w: "w \<in> set (workers s)" by (cases "workers s") auto
  with assms(2,4) have "w = Finished" by (cases w) (auto simp: settled_def list_all_iff)
  with w pool_invD(8,9) [OF inv] assms(3,4) show ?thesis by blast
qed

lemma settled_result:
  assumes inv: "pool_inv outcome namespaces s" and "settled s" "is_current s"
    and r: "pool_result present namespaces s = Inr xs"
  shows "(\<forall>i < length namespaces. \<exists>ys. outcome i = Inr ys) \<and>
    xs = filter present (concat (map (\<lambda>i. case outcome i of Inr ys \<Rightarrow> ys | Inl _ \<Rightarrow> []) [0..<length namespaces]))"
proof -
  have no: "\<forall>e. Rejected e \<notin> set (workers s)"
    using r first_rejection_None by (auto simp: pool_result_def split: option.splits)
  have n: "next_index s = length namespaces" by (rule settled_all_claimed [OF inv assms(2,3) no])
  have res: "\<exists>ys. results s i = Some ys \<and> outcome i = Inr ys" if "i < length namespaces" for i
    using pool_invD(6) [OF inv, of i] pool_invD(5) [OF inv, of i] settled_not_running [OF assms(2), of i] no n that
    by auto
  have "map (\<lambda>i. case results s i of Some xs \<Rightarrow> xs | None \<Rightarrow> []) [0..<length namespaces] =
      map (\<lambda>i. case outcome i of Inr ys \<Rightarrow> ys | Inl _ \<Rightarrow> []) [0..<length namespaces]"
    by (rule map_cong [OF refl]) (use res in fastforce)
  with r have "xs = filter present (concat (map (\<lambda>i. case outcome i of Inr ys \<Rightarrow> ys | Inl _ \<Rightarrow> []) [0..<length namespaces]))"
    unfolding pool_result_def by (cases "first_rejection (workers s)") simp_all
  with res show ?thesis by blast
qed

lemma settled_rejects:
  assumes inv: "pool_inv outcome namespaces s" and "settled s" "i < next_index s" "outcome i = Inl e"
  shows "\<exists>e'. pool_result present namespaces s = Inl e' \<and> (\<exists>j < next_index s. outcome j = Inl e')"
proof -
  have "results s i = None" using pool_invD(5) [OF inv, of i] assms(4) by (cases "results s i") auto
  with pool_invD(6) [OF inv assms(3)] settled_not_running [OF assms(2), of i]
  obtain e'' where "Rejected e'' \<in> set (workers s)" by auto
  then obtain e' where e': "first_rejection (workers s) = Some e'"
    using first_rejection_None by (cases "first_rejection (workers s)") auto
  with pool_invD(7) [OF inv] first_rejection_Some [OF e'] show ?thesis
    by (simp add: pool_result_def)
qed

text \<open>Until every worker has settled, the pool can move; every such move uses up work.\<close>

fun worker_weight :: "worker \<Rightarrow> nat" where
  "worker_weight Idle = 1"
| "worker_weight (Running _) = 2"
| "worker_weight _ = 0"

definition pool_work :: "'n list \<Rightarrow> 'a pool \<Rightarrow> nat" where
  "pool_work namespaces s = 2 * (length namespaces - next_index s) + sum_list (map worker_weight (workers s))"

lemma pool_progress:
  assumes "\<not> settled s"
  shows "\<exists>t. pool_step outcome namespaces s t \<and> is_current t = is_current s"
proof -
  obtain w where w: "w < length (workers s)" and n: "\<not> has_settled (workers s ! w)"
    using assms unfolding settled_def list_all_length by blast
  from n have u: "workers s ! w = Idle \<or> (\<exists>i. workers s ! w = Running i)"
    by (cases "workers s ! w") auto
  show ?thesis
  proof (cases "workers s ! w = Idle")
    case True
    show ?thesis
    proof (cases "may_claim namespaces s")
      case True
      from pool_step.claim [OF w \<open>workers s ! w = Idle\<close> this] show ?thesis by - (intro exI conjI, assumption, simp)
    next
      case False
      from pool_step.leave [OF w \<open>workers s ! w = Idle\<close> this] show ?thesis by - (intro exI conjI, assumption, simp)
    qed
  next
    case False
    with u obtain i where i: "workers s ! w = Running i" by blast
    show ?thesis
    proof (cases "outcome i")
      case (Inl e)
      from pool_step.reject [where outcome = outcome, OF w i this] show ?thesis by - (intro exI conjI, assumption, simp)
    next
      case (Inr xs)
      from pool_step.resolve [where outcome = outcome, OF w i this] show ?thesis by - (intro exI conjI, assumption, simp)
    qed
  qed
qed

lemma sum_list_update_weight:
  "w < length ws \<Longrightarrow> sum_list (map worker_weight (ws[w := x])) + worker_weight (ws ! w) =
     sum_list (map worker_weight ws) + worker_weight x"
proof (induction ws arbitrary: w)
  case (Cons a ws)
  then show ?case by (cases w) auto
qed simp

lemma pool_work_decreases:
  assumes "pool_step outcome namespaces s t" "is_current t = is_current s" "is_current s"
  shows "pool_work namespaces t < pool_work namespaces s"
  using assms(1)
proof cases
  case (claim w)
  moreover from claim have "2 * (length namespaces - Suc (next_index s)) + 2 = 2 * (length namespaces - next_index s)"
    unfolding may_claim_def by arith
  ultimately show ?thesis using sum_list_update_weight [of w "workers s" "Running (next_index s)"]
    by (simp add: pool_work_def)
next
  case (leave w)
  with sum_list_update_weight [of w "workers s" Finished] show ?thesis by (simp add: pool_work_def)
next
  case (resolve w i items)
  with sum_list_update_weight [of w "workers s" Idle] show ?thesis by (simp add: pool_work_def)
next
  case (reject w i err)
  with sum_list_update_weight [of w "workers s" "Rejected err"] show ?thesis by (simp add: pool_work_def)
qed (use assms in simp)

section \<open>Properties\<close>

text \<open>
  C7: whatever the interleaving of the workers, once all have settled a
  list that is still current and returns items has seen every call succeed, and the items are
  those of all namespaces in the order of the namespaces, with the falsy entries removed.
\<close>
theorem namespace_list_atomic:
  assumes "(pool_step outcome namespaces)\<^sup>*\<^sup>* (pool_start namespaces) s" "settled s" "is_current s"
    and "pool_result present namespaces s = Inr xs"
  shows "(\<forall>i < length namespaces. \<exists>ys. outcome i = Inr ys) \<and>
    xs = filter present (concat (map (\<lambda>i. case outcome i of Inr ys \<Rightarrow> ys | Inl _ \<Rightarrow> []) [0..<length namespaces]))"
  using settled_result [OF pool.reachable_inv [OF refl assms(1)] assms(2-4)] .

text \<open>The pool for one namespace, step by step, for the witnesses.\<close>

definition sample_pool :: "nat \<Rightarrow> bool \<Rightarrow> worker \<Rightarrow> (nat \<rightharpoonup> nat list) \<Rightarrow> nat pool" where
  "sample_pool n f w r = \<lparr>next_index = n, failed = f, is_current = True, results = r, workers = [w]\<rparr>"

lemma sample_start: "pool_start [''a''] = sample_pool 0 False Idle Map.empty"
  by (simp add: pool_start_def sample_pool_def NAMESPACE_QUERY_CONCURRENCY_def)

lemma sample_claim: "pool_step outcome [''a''] (sample_pool 0 False Idle Map.empty) (sample_pool 1 False (Running 0) Map.empty)"
  using pool_step.claim [of 0 "sample_pool 0 False Idle Map.empty" "[''a'']" outcome]
  by (simp add: sample_pool_def may_claim_def)

lemma sample_resolve:
  "outcome 0 = Inr [7] \<Longrightarrow>
   pool_step outcome [''a''] (sample_pool 1 False (Running 0) Map.empty) (sample_pool 1 False Idle [0 \<mapsto> [7]])"
  using pool_step.resolve [of 0 "sample_pool 1 False (Running 0) Map.empty" 0 outcome "[7]" "[''a'']"]
  by (simp add: sample_pool_def)

lemma sample_leave:
  "pool_step outcome [''a''] (sample_pool 1 False Idle r) (sample_pool 1 False Finished r)"
  using pool_step.leave [of 0 "sample_pool 1 False Idle r" "[''a'']" outcome]
  by (simp add: sample_pool_def may_claim_def)

lemma sample_reject:
  "outcome 0 = Inl e \<Longrightarrow>
   pool_step outcome [''a''] (sample_pool 1 False (Running 0) Map.empty) (sample_pool 1 True (Rejected e) Map.empty)"
  using pool_step.reject [of 0 "sample_pool 1 False (Running 0) Map.empty" 0 outcome e "[''a'']"]
  by (simp add: sample_pool_def)

theorem namespace_list_atomic_witness:
  "pool_result (\<lambda>x. x \<noteq> 0) [''a''] (sample_pool 1 False Finished [0 \<mapsto> [7]]) = Inr [7]"
proof -
  let ?out = "\<lambda>i. Inr [7] :: string + nat list"
  let ?s = "sample_pool 1 False Finished [0 \<mapsto> [7]]"
  have "(pool_step ?out [''a''])\<^sup>*\<^sup>* (pool_start [''a'']) ?s"
    unfolding sample_start
    using sample_claim [of ?out] sample_resolve [of ?out, OF refl] sample_leave [of ?out "[0 \<mapsto> [7]]"]
    by (meson converse_rtranclp_into_rtranclp rtranclp.rtrancl_refl)
  moreover have "settled ?s" "is_current ?s" by (simp_all add: settled_def sample_pool_def)
  moreover have r: "pool_result (\<lambda>x. x \<noteq> 0) [''a''] ?s = Inr [7]"
    by (simp add: pool_result_def sample_pool_def)
  ultimately have "[7] = filter (\<lambda>x. x \<noteq> 0)
      (concat (map (\<lambda>i. case ?out i of Inr ys \<Rightarrow> ys | Inl _ \<Rightarrow> []) [0..<length [''a'']]))"
    by (rule conjunct2 [OF namespace_list_atomic])
  with r show ?thesis by simp
qed

text \<open>
  Namespace failure reported: a call that was made and failed makes the list fail with the
  error of a failed call, even when the request is no longer current: a failure never looks like
  an empty namespace.
\<close>
theorem namespace_failure_reported:
  assumes "(pool_step outcome namespaces)\<^sup>*\<^sup>* (pool_start namespaces) s" "settled s"
    and "i < next_index s" "outcome i = Inl e"
  shows "\<exists>e'. pool_result present namespaces s = Inl e' \<and> (\<exists>j < next_index s. outcome j = Inl e')"
  using settled_rejects [OF pool.reachable_inv [OF refl assms(1)] assms(2-4)] .

theorem namespace_failure_reported_witness:
  "\<exists>e. pool_result (\<lambda>x. True) [''a''] (sample_pool 1 True (Rejected ''403'') Map.empty) = Inl e"
proof -
  let ?out = "\<lambda>i. Inl ''403'' :: string + nat list"
  let ?s = "sample_pool 1 True (Rejected ''403'') Map.empty"
  have "(pool_step ?out [''a''])\<^sup>*\<^sup>* (pool_start [''a'']) ?s"
    unfolding sample_start
    using sample_claim [of ?out] sample_reject [of ?out, OF refl]
    by (meson converse_rtranclp_into_rtranclp rtranclp.rtrancl_refl)
  from namespace_failure_reported [OF this, of 0 "''403''" "\<lambda>x. True"] show ?thesis
    by (auto simp: settled_def sample_pool_def)
qed

text \<open>
  C23: at most four calls run at a time, a pool whose workers have not
  all settled can make a step, and every step taken while the request is current uses up work,
  so the pool settles.
\<close>
theorem namespace_pool_terminates:
  assumes "(pool_step outcome namespaces)\<^sup>*\<^sup>* (pool_start namespaces) s"
  shows "length (filter (\<lambda>w. \<exists>i. w = Running i) (workers s)) \<le> 4 \<and>
    (\<not> settled s \<longrightarrow> (\<exists>t. pool_step outcome namespaces s t \<and> is_current t = is_current s)) \<and>
    (\<forall>t. is_current s \<and> is_current t \<and> pool_step outcome namespaces s t \<longrightarrow>
       pool_work namespaces t < pool_work namespaces s)"
proof (intro conjI allI impI)
  have "length (workers s) \<le> 4"
    using pool_invD(1) [OF pool.reachable_inv [OF refl assms]] by (simp add: NAMESPACE_QUERY_CONCURRENCY_def)
  then show "length (filter (\<lambda>w. \<exists>i. w = Running i) (workers s)) \<le> 4"
    using length_filter_le le_trans by blast
qed (use pool_progress pool_work_decreases in blast)+

theorem namespace_pool_terminates_witness:
  "\<exists>t. pool_step (\<lambda>i. Inr [7 :: nat]) [''a''] (pool_start [''a'']) t"
  using namespace_pool_terminates [of "\<lambda>i. Inr [7 :: nat]" "[''a'']" "pool_start [''a'']"]
  by (auto simp: settled_def sample_start sample_pool_def)

text \<open>
  Scope covers selection: the scope that is queried is the whole cluster or exactly the
  selected namespaces; it is empty only for an empty selection, and it is never the whole
  cluster when cluster-wide listing was denied and the user did not ask for all namespaces.
\<close>
theorem scope_covers_selection:
  "(chooseNamespaceScope selected available obs options = [''''] \<or>
    chooseNamespaceScope selected available obs options = selected) \<and>
   (chooseNamespaceScope selected available obs options = [] \<longleftrightarrow> selected = []) \<and>
   (broadDenied options \<and> ''*'' \<notin> set selected \<longrightarrow>
    chooseNamespaceScope selected available obs options = selected)"
  by (simp add: chooseNamespaceScope_def Let_def split: option.split)

theorem scope_covers_selection_witness:
  "chooseNamespaceScope [''a''] [] None
     \<lparr>broadDenied = True, reuseBroad = False, scopedDurationMs = None, now = 0\<rparr> = [''a'']"
  using scope_covers_selection [of "[''a'']" "[]" None
    "\<lparr>broadDenied = True, reuseBroad = False, scopedDurationMs = None, now = 0\<rparr>"] by simp

end
