(* ===== verification/PollingBudget.thy ===== *)
theory PollingBudget
  imports Prelude
begin

text \<open>
  The concurrency budget of background polls (\<open>utils/pollingBudget.ts\<close>) and the transaction
  of a context switch (\<open>context/contextSwitch.ts\<close>).

  \<open>acquire\<close> and \<open>release\<close> each run without interruption up to their \<open>await\<close>. A waiter
  whose promise is resolved by \<open>release\<close> does not run at once: it resumes in a later
  microtask (\<open>woken\<close>), and only then counts itself as active. Between the two, other code may
  run; \<open>barging\<close> says whether that code may call \<open>acquire\<close>.
\<close>

record 'c budget =
  active :: nat
  waiting :: "'c list"
  woken :: "'c list"
  holders :: "'c list"

definition budget_start :: "'c budget" where
  "budget_start = \<lparr>active = 0, waiting = [], woken = [], holders = []\<rparr>"

definition acquire :: "nat \<Rightarrow> 'c \<Rightarrow> 'c budget \<Rightarrow> 'c budget" where
  "acquire maxConcurrent c s =
     (if active s < maxConcurrent then s\<lparr>active := active s + 1, holders := holders s @ [c]\<rparr>
      else s\<lparr>waiting := waiting s @ [c]\<rparr>)"

text \<open>The rest of \<open>acquire\<close> after its \<open>await\<close>.\<close>

definition resume :: "'c \<Rightarrow> 'c budget \<Rightarrow> 'c budget" where
  "resume c s = s\<lparr>active := active s + 1, woken := remove1 c (woken s), holders := holders s @ [c]\<rparr>"

definition release :: "'c \<Rightarrow> 'c budget \<Rightarrow> 'c budget" where
  "release c s =
     (let s' = s\<lparr>active := active s - 1, holders := remove1 c (holders s)\<rparr> in
      case waiting s of
        [] \<Rightarrow> s'
      | w # ws \<Rightarrow> s'\<lparr>waiting := ws, woken := woken s @ [w]\<rparr>)"

inductive budget_step :: "bool \<Rightarrow> nat \<Rightarrow> 'c budget \<Rightarrow> 'c budget \<Rightarrow> bool"
  for barging :: bool and maxConcurrent :: nat where
  call: "barging \<or> woken s = [] \<Longrightarrow> budget_step barging maxConcurrent s (acquire maxConcurrent c s)"
| wake: "c \<in> set (woken s) \<Longrightarrow> budget_step barging maxConcurrent s (resume c s)"
| settle: "c \<in> set (holders s) \<Longrightarrow> budget_step barging maxConcurrent s (release c s)"

inductive_cases budget_stepE: "budget_step barging maxConcurrent s t"

section \<open>Invariants\<close>

text \<open>
  The counter counts the running polls, and while anyone waits the budget is used up by polls
  that run or are about to: a waiter is never forgotten.
\<close>

definition budget_inv :: "nat \<Rightarrow> 'c budget \<Rightarrow> bool" where
  "budget_inv maxConcurrent s \<longleftrightarrow>
     active s = length (holders s) \<and>
     (waiting s \<noteq> [] \<longrightarrow> maxConcurrent \<le> active s + length (woken s))"

definition bounded_inv :: "nat \<Rightarrow> 'c budget \<Rightarrow> bool" where
  "bounded_inv maxConcurrent s \<longleftrightarrow>
     active s = length (holders s) \<and> active s + length (woken s) \<le> maxConcurrent"

lemmas budget_ops = acquire_def resume_def release_def

lemma budget_inv_step: "budget_inv n s \<Longrightarrow> budget_step b n s t \<Longrightarrow> budget_inv n t"
proof (erule budget_stepE)
  fix c assume "budget_inv n s" "t = acquire n c s"
  then show "budget_inv n t" by (auto simp: budget_inv_def acquire_def)
next
  fix c assume "budget_inv n s" "t = resume c s" and c: "c \<in> set (woken s)"
  then show "budget_inv n t"
    using length_pos_if_in_set [OF c] by (auto simp: budget_inv_def resume_def length_remove1)
next
  fix c assume "budget_inv n s" "t = release c s" and c: "c \<in> set (holders s)"
  then show "budget_inv n t"
    using length_pos_if_in_set [OF c]
    by (cases "waiting s") (auto simp: budget_inv_def release_def length_remove1)
qed

lemma bounded_inv_step: "bounded_inv n s \<Longrightarrow> budget_step False n s t \<Longrightarrow> bounded_inv n t"
proof (erule budget_stepE)
  fix c assume "bounded_inv n s" "t = acquire n c s" "False \<or> woken s = []"
  then show "bounded_inv n t" by (auto simp: bounded_inv_def acquire_def)
next
  fix c assume "bounded_inv n s" "t = resume c s" and c: "c \<in> set (woken s)"
  then show "bounded_inv n t"
    using length_pos_if_in_set [OF c]
    by (cases "length (woken s)") (auto simp: bounded_inv_def resume_def length_remove1)
next
  fix c assume "bounded_inv n s" "t = release c s" and c: "c \<in> set (holders s)"
  then show "bounded_inv n t"
    using length_pos_if_in_set [OF c]
    by (cases "waiting s"; cases "length (holders s)") (auto simp: bounded_inv_def release_def length_remove1)
qed

interpretation budget: transition_system "\<lambda>s. s = budget_start" "budget_step b n" "budget_inv n" for b n
  by unfold_locales (simp add: budget_start_def budget_inv_def, rule budget_inv_step)

interpretation polite_budget: transition_system "\<lambda>s. s = budget_start" "budget_step False n" "bounded_inv n" for n
  by unfold_locales (simp add: budget_start_def bounded_inv_def, rule bounded_inv_step)

section \<open>Context switch\<close>

text \<open>
  The effects of \<open>runContextSwitchTransaction\<close> in order; \<open>backend\<close> is how the awaited
  \<open>switchBackend\<close> settles (\<open>Some\<close> an error). The result is what the caller sees: the value
  returned or the error rethrown.
\<close>

datatype switch_effect = SetPending bool | SwitchBackend string | Commit

definition runContextSwitchTransaction ::
    "string \<Rightarrow> string \<Rightarrow> string option \<Rightarrow> switch_effect list \<times> (string + bool)" where
  "runContextSwitchTransaction currentContext nextContext backend =
     (if currentContext = nextContext then ([], Inr False)
      else case backend of
             None \<Rightarrow> ([SetPending True, SwitchBackend nextContext, Commit, SetPending False], Inr True)
           | Some e \<Rightarrow> ([SetPending True, SwitchBackend nextContext, SetPending False], Inl e))"

section \<open>Properties\<close>

text \<open>
  C12: in every reachable state, whoever may call in between, a poll waits
  only while as many polls as the budget allows are running or resuming; so with a positive
  budget some poll is always there whose end lets the next waiter in.
\<close>
theorem budget_keeps_waiters:
  assumes "(budget_step barging maxConcurrent)\<^sup>*\<^sup>* budget_start s" "waiting s \<noteq> []" "0 < maxConcurrent"
  shows "maxConcurrent \<le> active s + length (woken s) \<and> (holders s \<noteq> [] \<or> woken s \<noteq> [])"
  using budget.reachable_inv [OF refl assms(1)] assms(2,3) by (auto simp: budget_inv_def)

theorem budget_keeps_waiters_witness:
  "active (acquire 1 (1 :: nat) (acquire 1 0 budget_start)) = 1"
proof -
  let ?s1 = "acquire 1 (0 :: nat) budget_start" and ?s = "acquire 1 1 (acquire 1 (0 :: nat) budget_start)"
  have "budget_step False 1 budget_start ?s1" "budget_step False 1 ?s1 ?s"
    by (rule budget_step.call; simp add: budget_start_def acquire_def)+
  then have "(budget_step False 1)\<^sup>*\<^sup>* budget_start ?s" by (meson converse_rtranclp_into_rtranclp rtranclp.rtrancl_refl)
  from budget_keeps_waiters [OF this] show ?thesis by (simp add: budget_start_def acquire_def)
qed

text \<open>
  C34: when no poll starts between a release and the waiter it wakes,
  at most the budgeted number of polls run.
\<close>
theorem budget_bound_without_barging:
  assumes "(budget_step False maxConcurrent)\<^sup>*\<^sup>* budget_start s"
  shows "length (holders s) \<le> maxConcurrent"
  using polite_budget.reachable_inv [OF refl assms] by (simp add: bounded_inv_def)

theorem budget_bound_without_barging_witness:
  "length (holders (acquire 1 (0 :: nat) budget_start)) \<le> 1"
proof (rule budget_bound_without_barging)
  have "budget_step False 1 budget_start (acquire 1 (0 :: nat) budget_start)"
    by (rule budget_step.call) (simp add: budget_start_def)
  then show "(budget_step False 1)\<^sup>*\<^sup>* budget_start (acquire 1 (0 :: nat) budget_start)" by blast
qed

text \<open>
  Budget exceeded by barging: a poll that starts between a release and the waiter it wakes takes
  the free slot, and the waiter takes it again without looking: more polls run than the budget
  allows.
\<close>
theorem budget_exceeded_by_barging:
  "\<exists>s :: nat budget. (budget_step True 1)\<^sup>*\<^sup>* budget_start s \<and> length (holders s) = 2"
proof -
  let ?s1 = "acquire 1 (0 :: nat) budget_start"
  let ?s2 = "acquire 1 1 ?s1"
  let ?s3 = "release 0 ?s2"
  let ?s4 = "acquire 1 2 ?s3"
  let ?s5 = "resume 1 ?s4"
  have "budget_step True 1 budget_start ?s1" "budget_step True 1 ?s1 ?s2" "budget_step True 1 ?s3 ?s4"
    by (rule budget_step.call; simp)+
  moreover have "budget_step True 1 ?s2 ?s3"
    by (rule budget_step.settle) (simp add: budget_ops budget_start_def)
  moreover have "budget_step True 1 ?s4 ?s5"
    by (rule budget_step.wake) (simp add: budget_ops budget_start_def)
  ultimately have "(budget_step True 1)\<^sup>*\<^sup>* budget_start ?s5"
    by (meson converse_rtranclp_into_rtranclp rtranclp.rtrancl_refl)
  moreover have "length (holders ?s5) = 2" by (simp add: budget_ops budget_start_def)
  ultimately show ?thesis by blast
qed

text \<open>
  Context switch atomic: a switch commits exactly when the backend accepted it, always after the
  backend, and the pending indicator that was set is cleared last whatever happened; switching to
  the current context does nothing.
\<close>
theorem context_switch_atomic:
  "fst (runContextSwitchTransaction cur nxt backend) =
     (if cur = nxt then []
      else [SetPending True, SwitchBackend nxt] @ (if backend = None then [Commit] else []) @ [SetPending False]) \<and>
   (Commit \<in> set (fst (runContextSwitchTransaction cur nxt backend)) \<longleftrightarrow>
      snd (runContextSwitchTransaction cur nxt backend) = Inr True)"
  by (auto simp: runContextSwitchTransaction_def split: option.splits)

end
