(* ===== verification/Tabs.thy ===== *)
theory Tabs
  imports JsMap "HOL-Library.Multiset"
begin

text \<open>
  The bottom tabs (\<open>context/UIContext.tsx\<close>) and the panel that shows them
  (\<open>components/layout/BottomPanel.tsx\<close>). A tab's properties other than its id, pin and context
  are in \<open>props\<close>; \<open>pinned\<close> is \<open>None\<close> where the property is \<open>undefined\<close>. The operations are
  the state updates the callbacks queue, applied in the order the code queues them.
\<close>

datatype tab_context = NoContext | Independent | InContext string

record 'c tab =
  tab_id :: string
  pinned :: "bool option"
  tab_context :: tab_context
  props :: "(string, 'c) js_map"

text \<open>The argument of \<open>openTab\<close>: \<open>None\<close> stands for a property that is absent.\<close>

record 'c tab_spec =
  spec_id :: string
  spec_pinned :: "bool option"
  spec_context :: "tab_context option"
  spec_props :: "(string, 'c) js_map"

record 'c ui =
  bottomTabs :: "'c tab list"
  activeTabId :: "string option"
  activeTabByContext :: "(string, string) js_map"
  previousContext :: string
  currentContext :: string

definition is_pinned :: "'c tab \<Rightarrow> bool" where
  "is_pinned t = (pinned t = Some True)"

section \<open>Operations\<close>

definition overlay_tab :: "'c tab \<Rightarrow> 'c tab_spec \<Rightarrow> 'c tab" where
  "overlay_tab old tab =
     \<lparr>tab_id = spec_id tab,
      pinned = (case spec_pinned tab of Some b \<Rightarrow> Some b | None \<Rightarrow> pinned old),
      tab_context = tab_context old,
      props = spread (props old) (spec_props tab)\<rparr>"

definition new_tab :: "string \<Rightarrow> 'c tab_spec \<Rightarrow> 'c tab" where
  "new_tab current tab =
     \<lparr>tab_id = spec_id tab, pinned = spec_pinned tab,
      tab_context = (case spec_context tab of Some c \<Rightarrow> c | None \<Rightarrow> InContext current),
      props = spec_props tab\<rparr>"

definition open_in :: "string \<Rightarrow> 'c tab_spec \<Rightarrow> 'c tab list \<Rightarrow> 'c tab list" where
  "open_in current tab prev =
     (case find_index (\<lambda>t. tab_id t = spec_id tab) prev of
        Some i \<Rightarrow> prev[i := overlay_tab (prev ! i) tab]
      | None \<Rightarrow> prev @ [new_tab current tab])"

definition openTab :: "'c tab_spec \<Rightarrow> 'c ui \<Rightarrow> 'c ui" where
  "openTab tab s =
     s\<lparr>bottomTabs := open_in (currentContext s) tab (bottomTabs s), activeTabId := Some (spec_id tab)\<rparr>"

definition toggle_pin :: "'c tab \<Rightarrow> 'c tab" where
  "toggle_pin t = t\<lparr>pinned := Some (\<not> is_pinned t)\<rparr>"

definition togglePinTab :: "string \<Rightarrow> 'c ui \<Rightarrow> 'c ui" where
  "togglePinTab tabId s =
     (let newTabs = map (\<lambda>t. if tab_id t = tabId then toggle_pin t else t) (bottomTabs s)
      in s\<lparr>bottomTabs := filter is_pinned newTabs @ filter (\<lambda>t. \<not> is_pinned t) newTabs\<rparr>)"

definition active_after_close :: "nat option \<Rightarrow> 'c tab list \<Rightarrow> string option" where
  "active_after_close closingIndex newTabs =
     (if newTabs = [] then None
      else (let i = (case closingIndex of Some k \<Rightarrow> int k - 1 | None \<Rightarrow> - 2);
                newIndex = min i (int (length newTabs) - 1);
                newId = tab_id (newTabs ! nat (max 0 newIndex))
            in if newId = '''' then None else Some newId))"

definition closeTab :: "string \<Rightarrow> 'c ui \<Rightarrow> 'c ui" where
  "closeTab tabId s =
     (let prev = bottomTabs s in
      if (case List.find (\<lambda>t. tab_id t = tabId) prev of Some t \<Rightarrow> is_pinned t | None \<Rightarrow> False) then s
      else (let newTabs = filter (\<lambda>t. tab_id t \<noteq> tabId) prev in
        s\<lparr>bottomTabs := newTabs,
          activeTabId :=
            (if activeTabId s \<noteq> Some tabId then activeTabId s
             else active_after_close (find_index (\<lambda>t. tab_id t = tabId) prev) newTabs)\<rparr>))"

definition closeOtherTabs :: "string \<Rightarrow> 'c ui \<Rightarrow> 'c ui" where
  "closeOtherTabs tabId s =
     s\<lparr>bottomTabs := filter (\<lambda>t. tab_id t = tabId \<or> is_pinned t) (bottomTabs s), activeTabId := Some tabId\<rparr>"

definition closeTabsToRight :: "string \<Rightarrow> 'c ui \<Rightarrow> 'c ui" where
  "closeTabsToRight tabId s =
     (case find_index (\<lambda>t. tab_id t = tabId) (bottomTabs s) of
        None \<Rightarrow> s
      | Some i \<Rightarrow> s\<lparr>bottomTabs := take (i + 1) (bottomTabs s) @ filter is_pinned (drop (i + 1) (bottomTabs s))\<rparr>)"

definition closeAllTabs :: "'c ui \<Rightarrow> 'c ui" where
  "closeAllTabs s = s\<lparr>bottomTabs := filter is_pinned (bottomTabs s)\<rparr>"

text \<open>
  \<open>reorderTabs\<close>: with an index that is out of range the code inserts \<open>undefined\<close>, which is
  \<open>None\<close> here.
\<close>

definition reorder_list :: "nat \<Rightarrow> nat \<Rightarrow> 'a list \<Rightarrow> 'a list option" where
  "reorder_list from to xs =
     (if from < length xs
      then (let rest = take from xs @ drop (from + 1) xs in Some (take to rest @ xs ! from # drop to rest))
      else None)"

definition isTabStale :: "'c ui \<Rightarrow> 'c tab \<Rightarrow> bool" where
  "isTabStale s tab = (case tab_context tab of InContext c \<Rightarrow> c \<noteq> currentContext s | _ \<Rightarrow> False)"

section \<open>Context switches\<close>

text \<open>The filter of the context-switch effect; an empty context name counts as none.\<close>

definition hidden_after_switch :: "string \<Rightarrow> 'c tab \<Rightarrow> bool" where
  "hidden_after_switch current tab =
     (case tab_context tab of InContext c \<Rightarrow> c \<noteq> '''' \<and> c \<noteq> current | _ \<Rightarrow> False)"

definition context_effect :: "'c ui \<Rightarrow> 'c ui" where
  "context_effect s =
     (if previousContext s = currentContext s then s
      else (let saved = (case activeTabId s of
                           Some a \<Rightarrow> if previousContext s \<noteq> '''' \<and> a \<noteq> '''' then map_set (previousContext s) a (activeTabByContext s)
                                     else activeTabByContext s
                         | None \<Rightarrow> activeTabByContext s);
                visible = filter (\<lambda>t. \<not> hidden_after_switch (currentContext s) t \<or> is_pinned t) (bottomTabs s);
                savedTabId = map_get saved (currentContext s);
                restorable = (case savedTabId of Some i \<Rightarrow> i \<noteq> '''' \<and> i \<in> set (map tab_id visible) | None \<Rightarrow> False)
            in s\<lparr>activeTabByContext := saved,
                 activeTabId := (if restorable then savedTabId
                                 else case visible of t # _ \<Rightarrow> Some (tab_id t) | [] \<Rightarrow> None),
                 previousContext := currentContext s\<rparr>))"

definition switch_context :: "string \<Rightarrow> 'c ui \<Rightarrow> 'c ui" where
  "switch_context c s = context_effect (s\<lparr>currentContext := c\<rparr>)"

section \<open>The panel\<close>

definition visibleTabs :: "'c ui \<Rightarrow> 'c tab list" where
  "visibleTabs s = filter (\<lambda>t. \<not> isTabStale s t \<or> is_pinned t) (bottomTabs s)"

text \<open>The effect that keeps the selected tab among the visible ones.\<close>

definition align_active :: "'c ui \<Rightarrow> 'c ui" where
  "align_active s =
     (case activeTabId s of
        None \<Rightarrow> s
      | Some a \<Rightarrow>
          if a = '''' \<or> a \<in> set (map tab_id (visibleTabs s)) then s
          else (case visibleTabs s of [] \<Rightarrow> s | t # _ \<Rightarrow> s\<lparr>activeTabId := Some (tab_id t)\<rparr>))"

text \<open>
  \<open>handleDrop\<close>: a tab is dropped on another; both indices count the visible tabs, and the
  code uses them on all tabs.
\<close>

definition handleDrop :: "nat \<Rightarrow> nat \<Rightarrow> 'c tab list \<Rightarrow> 'c tab list option" where
  "handleDrop draggedIndex toIndex tabs =
     (let pin = (\<lambda>i. if i < length tabs then pinned (tabs ! i) else None) in
      if draggedIndex \<noteq> toIndex \<and> pin draggedIndex = pin toIndex then reorder_list draggedIndex toIndex tabs
      else Some tabs)"

definition dropTab :: "nat \<Rightarrow> nat \<Rightarrow> 'c ui \<Rightarrow> 'c ui" where
  "dropTab i j s =
     (if i < length (visibleTabs s) \<and> j < length (visibleTabs s)
      then (case handleDrop i j (bottomTabs s) of Some ts \<Rightarrow> s\<lparr>bottomTabs := ts\<rparr> | None \<Rightarrow> s)
      else s)"

section \<open>Every operation\<close>

datatype 'c tab_op =
    OpenTab "'c tab_spec"
  | TogglePin string
  | CloseTab string
  | CloseOthers string
  | CloseRight string
  | CloseAll
  | DropTab nat nat
  | SelectTab string
  | SwitchContext string
  | Align

fun tab_op_step :: "'c ui \<Rightarrow> 'c tab_op \<Rightarrow> 'c ui" where
  "tab_op_step s (OpenTab t) = openTab t s"
| "tab_op_step s (TogglePin i) = togglePinTab i s"
| "tab_op_step s (CloseTab i) = closeTab i s"
| "tab_op_step s (CloseOthers i) = closeOtherTabs i s"
| "tab_op_step s (CloseRight i) = closeTabsToRight i s"
| "tab_op_step s CloseAll = closeAllTabs s"
| "tab_op_step s (DropTab i j) = dropTab i j s"
| "tab_op_step s (SelectTab i) = s\<lparr>activeTabId := Some i\<rparr>"
| "tab_op_step s (SwitchContext c) = switch_context c s"
| "tab_op_step s Align = align_active s"

section \<open>One tab per id\<close>

definition ids :: "'c tab list \<Rightarrow> string list" where
  "ids ts = map tab_id ts"

definition tabs_distinct :: "'c ui \<Rightarrow> bool" where
  "tabs_distinct s \<longleftrightarrow> distinct (ids (bottomTabs s))"

lemma distinct_ids_filter: "distinct (ids ts) \<Longrightarrow> distinct (ids (filter P ts))"
  by (simp add: ids_def distinct_map_filter)

lemma open_in_ids:
  "ids (open_in c tab ts) = (if spec_id tab \<in> set (ids ts) then ids ts else ids ts @ [spec_id tab])"
proof (cases "find_index (\<lambda>t. tab_id t = spec_id tab) ts")
  case None
  then have "spec_id tab \<notin> set (ids ts)" by (auto simp: find_index_None ids_def)
  with None show ?thesis by (simp add: open_in_def ids_def new_tab_def)
next
  case (Some i)
  then have i: "i < length ts" "tab_id (ts ! i) = spec_id tab" by (auto dest: find_index_SomeD)
  then have "spec_id tab \<in> set (ids ts)" by (metis ids_def image_eqI nth_mem set_map)
  moreover have "ids (ts[i := overlay_tab (ts ! i) tab]) = ids ts"
    using i by (simp add: ids_def map_update overlay_tab_def list_update_same_conv)
  ultimately show ?thesis using Some by (simp add: open_in_def)
qed

lemma distinct_ids_mset: "mset ts = mset us \<Longrightarrow> distinct (ids ts) = distinct (ids us)"
  unfolding ids_def by (metis mset_eq_imp_distinct_iff mset_map)

lemma reorder_list_mset: "reorder_list i j xs = Some ys \<Longrightarrow> mset ys = mset xs"
proof -
  assume r: "reorder_list i j xs = Some ys"
  define rest where "rest = take i xs @ drop (i + 1) xs"
  from r have i: "i < length xs" and ys: "ys = take j rest @ xs ! i # drop j rest"
    by (auto simp: reorder_list_def rest_def Let_def split: if_splits)
  have "mset ys = mset (xs ! i # rest)"
    unfolding ys using append_take_drop_id [of j rest]
    by (metis mset.simps(2) mset_append union_mset_add_mset_right)
  also have "\<dots> = mset xs"
    using id_take_nth_drop [OF i] unfolding rest_def by (metis add.commute mset.simps(2) mset_append plus_1_eq_Suc union_mset_add_mset_right)
  finally show ?thesis .
qed

lemma reorder_list_length: "reorder_list i j xs = Some ys \<Longrightarrow> length ys = length xs"
  using reorder_list_mset mset_eq_length by metis

lemma toggle_ids: "map tab_id (map (\<lambda>t. if tab_id t = i then toggle_pin t else t) ts) = map tab_id ts"
  by (simp add: toggle_pin_def)

lemma pinned_first_mset: "mset (filter P xs @ filter (\<lambda>x. \<not> P x) xs) = mset xs"
  by (simp flip: mset_filter) (simp add: multiset_partition [symmetric])

lemma handleDrop_mset: "handleDrop i j ts = Some us \<Longrightarrow> mset us = mset ts"
  by (auto simp: handleDrop_def Let_def dest: reorder_list_mset split: if_splits)

lemma closeTabsToRight_sub:
  "\<exists>us vs. bottomTabs s = us @ vs \<and> bottomTabs (closeTabsToRight i s) = us @ filter is_pinned vs"
proof (cases "find_index (\<lambda>t. tab_id t = i) (bottomTabs s)")
  case None
  then show ?thesis by (intro exI [of _ "bottomTabs s"] exI [of _ "[]"]) (simp add: closeTabsToRight_def)
next
  case (Some k)
  then show ?thesis
    by (intro exI [of _ "take (k + 1) (bottomTabs s)"] exI [of _ "drop (k + 1) (bottomTabs s)"])
       (simp add: closeTabsToRight_def)
qed

lemma tabs_only [simp]:
  "bottomTabs (align_active s) = bottomTabs s" "bottomTabs (switch_context c s) = bottomTabs s"
  by (auto simp: align_active_def switch_context_def context_effect_def Let_def split: option.splits list.splits)

lemma distinct_closeRight:
  assumes "tabs_distinct s" shows "tabs_distinct (closeTabsToRight i s)"
proof -
  obtain us vs where "bottomTabs s = us @ vs" "bottomTabs (closeTabsToRight i s) = us @ filter is_pinned vs"
    using closeTabsToRight_sub by blast
  with assms show ?thesis by (auto simp: tabs_distinct_def ids_def distinct_map_filter)
qed

lemma toggle_tabs:
  "bottomTabs (togglePinTab i s) =
     filter is_pinned (map (\<lambda>t. if tab_id t = i then toggle_pin t else t) (bottomTabs s)) @
     filter (\<lambda>t. \<not> is_pinned t) (map (\<lambda>t. if tab_id t = i then toggle_pin t else t) (bottomTabs s))"
  by (simp add: togglePinTab_def Let_def)

lemma distinct_toggle:
  assumes "tabs_distinct s" shows "tabs_distinct (togglePinTab i s)"
proof -
  let ?new = "map (\<lambda>t. if tab_id t = i then toggle_pin t else t) (bottomTabs s)"
  have "distinct (ids ?new)" using assms by (simp only: tabs_distinct_def ids_def toggle_ids)
  then show ?thesis
    using distinct_ids_mset [OF pinned_first_mset, of is_pinned ?new]
    unfolding tabs_distinct_def toggle_tabs by (simp only:)
qed

lemma distinct_drop:
  assumes "tabs_distinct s" shows "tabs_distinct (dropTab i j s)"
  using assms handleDrop_mset [THEN distinct_ids_mset]
  by (auto simp: dropTab_def tabs_distinct_def split: option.splits)

lemma tab_op_distinct: "tabs_distinct s \<Longrightarrow> tabs_distinct (tab_op_step s op)"
proof (cases op)
  case (OpenTab t)
  then show "tabs_distinct s \<Longrightarrow> ?thesis" by (simp add: openTab_def tabs_distinct_def open_in_ids)
qed (auto simp: tabs_distinct_def closeTab_def closeOtherTabs_def closeAllTabs_def Let_def distinct_ids_filter
       intro: distinct_toggle [unfolded tabs_distinct_def] distinct_closeRight [unfolded tabs_distinct_def]
         distinct_drop [unfolded tabs_distinct_def])

interpretation tabs: machine tab_op_step tabs_distinct
  by unfold_locales (rule tab_op_distinct)

lemma find_by_id: "distinct (map tab_id ts) \<Longrightarrow> t \<in> set ts \<Longrightarrow> List.find (\<lambda>u. tab_id u = tab_id t) ts = Some t"
  by (induction ts) (auto simp: image_iff)

lemma find_index_at: "\<forall>u \<in> set us. \<not> P u \<Longrightarrow> P x \<Longrightarrow> find_index P (us @ x # vs) = Some (length us)"
  by (simp add: find_index_def takeWhile_tail Let_def)

lemma closeTab_pinned:
  assumes "distinct (map tab_id (bottomTabs s))" "t \<in> set (bottomTabs s)" "is_pinned t"
  shows "t \<in> set (bottomTabs (closeTab i s))"
proof (cases "tab_id t = i")
  case True
  with find_by_id [OF assms(1,2)] assms(2,3) show ?thesis by (simp add: closeTab_def)
qed (use assms(2) in \<open>simp add: closeTab_def Let_def\<close>)

lemma context_after_switch [simp]: "currentContext (switch_context c s) = c"
  by (simp add: switch_context_def context_effect_def Let_def)

lemma insert_at:
  "j \<le> length rest \<Longrightarrow> (take j rest @ x # drop j rest) ! j = x \<and>
     take j (take j rest @ x # drop j rest) @ drop (j + 1) (take j rest @ x # drop j rest) = rest"
  by (simp add: nth_append)

text \<open>A tab and a panel for the witnesses.\<close>

definition sample_tab :: "string \<Rightarrow> bool option \<Rightarrow> string \<Rightarrow> nat tab" where
  "sample_tab i p c = \<lparr>tab_id = i, pinned = p, tab_context = InContext c, props = []\<rparr>"

definition sample_ui :: "nat tab list \<Rightarrow> string option \<Rightarrow> nat ui" where
  "sample_ui ts a = \<lparr>bottomTabs = ts, activeTabId = a, activeTabByContext = [], previousContext = ''c'', currentContext = ''c''\<rparr>"

lemmas sample_defs = sample_tab_def sample_ui_def is_pinned_def

lemma context_effect_visible:
  assumes "previousContext s \<noteq> currentContext s" "\<forall>t \<in> set (bottomTabs s). tab_context t \<noteq> InContext ''''"
  shows "case activeTabId (context_effect s) of
      Some a \<Rightarrow> a \<in> set (map tab_id (visibleTabs s)) | None \<Rightarrow> visibleTabs s = []"
proof -
  have v: "filter (\<lambda>t. \<not> hidden_after_switch (currentContext s) t \<or> is_pinned t) (bottomTabs s) = visibleTabs s"
    unfolding visibleTabs_def
    by (rule filter_cong) (use assms(2) in \<open>auto simp: hidden_after_switch_def isTabStale_def split: tab_context.splits\<close>)
  from assms(1) show ?thesis
    unfolding context_effect_def Let_def v
    by (auto split: option.splits list.splits)
qed

section \<open>Properties\<close>

text \<open>
  C11: from a panel without tabs, any sequence of the panel's operations and of
  context switches leaves every tab with an id of its own.
\<close>
theorem tabs_stay_distinct:
  assumes "bottomTabs s = []"
  shows "distinct (map tab_id (bottomTabs (foldl tab_op_step s ops)))"
  using tabs.run_good [of s ops] assms by (simp add: tabs_distinct_def ids_def)

definition plain_tab :: "string \<Rightarrow> 'c tab_spec" where
  "plain_tab i = \<lparr>spec_id = i, spec_pinned = None, spec_context = None, spec_props = []\<rparr>"

definition empty_panel :: "'c ui" where
  "empty_panel =
     \<lparr>bottomTabs = [], activeTabId = None, activeTabByContext = [], previousContext = '''', currentContext = ''c''\<rparr>"

theorem tabs_stay_distinct_witness:
  "let final = foldl tab_op_step empty_panel
         [OpenTab (plain_tab ''a''), OpenTab (plain_tab ''b''), OpenTab (plain_tab ''a''), TogglePin ''b'']
   in map tab_id (bottomTabs final) = [''b'', ''a''] \<and> distinct (map tab_id (bottomTabs final))"
  unfolding Let_def
proof
  let ?ops = "[OpenTab (plain_tab ''a''), OpenTab (plain_tab ''b''), OpenTab (plain_tab ''a''), TogglePin ''b'']"
  show "map tab_id (bottomTabs (foldl tab_op_step empty_panel ?ops)) = [''b'', ''a'']"
    by (simp add: plain_tab_def empty_panel_def openTab_def open_in_def find_index_def new_tab_def overlay_tab_def
        togglePinTab_def toggle_pin_def is_pinned_def spread_def Let_def)
  show "distinct (map tab_id (bottomTabs (foldl tab_op_step empty_panel ?ops)))"
    by (rule tabs_stay_distinct) (simp add: empty_panel_def)
qed

text \<open>
  Closing keeps pinned: no way of closing tabs removes a pinned one: not a single close, nor
  closing the others, those to the right, or all.
\<close>
theorem closing_keeps_pinned:
  assumes "distinct (map tab_id (bottomTabs s))" "t \<in> set (bottomTabs s)" "is_pinned t"
    and "op = CloseTab i \<or> op = CloseOthers i \<or> op = CloseRight i \<or> op = CloseAll"
  shows "t \<in> set (bottomTabs (tab_op_step s op))"
proof -
  have "t \<in> set (bottomTabs (closeTabsToRight i s))"
    using closeTabsToRight_sub [of s i] assms(2,3) by auto
  with closeTab_pinned [OF assms(1-3)] assms(2-4) show ?thesis
    by (auto simp: closeOtherTabs_def closeAllTabs_def)
qed

theorem closing_keeps_pinned_witness:
  "\<lparr>tab_id = ''a'', pinned = Some True, tab_context = Independent, props = []\<rparr> \<in> set (bottomTabs (tab_op_step
     \<lparr>bottomTabs = [\<lparr>tab_id = ''a'', pinned = Some True, tab_context = Independent, props = []\<rparr>], activeTabId = None,
      activeTabByContext = [], previousContext = '''', currentContext = ''''\<rparr> CloseAll))"
  by (rule closing_keeps_pinned) (simp_all add: is_pinned_def)

text \<open>
  Close moves selection: closing an unpinned tab removes exactly it; if it was the selected one,
  the selection moves to its left neighbour, or to the new first tab, or to none when no tab is
  left; otherwise the selection stays.
\<close>
theorem close_moves_selection:
  assumes "distinct (map tab_id (us @ t # vs))" "bottomTabs s = us @ t # vs" "\<not> is_pinned t"
    and "'''' \<notin> set (map tab_id (bottomTabs s))"
  shows "bottomTabs (closeTab (tab_id t) s) = us @ vs \<and>
    activeTabId (closeTab (tab_id t) s) =
      (if activeTabId s \<noteq> Some (tab_id t) then activeTabId s
       else if us \<noteq> [] then Some (tab_id (last us))
       else case vs of [] \<Rightarrow> None | v # _ \<Rightarrow> Some (tab_id v))"
proof -
  have other: "\<forall>u \<in> set us. tab_id u \<noteq> tab_id t" "\<forall>v \<in> set vs. tab_id v \<noteq> tab_id t"
    using assms(1) by (auto simp: image_iff)
  then have f: "filter (\<lambda>u. tab_id u \<noteq> tab_id t) (bottomTabs s) = us @ vs"
    using assms(2) by (simp add: filter_True)
  have i: "find_index (\<lambda>u. tab_id u = tab_id t) (bottomTabs s) = Some (length us)"
    unfolding assms(2) by (rule find_index_at) (use other in auto)
  have p: "List.find (\<lambda>u. tab_id u = tab_id t) (bottomTabs s) = Some t"
    using find_by_id [of "us @ t # vs" t] assms(1,2) by simp
  have a: "active_after_close (Some (length us)) (us @ vs) =
      (if us \<noteq> [] then Some (tab_id (last us)) else case vs of [] \<Rightarrow> None | v # _ \<Rightarrow> Some (tab_id v))"
  proof (cases us rule: rev_cases)
    case Nil
    with assms(2,4) show ?thesis by (cases vs) (auto simp: active_after_close_def)
  next
    case (snoc us' u)
    with assms(2,4) show ?thesis
      by (auto simp: active_after_close_def nth_append min_def)
  qed
  from f i p a assms(3) show ?thesis by (simp add: closeTab_def Let_def)
qed

theorem close_moves_selection_witness:
  "activeTabId (closeTab ''b'' (sample_ui [sample_tab ''a'' None ''c'', sample_tab ''b'' None ''c''] (Some ''b''))) = Some ''a''"
  using close_moves_selection [of "[sample_tab ''a'' None ''c'']" "sample_tab ''b'' None ''c''" "[]"
    "sample_ui [sample_tab ''a'' None ''c'', sample_tab ''b'' None ''c''] (Some ''b'')"]
  by (simp add: sample_defs)

text \<open>
  Switch selects visible: after a switch to another context the selected tab is one that is
  visible there, and there is none only when no tab is visible, provided no tab was opened under
  the empty context name.
\<close>
theorem switch_selects_visible:
  assumes "previousContext s \<noteq> c" "\<forall>t \<in> set (bottomTabs s). tab_context t \<noteq> InContext ''''"
  shows "case activeTabId (switch_context c s) of
      Some a \<Rightarrow> a \<in> set (map tab_id (visibleTabs (switch_context c s))) | None \<Rightarrow> visibleTabs (switch_context c s) = []"
proof -
  have "visibleTabs (switch_context c s) = visibleTabs (s\<lparr>currentContext := c\<rparr>)"
    by (simp add: visibleTabs_def isTabStale_def cong: tab_context.case_cong)
  then show ?thesis
    unfolding switch_context_def using context_effect_visible [of "s\<lparr>currentContext := c\<rparr>"] assms
    by (simp cong: option.case_cong)
qed

theorem switch_selects_visible_witness:
  "activeTabId (switch_context ''d'' (sample_ui [sample_tab ''a'' None ''c'', sample_tab ''b'' None ''d''] (Some ''a''))) = Some ''b''"
proof -
  let ?s = "sample_ui [sample_tab ''a'' None ''c'', sample_tab ''b'' None ''d''] (Some ''a'')"
  have v: "visibleTabs (switch_context ''d'' ?s) = [sample_tab ''b'' None ''d'']"
    by (simp add: visibleTabs_def isTabStale_def switch_context_def context_effect_def sample_defs)
  have "case activeTabId (switch_context ''d'' ?s) of
      Some a \<Rightarrow> a \<in> set (map tab_id (visibleTabs (switch_context ''d'' ?s)))
    | None \<Rightarrow> visibleTabs (switch_context ''d'' ?s) = []"
    by (rule switch_selects_visible) (simp_all add: sample_defs)
  with v show ?thesis by (simp add: sample_tab_def split: option.splits)
qed

text \<open>
  Drag moves tab: when every tab is visible, dropping a tab on another of the same section puts
  it at that place and keeps the order of all the others.
\<close>
theorem drag_moves_tab:
  assumes "visibleTabs s = bottomTabs s" "i < length (bottomTabs s)" "j < length (bottomTabs s)" "i \<noteq> j"
    and "pinned (bottomTabs s ! i) = pinned (bottomTabs s ! j)"
  shows "bottomTabs (dropTab i j s) ! j = bottomTabs s ! i \<and>
    take j (bottomTabs (dropTab i j s)) @ drop (j + 1) (bottomTabs (dropTab i j s)) =
      take i (bottomTabs s) @ drop (i + 1) (bottomTabs s)"
proof -
  let ?rest = "take i (bottomTabs s) @ drop (i + 1) (bottomTabs s)"
  have d: "bottomTabs (dropTab i j s) = take j ?rest @ bottomTabs s ! i # drop j ?rest"
    using assms by (simp add: dropTab_def handleDrop_def reorder_list_def Let_def)
  show ?thesis unfolding d by (rule insert_at) (use assms(2,3) in simp)
qed

theorem drag_moves_tab_witness:
  "bottomTabs (dropTab 0 1 (sample_ui [sample_tab ''a'' None ''c'', sample_tab ''b'' None ''c''] None)) ! 1 =
     sample_tab ''a'' None ''c''"
  using drag_moves_tab [of "sample_ui [sample_tab ''a'' None ''c'', sample_tab ''b'' None ''c''] None" 0 1]
  by (simp add: sample_defs visibleTabs_def isTabStale_def)

text \<open>
  Drag moves hidden tab: the indices of a drag count the visible tabs but are used on all tabs:
  with a hidden tab of another context in front, dragging the first visible tab over the second
  moves the hidden tab, and the visible order does not change.
\<close>
theorem drag_moves_hidden_tab:
  "\<exists>s :: nat ui. map tab_id (visibleTabs s) = [''a'', ''b''] \<and>
     map tab_id (visibleTabs (dropTab 0 1 s)) = [''a'', ''b''] \<and> bottomTabs (dropTab 0 1 s) \<noteq> bottomTabs s"
  by (rule exI [of _ "sample_ui [sample_tab ''h'' None ''x'', sample_tab ''a'' None ''c'', sample_tab ''b'' None ''c''] None"])
     (simp add: sample_defs visibleTabs_def isTabStale_def dropTab_def handleDrop_def reorder_list_def Let_def)

text \<open>
  Unpinned tab not draggable: a tab that was pinned and unpinned again carries \<open>pinned: false\<close>,
  a tab that never was carries no such property, and the drop compares the two: the tab can no
  longer be dragged among the others, although before it could.
\<close>
theorem unpinned_tab_not_draggable:
  "\<exists>s :: nat ui. bottomTabs (dropTab 0 1 s) \<noteq> bottomTabs s \<and>
     (let s' = togglePinTab ''a'' (togglePinTab ''a'' s) in
      map tab_id (bottomTabs s') = map tab_id (bottomTabs s) \<and> dropTab 0 1 s' = s')"
  by (rule exI [of _ "sample_ui [sample_tab ''a'' None ''c'', sample_tab ''b'' None ''c''] None"])
     (simp add: sample_defs visibleTabs_def isTabStale_def dropTab_def handleDrop_def reorder_list_def Let_def
        togglePinTab_def toggle_pin_def)

end
