(* ===== verification/Selection.thy ===== *)
theory Selection
  imports JsValue
begin

text \<open>
  Selected rows of a list (\<open>hooks/useSelection.tsx\<close>). The selected ids are a JavaScript
  \<open>Set\<close>, kept as a list without repetitions. \<open>toggleItem\<close> queues an update that reads
  \<open>lastSelectedIndexRef\<close> and then writes the ref; React may run a queued update at once or
  when it next renders, after the write: \<open>at_once\<close> tells which.
\<close>

record selection =
  selectedIds :: "jsv list"
  lastSelectedIndex :: "nat option"

definition item_uid :: "jsv \<Rightarrow> jsv" where  \<comment> \<open>\<open>item?.metadata?.uid\<close>\<close>
  "item_uid item = jopt (jopt item ''metadata'') ''uid''"

definition item_uids :: "jsv list \<Rightarrow> jsv list" where
  "item_uids items = filter truthy (map item_uid items)"

definition set_add :: "'a \<Rightarrow> 'a list \<Rightarrow> 'a list" where
  "set_add x xs = (if x \<in> set xs then xs else xs @ [x])"

definition set_delete :: "'a \<Rightarrow> 'a list \<Rightarrow> 'a list" where
  "set_delete x xs = filter (\<lambda>y. y \<noteq> x) xs"

text \<open>\<open>items[i]\<close>, \<open>undefined\<close> out of range.\<close>

definition item_at :: "jsv list \<Rightarrow> nat \<Rightarrow> jsv" where
  "item_at items i = (if i < length items then items ! i else JUndef)"

definition select_range :: "jsv list \<Rightarrow> nat \<Rightarrow> nat \<Rightarrow> jsv list \<Rightarrow> jsv list" where
  "select_range items a b ids =
     foldl (\<lambda>next i. let u = item_uid (item_at items i) in if truthy u then set_add u next else next)
       ids [min a b..<Suc (max a b)]"

definition toggle_update :: "jsv \<Rightarrow> nat \<Rightarrow> jsv list option \<Rightarrow> bool \<Rightarrow> nat option \<Rightarrow> jsv list \<Rightarrow> jsv list" where
  "toggle_update uid index items shiftKey lastIndex prev =
     (case (shiftKey, lastIndex, items) of
        (True, Some l, Some xs) \<Rightarrow> select_range xs l index prev
      | _ \<Rightarrow> if uid \<in> set prev then set_delete uid prev else set_add uid prev)"

definition toggleItem :: "bool \<Rightarrow> jsv \<Rightarrow> nat \<Rightarrow> jsv list option \<Rightarrow> bool \<Rightarrow> selection \<Rightarrow> selection" where
  "toggleItem at_once uid index items shiftKey s =
     s\<lparr>selectedIds := toggle_update uid index items shiftKey
          (if at_once then lastSelectedIndex s else Some index) (selectedIds s),
       lastSelectedIndex := Some index\<rparr>"

definition selectItem :: "jsv \<Rightarrow> selection \<Rightarrow> selection" where
  "selectItem uid s = s\<lparr>selectedIds := set_add uid (selectedIds s)\<rparr>"

definition deselectItem :: "jsv \<Rightarrow> selection \<Rightarrow> selection" where
  "deselectItem uid s = s\<lparr>selectedIds := set_delete uid (selectedIds s)\<rparr>"

definition selectAll :: "jsv list \<Rightarrow> selection \<Rightarrow> selection" where
  "selectAll items s = s\<lparr>selectedIds := uniq (item_uids items)\<rparr>"

definition deselectAll :: "selection \<Rightarrow> selection" where
  "deselectAll s = s\<lparr>selectedIds := [], lastSelectedIndex := None\<rparr>"

definition toggleAll :: "jsv list \<Rightarrow> selection \<Rightarrow> selection" where
  "toggleAll items s =
     s\<lparr>selectedIds := (if selectedIds s \<noteq> [] then [] else uniq (item_uids items))\<rparr>"

datatype selection_state = SelNone | SelSome | SelAll

definition getSelectionState :: "jsv list option \<Rightarrow> selection \<Rightarrow> selection_state" where
  "getSelectionState items s =
     (case items of
        None \<Rightarrow> SelNone
      | Some xs \<Rightarrow>
          (let itemUids = item_uids xs;
               selectedInList = length (filter (\<lambda>u. u \<in> set (selectedIds s)) itemUids)
           in if xs = [] \<or> itemUids = [] then SelNone
              else if selectedInList = 0 then SelNone
              else if selectedInList = length itemUids then SelAll
              else SelSome))"

definition getSelectedItems :: "jsv list \<Rightarrow> selection \<Rightarrow> jsv list" where
  "getSelectedItems items s = filter (\<lambda>item. item_uid item \<in> set (selectedIds s)) items"

definition pruneSelection :: "jsv list \<Rightarrow> selection \<Rightarrow> selection" where
  "pruneSelection items s =
     (let validUids = set (item_uids items); prev = selectedIds s in
      if prev = [] then s
      else if \<not> list_ex (\<lambda>u. u \<notin> validUids) prev then s
      else s\<lparr>selectedIds := filter (\<lambda>u. u \<in> validUids) prev\<rparr>)"

section \<open>Facts\<close>

lemma set_add_set [simp]: "set (set_add x xs) = insert x (set xs)"
  by (auto simp: set_add_def)

lemma set_delete_set [simp]: "set (set_delete x xs) = set xs - {x}"
  by (auto simp: set_delete_def)

lemma set_add_distinct: "distinct xs \<Longrightarrow> distinct (set_add x xs)"
  by (simp add: set_add_def)

lemma set_delete_distinct: "distinct xs \<Longrightarrow> distinct (set_delete x xs)"
  by (simp add: set_delete_def)

lemma range_fold_set:
  "set (foldl (\<lambda>next i. let u = item_uid (item_at items i) in if truthy u then set_add u next else next) ids is) =
     set ids \<union> {u. truthy u \<and> (\<exists>i \<in> set is. u = item_uid (item_at items i))}"
  by (induction "is" arbitrary: ids) (auto simp: Let_def)

lemma select_range_set:
  "set (select_range items a b ids) =
     set ids \<union> {u. truthy u \<and> (\<exists>i. min a b \<le> i \<and> i \<le> max a b \<and> u = item_uid (item_at items i))}"
  unfolding select_range_def range_fold_set by (auto simp: less_Suc_eq_le)

lemma select_range_distinct: "distinct ids \<Longrightarrow> distinct (select_range items a b ids)"
proof -
  have "distinct ids \<Longrightarrow> distinct (foldl (\<lambda>next i. let u = item_uid (item_at items i) in
          if truthy u then set_add u next else next) ids is)" for "is"
    by (induction "is" arbitrary: ids) (auto simp: Let_def set_add_distinct)
  then show "distinct ids \<Longrightarrow> distinct (select_range items a b ids)" by (simp add: select_range_def)
qed

datatype selection_op =
    Toggle bool jsv nat "jsv list option" bool
  | Select jsv
  | Deselect jsv
  | SelectAll "jsv list"
  | DeselectAll
  | ToggleAll "jsv list"
  | Prune "jsv list"

fun selection_step :: "selection \<Rightarrow> selection_op \<Rightarrow> selection" where
  "selection_step s (Toggle o' u i xs sh) = toggleItem o' u i xs sh s"
| "selection_step s (Select u) = selectItem u s"
| "selection_step s (Deselect u) = deselectItem u s"
| "selection_step s (SelectAll xs) = selectAll xs s"
| "selection_step s DeselectAll = deselectAll s"
| "selection_step s (ToggleAll xs) = toggleAll xs s"
| "selection_step s (Prune xs) = pruneSelection xs s"

interpretation selection: machine selection_step "\<lambda>s. distinct (selectedIds s)"
proof
  fix s :: selection and op assume "distinct (selectedIds s)"
  then show "distinct (selectedIds (selection_step s op))"
    by (cases op)
       (auto simp: toggleItem_def toggle_update_def selectItem_def deselectItem_def selectAll_def deselectAll_def
          toggleAll_def pruneSelection_def Let_def set_add_distinct set_delete_distinct select_range_distinct
          split: option.splits bool.splits)
qed

lemma state_simp:
  "getSelectionState (Some items) s =
     (let n = length (filter (\<lambda>u. u \<in> set (selectedIds s)) (item_uids items)) in
      if item_uids items = [] \<or> n = 0 then SelNone
      else if n = length (item_uids items) then SelAll else SelSome)"
proof -
  have "items = [] \<Longrightarrow> item_uids items = []" by (simp add: item_uids_def)
  then show ?thesis by (cases "items = []") (simp_all add: getSelectionState_def Let_def)
qed

lemma filter_all: "length (filter P xs) = length xs \<longleftrightarrow> (\<forall>x \<in> set xs. P x)"
  by (metis filter_True filter_id_conv length_filter_less less_irrefl)

lemma state_all:
  "getSelectionState (Some items) s = SelAll \<longleftrightarrow>
     item_uids items \<noteq> [] \<and> set (item_uids items) \<subseteq> set (selectedIds s)"
  unfolding state_simp Let_def
  using hd_in_set [of "item_uids items"] filter_all [of "\<lambda>u. u \<in> set (selectedIds s)" "item_uids items"]
  by (auto simp: filter_empty_conv subset_iff)

lemma state_none:
  "getSelectionState (Some items) s = SelNone \<longleftrightarrow> set (item_uids items) \<inter> set (selectedIds s) = {}"
  unfolding state_simp by (auto simp: Let_def filter_empty_conv)

section \<open>Properties\<close>

text \<open>
  Range click selects range: a shift-click whose update runs at once adds exactly the ids of the
  rows from the last clicked row to this one, in either direction.
\<close>
theorem range_click_selects_range:
  "set (selectedIds (toggleItem True uid index (Some items) True (s\<lparr>lastSelectedIndex := Some l\<rparr>))) =
     set (selectedIds s) \<union>
     {u. truthy u \<and> (\<exists>i. min l index \<le> i \<and> i \<le> max l index \<and> u = item_uid (item_at items i))}"
  by (simp add: toggleItem_def toggle_update_def select_range_set)

text \<open>
  Range click deferred: when React defers the update, the ref already holds the clicked row, and
  the shift-click adds at most that one row, whatever was clicked before.
\<close>
theorem range_click_deferred:
  "set (selectedIds (toggleItem False uid index (Some items) True s)) \<subseteq>
     insert (item_uid (item_at items index)) (set (selectedIds s))"
  by (auto simp: toggleItem_def toggle_update_def select_range_set)

text \<open>
  Selection state exact: after any operations the state of the header box is \<open>all\<close> exactly when
  the list has ids and all of them are selected, \<open>none\<close> exactly when none is, and the selected
  items are the rows whose id is selected; selecting all makes it \<open>all\<close> for a list with ids.
\<close>
theorem selection_state_exact:
  "(getSelectionState (Some items) s = SelAll \<longleftrightarrow>
      item_uids items \<noteq> [] \<and> set (item_uids items) \<subseteq> set (selectedIds s)) \<and>
   (getSelectionState (Some items) s = SelNone \<longleftrightarrow> set (item_uids items) \<inter> set (selectedIds s) = {}) \<and>
   (item_uids items \<noteq> [] \<longrightarrow> getSelectionState (Some items) (selectAll items s) = SelAll)"
  using state_all state_none by (simp add: selectAll_def)

theorem selection_state_exact_witness:
  "getSelectionState (Some [JObj [(''metadata'', JObj [(''uid'', JStr ''a'')])]])
     (selectAll [JObj [(''metadata'', JObj [(''uid'', JStr ''a'')])]] \<lparr>selectedIds = [], lastSelectedIndex = None\<rparr>) = SelAll"
  using selection_state_exact [of "[JObj [(''metadata'', JObj [(''uid'', JStr ''a'')])]]"
      "\<lparr>selectedIds = [], lastSelectedIndex = None\<rparr>"]
  by (simp add: item_uids_def item_uid_def jopt_def)

end
