(* ===== verification/SavedViews.thy ===== *)
theory SavedViews
  imports JsValue
begin

text \<open>
  Saved filter presets (\<open>hooks/useSavedViews.tsx\<close>). New ids and the current time are arguments
  of the operations that take them from \<open>generateId\<close> and \<open>Date.now\<close>; the preset's table
  settings are stored as the values they are.
\<close>

record saved_view =
  view_id :: string
  view_name :: string
  resourceType :: string
  query :: string
  namespace :: jsv
  hiddenColumns :: jsv
  sortConfig :: jsv
  columnFilters :: jsv
  columnOrder :: jsv
  createdAt :: int
  isDefault :: bool

record view_config =
  cfg_query :: jsv
  cfg_namespace :: jsv
  cfg_hiddenColumns :: jsv
  cfg_sortConfig :: jsv
  cfg_columnFilters :: jsv
  cfg_columnOrder :: jsv
  cfg_resourceType :: "string option"

text \<open>
  An update, \<open>Partial<SavedView>\<close>, may name any field of a view; \<open>None\<close> is a field that is
  absent from it.
\<close>

record view_patch =
  patch_id :: "string option"
  patch_name :: "string option"
  patch_resourceType :: "string option"
  patch_query :: "string option"
  patch_namespace :: "jsv option"
  patch_hiddenColumns :: "jsv option"
  patch_sortConfig :: "jsv option"
  patch_columnFilters :: "jsv option"
  patch_columnOrder :: "jsv option"
  patch_createdAt :: "int option"
  patch_isDefault :: "bool option"

definition str_or :: "string option \<Rightarrow> string \<Rightarrow> string" where  \<comment> \<open>\<open>a || b\<close> on strings\<close>
  "str_or a b = (case a of Some s \<Rightarrow> if s \<noteq> '''' then s else b | None \<Rightarrow> b)"

definition make_view :: "string option \<Rightarrow> string \<Rightarrow> int \<Rightarrow> string \<Rightarrow> view_config \<Rightarrow> saved_view" where
  "make_view rt newId time name config =
     \<lparr>view_id = newId, view_name = name,
      resourceType = str_or (cfg_resourceType config) (str_or rt ''''),
      query = (case jor (cfg_query config) (JStr '''') of JStr q \<Rightarrow> q | _ \<Rightarrow> ''''),
      namespace = cfg_namespace config,
      hiddenColumns = jor (cfg_hiddenColumns config) (JArr []),
      sortConfig = jor (cfg_sortConfig config) JNull,
      columnFilters = jor (cfg_columnFilters config) (JObj []),
      columnOrder = cfg_columnOrder config,
      createdAt = time, isDefault = False\<rparr>"

definition saveView :: "string option \<Rightarrow> string \<Rightarrow> int \<Rightarrow> string \<Rightarrow> view_config \<Rightarrow> saved_view list \<Rightarrow> saved_view list" where
  "saveView rt newId time name config prev = prev @ [make_view rt newId time name config]"

definition find_view :: "string \<Rightarrow> saved_view list \<Rightarrow> saved_view option" where
  "find_view viewId all = List.find (\<lambda>v. view_id v = viewId) all"

definition patch_or :: "'a option \<Rightarrow> 'a \<Rightarrow> 'a" where
  "patch_or p old = (case p of Some x \<Rightarrow> x | None \<Rightarrow> old)"

definition apply_patch :: "view_patch \<Rightarrow> saved_view \<Rightarrow> saved_view" where  \<comment> \<open>\<open>{ ...view, ...updates }\<close>\<close>
  "apply_patch p v =
     \<lparr>view_id = patch_or (patch_id p) (view_id v),
      view_name = patch_or (patch_name p) (view_name v),
      resourceType = patch_or (patch_resourceType p) (resourceType v),
      query = patch_or (patch_query p) (query v),
      namespace = patch_or (patch_namespace p) (namespace v),
      hiddenColumns = patch_or (patch_hiddenColumns p) (hiddenColumns v),
      sortConfig = patch_or (patch_sortConfig p) (sortConfig v),
      columnFilters = patch_or (patch_columnFilters p) (columnFilters v),
      columnOrder = patch_or (patch_columnOrder p) (columnOrder v),
      createdAt = patch_or (patch_createdAt p) (createdAt v),
      isDefault = patch_or (patch_isDefault p) (isDefault v)\<rparr>"

definition empty_patch :: view_patch where
  "empty_patch =
     \<lparr>patch_id = None, patch_name = None, patch_resourceType = None, patch_query = None, patch_namespace = None,
      patch_hiddenColumns = None, patch_sortConfig = None, patch_columnFilters = None, patch_columnOrder = None,
      patch_createdAt = None, patch_isDefault = None\<rparr>"

definition updateView :: "string \<Rightarrow> view_patch \<Rightarrow> saved_view list \<Rightarrow> saved_view list" where
  "updateView viewId updates prev =
     (case find_index (\<lambda>v. view_id v = viewId) prev of
        None \<Rightarrow> prev
      | Some i \<Rightarrow> prev[i := apply_patch updates (prev ! i)])"

text \<open>
  The two updates the application makes: renaming a view, and storing the table's settings in it
  (\<open>handleUpdateView\<close> of \<open>components/shared/ResourceList.tsx\<close>; the filters are the serialised ones).
\<close>

definition rename_patch :: "string \<Rightarrow> view_patch" where
  "rename_patch newName = empty_patch\<lparr>patch_name := Some newName\<rparr>"

definition settings_patch :: "string \<Rightarrow> jsv \<Rightarrow> jsv \<Rightarrow> jsv \<Rightarrow> jsv \<Rightarrow> jsv \<Rightarrow> view_patch" where
  "settings_patch q ns hidden sortCfg serializedFilters order =
     empty_patch\<lparr>patch_query := Some q, patch_namespace := Some ns, patch_hiddenColumns := Some hidden,
       patch_sortConfig := Some sortCfg, patch_columnFilters := Some serializedFilters,
       patch_columnOrder := Some order\<rparr>"

definition renameView :: "string \<Rightarrow> string \<Rightarrow> saved_view list \<Rightarrow> saved_view list" where
  "renameView viewId newName prev = updateView viewId (rename_patch newName) prev"

definition deleteView :: "string \<Rightarrow> saved_view list \<Rightarrow> saved_view list" where
  "deleteView viewId prev = filter (\<lambda>v. view_id v \<noteq> viewId) prev"

definition duplicateView :: "string \<Rightarrow> int \<Rightarrow> string \<Rightarrow> saved_view list \<Rightarrow> saved_view list" where
  "duplicateView newId time viewId prev =
     (case find_view viewId prev of
        None \<Rightarrow> prev
      | Some source \<Rightarrow>
          prev @ [source\<lparr>view_id := newId, view_name := view_name source @ '' (copy)'', createdAt := time,
                         isDefault := False\<rparr>])"

definition setDefaultView :: "string \<Rightarrow> saved_view list \<Rightarrow> saved_view list" where
  "setDefaultView viewId prev =
     (case find_view viewId prev of
        None \<Rightarrow> prev
      | Some view \<Rightarrow>
          map (\<lambda>v. if view_id v = viewId then v\<lparr>isDefault := \<not> isDefault view\<rparr>
                   else if \<not> isDefault view \<and> resourceType v = resourceType view \<and> isDefault v
                   then v\<lparr>isDefault := False\<rparr>
                   else v) prev)"

definition views_of :: "string option \<Rightarrow> saved_view list \<Rightarrow> saved_view list" where
  "views_of rt all =
     (case rt of Some t \<Rightarrow> if t \<noteq> '''' then filter (\<lambda>v. resourceType v = t) all else all | None \<Rightarrow> all)"

definition getDefaultView :: "string option \<Rightarrow> saved_view list \<Rightarrow> saved_view option" where
  "getDefaultView rt all = List.find isDefault (views_of rt all)"

section \<open>At most one default per resource type\<close>

datatype view_op =
    Save "string option" string int string view_config
  | Update string view_patch
  | Rename string string
  | Delete string
  | Duplicate string int string
  | SetDefault string

fun view_step :: "saved_view list \<Rightarrow> view_op \<Rightarrow> saved_view list" where
  "view_step vs (Save rt i t n c) = saveView rt i t n c vs"
| "view_step vs (Update i p) = updateView i p vs"
| "view_step vs (Rename i n) = renameView i n vs"
| "view_step vs (Delete i) = deleteView i vs"
| "view_step vs (Duplicate n t i) = duplicateView n t i vs"
| "view_step vs (SetDefault i) = setDefaultView i vs"

definition defaults :: "string \<Rightarrow> saved_view list \<Rightarrow> string list" where
  "defaults rt vs = map view_id (filter (\<lambda>v. resourceType v = rt \<and> isDefault v) vs)"

definition one_default :: "saved_view list \<Rightarrow> bool" where
  "one_default vs \<longleftrightarrow>
     list_all (\<lambda>v. list_all (\<lambda>w. isDefault v \<and> isDefault w \<and> resourceType v = resourceType w \<longrightarrow>
        view_id v = view_id w) vs) vs"

definition views_ok :: "saved_view list \<Rightarrow> bool" where
  "views_ok vs \<longleftrightarrow> distinct (map view_id vs) \<and> one_default vs"

text \<open>
  The ids \<open>generateId\<close> produces are new, and an update leaves the id of the view, its resource
  type and its default mark alone, as the updates of the application do.
\<close>

definition plain_patch :: "view_patch \<Rightarrow> bool" where
  "plain_patch p \<longleftrightarrow> patch_id p = None \<and> patch_resourceType p = None \<and> patch_isDefault p = None"

lemma application_patches:
  "plain_patch (rename_patch newName)" "plain_patch (settings_patch q ns hidden sortCfg filters order)"
  by (simp_all add: plain_patch_def rename_patch_def settings_patch_def empty_patch_def)

fun op_ok :: "saved_view list \<Rightarrow> view_op \<Rightarrow> bool" where
  "op_ok vs (Save rt i t n c) = (i \<notin> set (map view_id vs))"
| "op_ok vs (Duplicate i t old) = (i \<notin> set (map view_id vs))"
| "op_ok vs (Update i p) = plain_patch p"
| "op_ok vs _ = True"

inductive view_trans :: "saved_view list \<Rightarrow> saved_view list \<Rightarrow> bool" where
  op: "op_ok vs op \<Longrightarrow> view_trans vs (view_step vs op)"

inductive_cases view_transE: "view_trans vs ws"

text \<open>What the invariant reads of a view.\<close>

definition view_key :: "saved_view \<Rightarrow> string \<times> string \<times> bool" where
  "view_key v = (view_id v, resourceType v, isDefault v)"

lemma one_default_iff:
  "one_default vs \<longleftrightarrow> (\<forall>v \<in> set vs. \<forall>w \<in> set vs. isDefault v \<and> isDefault w \<and>
     resourceType v = resourceType w \<longrightarrow> view_id v = view_id w)"
  by (simp add: one_default_def list_all_iff)

lemma one_default_key:
  "one_default vs \<longleftrightarrow> (\<forall>(i, t, d) \<in> view_key ` set vs. \<forall>(i', t', d') \<in> view_key ` set vs. d \<and> d' \<and> t = t' \<longrightarrow> i = i')"
  unfolding one_default_iff by (simp add: view_key_def)

lemma views_ok_key: "map view_key vs = map view_key ws \<Longrightarrow> views_ok vs = views_ok ws"
proof -
  assume m: "map view_key vs = map view_key ws"
  then have "map fst (map view_key vs) = map fst (map view_key ws)" by simp
  then have "map view_id vs = map view_id ws" by (simp add: comp_def view_key_def)
  moreover have "view_key ` set vs = view_key ` set ws" using m by (metis list.set_map)
  ultimately show ?thesis by (simp add: views_ok_def one_default_key)
qed

lemma apply_patch_key [simp]: "plain_patch p \<Longrightarrow> view_key (apply_patch p v) = view_key v"
  by (simp add: apply_patch_def plain_patch_def view_key_def patch_or_def)

lemma update_key: "plain_patch p \<Longrightarrow> map view_key (updateView i p vs) = map view_key vs"
proof (cases "find_index (\<lambda>v. view_id v = i) vs")
  case (Some k)
  then have "k < length vs" by (rule find_index_SomeD)
  then have "(map view_key vs)[k := view_key (vs ! k)] = map view_key vs"
    by (simp add: list_update_same_conv)
  moreover assume "plain_patch p"
  ultimately show ?thesis using Some by (simp add: updateView_def map_update)
qed (simp add: updateView_def)

lemma views_ok_append: "views_ok vs \<Longrightarrow> \<not> isDefault v \<Longrightarrow> view_id v \<notin> set (map view_id vs) \<Longrightarrow> views_ok (vs @ [v])"
proof -
  assume ok: "views_ok vs" and d: "\<not> isDefault v" and i: "view_id v \<notin> set (map view_id vs)"
  have "\<forall>a \<in> set (vs @ [v]). \<forall>b \<in> set (vs @ [v]). isDefault a \<and> isDefault b \<and>
      resourceType a = resourceType b \<longrightarrow> view_id a = view_id b"
  proof (intro ballI impI)
    fix a b assume "a \<in> set (vs @ [v])" "b \<in> set (vs @ [v])"
      and p: "isDefault a \<and> isDefault b \<and> resourceType a = resourceType b"
    with d have "a \<in> set vs" "b \<in> set vs" by auto
    with ok p show "view_id a = view_id b" unfolding views_ok_def one_default_iff by blast
  qed
  then have "one_default (vs @ [v])" unfolding one_default_iff .
  moreover have "distinct (map view_id (vs @ [v]))" using ok i unfolding views_ok_def by simp
  ultimately show ?thesis unfolding views_ok_def by blast
qed

lemma views_ok_delete: "views_ok vs \<Longrightarrow> views_ok (deleteView i vs)"
  unfolding views_ok_def one_default_iff deleteView_def by (simp add: distinct_map_filter)

lemma find_view_Some: "find_view i vs = Some v \<Longrightarrow> v \<in> set vs \<and> view_id v = i"
  by (auto simp: find_view_def find_Some_iff)

definition set_default_view :: "saved_view \<Rightarrow> saved_view \<Rightarrow> saved_view" where
  "set_default_view view v =
     (if view_id v = view_id view then v\<lparr>isDefault := \<not> isDefault view\<rparr>
      else if \<not> isDefault view \<and> resourceType v = resourceType view \<and> isDefault v then v\<lparr>isDefault := False\<rparr>
      else v)"

lemma setDefaultView_map: "find_view i vs = Some view \<Longrightarrow> setDefaultView i vs = map (set_default_view view) vs"
  using find_view_Some by (fastforce simp: setDefaultView_def set_default_view_def)

lemma set_default_frame [simp]:
  "view_id (set_default_view view v) = view_id v" "resourceType (set_default_view view v) = resourceType v"
  by (simp_all add: set_default_view_def)

lemma set_default_flag:
  "isDefault (set_default_view view v) \<longleftrightarrow>
     (if view_id v = view_id view then \<not> isDefault view
      else isDefault v \<and> (isDefault view \<or> resourceType v \<noteq> resourceType view))"
  by (cases "isDefault v"; cases "isDefault view") (simp_all add: set_default_view_def)

lemma views_ok_set:
  assumes "views_ok vs" shows "views_ok (setDefaultView i vs)"
proof (cases "find_view i vs")
  case (Some view)
  from find_view_Some [OF Some] have view: "view \<in> set vs" by simp
  have same: "view_id v = view_id view \<Longrightarrow> v = view" if "v \<in> set vs" for v
    using assms that view unfolding views_ok_def distinct_map by (auto dest: inj_onD)
  have "one_default (map (set_default_view view) vs)"
    unfolding one_default_iff
  proof (intro ballI impI)
    fix v' w' assume "v' \<in> set (map (set_default_view view) vs)" "w' \<in> set (map (set_default_view view) vs)"
      and d: "isDefault v' \<and> isDefault w' \<and> resourceType v' = resourceType w'"
    then obtain v w where v: "v \<in> set vs" "v' = set_default_view view v" and w: "w \<in> set vs" "w' = set_default_view view w"
      by auto
    have t: "resourceType v = resourceType w" using d v w by simp
    show "view_id v' = view_id w'"
    proof (cases "isDefault v \<and> isDefault w")
      case True
      with assms v(1) w(1) t have "view_id v = view_id w" unfolding views_ok_def one_default_iff by blast
      with v w show ?thesis by simp
    next
      case False
      have "\<not> (view_id v \<noteq> view_id view \<and> view_id w \<noteq> view_id view)"
        using False d v(2) w(2) set_default_flag by metis
      moreover have "view_id w \<noteq> view_id view \<Longrightarrow> view_id v = view_id view \<Longrightarrow> False"
        using same [OF v(1)] d v(2) w(2) t set_default_flag by metis
      moreover have "view_id v \<noteq> view_id view \<Longrightarrow> view_id w = view_id view \<Longrightarrow> False"
        using same [OF w(1)] d v(2) w(2) t set_default_flag by metis
      ultimately have "view_id v = view_id w" by metis
      with v w show ?thesis by simp
    qed
  qed
  moreover have "map view_id (map (set_default_view view) vs) = map view_id vs" by simp
  ultimately show ?thesis
    using assms unfolding views_ok_def setDefaultView_map [OF Some] by metis
qed (use assms in \<open>simp add: setDefaultView_def\<close>)

lemma view_step_ok:
  assumes "views_ok vs" "op_ok vs op"
  shows "views_ok (view_step vs op)"
proof (cases op)
  case (Save rt i t n c)
  with assms show ?thesis by (auto simp: saveView_def make_view_def intro: views_ok_append)
next
  case (Duplicate i t old)
  with assms show ?thesis by (auto simp: duplicateView_def intro: views_ok_append split: option.split)
next
  case (SetDefault i)
  with assms show ?thesis by (simp add: views_ok_set)
next
  case (Delete i)
  with assms show ?thesis by (simp add: views_ok_delete)
next
  case (Update i p)
  with assms views_ok_key [OF update_key] show ?thesis by simp
next
  case (Rename i n)
  with assms views_ok_key [OF update_key [OF application_patches(1)]] show ?thesis by (simp add: renameView_def)
qed

interpretation views: transition_system views_ok view_trans views_ok
  by unfold_locales (auto elim!: view_transE intro: view_step_ok)

section \<open>Properties\<close>

text \<open>
  C25: starting without views, whatever views are saved and copied under new ids, renamed,
  deleted, made default, and updated by patches that leave the id, the resource type and the
  default mark of the view alone (the application makes no others: it renames a view or stores
  the settings of the table in it), the ids stay distinct and two default views of one resource
  type are the same view. \<open>updateView\<close> itself accepts a patch of any field, and one that marks
  the view as default would leave two of them.
\<close>
theorem one_default_view:
  assumes "view_trans\<^sup>*\<^sup>* [] vs" "v \<in> set vs" "w \<in> set vs" "isDefault v" "isDefault w"
    and "resourceType v = resourceType w"
  shows "view_id v = view_id w \<and> distinct (map view_id vs)"
proof -
  have "views_ok []" by (simp add: views_ok_def one_default_def)
  from views.reachable_inv [OF this assms(1)] assms(2-6) show ?thesis
    unfolding views_ok_def one_default_iff by blast
qed

definition sample_config :: view_config where
  "sample_config = \<lparr>cfg_query = JUndef, cfg_namespace = JUndef, cfg_hiddenColumns = JUndef, cfg_sortConfig = JUndef,
     cfg_columnFilters = JUndef, cfg_columnOrder = JUndef, cfg_resourceType = Some ''pods''\<rparr>"

theorem one_default_view_witness:
  "distinct (map view_id (updateView ''v1'' (settings_patch ''web'' JNull (JArr []) JNull (JObj []) JUndef)
     (setDefaultView ''v1'' (saveView None ''v1'' 0 ''mine'' sample_config []))))"
proof -
  let ?vs = "saveView None ''v1'' 0 ''mine'' sample_config []"
  let ?ws = "setDefaultView ''v1'' ?vs"
  let ?p = "settings_patch ''web'' JNull (JArr []) JNull (JObj []) JUndef"
  let ?us = "updateView ''v1'' ?p ?ws"
  have "view_trans [] (view_step [] (Save None ''v1'' 0 ''mine'' sample_config))"
    "view_trans ?vs (view_step ?vs (SetDefault ''v1''))" "view_trans ?ws (view_step ?ws (Update ''v1'' ?p))"
    by (rule view_trans.op; simp add: application_patches)+
  then have r: "view_trans\<^sup>*\<^sup>* [] ?us" by simp
  have us: "?us = [apply_patch ?p ((make_view None ''v1'' 0 ''mine'' sample_config)\<lparr>isDefault := True\<rparr>)]"
    by (simp add: setDefaultView_def find_view_def saveView_def make_view_def updateView_def find_index_def)
  have "hd ?us \<in> set ?us" unfolding us by simp
  moreover have "isDefault (hd ?us)"
    unfolding us by (simp add: apply_patch_def settings_patch_def empty_patch_def patch_or_def)
  ultimately show ?thesis using one_default_view [OF r, of "hd ?us" "hd ?us"] by blast
qed

text \<open>
  Update can add a default: a patch that sets the default mark leaves two default views of one
  resource type, which \<open>setDefaultView\<close> is there to prevent.
\<close>
theorem update_can_add_default:
  fixes vs defines "vs \<equiv> [(make_view None ''v1'' 0 ''mine'' sample_config)\<lparr>isDefault := True\<rparr>,
                         make_view None ''v2'' 1 ''other'' sample_config]"
  shows "views_ok vs \<and>
    \<not> one_default (updateView ''v2'' (empty_patch\<lparr>patch_isDefault := Some True\<rparr>) vs)"
  by (simp add: vs_def views_ok_def one_default_def updateView_def find_index_def make_view_def
      sample_config_def str_or_def apply_patch_def empty_patch_def patch_or_def)

text \<open>
  Set default toggles: making a view the default of its type sets it and clears every other view
  of the type; doing it to the default view only clears that one; the views of other types and
  everything else of a view stay as they are.
\<close>
theorem set_default_toggles:
  assumes "distinct (map view_id vs)" "view \<in> set vs"
  shows "map view_id (setDefaultView (view_id view) vs) = map view_id vs \<and>
    (\<forall>i < length vs. isDefault (setDefaultView (view_id view) vs ! i) \<longleftrightarrow>
       (if vs ! i = view then \<not> isDefault view
        else isDefault (vs ! i) \<and> (isDefault view \<or> resourceType (vs ! i) \<noteq> resourceType view)))"
proof -
  have "List.find (\<lambda>u. view_id u = view_id view) vs = Some view"
    using assms by (induction vs) (auto simp: image_iff)
  then have m: "setDefaultView (view_id view) vs = map (set_default_view view) vs"
    by (intro setDefaultView_map) (simp add: find_view_def)
  have "view_id (vs ! i) = view_id view \<longleftrightarrow> vs ! i = view" if "i < length vs" for i
    using assms that unfolding distinct_map by (metis inj_onD nth_mem)
  then show ?thesis unfolding m by (simp add: set_default_flag comp_def)
qed

theorem set_default_toggles_witness:
  "map view_id (setDefaultView ''v1'' [make_view None ''v1'' 0 ''mine'' sample_config]) = [''v1'']"
  using set_default_toggles [of "[make_view None ''v1'' 0 ''mine'' sample_config]" "make_view None ''v1'' 0 ''mine'' sample_config"]
  by (simp add: make_view_def)

end
