(* ===== verification/PodStatus.thy ===== *)
theory PodStatus
  imports FieldsCommon
begin

text \<open>
  What the views say about pods (\<open>utils/k8s-helpers.ts\<close>) and where an owner reference leads
  (\<open>utils/owner-navigation.ts\<close>). A result \<open>None\<close> is a thrown \<open>TypeError\<close>. Values compared
  with \<open>===\<close> are strings, numbers or \<open>undefined\<close>; object kinds are not names of
  \<open>Object.prototype\<close>.
\<close>

section \<open>Status of a pod\<close>

text \<open>The loop over the init containers is the one the search field repeats.\<close>

definition getPodStatus :: "jsv \<Rightarrow> jsv option" where
  "getPodStatus pod =
     do { deleted \<leftarrow> jpath pod [''metadata'', ''deletionTimestamp''];
          if truthy deleted then Some (JStr ''Terminating'')
          else do {
            inits \<leftarrow> jpath pod [''status'', ''initContainerStatuses''];
            verdict \<leftarrow> (if truthy inits then jiter inits \<bind> search_init_loop else Some None);
            case verdict of
              Some s \<Rightarrow> Some (JStr s)
            | None \<Rightarrow> path_str pod [''status'', ''phase''] ''Unknown'' } }"

definition getPodStatusPriority :: "string \<Rightarrow> nat" where
  "getPodStatusPriority status =
     (if status \<in> {''Failed'', ''Init:Error''} then 1
      else if status \<in> {''CrashLoopBackOff'', ''Init:CrashLoopBackOff''} then 2
      else if status \<in> {''ErrImagePull'', ''Init:ErrImagePull''} then 3
      else if status \<in> {''ImagePullBackOff'', ''Init:ImagePullBackOff''} then 4
      else if status = ''Terminating'' then 5
      else if status \<in> {''Pending'', ''Init:Running'', ''Init:Waiting'', ''PodInitializing''} then 6
      else if status = ''ContainerCreating'' then 7
      else if status = ''Running'' then 8
      else if status = ''Succeeded'' then 9
      else 10)"

definition getPodStatusColor :: "string \<Rightarrow> string" where
  "getPodStatusColor status =
     (if status = ''Running'' then ''text-success''
      else if status = ''Succeeded'' then ''text-green-600''
      else if status \<in> {''Pending'', ''ContainerCreating'', ''Init:Running'', ''Init:Waiting'', ''PodInitializing''}
      then ''text-warning''
      else if status \<in> {''Terminating'', ''CrashLoopBackOff'', ''ImagePullBackOff'', ''ErrImagePull'',
          ''Init:CrashLoopBackOff'', ''Init:ImagePullBackOff'', ''Init:ErrImagePull'', ''Unknown''}
      then ''text-red-orange''
      else if status \<in> {''Failed'', ''Init:Error''} then ''text-error''
      else ''text-text'')"

definition getJobConditionColor :: "string \<Rightarrow> string" where
  "getJobConditionColor condition =
     (if condition = ''Complete'' then ''text-green-600''
      else if condition = ''Failed'' then ''text-error''
      else if condition = ''Suspended'' then ''text-warning''
      else ''text-text'')"

definition getContainerStatusColor :: "jsv \<Rightarrow> string option" where
  "getContainerStatusColor status =
     do { running \<leftarrow> jpath status [''state'', ''running''];
          waiting \<leftarrow> jpath status [''state'', ''waiting''];
          terminated \<leftarrow> jpath status [''state'', ''terminated''];
          Some (if truthy running then ''bg-success''
                else if truthy waiting
                then (if js_member waiting ''reason'' \<in> set blocking_reasons then ''bg-red-orange'' else ''bg-warning'')
                else if truthy terminated
                then (if js_member terminated ''exitCode'' = JNum 0 then ''bg-success/50'' else ''bg-error'')
                else ''bg-gray-500'') }"

section \<open>The worst container\<close>

definition getStatusSeverity :: "jsv \<Rightarrow> int" where
  "getStatusSeverity s =
     (if s = JStr ''Failed'' then 100
      else if s = JStr ''Terminating'' then 90
      else if s = JStr ''ErrImagePull'' then 80
      else if s = JStr ''CrashLoopBackOff'' then 70
      else if s = JStr ''ImagePullBackOff'' then 60
      else if s = JStr ''ContainerCreating'' then 50
      else if s = JStr ''Pending'' then 40
      else if s = JStr ''Running'' then 30
      else if s = JStr ''Succeeded'' then 20
      else 0)"

definition succeeded :: "jsv \<Rightarrow> bool option" where
  "succeeded s =
     do { terminated \<leftarrow> jpath s [''state'', ''terminated''];
          Some (truthy terminated \<and> js_member terminated ''exitCode'' = JNum 0) }"

text \<open>\<open>currentStatus\<close> of a container; \<open>JNull\<close> where none of the branches applies.\<close>

definition container_status :: "jsv \<Rightarrow> jsv option" where
  "container_status status =
     do { waiting \<leftarrow> jpath status [''state'', ''waiting''];
          terminated \<leftarrow> jpath status [''state'', ''terminated''];
          running \<leftarrow> jpath status [''state'', ''running''];
          Some (if truthy waiting then js_member waiting ''reason''
                else if truthy terminated
                then JStr (if js_member terminated ''exitCode'' = JNum 0 then ''Succeeded'' else ''Failed'')
                else if truthy running then JStr ''Running''
                else JNull) }"

definition worse :: "jsv \<times> int \<Rightarrow> jsv \<Rightarrow> jsv \<times> int" where
  "worse acc currentStatus =
     (case acc of (worstStatus, worstPriority) \<Rightarrow>
        if truthy currentStatus \<and> getStatusSeverity currentStatus > worstPriority
        then (currentStatus, getStatusSeverity currentStatus) else (worstStatus, worstPriority))"

definition statuses_to_check :: "jsv \<Rightarrow> jsv list option" where
  "statuses_to_check containerStatuses =
     do { xs \<leftarrow> jiter containerStatuses;
          if length xs > 1
          then do { ys \<leftarrow> jarr containerStatuses; nonSucceeded \<leftarrow> jfilter (\<lambda>s. map_option Not (succeeded s)) ys;
                    Some (if nonSucceeded \<noteq> [] then nonSucceeded else ys) }
          else Some xs }"

definition getEffectivePodStatus :: "jsv \<Rightarrow> jsv option" where
  "getEffectivePodStatus pod =
     do { deleted \<leftarrow> jpath pod [''metadata'', ''deletionTimestamp''];
          if truthy deleted then Some (JStr ''Terminating'')
          else do {
            containerStatuses \<leftarrow> path_or pod [''status'', ''containerStatuses''] (JArr []);
            statuses \<leftarrow> statuses_to_check containerStatuses;
            current \<leftarrow> jmap container_status statuses;
            let worstStatus = fst (foldl worse (JNull, -1) current) in
            if truthy worstStatus then Some worstStatus
            else path_str pod [''status'', ''phase''] ''Unknown'' } }"

section \<open>Owners\<close>

definition labels_match :: "(string \<times> jsv) list \<Rightarrow> jsv \<Rightarrow> bool" where
  "labels_match selector labels = list_all (\<lambda>(key, v). jopt labels key = v) selector"

definition getDeploymentPods :: "jsv \<Rightarrow> jsv \<Rightarrow> jsv list option" where
  "getDeploymentPods deployment allPods =
     do { selector \<leftarrow> jpath deployment [''spec'', ''selector'', ''matchLabels''];
          if \<not> truthy selector then Some []
          else do {
            pods \<leftarrow> jarr (jor allPods (JArr []));
            jfilter (\<lambda>pod. do { md \<leftarrow> jget pod ''metadata''; ns \<leftarrow> jget md ''namespace'';
                               dmd \<leftarrow> jget deployment ''metadata''; dns \<leftarrow> jget dmd ''namespace'';
                               if ns \<noteq> dns then Some False
                               else do { es \<leftarrow> jentries selector;
                                         Some (labels_match es (js_member md ''labels'')) } }) pods } }"

definition getPodController :: "jsv \<Rightarrow> jsv option" where
  "getPodController pod =
     do { controller \<leftarrow> find_controller pod;
          Some (if truthy controller
                then JObj (map (\<lambda>k. (k, js_member controller k)) [''apiVersion'', ''kind'', ''name'', ''uid''])
                else JNull) }"

definition kindToView :: "(string, string) js_map" where
  "kindToView = [
     (''Pod'', ''pods''), (''Deployment'', ''deployments''), (''ReplicaSet'', ''replicasets''),
     (''StatefulSet'', ''statefulsets''), (''DaemonSet'', ''daemonsets''), (''Job'', ''jobs''),
     (''CronJob'', ''cronjobs''), (''Service'', ''services''), (''ConfigMap'', ''configmaps''),
     (''Secret'', ''secrets''), (''Ingress'', ''ingresses''), (''PersistentVolumeClaim'', ''pvc''),
     (''PersistentVolume'', ''pv''), (''ServiceAccount'', ''serviceaccounts''), (''Role'', ''roles''),
     (''ClusterRole'', ''clusterroles''), (''RoleBinding'', ''rolebindings''),
     (''ClusterRoleBinding'', ''clusterrolebindings''), (''NetworkPolicy'', ''networkpolicies''),
     (''HorizontalPodAutoscaler'', ''hpas''), (''PodDisruptionBudget'', ''pdbs''),
     (''Namespace'', ''namespaces''), (''Node'', ''nodes''), (''StorageClass'', ''storageclasses''),
     (''Endpoints'', ''endpoints''), (''EndpointSlice'', ''endpointslices''), (''Event'', ''events''),
     (''LimitRange'', ''limitranges''), (''ResourceQuota'', ''resourcequotas''),
     (''PriorityClass'', ''priorityclasses''), (''Lease'', ''leases''), (''CSIDriver'', ''csidrivers''),
     (''CSINode'', ''csinodes''), (''IngressClass'', ''ingressclasses''),
     (''ValidatingWebhookConfiguration'', ''validatingwebhookconfigurations''),
     (''MutatingWebhookConfiguration'', ''mutatingwebhookconfigurations'')]"

text \<open>\<open>group/version\<close>, or a bare version of the core group.\<close>

definition parse_api_version :: "string \<Rightarrow> string \<times> string" where
  "parse_api_version v =
     (let parts = split_on CHR ''/'' v in
      if length parts = 2 then (parts ! 0, parts ! 1) else ('''', parts ! 0))"

record owner_ref =
  apiVersion :: "string option"
  kind :: string

record crd =
  crd_group :: string
  crd_kind :: string
  crd_plural :: string
  crd_scope :: string

text \<open>An absent field of a CRD is the empty string, as after the code's \<open>|| ''\<close>.\<close>

definition getOwnerViewId :: "owner_ref option \<Rightarrow> crd list \<Rightarrow> string option" where
  "getOwnerViewId owner crds =
     (case owner of
        None \<Rightarrow> None
      | Some r \<Rightarrow>
          if kind r = '''' then None
          else (case map_get kindToView (kind r) of
                  Some v \<Rightarrow> Some v
                | None \<Rightarrow>
                    (case apiVersion r of
                       None \<Rightarrow> None
                     | Some av \<Rightarrow>
                         if av = '''' \<or> crds = [] then None
                         else (let (grp, version) = parse_api_version av in
                               case List.find (\<lambda>c. crd_group c = grp \<and> crd_kind c = kind r) crds of
                                 None \<Rightarrow> None
                               | Some c \<Rightarrow>
                                   Some (''cr:'' @ grp @ '':'' @ version @ '':'' @ crd_plural c @ '':'' @ kind r @ '':'' @
                                         (if crd_scope c = ''Namespaced'' then ''true'' else ''false''))))))"

section \<open>Facts\<close>

lemma worse_mono: "snd acc \<le> snd (worse acc c)"
  by (cases acc) (simp add: worse_def)

lemma worse_fold_mono: "snd acc \<le> snd (foldl worse acc cs)"
proof (induction cs arbitrary: acc)
  case (Cons c cs)
  have "snd acc \<le> snd (worse acc c)" by (rule worse_mono)
  also have "\<dots> \<le> snd (foldl worse (worse acc c) cs)" by (rule Cons.IH)
  finally show ?case by simp
qed simp

lemma worse_bound: "c \<in> set cs \<Longrightarrow> truthy c \<Longrightarrow> getStatusSeverity c \<le> snd (foldl worse acc cs)"
proof (induction cs arbitrary: acc)
  case (Cons d cs)
  show ?case
  proof (cases "c = d")
    case True
    have "getStatusSeverity c \<le> snd (worse acc c)" using Cons.prems(2) by (cases acc) (simp add: worse_def)
    also have "\<dots> \<le> snd (foldl worse (worse acc c) cs)" by (rule worse_fold_mono)
    finally show ?thesis using True by simp
  next
    case False
    with Cons show ?thesis by simp
  qed
qed simp

definition consistent :: "jsv list \<Rightarrow> jsv \<times> int \<Rightarrow> bool" where
  "consistent seen acc \<longleftrightarrow>
     (acc = (JNull, -1) \<or> (fst acc \<in> set seen \<and> truthy (fst acc) \<and> snd acc = getStatusSeverity (fst acc)))"

lemma worse_consistent: "consistent seen acc \<Longrightarrow> consistent (seen @ [c]) (worse acc c)"
  by (cases acc) (auto simp: consistent_def worse_def)

lemma worse_fold_consistent: "consistent seen acc \<Longrightarrow> consistent (seen @ cs) (foldl worse acc cs)"
proof (induction cs arbitrary: seen acc)
  case (Cons c cs)
  from Cons.IH [OF worse_consistent [OF Cons.prems]] show ?case by simp
qed simp

lemma severity_nonneg: "0 \<le> getStatusSeverity s"
  by (simp add: getStatusSeverity_def)

lemma worst_status:
  assumes "w = fst (foldl worse (JNull, -1) cs)"
  shows "if \<exists>c \<in> set cs. truthy c
         then w \<in> set cs \<and> truthy w \<and> (\<forall>c \<in> set cs. truthy c \<longrightarrow> getStatusSeverity c \<le> getStatusSeverity w)
         else \<not> truthy w"
proof -
  have c: "consistent cs (foldl worse (JNull, -1) cs)"
    using worse_fold_consistent [of "[]" "(JNull, -1)" cs] by (simp add: consistent_def)
  show ?thesis
  proof (cases "\<exists>c \<in> set cs. truthy c")
    case True
    then obtain d where d: "d \<in> set cs" "truthy d" by blast
    have "0 \<le> snd (foldl worse (JNull, -1) cs)"
      using worse_bound [OF d] severity_nonneg order_trans by blast
    with c have "w \<in> set cs \<and> truthy w \<and> snd (foldl worse (JNull, -1) cs) = getStatusSeverity w"
      unfolding consistent_def assms by auto
    with worse_bound [of _ cs "(JNull, -1)"] True show ?thesis by auto
  next
    case False
    with c show ?thesis unfolding consistent_def assms by auto
  qed
qed

section \<open>Properties\<close>

text \<open>
  C10: for a pod that is not being deleted, the effective status is the most
  severe of the statuses of the containers it looks at, and the pod's phase when none of them
  has a status.
\<close>
theorem effective_status_worst:
  assumes "jpath pod [''metadata'', ''deletionTimestamp''] = Some d" "\<not> truthy d"
    and "path_or pod [''status'', ''containerStatuses''] (JArr []) = Some statuses"
    and "statuses_to_check statuses = Some checked" "jmap container_status checked = Some current"
  shows "if \<exists>c \<in> set current. truthy c
     then \<exists>w \<in> set current. getEffectivePodStatus pod = Some w \<and>
            (\<forall>c \<in> set current. truthy c \<longrightarrow> getStatusSeverity c \<le> getStatusSeverity w)
     else getEffectivePodStatus pod = path_str pod [''status'', ''phase''] ''Unknown''"
  using worst_status [OF refl, of current] assms by (auto simp: getEffectivePodStatus_def Let_def)

text \<open>A pod with the given container states, running for its phase.\<close>

definition pod_with :: "jsv list \<Rightarrow> jsv" where
  "pod_with states =
     JObj [(''metadata'', JObj []),
           (''status'', JObj [(''phase'', JStr ''Running''),
              (''containerStatuses'', JArr (map (\<lambda>s. JObj [(''state'', s)]) states))])]"

definition waiting_for :: "string \<Rightarrow> jsv" where
  "waiting_for reason = JObj [(''waiting'', JObj [(''reason'', JStr reason)])]"

definition running_state :: jsv where
  "running_state = JObj [(''running'', JObj [])]"

lemmas sample_pod_defs = pod_with_def waiting_for_def running_state_def path_or_def jpath_def jget_def jopt_def
  jor_def jmap_def

lemma pod_with_status:
  "jpath (pod_with states) [''metadata'', ''deletionTimestamp''] = Some JUndef"
  "path_or (pod_with states) [''status'', ''containerStatuses''] (JArr []) =
     Some (JArr (map (\<lambda>s. JObj [(''state'', s)]) states))"
  by (simp_all add: sample_pod_defs)

lemma masked_checked:
  "statuses_to_check (JArr (map (\<lambda>s. JObj [(''state'', s)]) [waiting_for ''CreateContainerConfigError'', running_state])) =
     Some (map (\<lambda>s. JObj [(''state'', s)]) [waiting_for ''CreateContainerConfigError'', running_state])"
  by (simp add: statuses_to_check_def succeeded_def sample_pod_defs)

lemma masked_current:
  "jmap container_status (map (\<lambda>s. JObj [(''state'', s)]) [waiting_for ''CreateContainerConfigError'', running_state]) =
     Some [JStr ''CreateContainerConfigError'', JStr ''Running'']"
  by (simp add: container_status_def sample_pod_defs)

theorem effective_status_worst_witness:
  "\<exists>w \<in> {JStr ''CreateContainerConfigError'', JStr ''Running''}.
     getEffectivePodStatus (pod_with [waiting_for ''CreateContainerConfigError'', running_state]) = Some w"
proof -
  have d: "\<not> truthy JUndef" by simp
  from effective_status_worst [OF pod_with_status(1) d pod_with_status(2) masked_checked masked_current]
  show ?thesis by auto
qed

text \<open>
  Unknown reason masked: reasons the severity table does not list rank below a running container,
  so a pod with a container that cannot start for such a reason and one that runs is shown as
  running.
\<close>
theorem unknown_reason_masked:
  "getEffectivePodStatus (pod_with [waiting_for ''CreateContainerConfigError'', running_state]) = Some (JStr ''Running'')"
  by (simp add: getEffectivePodStatus_def pod_with_status masked_checked [simplified]
      masked_current [simplified] worse_def getStatusSeverity_def Let_def)

text \<open>
  Search status agrees: the status that searches use is the status the lists show, except for a
  pod with a container waiting for one of the three image and crash reasons.
\<close>
theorem search_status_agrees:
  assumes "path_or pod [''status'', ''containerStatuses''] (JArr []) = Some statuses"
    and "jiter statuses \<bind> search_waiting_loop = Some None"
  shows "getPodStatusForSearch pod = getPodStatus pod"
proof -
  have "(do { statuses \<leftarrow> path_or pod [''status'', ''containerStatuses''] (JArr []);
              reason \<leftarrow> jiter statuses \<bind> search_waiting_loop;
              case reason of Some r \<Rightarrow> Some r | None \<Rightarrow> path_str pod [''status'', ''phase''] ''Unknown'' }) =
      path_str pod [''status'', ''phase''] ''Unknown''"
    using assms unfolding bind_eq_Some_conv by auto
  then show ?thesis unfolding getPodStatusForSearch_def getPodStatus_def by (simp only:)
qed

theorem search_status_agrees_witness:
  "getPodStatusForSearch (pod_with [running_state]) = Some (JStr ''Running'')"
proof -
  have w: "jiter (JArr (map (\<lambda>s. JObj [(''state'', s)]) [running_state])) \<bind> search_waiting_loop = Some None"
    by (simp add: sample_pod_defs)
  have "getPodStatus (pod_with [running_state]) = Some (JStr ''Running'')"
    by (simp add: getPodStatus_def sample_pod_defs)
  with search_status_agrees [OF pod_with_status(2) w] show ?thesis by simp
qed

text \<open>
  Search status differs: for a crashing container the two differ, although the search status is
  documented as a copy of the other: the list shows the phase, a search for it does not match.
\<close>
theorem search_status_differs:
  "getPodStatus (pod_with [waiting_for ''CrashLoopBackOff'']) = Some (JStr ''Running'') \<and>
   getPodStatusForSearch (pod_with [waiting_for ''CrashLoopBackOff'']) = Some (JStr ''CrashLoopBackOff'')"
  by (simp add: getPodStatus_def getPodStatusForSearch_def blocking_reasons_def sample_pod_defs)

end
