(* ===== verification/Quantities.thy ===== *)
theory Quantities
  imports Complex_Main JsValue
begin

text \<open>
  Resource quantities and the requests of a pod (\<open>utils/resourceQuantities.ts\<close>). JavaScript's
  numbers are rationals here: the model computes without the rounding of binary floating
  point. \<open>parseInt\<close> and \<open>parseFloat\<close> read the longest numeral a string starts with; \<open>None\<close>
  is \<open>NaN\<close> or an infinity, both of which the code turns into 0. Amounts of CPU are
  thousandths of a core, amounts of memory are bytes.
\<close>

section \<open>Numerals\<close>

definition parse_sign :: "string \<Rightarrow> rat \<times> string" where
  "parse_sign s =
     (case s of
        c # t \<Rightarrow> if c = CHR ''-'' then (-1, t) else if c = CHR ''+'' then (1, t) else (1, s)
      | [] \<Rightarrow> (1, s))"

definition parse_int :: "string \<Rightarrow> rat option" where
  "parse_int s =
     (let (sg, t) = parse_sign (trim_start s); ds = takeWhile is_digit t in
      if ds = [] then None else Some (sg * of_nat (read_nat ds)))"

text \<open>The exponent part; 1 where there is none.\<close>

definition exponent_factor :: "string \<Rightarrow> rat" where
  "exponent_factor s =
     (case s of
        e # t \<Rightarrow>
          if e = CHR ''e'' \<or> e = CHR ''E''
          then (let (sg, u) = parse_sign t; ds = takeWhile is_digit u in
                if ds = [] then 1
                else if sg = 1 then 10 ^ read_nat ds else 1 / 10 ^ read_nat ds)
          else 1
      | [] \<Rightarrow> 1)"

definition parse_float :: "string \<Rightarrow> rat option" where
  "parse_float s =
     (let (sg, t) = parse_sign (trim_start s);
          a = takeWhile is_digit t; r = dropWhile is_digit t;
          dotted = prefix ''.'' r;
          b = (if dotted then takeWhile is_digit (tl r) else []);
          rest = (if dotted then dropWhile is_digit (tl r) else r)
      in if a = [] \<and> b = [] then None
         else Some (sg * (of_nat (read_nat a) + of_nat (read_nat b) / 10 ^ length b) * exponent_factor rest))"

definition finite_or_zero :: "rat option \<Rightarrow> rat" where
  "finite_or_zero v = (case v of Some x \<Rightarrow> x | None \<Rightarrow> 0)"

section \<open>Quantities\<close>

definition cpu_text :: "string \<Rightarrow> rat" where
  "cpu_text q =
     finite_or_zero
       (if suffix ''n'' q then map_option (\<lambda>x. x / 1000000) (parse_int q)
        else if suffix ''u'' q then map_option (\<lambda>x. x / 1000) (parse_int q)
        else if suffix ''m'' q then parse_int q
        else map_option (\<lambda>x. x * 1000) (parse_float q))"

definition memory_units :: "(string \<times> rat) list" where
  "memory_units =
     [(''Ti'', 1024 ^ 4), (''Gi'', 1024 ^ 3), (''Mi'', 1024 ^ 2), (''Ki'', 1024),
      (''T'', 10 ^ 12), (''G'', 10 ^ 9), (''M'', 10 ^ 6), (''K'', 10 ^ 3)]"

fun memory_with :: "(string \<times> rat) list \<Rightarrow> string \<Rightarrow> rat" where
  "memory_with [] q = finite_or_zero (parse_float q)"
| "memory_with ((u, mult) # us) q =
     (if suffix u q
      then finite_or_zero (map_option (\<lambda>x. x * mult) (parse_float (take (length q - length u) q)))
      else memory_with us q)"

definition memory_text :: "string \<Rightarrow> rat" where
  "memory_text q = memory_with memory_units q"

text \<open>A quantity of a document: absent or empty is 0, a value without string methods throws.\<close>

definition quantity :: "(string \<Rightarrow> rat) \<Rightarrow> jsv \<Rightarrow> rat option" where
  "quantity parse q =
     (if \<not> truthy q then Some 0 else case q of JStr s \<Rightarrow> Some (parse s) | _ \<Rightarrow> None)"

definition parseCpuQuantity :: "jsv \<Rightarrow> rat option" where
  "parseCpuQuantity q = quantity cpu_text q"

definition parseMemoryQuantity :: "jsv \<Rightarrow> rat option" where
  "parseMemoryQuantity q = quantity memory_text q"

definition hasResourceValues :: "jsv \<Rightarrow> bool" where
  "hasResourceValues resources =
     (truthy resources \<and>
      (case jentries resources of
         Some es \<Rightarrow> list_ex (\<lambda>(k, v). \<not> nullish v \<and> v \<noteq> JStr '''') es | None \<Rightarrow> False))"

section \<open>Requests of a pod\<close>

record requests =
  cpuMillis :: rat
  memBytes :: rat

definition container_requests :: "jsv \<Rightarrow> requests option" where
  "container_requests c =
     do { cpu \<leftarrow> jpath c [''resources'', ''requests'', ''cpu'']; cm \<leftarrow> parseCpuQuantity cpu;
          mem \<leftarrow> jpath c [''resources'', ''requests'', ''memory'']; mb \<leftarrow> parseMemoryQuantity mem;
          Some \<lparr>cpuMillis = cm, memBytes = mb\<rparr> }"

definition add_requests :: "requests \<Rightarrow> requests \<Rightarrow> requests" where
  "add_requests a b = \<lparr>cpuMillis = cpuMillis a + cpuMillis b, memBytes = memBytes a + memBytes b\<rparr>"

definition max_requests :: "requests \<Rightarrow> requests \<Rightarrow> requests" where
  "max_requests a b = \<lparr>cpuMillis = max (cpuMillis a) (cpuMillis b), memBytes = max (memBytes a) (memBytes b)\<rparr>"

definition no_requests :: requests where
  "no_requests = \<lparr>cpuMillis = 0, memBytes = 0\<rparr>"

text \<open>
  The loop over the init containers; a container is paired with whether its restart policy is
  \<open>Always\<close>. The state is the sum of containers and sidecars, the peak of the init phase and the
  sum of the restartable init containers so far.
\<close>

type_synonym init_state = "requests \<times> requests \<times> requests"

definition init_step :: "init_state \<Rightarrow> bool \<times> requests \<Rightarrow> init_state" where
  "init_step st c =
     (case (st, c) of ((containerAndSidecar, init, restartable), (always, r)) \<Rightarrow>
        if always
        then (let restartable' = add_requests restartable r in
              (add_requests containerAndSidecar r, max_requests init restartable', restartable'))
        else (containerAndSidecar, max_requests init (add_requests r restartable), restartable))"

definition restarts_always :: "jsv \<Rightarrow> bool" where
  "restarts_always c = (js_member c ''restartPolicy'' = JStr ''Always'')"

definition list_under :: "jsv \<Rightarrow> string list \<Rightarrow> jsv list option" where
  "list_under pod path = path_or pod path (JArr []) \<bind> jiter"

definition combine :: "requests \<Rightarrow> requests list \<Rightarrow> (bool \<times> requests) list \<Rightarrow> requests \<Rightarrow> requests" where
  "combine pod_level containers inits overhead =
     (let containerSum = foldl add_requests no_requests containers;
          (containerAndSidecar, init, restartable) = foldl init_step (containerSum, no_requests, no_requests) inits
      in add_requests (max_requests (max_requests pod_level containerAndSidecar) init) overhead)"

definition getPodResourceRequests :: "jsv \<Rightarrow> requests option" where
  "getPodResourceRequests pod =
     do { pc \<leftarrow> jpath pod [''spec'', ''resources'', ''requests'', ''cpu'']; podCpu \<leftarrow> parseCpuQuantity pc;
          pm \<leftarrow> jpath pod [''spec'', ''resources'', ''requests'', ''memory'']; podMem \<leftarrow> parseMemoryQuantity pm;
          cs \<leftarrow> list_under pod [''spec'', ''containers''];
          containers \<leftarrow> those (map container_requests cs);
          ics \<leftarrow> list_under pod [''spec'', ''initContainers''];
          inits \<leftarrow> those (map container_requests ics);
          oc \<leftarrow> jpath pod [''spec'', ''overhead'', ''cpu'']; ovCpu \<leftarrow> parseCpuQuantity oc;
          om \<leftarrow> jpath pod [''spec'', ''overhead'', ''memory'']; ovMem \<leftarrow> parseMemoryQuantity om;
          Some (combine \<lparr>cpuMillis = podCpu, memBytes = podMem\<rparr> containers (zip (map restarts_always ics) inits)
                  \<lparr>cpuMillis = ovCpu, memBytes = ovMem\<rparr>) }"

section \<open>The scheduler's formula\<close>

text \<open>
  What the scheduler reserves, for one resource: sidecars run from their start on, so an ordinary
  init container needs its own amount and that of the sidecars before it; afterwards all
  containers and all sidecars run together.
\<close>

definition sidecar_sum :: "(bool \<times> rat) list \<Rightarrow> rat" where
  "sidecar_sum inits = sum_list (map snd (filter fst inits))"

fun init_peaks :: "rat \<Rightarrow> (bool \<times> rat) list \<Rightarrow> rat list" where
  "init_peaks before [] = []"
| "init_peaks before ((always, a) # cs) =
     (if always then init_peaks (before + a) cs else (a + before) # init_peaks before cs)"

definition scheduled :: "rat \<Rightarrow> rat list \<Rightarrow> (bool \<times> rat) list \<Rightarrow> rat \<Rightarrow> rat" where
  "scheduled pod_level containers inits overhead =
     Max (set (pod_level # (sum_list containers + sidecar_sum inits) # init_peaks 0 inits)) + overhead"

section \<open>The loop computes the formula\<close>

text \<open>One resource of the pair: an amount that adds and compares component by component.\<close>

locale resource_amount =
  fixes amount :: "requests \<Rightarrow> rat"
  assumes amount_add: "amount (add_requests a b) = amount a + amount b"
    and amount_max: "amount (max_requests a b) = max (amount a) (amount b)"
    and amount_none: "amount no_requests = 0"
begin

lemma amount_sum: "amount (foldl add_requests a cs) = amount a + sum_list (map amount cs)"
  by (induction cs arbitrary: a) (simp_all add: amount_add)

end

interpretation cpu: resource_amount cpuMillis
  by unfold_locales (simp_all add: add_requests_def max_requests_def no_requests_def)

interpretation memory: resource_amount memBytes
  by unfold_locales (simp_all add: add_requests_def max_requests_def no_requests_def)

definition pairs :: "(requests \<Rightarrow> rat) \<Rightarrow> (bool \<times> requests) list \<Rightarrow> (bool \<times> rat) list" where
  "pairs amount inits = map (\<lambda>(always, r). (always, amount r)) inits"

text \<open>All values the loop compares its peak with, the sidecars' own sums included.\<close>

fun all_peaks :: "rat \<Rightarrow> (bool \<times> rat) list \<Rightarrow> rat list" where
  "all_peaks before [] = []"
| "all_peaks before ((always, a) # cs) =
     (if always then (before + a) # all_peaks (before + a) cs else (a + before) # all_peaks before cs)"

lemma sidecar_sum_Cons: "sidecar_sum ((always, a) # cs) = (if always then a + sidecar_sum cs else sidecar_sum cs)"
  by (simp add: sidecar_sum_def)

lemma sidecar_sum_nonneg: "\<forall>c \<in> set cs. 0 \<le> snd c \<Longrightarrow> 0 \<le> sidecar_sum cs"
  unfolding sidecar_sum_def by (rule sum_list_nonneg) auto

lemma init_peaks_in: "set (init_peaks b cs) \<subseteq> set (all_peaks b cs)"
  by (induction b cs rule: init_peaks.induct) auto

lemma all_peaks_cases:
  "\<forall>c \<in> set cs. 0 \<le> snd c \<Longrightarrow> p \<in> set (all_peaks b cs) \<Longrightarrow>
   p \<in> set (init_peaks b cs) \<or> p \<le> b + sidecar_sum cs"
proof (induction b cs rule: all_peaks.induct)
  case (2 b always a cs)
  have nn: "0 \<le> sidecar_sum cs" using 2 by (intro sidecar_sum_nonneg) simp
  from 2 nn show ?case by (cases always) (auto simp: sidecar_sum_Cons)
qed simp

context resource_amount
begin

lemma init_loop:
  "foldl init_step (S, I, R) inits = (S', I', R') \<Longrightarrow>
   amount S' = amount S + sidecar_sum (pairs amount inits) \<and>
   amount I' = foldl max (amount I) (all_peaks (amount R) (pairs amount inits))"
proof (induction inits arbitrary: S I R)
  case Nil
  then show ?case by (simp add: pairs_def sidecar_sum_def)
next
  case (Cons c inits)
  obtain always r where c: "c = (always, r)" by (cases c)
  show ?case
  proof (cases always)
    case True
    with Cons.prems c Cons.IH [of "add_requests S r" "max_requests I (add_requests R r)" "add_requests R r"]
    show ?thesis by (simp add: init_step_def Let_def pairs_def sidecar_sum_Cons amount_add amount_max)
  next
    case False
    with Cons.prems c Cons.IH [of S "max_requests I (add_requests r R)" R]
    show ?thesis by (simp add: init_step_def pairs_def sidecar_sum_Cons amount_add amount_max)
  qed
qed

end

lemma foldl_max_ge: "x = a \<or> x \<in> set xs \<Longrightarrow> x \<le> foldl max a xs" for a :: rat
proof (induction xs arbitrary: a x)
  case (Cons y ys)
  show ?case
  proof (cases "x \<in> set ys")
    case False
    with Cons.prems have "x \<le> max a y" by auto
    also have "\<dots> \<le> foldl max (max a y) ys" by (rule Cons.IH) simp
    finally show ?thesis by simp
  qed (use Cons.IH in simp)
qed simp

lemma foldl_max_in: "foldl max a xs = a \<or> foldl max a xs \<in> set xs" for a :: rat
proof (induction xs arbitrary: a)
  case (Cons y ys)
  from Cons.IH [of "max a y"] show ?case by (auto simp: max_def split: if_splits)
qed simp

lemma peak_formula:
  assumes nn: "\<forall>c \<in> set cs. 0 \<le> snd c" and t: "0 \<le> tot" and s: "sidecar_sum cs \<le> tot"
  shows "max (max p tot) (foldl max 0 (all_peaks 0 cs)) = Max (set (p # tot # init_peaks 0 cs))"
proof (rule order_antisym)
  let ?M = "Max (set (p # tot # init_peaks 0 cs))"
  have M: "x \<in> set (p # tot # init_peaks 0 cs) \<Longrightarrow> x \<le> ?M" for x by (intro Max_ge) simp_all
  have "foldl max 0 (all_peaks 0 cs) \<le> ?M"
  proof (cases "foldl max 0 (all_peaks 0 cs) \<in> set (all_peaks 0 cs)")
    case True
    from all_peaks_cases [OF nn this] s M [of tot] M show ?thesis by (auto intro: order_trans)
  next
    case False
    with foldl_max_in [of 0 "all_peaks 0 cs"] t M [of tot] show ?thesis by auto
  qed
  then show "max (max p tot) (foldl max 0 (all_peaks 0 cs)) \<le> ?M" using M by simp
  have "x \<le> max (max p tot) (foldl max 0 (all_peaks 0 cs))" if "x \<in> set (p # tot # init_peaks 0 cs)" for x
    using that init_peaks_in [of 0 cs] foldl_max_ge [of x 0 "all_peaks 0 cs"] by (auto simp: le_max_iff_disj)
  then show "?M \<le> max (max p tot) (foldl max 0 (all_peaks 0 cs))" by (intro Max.boundedI) simp_all
qed

context resource_amount
begin

lemma combine_scheduled:
  assumes "\<forall>c \<in> set containers. 0 \<le> amount c" "\<forall>c \<in> set inits. 0 \<le> amount (snd c)"
  shows "amount (combine pod_level containers inits overhead) =
    scheduled (amount pod_level) (map amount containers) (pairs amount inits) (amount overhead)"
proof -
  let ?sum = "foldl add_requests no_requests containers"
  obtain S' I' R' where f: "foldl init_step (?sum, no_requests, no_requests) inits = (S', I', R')"
    by (cases "foldl init_step (?sum, no_requests, no_requests) inits") auto
  have nn: "\<forall>c \<in> set (pairs amount inits). 0 \<le> snd c" using assms(2) by (auto simp: pairs_def)
  have sum: "0 \<le> sum_list (map amount containers)" using assms(1) by (intro sum_list_nonneg) auto
  have S: "amount S' = sum_list (map amount containers) + sidecar_sum (pairs amount inits)"
    and I: "amount I' = foldl max 0 (all_peaks 0 (pairs amount inits))"
    using init_loop [OF f] by (simp_all add: amount_sum amount_none)
  have "max (max (amount pod_level) (amount S')) (amount I') =
      Max (set (amount pod_level # amount S' # init_peaks 0 (pairs amount inits)))"
    unfolding I by (rule peak_formula [OF nn]) (use S sum sidecar_sum_nonneg [OF nn] in simp_all)
  then show ?thesis
    unfolding scheduled_def using S by (simp add: combine_def f amount_add amount_max)
qed

end

section \<open>Reading numerals back\<close>

lemma show_nat_ne [simp]: "show_nat n \<noteq> []"
  by (subst show_nat.simps) simp

lemma digit_not_space: "is_digit c \<Longrightarrow> \<not> is_space c \<and> c \<noteq> CHR ''-'' \<and> c \<noteq> CHR ''+''"
  by (auto simp: is_digit_def is_space_def Let_def)

lemma digits_head: "is_digit (hd (show_nat n))"
  using show_nat_digits [of "hd (show_nat n)" n] by simp

lemma trim_start_digits: "trim_start (show_nat n @ t) = show_nat n @ t"
  using digits_head [of n] digit_not_space by (intro trim_start_id) simp

lemma parse_sign_digits: "parse_sign (show_nat n @ t) = (1, show_nat n @ t)"
  using digits_head [of n] digit_not_space [of "hd (show_nat n)"]
  by (cases "show_nat n") (auto simp: parse_sign_def)

lemma take_digits:
  "t = [] \<or> \<not> is_digit (hd t) \<Longrightarrow>
   takeWhile is_digit (show_nat n @ t) = show_nat n \<and> dropWhile is_digit (show_nat n @ t) = t"
proof -
  have "list_all is_digit w \<Longrightarrow> t = [] \<or> \<not> is_digit (hd t) \<Longrightarrow>
      takeWhile is_digit (w @ t) = w \<and> dropWhile is_digit (w @ t) = t" for w
    by (induction w) (cases t; auto)+
  moreover have "list_all is_digit (show_nat n)" using show_nat_digits by (simp add: list_all_iff)
  ultimately show "t = [] \<or> \<not> is_digit (hd t) \<Longrightarrow> ?thesis" by blast
qed

lemma parse_int_digits: "t = [] \<or> \<not> is_digit (hd t) \<Longrightarrow> parse_int (show_nat n @ t) = Some (of_nat n)"
  using take_digits [of t n] by (simp add: parse_int_def trim_start_digits parse_sign_digits read_show_nat)

lemma parse_float_digits: "parse_float (show_nat n) = Some (of_nat n)"
proof -
  have "takeWhile is_digit (show_nat n) = show_nat n" "dropWhile is_digit (show_nat n) = []"
    using take_digits [of "[]" n] by (simp_all del: takeWhile_eq_all_conv dropWhile_eq_Nil_conv)
  with trim_start_digits [of n "[]"] parse_sign_digits [of n "[]"] show ?thesis
    by (simp add: parse_float_def read_show_nat exponent_factor_def read_nat_def [of "[]"]
        del: takeWhile_eq_all_conv dropWhile_eq_Nil_conv)
qed

lemma suffix_rev: "suffix u q = prefix (rev u) (rev q)"
  by (rule suffix_to_prefix)

lemma no_digit_suffix: "u \<noteq> [] \<Longrightarrow> \<not> is_digit (last u) \<Longrightarrow> \<not> suffix u (show_nat n)"
proof
  assume "u \<noteq> []" "\<not> is_digit (last u)" "suffix u (show_nat n)"
  then have "last u \<in> set (show_nat n)" by (auto simp: suffix_def)
  then show False using show_nat_digits \<open>\<not> is_digit (last u)\<close> by blast
qed

lemma memory_with_here:
  "memory_with ((u, mult) # us) (show_nat n @ u) = of_nat n * mult"
  by (simp add: suffix_def finite_or_zero_def parse_float_digits)

lemma other_suffix:
  assumes "v \<noteq> [] \<and> u \<noteq> [] \<and> last v \<noteq> last u \<or> length v = length u \<and> v \<noteq> u"
  shows "\<not> suffix v (w @ u)"
proof
  assume "suffix v (w @ u)"
  then obtain z where z: "w @ u = z @ v" by (auto simp: suffix_def)
  from assms show False
  proof
    assume "v \<noteq> [] \<and> u \<noteq> [] \<and> last v \<noteq> last u"
    with arg_cong [OF z, of last] show False by simp
  next
    assume "length v = length u \<and> v \<noteq> u"
    with z show False by simp
  qed
qed

lemma memory_with_later:
  assumes "v \<noteq> [] \<and> u \<noteq> [] \<and> last v \<noteq> last u \<or> length v = length u \<and> v \<noteq> u"
  shows "memory_with ((v, mult) # us) (show_nat n @ u) = memory_with us (show_nat n @ u)"
  using other_suffix [OF assms] by simp

lemma memory_unit:
  "list_all (\<lambda>(u, mult). memory_with memory_units (show_nat n @ u) = of_nat n * mult) memory_units"
  unfolding memory_units_def
  by (simp add: memory_with_here memory_with_later del: memory_with.simps power_numeral)

lemma memory_plain: "memory_text (show_nat n) = of_nat n"
proof -
  have "\<not> is_digit CHR ''i''" "\<not> is_digit CHR ''T''" "\<not> is_digit CHR ''G''" "\<not> is_digit CHR ''M''" "\<not> is_digit CHR ''K''"
    by code_simp+
  then show ?thesis
    unfolding memory_text_def memory_units_def
    by (simp add: no_digit_suffix finite_or_zero_def parse_float_digits)
qed

lemma cpu_milli: "cpu_text (show_nat n @ ''m'') = of_nat n"
proof -
  have "\<not> is_digit CHR ''m''" by code_simp
  then show ?thesis
    by (simp add: cpu_text_def suffix_rev finite_or_zero_def parse_int_digits)
qed

lemma cpu_whole: "cpu_text (show_nat n) = of_nat n * 1000"
proof -
  have "\<not> is_digit CHR ''n''" "\<not> is_digit CHR ''u''" "\<not> is_digit CHR ''m''" by code_simp+
  then show ?thesis
    by (simp add: cpu_text_def no_digit_suffix finite_or_zero_def parse_float_digits)
qed

section \<open>Properties\<close>

text \<open>
  C8: for both resources, with amounts that are not negative, the loop
  over containers, sidecars and init containers computes the scheduler's formula: the largest of
  the pod-level request, of everything that runs together after the init phase, and of every
  ordinary init container with the sidecars started before it, plus the overhead.
\<close>
theorem requests_follow_scheduler:
  assumes "\<forall>c \<in> set containers. 0 \<le> cpuMillis c \<and> 0 \<le> memBytes c"
    and "\<forall>(always, c) \<in> set inits. 0 \<le> cpuMillis c \<and> 0 \<le> memBytes c"
  shows "cpuMillis (combine pod_level containers inits overhead) =
      scheduled (cpuMillis pod_level) (map cpuMillis containers) (pairs cpuMillis inits) (cpuMillis overhead) \<and>
    memBytes (combine pod_level containers inits overhead) =
      scheduled (memBytes pod_level) (map memBytes containers) (pairs memBytes inits) (memBytes overhead)"
  using assms by (auto intro!: cpu.combine_scheduled memory.combine_scheduled)

theorem requests_follow_scheduler_witness:
  "cpuMillis (combine no_requests [\<lparr>cpuMillis = 100, memBytes = 0\<rparr>]
      [(True, \<lparr>cpuMillis = 50, memBytes = 0\<rparr>), (False, \<lparr>cpuMillis = 200, memBytes = 0\<rparr>)] no_requests) = 250"
  using requests_follow_scheduler [of "[\<lparr>cpuMillis = 100, memBytes = 0\<rparr>]"
      "[(True, \<lparr>cpuMillis = 50, memBytes = 0\<rparr>), (False, \<lparr>cpuMillis = 200, memBytes = 0\<rparr>)]" no_requests no_requests]
  by (simp add: scheduled_def pairs_def sidecar_sum_def no_requests_def)

text \<open>
  Quantities read back: a decimal number with a unit the code knows is read as that many of the
  unit, a bare one as bytes or cores.
\<close>
theorem quantities_read_back:
  "(\<forall>(u, mult) \<in> set memory_units. memory_text (show_nat n @ u) = of_nat n * mult) \<and>
   memory_text (show_nat n) = of_nat n \<and>
   cpu_text (show_nat n @ ''m'') = of_nat n \<and> cpu_text (show_nat n) = of_nat n * 1000"
  using memory_unit [of n] by (simp add: memory_plain cpu_milli cpu_whole memory_text_def [symmetric] list_all_iff)

theorem quantities_read_back_witness:
  "memory_text (show_nat 64 @ ''Mi'') = 67108864"
  using quantities_read_back [of 64] by (simp add: memory_units_def)

text \<open>
  Kilo suffix ignored: Kubernetes writes the decimal kilo as a lower-case k, the code looks for an
  upper-case one: an amount of kilobytes is read as that many bytes, and a petabyte or exabyte
  unit is ignored as well.
\<close>
theorem kilo_suffix_ignored:
  "memory_text ''128k'' = 128 \<and> memory_text ''1Pi'' = 1 \<and> memory_text ''128K'' = 128000"
  by code_simp

end
