(* ===== verification/SidebarLayout.thy ===== *)
theory SidebarLayout
  imports JsMap JsStrings "HOL-Library.Multiset"
begin

text \<open>
  The sidebar's layout (\<open>constants/menuStructure.ts\<close>, \<open>constants/sidebarLayoutUtils.ts\<close>), the
  operations of its editor (\<open>config-editor/fields/SidebarLayoutEditor.tsx\<close>) and the items the
  command palette takes from it (\<open>hooks/useCommandPaletteItems.tsx\<close>). The stored layout lists
  sections with their items, \<open>excludedItems\<close> the items the user has hidden. Icons are left out;
  item ids are never names of \<open>Object.prototype\<close>. The section type is shared by the default
  sections (no custom flag, no labels) and the stored ones.
\<close>

record section_layout =
  section_id :: string
  title :: string
  items :: "string list"
  isCustom :: bool
  itemLabels :: "(string, string) js_map option"

record menu_item =
  label :: string
  defaultSection :: string
  defaultHidden :: bool

definition menu_section :: "string \<Rightarrow> string \<Rightarrow> string list \<Rightarrow> section_layout" where
  "menu_section i t xs = \<lparr>section_id = i, title = t, items = xs, isCustom = False, itemLabels = None\<rparr>"

definition menu_entry :: "string \<Rightarrow> string \<Rightarrow> menu_item" where
  "menu_entry l s = \<lparr>label = l, defaultSection = s, defaultHidden = False\<rparr>"

definition FIXED_SECTION_IDS :: "string list" where
  "FIXED_SECTION_IDS = [''custom-resources'']"

definition DEFAULT_MENU_SECTIONS :: "section_layout list" where
  "DEFAULT_MENU_SECTIONS = [
     menu_section ''metrics'' ''Metrics'' [''metrics-overview'', ''metrics-settings''],
     menu_section ''cluster'' ''Cluster'' [''nodes'', ''namespaces'', ''events'', ''priorityclasses''],
     menu_section ''workloads'' ''Workloads'' [''pods'', ''deployments'', ''statefulsets'', ''daemonsets'', ''replicasets'', ''jobs'', ''cronjobs''],
     menu_section ''config'' ''Config'' [''configmaps'', ''secrets'', ''hpas'', ''pdbs'', ''resourcequotas'', ''limitranges'', ''leases''],
     menu_section ''network'' ''Network'' [''services'', ''endpoints'', ''endpointslices'', ''ingresses'', ''ingressclasses'', ''networkpolicies'', ''portforwards''],
     menu_section ''storage'' ''Storage'' [''pvcs'', ''pvs'', ''storageclasses'', ''csidrivers'', ''csinodes''],
     menu_section ''helm'' ''Helm'' [''helmreleases'', ''helmrepos''],
     menu_section ''access-control'' ''Access Control'' [''serviceaccounts'', ''roles'', ''clusterroles'', ''rolebindings'', ''clusterrolebindings''],
     menu_section ''admission-control'' ''Admission Control'' [''validatingwebhooks'', ''mutatingwebhooks''],
     menu_section ''custom-resources'' ''Custom Resources'' [''crds''],
     menu_section ''diagnostics'' ''Diagnostics'' [''flow-timeline'', ''multi-log-viewer'', ''resource-diff'', ''rbac-checker'', ''issue-detector'', ''scratchpad'', ''embedded-browser'']]"

definition ALL_MENU_ITEMS :: "(string, menu_item) js_map" where
  "ALL_MENU_ITEMS = [
     (''metrics-overview'', menu_entry ''Overview'' ''metrics''),
     (''metrics-settings'', menu_entry ''Settings'' ''metrics''),
     (''nodes'', menu_entry ''Nodes'' ''cluster''),
     (''namespaces'', menu_entry ''Namespaces'' ''cluster''),
     (''events'', menu_entry ''Events'' ''cluster''),
     (''priorityclasses'', menu_entry ''Priority Classes'' ''cluster''),
     (''embedded-browser'', menu_entry ''Embedded Browser'' ''diagnostics''),
     (''pods'', menu_entry ''Pods'' ''workloads''),
     (''deployments'', menu_entry ''Deployments'' ''workloads''),
     (''statefulsets'', menu_entry ''StatefulSets'' ''workloads''),
     (''daemonsets'', menu_entry ''DaemonSets'' ''workloads''),
     (''replicasets'', menu_entry ''ReplicaSets'' ''workloads''),
     (''jobs'', menu_entry ''Jobs'' ''workloads''),
     (''cronjobs'', menu_entry ''CronJobs'' ''workloads''),
     (''configmaps'', menu_entry ''ConfigMaps'' ''config''),
     (''secrets'', menu_entry ''Secrets'' ''config''),
     (''hpas'', menu_entry ''HPAs'' ''config''),
     (''pdbs'', menu_entry ''PDBs'' ''config''),
     (''resourcequotas'', menu_entry ''Resource Quotas'' ''config''),
     (''limitranges'', menu_entry ''Limit Ranges'' ''config''),
     (''leases'', menu_entry ''Leases'' ''config''),
     (''services'', menu_entry ''Services'' ''network''),
     (''endpoints'', menu_entry ''Endpoints'' ''network''),
     (''endpointslices'', menu_entry ''Endpoint Slices'' ''network''),
     (''ingresses'', menu_entry ''Ingresses'' ''network''),
     (''ingressclasses'', menu_entry ''Ingress Classes'' ''network''),
     (''networkpolicies'', menu_entry ''Network Policies'' ''network''),
     (''portforwards'', menu_entry ''Port Forwards'' ''network''),
     (''pvcs'', menu_entry ''PVCs'' ''storage''),
     (''pvs'', menu_entry ''PVs'' ''storage''),
     (''storageclasses'', menu_entry ''Storage Classes'' ''storage''),
     (''csidrivers'', menu_entry ''CSI Drivers'' ''storage''),
     (''csinodes'', menu_entry ''CSI Nodes'' ''storage''),
     (''helmreleases'', menu_entry ''Releases'' ''helm''),
     (''helmrepos'', menu_entry ''Chart Sources'' ''helm''),
     (''serviceaccounts'', menu_entry ''Service Accounts'' ''access-control''),
     (''roles'', menu_entry ''Roles'' ''access-control''),
     (''clusterroles'', menu_entry ''Cluster Roles'' ''access-control''),
     (''rolebindings'', menu_entry ''Role Bindings'' ''access-control''),
     (''clusterrolebindings'', menu_entry ''Cluster Role Bindings'' ''access-control''),
     (''validatingwebhooks'', menu_entry ''Validating Webhooks'' ''admission-control''),
     (''mutatingwebhooks'', menu_entry ''Mutating Webhooks'' ''admission-control''),
     (''flow-timeline'', menu_entry ''Flow Timeline'' ''diagnostics''),
     (''multi-log-viewer'', menu_entry ''Multi-Pod Logs'' ''diagnostics''),
     (''resource-diff'', menu_entry ''Resource Diff'' ''diagnostics''),
     (''rbac-checker'', menu_entry ''RBAC Checker'' ''diagnostics''),
     (''issue-detector'', menu_entry ''Issue Detector'' ''diagnostics''),
     (''scratchpad'', menu_entry ''Scratch Pad'' ''diagnostics''),
     (''crds'', menu_entry ''Definitions'' ''custom-resources'')]"

section \<open>Reconciling a stored layout with the registry\<close>

definition known :: "string \<Rightarrow> bool" where
  "known itemId = map_has ALL_MENU_ITEMS itemId"

definition stored_part :: "section_layout list \<Rightarrow> section_layout list" where
  "stored_part stored =
     filter (\<lambda>s. items s \<noteq> [] \<or> isCustom s \<or> section_id s \<in> set FIXED_SECTION_IDS)
       (map (\<lambda>s. s\<lparr>items := filter known (items s)\<rparr>) stored)"

definition default_section :: "string \<Rightarrow> section_layout option" where
  "default_section i = List.find (\<lambda>s. section_id s = i) DEFAULT_MENU_SECTIONS"

definition ensure_fixed :: "section_layout list \<Rightarrow> string \<Rightarrow> section_layout list" where
  "ensure_fixed result fixedId =
     (if list_ex (\<lambda>s. section_id s = fixedId) result then result
      else case default_section fixedId of None \<Rightarrow> result | Some d \<Rightarrow> result @ [d])"

definition all_items :: "section_layout list \<Rightarrow> string list" where
  "all_items layout = concat (map items layout)"

definition push_item :: "string \<Rightarrow> string \<Rightarrow> section_layout list \<Rightarrow> section_layout list" where
  "push_item sectionId itemId result =
     (case find_index (\<lambda>s. section_id s = sectionId) result of
        None \<Rightarrow> result
      | Some i \<Rightarrow> result[i := (result ! i)\<lparr>items := items (result ! i) @ [itemId]\<rparr>])"

definition inject :: "string list \<Rightarrow> string list \<Rightarrow> section_layout list \<times> string list \<Rightarrow> string \<times> menu_item
    \<Rightarrow> section_layout list \<times> string list" where
  "inject present excluded st entry =
     (case (st, entry) of ((result, newExcluded), (itemId, d)) \<Rightarrow>
        if itemId \<in> set present \<or> itemId \<in> set excluded \<or> itemId = ''crds'' then (result, newExcluded)
        else if defaultHidden d then (result, newExcluded @ [itemId])
        else (push_item (defaultSection d) itemId result, newExcluded))"

definition reconcileLayout :: "section_layout list \<Rightarrow> string list \<Rightarrow> section_layout list \<times> string list" where
  "reconcileLayout stored excluded =
     (let result = foldl ensure_fixed (stored_part stored) FIXED_SECTION_IDS
      in foldl (inject (all_items result) excluded) (result, []) ALL_MENU_ITEMS)"

definition getDefaultLayout :: "section_layout list" where
  "getDefaultLayout = map (\<lambda>s. menu_section (section_id s) (title s) (items s)) DEFAULT_MENU_SECTIONS"

definition getVisibleItemIds :: "section_layout list \<Rightarrow> string list" where
  "getVisibleItemIds layout = uniq (all_items layout)"

section \<open>The tables\<close>

lemma item_keys_distinct: "distinct (map_keys ALL_MENU_ITEMS)"
  by code_simp

lemma section_ids_distinct: "distinct (map section_id DEFAULT_MENU_SECTIONS)"
  by code_simp

lemma default_items_distinct: "distinct (all_items DEFAULT_MENU_SECTIONS)"
  by code_simp

text \<open>Every item is listed once, in the section the registry names for it, and vice versa.\<close>

lemma items_in_their_section:
  "list_all (\<lambda>(i, d). list_ex (\<lambda>s. section_id s = defaultSection d \<and> i \<in> set (items s)) DEFAULT_MENU_SECTIONS)
     ALL_MENU_ITEMS"
  by code_simp

lemma default_items_known: "list_all known (all_items DEFAULT_MENU_SECTIONS)"
  by code_simp

lemma no_default_hidden: "list_all (\<lambda>(i, d). \<not> defaultHidden d) ALL_MENU_ITEMS"
  by code_simp

lemma fixed_default: "default_section ''custom-resources'' = Some (menu_section ''custom-resources'' ''Custom Resources'' [''crds''])"
  by code_simp

lemma known_crds: "known ''crds''"
  by code_simp

lemma known_iff: "known i \<longleftrightarrow> i \<in> fst ` set ALL_MENU_ITEMS"
  by (simp add: known_def map_has_iff)

section \<open>What reconciling does\<close>

definition section_ok :: "section_layout \<Rightarrow> bool" where
  "section_ok s \<longleftrightarrow> list_all known (items s) \<and> (items s \<noteq> [] \<or> isCustom s \<or> section_id s \<in> set FIXED_SECTION_IDS)"

lemma all_items_append [simp]: "all_items (xs @ ys) = all_items xs @ all_items ys"
  by (simp add: all_items_def)

lemma all_items_Cons [simp]: "all_items (x # xs) = items x @ all_items xs"
  by (simp add: all_items_def)

lemma all_items_Nil [simp]: "all_items [] = []"
  by (simp add: all_items_def)

lemma set_all_items: "set (all_items l) = (\<Union>s \<in> set l. set (items s))"
  by (simp add: all_items_def)

lemma push_item_ids [simp]: "map section_id (push_item sid i r) = map section_id r"
proof -
  have "map section_id (r[k := (r ! k)\<lparr>items := xs\<rparr>]) = map section_id r" if "k < length r" for k xs
    using that by (simp add: map_update list_update_same_conv)
  then show ?thesis by (auto simp: push_item_def dest: find_index_SomeD(1) split: option.splits)
qed

lemma push_item_absent: "sid \<notin> set (map section_id r) \<Longrightarrow> push_item sid i r = r"
proof -
  assume "sid \<notin> set (map section_id r)"
  then have "find_index (\<lambda>s. section_id s = sid) r = None" by (auto simp: find_index_None)
  then show ?thesis by (simp add: push_item_def)
qed

lemma push_item_present:
  assumes "sid \<in> set (map section_id r)"
  obtains us s vs where "r = us @ s # vs" "section_id s = sid"
    "push_item sid i r = us @ s\<lparr>items := items s @ [i]\<rparr> # vs"
proof -
  have "find_index (\<lambda>s. section_id s = sid) r \<noteq> None" using assms by (auto simp: find_index_None)
  then obtain k where k: "find_index (\<lambda>s. section_id s = sid) r = Some k" by auto
  note kD = find_index_SomeD [OF k]
  show thesis
  proof (rule that)
    show "r = take k r @ r ! k # drop (Suc k) r" using kD(1) by (rule id_take_nth_drop)
    show "section_id (r ! k) = sid" using kD(2) .
    show "push_item sid i r = take k r @ (r ! k)\<lparr>items := items (r ! k) @ [i]\<rparr> # drop (Suc k) r"
      using kD(1) by (simp add: push_item_def k upd_conv_take_nth_drop)
  qed
qed

lemma push_item_mset:
  "sid \<in> set (map section_id r) \<Longrightarrow> mset (all_items (push_item sid i r)) = add_mset i (mset (all_items r))"
  by (erule push_item_present [where i = i]) simp

lemma push_item_ok:
  "list_all section_ok r \<Longrightarrow> known i \<Longrightarrow> list_all section_ok (push_item sid i r)"
proof (cases "sid \<in> set (map section_id r)")
  case True
  then show "list_all section_ok r \<Longrightarrow> known i \<Longrightarrow> ?thesis"
    by (rule push_item_present [where i = i]) (simp add: section_ok_def)
qed (simp add: push_item_absent)

text \<open>The loop over the registry, in closed form.\<close>

definition injected :: "string list \<Rightarrow> string list \<Rightarrow> string list \<Rightarrow> string \<times> menu_item \<Rightarrow> bool" where
  "injected present excluded ids entry =
     (case entry of (i, d) \<Rightarrow>
        i \<notin> set present \<and> i \<notin> set excluded \<and> i \<noteq> ''crds'' \<and> \<not> defaultHidden d \<and> defaultSection d \<in> set ids)"

definition newly_hidden :: "string list \<Rightarrow> string list \<Rightarrow> string \<times> menu_item \<Rightarrow> bool" where
  "newly_hidden present excluded entry =
     (case entry of (i, d) \<Rightarrow> i \<notin> set present \<and> i \<notin> set excluded \<and> i \<noteq> ''crds'' \<and> defaultHidden d)"

lemma inject_eq:
  "inject present excluded (result, newExcluded) (i, d) =
     (if i \<in> set present \<or> i \<in> set excluded \<or> i = ''crds'' then (result, newExcluded)
      else if defaultHidden d then (result, newExcluded @ [i])
      else (push_item (defaultSection d) i result, newExcluded))"
  by (simp add: inject_def)

lemma injected_eq:
  "injected present excluded ids (i, d) \<longleftrightarrow>
     \<not> (i \<in> set present \<or> i \<in> set excluded \<or> i = ''crds'') \<and> \<not> defaultHidden d \<and> defaultSection d \<in> set ids"
  by (auto simp: injected_def)

lemma newly_hidden_eq:
  "newly_hidden present excluded (i, d) \<longleftrightarrow>
     \<not> (i \<in> set present \<or> i \<in> set excluded \<or> i = ''crds'') \<and> defaultHidden d"
  by (auto simp: newly_hidden_def)

lemma inject_loop:
  assumes "foldl (inject present excluded) (r, ne) kvs = (r', ne')" "list_all section_ok r" "list_all known (map fst kvs)"
  shows "map section_id r' = map section_id r \<and>
    mset (all_items r') =
      mset (all_items r) + mset (map fst (filter (injected present excluded (map section_id r)) kvs)) \<and>
    ne' = ne @ map fst (filter (newly_hidden present excluded) kvs) \<and> list_all section_ok r'"
  using assms
proof (induction kvs arbitrary: r ne)
  case (Cons kv kvs)
  obtain i d where kv: "kv = (i, d)" by (cases kv)
  show ?case
  proof (cases "i \<in> set present \<or> i \<in> set excluded \<or> i = ''crds''")
    case True
    with Cons.IH [of r ne] Cons.prems kv show ?thesis
      by (simp add: inject_eq injected_eq newly_hidden_eq)
  next
    case False
    show ?thesis
    proof (cases "defaultHidden d")
      case True
      with False Cons.IH [of r "ne @ [i]"] Cons.prems kv show ?thesis
        by (simp add: inject_eq injected_eq newly_hidden_eq)
    next
      case nh: False
      let ?r = "push_item (defaultSection d) i r"
      have "foldl (inject present excluded) (?r, ne) kvs = (r', ne')" "list_all section_ok ?r"
        using False nh Cons.prems kv by (simp_all add: inject_eq push_item_ok)
      from Cons.IH [OF this] Cons.prems kv False nh show ?thesis
        by (cases "defaultSection d \<in> set (map section_id r)")
          (simp_all add: injected_eq newly_hidden_eq push_item_mset push_item_absent)
    qed
  qed
qed simp

abbreviation base_layout :: "section_layout list \<Rightarrow> section_layout list" where
  "base_layout stored \<equiv> foldl ensure_fixed (stored_part stored) FIXED_SECTION_IDS"

lemma stored_part_ok: "list_all section_ok (stored_part l)"
  by (auto simp: stored_part_def section_ok_def list_all_iff)

lemma stored_part_items: "all_items (stored_part l) = filter known (all_items l)"
  by (induction l) (auto simp: stored_part_def)

lemma stored_part_id: "list_all section_ok l \<Longrightarrow> stored_part l = l"
proof (induction l)
  case (Cons s l)
  then have "filter known (items s) = items s" by (simp add: section_ok_def list_all_iff filter_id_conv)
  with Cons show ?case by (auto simp: stored_part_def section_ok_def)
qed (simp add: stored_part_def)

definition has_fixed :: "section_layout list \<Rightarrow> bool" where
  "has_fixed l = list_ex (\<lambda>s. section_id s = ''custom-resources'') l"

lemma stored_part_fixed: "has_fixed (stored_part l) = has_fixed l"
  by (auto simp: has_fixed_def stored_part_def list_ex_iff FIXED_SECTION_IDS_def)

lemma base_layout_eq:
  "base_layout l = stored_part l @
     (if has_fixed l then [] else [menu_section ''custom-resources'' ''Custom Resources'' [''crds'']])"
  using stored_part_fixed [of l] fixed_default
  by (simp add: FIXED_SECTION_IDS_def ensure_fixed_def has_fixed_def)

lemma has_fixed_ids: "has_fixed l \<longleftrightarrow> ''custom-resources'' \<in> set (map section_id l)"
  by (force simp: has_fixed_def list_ex_iff)

lemma base_layout_ok: "list_all section_ok (base_layout l)"
  using known_crds by (simp add: base_layout_eq stored_part_ok) (simp add: section_ok_def menu_section_def)

lemma base_layout_items:
  "all_items (base_layout l) = filter known (all_items l) @ (if has_fixed l then [] else [''crds''])"
  by (simp add: base_layout_eq stored_part_items menu_section_def)

lemma base_layout_fixed: "has_fixed (base_layout l)"
  using stored_part_fixed [of l] by (auto simp: base_layout_eq has_fixed_def menu_section_def)

lemma base_layout_id: "list_all section_ok l \<Longrightarrow> has_fixed l \<Longrightarrow> base_layout l = l"
  unfolding base_layout_eq by (simp add: stored_part_id)

lemma all_items_known: "list_all known (map fst ALL_MENU_ITEMS)"
  by (auto simp: list_all_iff known_iff)

lemma reconcile_spec:
  assumes "reconcileLayout l excluded = (F, nx)"
  shows "map section_id F = map section_id (base_layout l)"
    and "mset (all_items F) = mset (all_items (base_layout l)) + mset (map fst
        (filter (injected (all_items (base_layout l)) excluded (map section_id (base_layout l))) ALL_MENU_ITEMS))"
    and "nx = map fst (filter (newly_hidden (all_items (base_layout l)) excluded) ALL_MENU_ITEMS)"
    and "list_all section_ok F"
  using inject_loop [OF _ base_layout_ok all_items_known, of "all_items (base_layout l)" excluded l "[]" F nx] assms
  by (simp_all only: reconcileLayout_def Let_def append_Nil)

lemma reconcile_fixed: "reconcileLayout l excluded = (F, nx) \<Longrightarrow> has_fixed F"
  using reconcile_spec(1) [of l excluded F nx] base_layout_fixed [of l] by (simp add: has_fixed_ids)

lemma injected_fst:
  "i \<in> set (map fst (filter (injected P ex ids) ALL_MENU_ITEMS)) \<longleftrightarrow>
     (\<exists>d. (i, d) \<in> set ALL_MENU_ITEMS \<and> injected P ex ids (i, d))"
  by force

lemma inject_none:
  "\<forall>e \<in> set kvs. \<not> injected P ex (map section_id r) e \<and> \<not> newly_hidden P ex e \<Longrightarrow>
   foldl (inject P ex) (r, ne) kvs = (r, ne)"
proof (induction kvs)
  case (Cons kv kvs)
  obtain i d where "kv = (i, d)" by (cases kv)
  with Cons show ?case
    by (auto simp: inject_eq injected_eq newly_hidden_eq push_item_absent)
qed simp

lemma reconcile_shows:
  assumes "reconcileLayout l excluded = (F, nx)"
  shows "set (all_items F) = {i \<in> set (all_items l). known i} \<union> (if has_fixed l then {} else {''crds''}) \<union>
      {i. \<exists>d. (i, d) \<in> set ALL_MENU_ITEMS \<and> i \<notin> set excluded \<and> i \<noteq> ''crds'' \<and> \<not> defaultHidden d \<and>
           defaultSection d \<in> section_id ` set F} \<and>
    (distinct (all_items l) \<and> (has_fixed l \<or> ''crds'' \<notin> set (all_items l)) \<longrightarrow> distinct (all_items F))"
proof -
  note spec = reconcile_spec [OF assms]
  let ?P = "all_items (base_layout l)" and ?ids = "map section_id (base_layout l)"
  let ?inj = "map fst (filter (injected ?P excluded ?ids) ALL_MENU_ITEMS)"
  have F: "set (all_items F) = set ?P \<union> set ?inj"
    using arg_cong [OF spec(2), of set_mset] by simp
  have ids: "set ?ids = section_id ` set F" using arg_cong [OF spec(1), of set] by simp
  have P: "set ?P = {i \<in> set (all_items l). known i} \<union> (if has_fixed l then {} else {''crds''})"
    by (auto simp: base_layout_items)
  have "set ?P \<union> set ?inj = set ?P \<union>
      {i. \<exists>d. (i, d) \<in> set ALL_MENU_ITEMS \<and> i \<notin> set excluded \<and> i \<noteq> ''crds'' \<and> \<not> defaultHidden d \<and>
           defaultSection d \<in> section_id ` set F}"
    unfolding ids [symmetric] by (auto simp only: injected_fst injected_eq Un_iff mem_Collect_eq)
  moreover have "distinct (all_items F)"
    if "distinct (all_items l)" "has_fixed l \<or> ''crds'' \<notin> set (all_items l)"
  proof -
    have "distinct ?P" using that by (auto simp: base_layout_items)
    moreover have "distinct ?inj" using item_keys_distinct by (simp add: distinct_map_filter)
    moreover have "set ?P \<inter> set ?inj = {}" by (auto simp only: injected_fst injected_eq)
    ultimately have "distinct (?P @ ?inj)" by simp
    moreover have "mset (all_items F) = mset (?P @ ?inj)" using spec(2) by simp
    ultimately show ?thesis using mset_eq_imp_distinct_iff by blast
  qed
  ultimately show ?thesis using F P by blast
qed

text \<open>
  C22: reconciling a stored layout shows exactly its known items, every item of the registry
  other than the definitions of custom resources that is not hidden, is not hidden by default and
  whose default section is shown, and, only where the stored layout has no section of custom
  resources, the definitions of custom resources (a stored section of custom resources keeps the
  known items it lists, which may be none); a layout without
  repetitions (and with the definitions only in their own section) gets none.
\<close>
theorem reconcile_items:
  assumes "reconcileLayout l excluded = (F, nx)"
  shows "set (all_items F) = {i \<in> set (all_items l). known i} \<union> (if has_fixed l then {} else {''crds''}) \<union>
      {i. \<exists>d. (i, d) \<in> set ALL_MENU_ITEMS \<and> i \<notin> set excluded \<and> i \<noteq> ''crds'' \<and> \<not> defaultHidden d \<and>
           defaultSection d \<in> section_id ` set F} \<and>
    (distinct (all_items l) \<and> (has_fixed l \<or> ''crds'' \<notin> set (all_items l)) \<longrightarrow> distinct (all_items F))"
  using assms by (rule reconcile_shows)

text \<open>A layout that accounts for every item of the registry is left as it is.\<close>

definition complete :: "section_layout list \<Rightarrow> string list \<Rightarrow> bool" where
  "complete l excluded \<longleftrightarrow>
     (\<forall>(i, d) \<in> set ALL_MENU_ITEMS.
        i \<in> set (all_items l) \<or> i \<in> set excluded \<or> i = ''crds'' \<or>
        \<not> defaultHidden d \<and> defaultSection d \<notin> set (map section_id l))"

lemma reconcile_id:
  assumes "list_all section_ok l" "has_fixed l" "complete l excluded"
  shows "reconcileLayout l excluded = (l, [])"
proof -
  have "\<not> injected (all_items l) excluded (map section_id l) e \<and> \<not> newly_hidden (all_items l) excluded e"
    if mem: "e \<in> set ALL_MENU_ITEMS" for e
  proof -
    obtain i d where e: "e = (i, d)" by (cases e)
    from bspec [OF assms(3) [unfolded complete_def] mem] show ?thesis
      unfolding e injected_eq newly_hidden_eq by auto
  qed
  with base_layout_id [OF assms(1,2)] show ?thesis
    unfolding reconcileLayout_def by (simp only: Let_def) (intro inject_none, blast)
qed

lemma reconcile_complete:
  assumes "reconcileLayout l excluded = (F, nx)"
  shows "complete F (excluded @ nx)"
proof -
  note spec = reconcile_spec [OF assms]
  let ?P = "all_items (base_layout l)" and ?ids = "map section_id (base_layout l)"
  have F: "set (all_items F) = set ?P \<union> set (map fst (filter (injected ?P excluded ?ids) ALL_MENU_ITEMS))"
    using arg_cong [OF spec(2), of set_mset] by simp
  have nx: "i \<in> set nx" if "(i, d) \<in> set ALL_MENU_ITEMS" "newly_hidden ?P excluded (i, d)" for i d
    using that unfolding spec(3) by force
  have inj: "i \<in> set (all_items F)" if "(i, d) \<in> set ALL_MENU_ITEMS" "injected ?P excluded ?ids (i, d)" for i d
    unfolding F Un_iff injected_fst using that by blast
  have "i \<in> set (all_items F) \<or> i \<in> set (excluded @ nx) \<or> i = ''crds'' \<or>
      \<not> defaultHidden d \<and> defaultSection d \<notin> set (map section_id F)"
    if id: "(i, d) \<in> set ALL_MENU_ITEMS" for i d
    using nx [OF id] inj [OF id] F unfolding injected_eq newly_hidden_eq spec(1) by auto
  then show ?thesis unfolding complete_def by blast
qed

text \<open>
  Reconcile stable: reconciling is stable: once the newly hidden items are added to the hidden ones,
  as the callers do, reconciling the result again changes nothing and hides nothing more.
\<close>
theorem reconcile_stable:
  assumes "reconcileLayout l excluded = (F, nx)"
  shows "reconcileLayout F (excluded @ nx) = (F, [])"
  using reconcile_spec(4) [OF assms] reconcile_fixed [OF assms] reconcile_complete [OF assms] by (rule reconcile_id)

section \<open>Changing a layout\<close>

text \<open>\<open>layout.map((s, i) => i === k ? f(s) : s)\<close>.\<close>

definition update_at :: "nat \<Rightarrow> ('a \<Rightarrow> 'a) \<Rightarrow> 'a list \<Rightarrow> 'a list" where
  "update_at k f xs = (if k < length xs then xs[k := f (xs ! k)] else xs)"

definition labels_or_none :: "(string, string) js_map \<Rightarrow> (string, string) js_map option" where
  "labels_or_none labels = (if labels \<noteq> [] then Some labels else None)"

definition without_item :: "string \<Rightarrow> section_layout \<Rightarrow> section_layout" where
  "without_item itemId s =
     (let s' = s\<lparr>items := filter (\<lambda>i. i \<noteq> itemId) (items s)\<rparr> in
      case itemLabels s of
        None \<Rightarrow> s'
      | Some labels \<Rightarrow>
          if map_get labels itemId \<in> {None, Some ''''} then s'
          else s'\<lparr>itemLabels := labels_or_none (map_delete itemId labels)\<rparr>)"

definition removeItemFromLayout :: "section_layout list \<Rightarrow> nat \<Rightarrow> string \<Rightarrow> section_layout list" where
  "removeItemFromLayout layout sectionIdx itemId = update_at sectionIdx (without_item itemId) layout"

definition renameItemInLayout :: "section_layout list \<Rightarrow> nat \<Rightarrow> string \<Rightarrow> string \<Rightarrow> section_layout list" where
  "renameItemInLayout layout sectionIdx itemId newLabel =
     update_at sectionIdx
       (\<lambda>s. let labels = (case itemLabels s of Some m \<Rightarrow> m | None \<Rightarrow> []) in
            s\<lparr>itemLabels := labels_or_none
                (if newLabel = '''' \<or> Some newLabel = map_option label (map_get ALL_MENU_ITEMS itemId)
                 then map_delete itemId labels else map_set itemId newLabel labels)\<rparr>)
       layout"

definition addItemToLayout :: "section_layout list \<Rightarrow> string \<Rightarrow> nat option \<Rightarrow> section_layout list" where
  "addItemToLayout layout itemId sectionIdx =
     (case (case sectionIdx of
              Some i \<Rightarrow> Some i
            | None \<Rightarrow> find_index (\<lambda>s. section_id s \<notin> set FIXED_SECTION_IDS) layout) of
        None \<Rightarrow> layout
      | Some targetIdx \<Rightarrow> update_at targetIdx (\<lambda>s. s\<lparr>items := items s @ [itemId]\<rparr>) layout)"

definition addGroupToLayout :: "section_layout list \<Rightarrow> string \<Rightarrow> string list \<Rightarrow> section_layout list" where
  "addGroupToLayout layout sectionId itemIds =
     (case find_index (\<lambda>s. section_id s = sectionId) layout of
        Some existingIdx \<Rightarrow> update_at existingIdx (\<lambda>s. s\<lparr>items := items s @ itemIds\<rparr>) layout
      | None \<Rightarrow>
          layout @ [menu_section sectionId
            (case default_section sectionId of Some d \<Rightarrow> if title d \<noteq> '''' then title d else sectionId | None \<Rightarrow> sectionId)
            itemIds])"

text \<open>Reading a section that is not there throws.\<close>

definition deleteSectionFromLayout :: "section_layout list \<Rightarrow> nat \<Rightarrow> section_layout list option" where
  "deleteSectionFromLayout layout sectionIdx =
     (if sectionIdx < length layout
      then Some (if section_id (layout ! sectionIdx) \<in> set FIXED_SECTION_IDS then layout
                 else take sectionIdx layout @ drop (sectionIdx + 1) layout)
      else None)"

definition renameSectionInLayout :: "section_layout list \<Rightarrow> nat \<Rightarrow> string \<Rightarrow> section_layout list" where
  "renameSectionInLayout layout sectionIdx newTitle = update_at sectionIdx (\<lambda>s. s\<lparr>title := newTitle\<rparr>) layout"

definition same_section :: "section_layout \<Rightarrow> section_layout \<Rightarrow> bool" where
  "same_section d s =
     (section_id s = section_id d \<and> title s = title d \<and> \<not> isCustom s \<and>
      (itemLabels s = None \<or> itemLabels s = Some []) \<and> items s = items d)"

definition isDefaultLayout :: "section_layout list \<Rightarrow> string list \<Rightarrow> bool" where
  "isDefaultLayout layout excludedItems = (excludedItems = [] \<and> list_all2 same_section getDefaultLayout layout)"

section \<open>Hidden items\<close>

type_synonym menu_label = "string \<times> string"  \<comment> \<open>\<open>{ id, label }\<close>\<close>

definition hidden_ids :: "section_layout list \<Rightarrow> string list" where
  "hidden_ids layout =
     filter (\<lambda>i. i \<noteq> ''crds'' \<and> i \<notin> set (all_items layout)) (map_keys ALL_MENU_ITEMS)"

definition menu_def :: "string \<Rightarrow> menu_item" where
  "menu_def i = (case map_get ALL_MENU_ITEMS i of Some d \<Rightarrow> d | None \<Rightarrow> menu_entry '''' '''')"

definition group_item :: "(string, menu_label list) js_map \<Rightarrow> string \<Rightarrow> (string, menu_label list) js_map" where
  "group_item bySection i =
     (let sectionId = defaultSection (menu_def i);
          before = (case map_get bySection sectionId of Some xs \<Rightarrow> xs | None \<Rightarrow> [])
      in map_set sectionId (before @ [(i, label (menu_def i))]) bySection)"

definition getAvailableGroups :: "section_layout list \<Rightarrow> (string \<times> string \<times> menu_label list) list" where
  "getAvailableGroups layout =
     (let bySection = foldl group_item [] (hidden_ids layout) in
      concat (map (\<lambda>s. case map_get bySection (section_id s) of
                         Some xs \<Rightarrow> [(section_id s, title s, xs)] | None \<Rightarrow> [])
              DEFAULT_MENU_SECTIONS))"

section \<open>The editor\<close>

record editor =
  layout_value :: "section_layout list option"
  excludedItems :: "string list"

definition editor_layout :: "editor \<Rightarrow> section_layout list" where
  "editor_layout e =
     (case layout_value e of
        Some (s # ss) \<Rightarrow> fst (reconcileLayout (s # ss) (excludedItems e))
      | _ \<Rightarrow> getDefaultLayout)"

definition updateLayout :: "section_layout list \<Rightarrow> editor \<Rightarrow> editor" where
  "updateLayout newLayout e =
     e\<lparr>layout_value := if isDefaultLayout newLayout (excludedItems e) then None else Some newLayout\<rparr>"

definition exclude :: "string \<Rightarrow> editor \<Rightarrow> editor" where
  "exclude itemId e =
     (if itemId \<in> set (excludedItems e) then e else e\<lparr>excludedItems := excludedItems e @ [itemId]\<rparr>)"

definition include_items :: "string list \<Rightarrow> editor \<Rightarrow> editor" where
  "include_items ids e = e\<lparr>excludedItems := filter (\<lambda>i. i \<notin> set ids) (excludedItems e)\<rparr>"

definition removeItem :: "nat \<Rightarrow> string \<Rightarrow> editor \<Rightarrow> editor" where
  "removeItem sectionIdx itemId e =
     exclude itemId (updateLayout (removeItemFromLayout (editor_layout e) sectionIdx itemId) e)"

definition addItemToSection :: "string \<Rightarrow> nat option \<Rightarrow> editor \<Rightarrow> editor" where
  "addItemToSection itemId sectionIdx e =
     (let targetIdx = (case sectionIdx of
            Some i \<Rightarrow> Some i
          | None \<Rightarrow> find_index (\<lambda>s. Some (section_id s) = map_option defaultSection (map_get ALL_MENU_ITEMS itemId))
                      (editor_layout e))
      in include_items [itemId] (updateLayout (addItemToLayout (editor_layout e) itemId targetIdx) e))"

definition addGroup :: "string \<Rightarrow> string list \<Rightarrow> editor \<Rightarrow> editor" where
  "addGroup sectionId itemIds e =
     include_items itemIds (updateLayout (addGroupToLayout (editor_layout e) sectionId itemIds) e)"

definition renameItem :: "nat \<Rightarrow> string \<Rightarrow> string \<Rightarrow> editor \<Rightarrow> editor" where
  "renameItem sectionIdx itemId newLabel e =
     updateLayout (renameItemInLayout (editor_layout e) sectionIdx itemId newLabel) e"

definition addCustomSection :: "string \<Rightarrow> editor \<Rightarrow> editor" where
  "addCustomSection newId e =
     updateLayout (editor_layout e @ [(menu_section newId ''New Section'' [])\<lparr>isCustom := True\<rparr>]) e"

definition deleteSection :: "nat \<Rightarrow> editor \<Rightarrow> editor option" where
  "deleteSection sectionIdx e =
     map_option (\<lambda>l. updateLayout l e) (deleteSectionFromLayout (editor_layout e) sectionIdx)"

definition renameSection :: "nat \<Rightarrow> string \<Rightarrow> editor \<Rightarrow> editor" where
  "renameSection sectionIdx newTitle e =
     updateLayout (renameSectionInLayout (editor_layout e) sectionIdx newTitle) e"

definition handleReset :: "editor \<Rightarrow> editor" where
  "handleReset e = \<lparr>layout_value = None, excludedItems = []\<rparr>"

text \<open>Dropping an item of the layout on the bin, and an available item into a section.\<close>

definition drop_on_bin :: "string \<Rightarrow> editor \<Rightarrow> editor" where
  "drop_on_bin itemId e =
     (case find_index (\<lambda>s. itemId \<in> set (items s)) (editor_layout e) of
        None \<Rightarrow> e
      | Some k \<Rightarrow>
          exclude itemId (updateLayout
            (update_at k (\<lambda>s. s\<lparr>items := filter (\<lambda>i. i \<noteq> itemId) (items s)\<rparr>) (editor_layout e)) e))"

definition drop_available :: "string \<Rightarrow> nat \<Rightarrow> nat \<Rightarrow> editor \<Rightarrow> editor" where
  "drop_available itemId sectionIdx insertIndex e =
     include_items [itemId] (updateLayout
       (update_at sectionIdx
          (\<lambda>s. s\<lparr>items := take insertIndex (items s) @ itemId # drop insertIndex (items s)\<rparr>)
          (editor_layout e)) e)"

text \<open>The layout the command palette lists: the stored one, reconciled without the hidden items.\<close>

definition palette_layout :: "section_layout list option \<Rightarrow> section_layout list" where
  "palette_layout stored =
     (case stored of
        Some l \<Rightarrow> fst (reconcileLayout l [])
      | None \<Rightarrow> map (\<lambda>s. menu_section (section_id s) (title s) (items s)) DEFAULT_MENU_SECTIONS)"

section \<open>What the editor offers and shows\<close>

lemma group_items_get:
  "map_get (foldl group_item m ids) sid =
     (let xs = map (\<lambda>i. (i, label (menu_def i))) (filter (\<lambda>i. defaultSection (menu_def i) = sid) ids) in
      case map_get m sid of None \<Rightarrow> if xs = [] then None else Some xs | Some ys \<Rightarrow> Some (ys @ xs))"
proof (induction ids arbitrary: m)
  case Nil
  then show ?case by (simp split: option.split)
next
  case (Cons i ids)
  have step: "map_get (group_item m i) sid =
      (if sid = defaultSection (menu_def i)
       then Some ((case map_get m sid of Some xs \<Rightarrow> xs | None \<Rightarrow> []) @ [(i, label (menu_def i))]) else map_get m sid)"
    by (simp add: group_item_def Let_def update_conv')
  show ?case using Cons.IH [of "group_item m i"] step
    by (auto simp: Let_def split: option.splits)
qed

definition offered :: "section_layout list \<Rightarrow> string list" where
  "offered l = concat (map (\<lambda>(sid, t, xs). map fst xs) (getAvailableGroups l))"

lemma concat_map_concat: "concat (map h (concat (map f xs))) = concat (map (\<lambda>x. concat (map h (f x))) xs)"
  by (induction xs) auto

lemma offered_eq:
  "offered l = concat (map (\<lambda>s. filter (\<lambda>i. defaultSection (menu_def i) = section_id s) (hidden_ids l)) DEFAULT_MENU_SECTIONS)"
proof -
  have grp: "concat (map (\<lambda>(sid, t, xs). map fst xs)
      (case map_get (foldl group_item [] (hidden_ids l)) (section_id s) of
         Some xs \<Rightarrow> [(section_id s, title s, xs)] | None \<Rightarrow> [])) =
    filter (\<lambda>i. defaultSection (menu_def i) = section_id s) (hidden_ids l)" for s
    by (auto simp: group_items_get Let_def comp_def filter_empty_conv split: option.splits)
  show ?thesis unfolding offered_def getAvailableGroups_def Let_def concat_map_concat grp ..
qed

lemma distinct_by_key:
  "distinct (map g D) \<Longrightarrow> distinct H \<Longrightarrow> distinct (concat (map (\<lambda>s. filter (\<lambda>i. f i = g s) H) D))"
  by (induction D) (auto, metis rev_image_eqI)

lemma hidden_ids_distinct: "distinct (hidden_ids l)"
  using item_keys_distinct by (simp add: hidden_ids_def)

lemma menu_def_section:
  assumes "known i"
  shows "defaultSection (menu_def i) \<in> section_id ` set DEFAULT_MENU_SECTIONS"
proof -
  obtain d where d: "(i, d) \<in> set ALL_MENU_ITEMS" using assms by (auto simp: known_iff)
  then have "menu_def i = d" using item_keys_distinct by (simp add: menu_def_def)
  moreover from d items_in_their_section
  have "list_ex (\<lambda>s. section_id s = defaultSection d \<and> i \<in> set (items s)) DEFAULT_MENU_SECTIONS"
    unfolding list_all_iff by blast
  ultimately show ?thesis by (force simp: list_ex_iff)
qed

lemma available_spec:
  "set (concat (map (\<lambda>(sid, t, xs). map fst xs) (getAvailableGroups l))) =
     {i. known i \<and> i \<noteq> ''crds'' \<and> i \<notin> set (getVisibleItemIds l)} \<and>
   distinct (concat (map (\<lambda>(sid, t, xs). map fst xs) (getAvailableGroups l)))"
proof -
  have "set (hidden_ids l) = {i. known i \<and> i \<noteq> ''crds'' \<and> i \<notin> set (getVisibleItemIds l)}"
    by (auto simp: hidden_ids_def known_iff getVisibleItemIds_def)
  moreover have "set (offered l) = set (hidden_ids l)"
    using menu_def_section by (fastforce simp: offered_eq hidden_ids_def known_iff)
  moreover have "distinct (offered l)"
    unfolding offered_eq by (rule distinct_by_key [OF section_ids_distinct hidden_ids_distinct])
  ultimately show ?thesis by (simp add: offered_def)
qed

lemma offered_spec: "set (offered l) = {i. known i \<and> i \<noteq> ''crds'' \<and> i \<notin> set (all_items l)}"
  using available_spec [of l] by (simp add: offered_def getVisibleItemIds_def)

text \<open>
  Available partition: the editor offers every item of the registry that the layout does not show,
  other than the definitions of custom resources, exactly once, and offers nothing else.
\<close>
theorem available_partition:
  "set (concat (map (\<lambda>(sid, t, xs). map fst xs) (getAvailableGroups l))) =
     {i. known i \<and> i \<noteq> ''crds'' \<and> i \<notin> set (getVisibleItemIds l)} \<and>
   distinct (concat (map (\<lambda>(sid, t, xs). map fst xs) (getAvailableGroups l)))"
  by (rule available_spec)

definition layout_good :: "editor \<Rightarrow> section_layout list \<Rightarrow> bool" where
  "layout_good e l \<longleftrightarrow> list_all section_ok l \<and> has_fixed l \<and> complete l (excludedItems e)"

lemma nothing_newly_hidden: "reconcileLayout l excluded = (F, nx) \<Longrightarrow> nx = []"
  using no_default_hidden reconcile_spec(3) [of l excluded F nx]
  by (auto simp: newly_hidden_def list_all_iff filter_empty_conv)

lemma default_layout_eq: "getDefaultLayout = DEFAULT_MENU_SECTIONS"
  by code_simp

lemma default_layout_good: "list_all section_ok getDefaultLayout \<and> has_fixed getDefaultLayout"
  unfolding default_layout_eq by code_simp

lemma default_layout_complete: "complete getDefaultLayout excluded"
proof -
  have "i \<in> set (all_items DEFAULT_MENU_SECTIONS)" if "(i, d) \<in> set ALL_MENU_ITEMS" for i d
    using that items_in_their_section unfolding list_all_iff list_ex_iff set_all_items by blast
  then show ?thesis unfolding complete_def default_layout_eq by blast
qed

text \<open>What the editor shows accounts for every item, whatever was stored.\<close>

lemma editor_layout_good: "layout_good e (editor_layout e)"
proof (cases "layout_value e = None \<or> layout_value e = Some []")
  case True
  then have "editor_layout e = getDefaultLayout" by (auto simp: editor_layout_def)
  then show ?thesis using default_layout_good default_layout_complete by (simp add: layout_good_def)
next
  case False
  then obtain s ss where v: "layout_value e = Some (s # ss)" by (auto simp: neq_Nil_conv)
  obtain F nx where F: "reconcileLayout (s # ss) (excludedItems e) = (F, nx)" by fastforce
  have "editor_layout e = F" by (simp add: editor_layout_def v F)
  then show ?thesis
    using reconcile_spec(4) [OF F] reconcile_fixed [OF F] reconcile_complete [OF F] nothing_newly_hidden [OF F]
    by (simp add: layout_good_def)
qed

text \<open>A layout that accounts for every item is what the editor shows after storing it.\<close>

lemma editor_shows:
  assumes "layout_value e = (if isDefaultLayout new old then None else Some new)" "layout_good e new"
  shows "map items (editor_layout e) = map items new" "map section_id (editor_layout e) = map section_id new"
proof -
  have ne: "new \<noteq> []" using assms(2) by (auto simp: layout_good_def has_fixed_def)
  have "list_all2 same_section getDefaultLayout new \<Longrightarrow>
      map items getDefaultLayout = map items new \<and> map section_id getDefaultLayout = map section_id new"
    by (induction rule: list_all2_induct) (simp_all add: same_section_def)
  moreover have "editor_layout e = new" if "layout_value e = Some new"
    using that ne assms(2) reconcile_id [of new "excludedItems e"]
    by (cases new) (simp_all add: editor_layout_def layout_good_def)
  ultimately have "map items (editor_layout e) = map items new \<and> map section_id (editor_layout e) = map section_id new"
    using assms(1) by (cases "isDefaultLayout new old") (simp_all add: isDefaultLayout_def editor_layout_def)
  then show "map items (editor_layout e) = map items new" "map section_id (editor_layout e) = map section_id new"
    by simp_all
qed

lemma update_at_split:
  assumes "k < length l"
  obtains us s vs where "l = us @ s # vs" "length us = k" "l ! k = s" "update_at k f l = us @ f s # vs"
proof (rule that)
  show "l = take k l @ l ! k # drop (Suc k) l" using assms by (rule id_take_nth_drop)
  show "update_at k f l = take k l @ f (l ! k) # drop (Suc k) l"
    using assms by (simp add: update_at_def upd_conv_take_nth_drop)
qed (use assms in simp_all)

lemma without_item_simps [simp]:
  "items (without_item i s) = filter (\<lambda>j. j \<noteq> i) (items s)" "section_id (without_item i s) = section_id s"
  "isCustom (without_item i s) = isCustom s"
  by (auto simp: without_item_def Let_def split: option.split)

lemma excluded_after [simp]:
  "set (excludedItems (exclude i e)) = insert i (set (excludedItems e))"
  "set (excludedItems (include_items is e)) = set (excludedItems e) - set is"
  "excludedItems (updateLayout l e) = excludedItems e"
  by (auto simp: exclude_def include_items_def updateLayout_def)

lemma complete_mono:
  assumes "complete l ex" "set (all_items l) \<union> set ex \<subseteq> set (all_items l') \<union> set ex'"
    and "map section_id l' = map section_id l"
  shows "complete l' ex'"
  using assms(1,2) unfolding complete_def assms(3) by blast

lemma remove_good:
  assumes good: "layout_good e l" and k: "k < length l"
    and stays: "section_ok (without_item i (l ! k))"
  shows "layout_good (exclude i (updateLayout (removeItemFromLayout l k i) e)) (removeItemFromLayout l k i)"
proof -
  from k obtain us s vs where l: "l = us @ s # vs" and s: "l ! k = s"
    and new: "removeItemFromLayout l k i = us @ without_item i s # vs"
    unfolding removeItemFromLayout_def by (rule update_at_split [where f = "without_item i"])
  have "complete (removeItemFromLayout l k i) (excludedItems (exclude i (updateLayout (removeItemFromLayout l k i) e)))"
  proof (rule complete_mono)
    show "complete l (excludedItems e)" using good by (simp add: layout_good_def)
  qed (unfold new, auto simp: l)
  moreover have "list_all section_ok (us @ s # vs)" "has_fixed (us @ s # vs)"
    using good unfolding l layout_good_def by blast+
  ultimately show ?thesis
    using stays [unfolded s] unfolding layout_good_def new by (simp add: has_fixed_def)
qed

lemma add_good:
  assumes good: "layout_good e l" and k: "k < length l" and i: "known i"
  shows "layout_good (include_items [i] (updateLayout (addItemToLayout l i (Some k)) e)) (addItemToLayout l i (Some k))"
proof -
  from k obtain us s vs where l: "l = us @ s # vs"
    and new: "addItemToLayout l i (Some k) = us @ s\<lparr>items := items s @ [i]\<rparr> # vs"
    unfolding addItemToLayout_def option.case by (rule update_at_split [where f = "\<lambda>s. s\<lparr>items := items s @ [i]\<rparr>"])
  have "complete (addItemToLayout l i (Some k)) (excludedItems (include_items [i] (updateLayout (addItemToLayout l i (Some k)) e)))"
  proof (rule complete_mono)
    show "complete l (excludedItems e)" using good by (simp add: layout_good_def)
  qed (unfold new, auto simp: l)
  moreover have "list_all section_ok (us @ s # vs)" "has_fixed (us @ s # vs)"
    using good unfolding l layout_good_def by blast+
  ultimately show ?thesis
    using i unfolding layout_good_def new by (simp add: has_fixed_def section_ok_def)
qed

lemma hide_and_restore_shown:
  assumes "k < length (editor_layout e)" "i \<in> set (items (editor_layout e ! k))" "i \<noteq> ''crds''"
    and "distinct (all_items (editor_layout e))" "\<exists>j \<in> set (items (editor_layout e ! k)). j \<noteq> i"
  shows "map items (editor_layout (removeItem k i e)) =
      (map items (editor_layout e))[k := filter (\<lambda>j. j \<noteq> i) (items (editor_layout e ! k))] \<and>
    i \<in> set (offered (editor_layout (removeItem k i e))) \<and>
    map items (editor_layout (addItemToSection i (Some k) (removeItem k i e))) =
      (map items (editor_layout e))[k := filter (\<lambda>j. j \<noteq> i) (items (editor_layout e ! k)) @ [i]]"
proof -
  let ?l = "editor_layout e" and ?e = "removeItem k i e"
  let ?rest = "filter (\<lambda>j. j \<noteq> i) (items (?l ! k))"
  have known: "list_all known (items (?l ! k))"
    using editor_layout_good [of e] assms(1) by (simp add: layout_good_def section_ok_def list_all_length)
  have "section_ok (without_item i (?l ! k))"
    using known assms(5) by (auto simp: section_ok_def list_all_iff filter_empty_conv)
  from remove_good [OF editor_layout_good assms(1) this]
  have good: "layout_good ?e (removeItemFromLayout ?l k i)" by (simp add: removeItem_def)
  have new: "map items (removeItemFromLayout ?l k i) = (map items ?l)[k := ?rest]"
    using assms(1) by (simp add: removeItemFromLayout_def update_at_def map_update)
  have "layout_value ?e = (if isDefaultLayout (removeItemFromLayout ?l k i) (excludedItems e) then None
      else Some (removeItemFromLayout ?l k i))"
    by (simp add: removeItem_def exclude_def updateLayout_def)
  from editor_shows(1) [OF this good] new
  have shown: "map items (editor_layout ?e) = (map items ?l)[k := ?rest]" by simp
  then have k': "k < length (editor_layout ?e)" using assms(1) by (metis length_list_update length_map)
  have "i \<notin> set (concat (map items (editor_layout ?e)))"
  proof -
    have "distinct (concat (take k (map items ?l) @ items (?l ! k) # drop (Suc k) (map items ?l)))"
      using assms(1,4) id_take_nth_drop [of k "map items ?l"] by (simp add: all_items_def)
    then show ?thesis unfolding shown using assms(1,2)
      by (auto simp: upd_conv_take_nth_drop)
  qed
  then have off: "i \<in> set (offered (editor_layout ?e))"
    using assms(2,3) known by (auto simp: offered_spec all_items_def list_all_iff)
  have "known i" using known assms(2) by (simp add: list_all_iff)
  note add = add_good [OF editor_layout_good k' this]
  have "layout_value (addItemToSection i (Some k) ?e) =
      (if isDefaultLayout (addItemToLayout (editor_layout ?e) i (Some k)) (excludedItems ?e) then None
       else Some (addItemToLayout (editor_layout ?e) i (Some k)))"
    by (simp add: addItemToSection_def include_items_def updateLayout_def)
  from editor_shows(1) [OF this] add
  have "map items (editor_layout (addItemToSection i (Some k) ?e)) = map items (addItemToLayout (editor_layout ?e) i (Some k))"
    by (simp add: addItemToSection_def)
  also have "\<dots> = (map items (editor_layout ?e))[k := map items (editor_layout ?e) ! k @ [i]]"
    using k' by (simp add: addItemToLayout_def update_at_def map_update)
  also have "\<dots> = (map items ?l)[k := ?rest @ [i]]" using assms(1) by (simp add: shown)
  finally show ?thesis using shown off by blast
qed

lemma pods_can_be_hidden:
  defines "e \<equiv> \<lparr>layout_value = None, excludedItems = []\<rparr>"
  shows "2 < length (editor_layout e)" "''pods'' \<in> set (items (editor_layout e ! 2))"
    "distinct (all_items (editor_layout e))" "\<exists>j \<in> set (items (editor_layout e ! 2)). j \<noteq> ''pods''"
proof -
  have e: "editor_layout e = DEFAULT_MENU_SECTIONS" by (simp add: e_def editor_layout_def default_layout_eq)
  have w: "items (DEFAULT_MENU_SECTIONS ! 2) =
      [''pods'', ''deployments'', ''statefulsets'', ''daemonsets'', ''replicasets'', ''jobs'', ''cronjobs'']"
    by code_simp
  show "2 < length (editor_layout e)" unfolding e by code_simp
  show "''pods'' \<in> set (items (editor_layout e ! 2))" "\<exists>j \<in> set (items (editor_layout e ! 2)). j \<noteq> ''pods''"
    unfolding e w by simp_all
  show "distinct (all_items (editor_layout e))" unfolding e by (rule default_items_distinct)
qed

text \<open>
  Hide and restore: hiding an item in the editor removes it from its section, nothing else moves, and
  the item is then offered for adding; adding it back to the section puts it at its end. What was
  stored survives the reconciliation of the next rendering. A section that would be left empty is
  excepted: it disappears.
\<close>
theorem hide_and_restore:
  assumes "k < length (editor_layout e)" "i \<in> set (items (editor_layout e ! k))" "i \<noteq> ''crds''"
    and "distinct (all_items (editor_layout e))" "\<exists>j \<in> set (items (editor_layout e ! k)). j \<noteq> i"
  shows "map items (editor_layout (removeItem k i e)) =
      (map items (editor_layout e))[k := filter (\<lambda>j. j \<noteq> i) (items (editor_layout e ! k))] \<and>
    i \<in> set (offered (editor_layout (removeItem k i e))) \<and>
    map items (editor_layout (addItemToSection i (Some k) (removeItem k i e))) =
      (map items (editor_layout e))[k := filter (\<lambda>j. j \<noteq> i) (items (editor_layout e ! k)) @ [i]]"
  using assms by (rule hide_and_restore_shown)

theorem hide_and_restore_witness:
  "''pods'' \<in> set (offered (editor_layout (removeItem 2 ''pods'' \<lparr>layout_value = None, excludedItems = []\<rparr>)))"
  using hide_and_restore [OF pods_can_be_hidden(1,2) _ pods_can_be_hidden(3,4)] by simp

theorem reconcile_items_witness:
  "''pods'' \<in> set (all_items (fst (reconcileLayout [menu_section ''workloads'' ''Work'' [''jobs'']] [''nodes''])))"
proof -
  obtain F nx where F: "reconcileLayout [menu_section ''workloads'' ''Work'' [''jobs'']] [''nodes''] = (F, nx)" by fastforce
  have "section_id ` set F = set (map section_id (base_layout [menu_section ''workloads'' ''Work'' [''jobs'']]))"
    using arg_cong [OF reconcile_spec(1) [OF F], of set] by simp
  also have "\<dots> = {''workloads'', ''custom-resources''}" by code_simp
  finally have ids: "''workloads'' \<in> section_id ` set F" by simp
  have "(''pods'', menu_entry ''Pods'' ''workloads'') \<in> set ALL_MENU_ITEMS" by code_simp
  then have "\<exists>d. (''pods'', d) \<in> set ALL_MENU_ITEMS \<and> \<not> defaultHidden d \<and> defaultSection d \<in> section_id ` set F"
    using ids by (force simp: menu_entry_def)
  with reconcile_items [OF F] F show ?thesis by auto
qed

theorem reconcile_stable_witness:
  "\<exists>F. reconcileLayout F [''nodes''] = (F, []) \<and> F = fst (reconcileLayout [] [''nodes''])"
proof -
  obtain F nx where F: "reconcileLayout [] [''nodes''] = (F, nx)" by fastforce
  from reconcile_stable [OF F] nothing_newly_hidden [OF F] F show ?thesis by simp
qed

text \<open>
  Palette shows hidden: the command palette reconciles the stored layout without the hidden items,
  so an item the user has hidden, and the sidebar no longer shows, is still listed by the palette.
\<close>
theorem palette_shows_hidden:
  "let e = removeItem 2 ''pods'' \<lparr>layout_value = None, excludedItems = []\<rparr> in
   ''pods'' \<notin> set (all_items (editor_layout e)) \<and> ''pods'' \<in> set (all_items (palette_layout (layout_value e)))"
proof -
  let ?e0 = "\<lparr>layout_value = None, excludedItems = []\<rparr>" and ?l = "removeItemFromLayout getDefaultLayout 2 ''pods''"
  let ?e = "removeItem 2 ''pods'' ?e0"
  have "''pods'' \<in> set (offered (editor_layout ?e))"
    using hide_and_restore_shown [OF pods_can_be_hidden(1,2) _ pods_can_be_hidden(3,4)] by simp
  then have hidden: "''pods'' \<notin> set (all_items (editor_layout ?e))" by (simp add: offered_spec)
  have "\<not> isDefaultLayout ?l []" by code_simp
  then have v: "layout_value ?e = Some ?l"
    by (simp add: removeItem_def updateLayout_def exclude_def editor_layout_def)
  obtain F nx where F: "reconcileLayout ?l [] = (F, nx)" by fastforce
  have "''workloads'' \<in> set (map section_id (base_layout ?l))" by code_simp
  then have ids: "''workloads'' \<in> section_id ` set F"
    using arg_cong [OF reconcile_spec(1) [OF F], of set] by simp
  have "(''pods'', menu_entry ''Pods'' ''workloads'') \<in> set ALL_MENU_ITEMS" by code_simp
  then have "\<exists>d. (''pods'', d) \<in> set ALL_MENU_ITEMS \<and> \<not> defaultHidden d \<and> defaultSection d \<in> section_id ` set F"
    using ids by (force simp: menu_entry_def)
  then have "''pods'' \<in> set (all_items F)" using reconcile_shows [OF F] by simp
  then show ?thesis using hidden v F by (simp add: palette_layout_def)
qed

section \<open>No item twice\<close>

text \<open>
  The operations of the editor's user interface: only offered items and groups are added.
\<close>

inductive editor_trans :: "editor \<Rightarrow> editor \<Rightarrow> bool" where
  Hide: "editor_trans e (removeItem k i e)"
| Restore: "i \<in> set (offered (editor_layout e)) \<Longrightarrow> editor_trans e (addItemToSection i sectionIdx e)"
| RestoreGroup: "(sid, t, xs) \<in> set (getAvailableGroups (editor_layout e)) \<Longrightarrow> editor_trans e (addGroup sid (map fst xs) e)"
| Relabel: "editor_trans e (renameItem k i l e)"
| NewSection: "editor_trans e (addCustomSection newId e)"
| DropSection: "deleteSection k e = Some e' \<Longrightarrow> editor_trans e e'"
| Retitle: "editor_trans e (renameSection k t e)"
| Reset: "editor_trans e (handleReset e)"
| Bin: "editor_trans e (drop_on_bin i e)"
| DropAvailable: "i \<in> set (offered (editor_layout e)) \<Longrightarrow> editor_trans e (drop_available i k n e)"

definition no_repeats :: "section_layout list \<Rightarrow> bool" where
  "no_repeats l \<longleftrightarrow> distinct (all_items l) \<and> has_fixed l"

definition editor_ok :: "editor \<Rightarrow> bool" where
  "editor_ok e = (case layout_value e of None \<Rightarrow> True | Some l \<Rightarrow> no_repeats l)"

lemma default_no_repeats: "no_repeats getDefaultLayout"
  unfolding no_repeats_def default_layout_eq by code_simp

lemma editor_layout_no_repeats:
  assumes "editor_ok e"
  shows "no_repeats (editor_layout e)"
proof (cases "layout_value e = None \<or> layout_value e = Some []")
  case True
  then have "editor_layout e = getDefaultLayout" by (auto simp: editor_layout_def)
  then show ?thesis using default_no_repeats by simp
next
  case False
  then obtain s ss where v: "layout_value e = Some (s # ss)" by (auto simp: neq_Nil_conv)
  obtain F nx where F: "reconcileLayout (s # ss) (excludedItems e) = (F, nx)" by fastforce
  have "no_repeats (s # ss)" using assms v by (simp add: editor_ok_def)
  moreover have "editor_layout e = F" by (simp add: editor_layout_def v F)
  ultimately show ?thesis using reconcile_shows [OF F] reconcile_fixed [OF F] by (simp add: no_repeats_def)
qed

lemma editor_ok_after [simp]:
  "no_repeats new \<Longrightarrow> editor_ok (updateLayout new e)"
  "editor_ok (exclude i e) = editor_ok e" "editor_ok (include_items is e) = editor_ok e"
  by (auto simp: editor_ok_def updateLayout_def exclude_def include_items_def)

lemma no_repeats_update:
  assumes "no_repeats l" "\<And>s. section_id (f s) = section_id s"
    and "\<And>s. s \<in> set l \<Longrightarrow> distinct (items s) \<Longrightarrow> distinct (items (f s))"
    and "\<And>s. s \<in> set l \<Longrightarrow> set (items (f s)) \<subseteq> set (items s) \<union> A" "A \<inter> set (all_items l) = {}"
  shows "no_repeats (update_at k f l)"
proof (cases "k < length l")
  case True
  then obtain us s vs where l: "l = us @ s # vs" and u: "update_at k f l = us @ f s # vs"
    by (rule update_at_split [where f = f])
  from assms(3) [of s] assms(4) [of s] assms(1,2,5) show ?thesis
    unfolding u unfolding l no_repeats_def has_fixed_def by auto
next
  case False
  then show ?thesis using assms(1) by (simp add: update_at_def)
qed

lemma offered_distinct: "distinct (offered l)"
  using available_spec [of l] by (simp add: offered_def)

lemma group_offered: "(sid, t, xs) \<in> set (getAvailableGroups l) \<Longrightarrow> set (map fst xs) \<subseteq> set (offered l) \<and> distinct (map fst xs)"
proof -
  assume "(sid, t, xs) \<in> set (getAvailableGroups l)"
  then obtain us vs where "getAvailableGroups l = us @ (sid, t, xs) # vs" by (meson split_list)
  then show ?thesis using offered_distinct [of l] by (auto simp: offered_def)
qed

lemma take_insert_drop: "set (take n xs @ x # drop n xs) = insert x (set xs)"
  by (metis Un_insert_right append_take_drop_id list.simps(15) set_append)

lemma distinct_insert_at: "distinct xs \<Longrightarrow> x \<notin> set xs \<Longrightarrow> distinct (take n xs @ x # drop n xs)"
  using set_take_disj_set_drop_if_distinct [of xs n n] by (auto dest: in_set_takeD in_set_dropD)

lemma section_distinct: "no_repeats l \<Longrightarrow> s \<in> set l \<Longrightarrow> distinct (items s)"
  by (auto simp: no_repeats_def all_items_def distinct_concat_iff)

lemma drop_section_no_repeats:
  "no_repeats l \<Longrightarrow> deleteSectionFromLayout l k = Some l' \<Longrightarrow> no_repeats l'"
proof -
  assume l: "no_repeats l" and d: "deleteSectionFromLayout l k = Some l'"
  show ?thesis
  proof (cases "section_id (l ! k) \<in> set FIXED_SECTION_IDS")
    case False
    have k: "k < length l" using d by (simp add: deleteSectionFromLayout_def split: if_splits)
    then have l': "l' = take k l @ drop (Suc k) l" using d False by (simp add: deleteSectionFromLayout_def)
    have split: "l = take k l @ l ! k # drop (Suc k) l" using k by (rule id_take_nth_drop)
    have "distinct (all_items (take k l @ l ! k # drop (Suc k) l))" "has_fixed (take k l @ l ! k # drop (Suc k) l)"
      using l split by (simp_all add: no_repeats_def)
    then show ?thesis using False unfolding l' no_repeats_def by (auto simp: has_fixed_def FIXED_SECTION_IDS_def)
  qed (use l d in \<open>simp add: deleteSectionFromLayout_def split: if_splits\<close>)
qed

lemma group_no_repeats:
  assumes l: "no_repeats l" and xs: "distinct xs" "set xs \<inter> set (all_items l) = {}"
  shows "no_repeats (addGroupToLayout l sid xs)"
proof (cases "find_index (\<lambda>s. section_id s = sid) l")
  case None
  with assms show ?thesis
    by (auto simp: addGroupToLayout_def no_repeats_def has_fixed_def menu_section_def)
next
  case (Some k)
  have "no_repeats (update_at k (\<lambda>s. s\<lparr>items := items s @ xs\<rparr>) l)"
    using l by (rule no_repeats_update [where A = "set xs"]) (use xs in \<open>auto simp: set_all_items\<close>)
  with Some show ?thesis by (simp add: addGroupToLayout_def)
qed

lemma add_no_repeats:
  assumes "no_repeats l" "i \<notin> set (all_items l)"
  shows "no_repeats (addItemToLayout l i k)"
proof -
  have "no_repeats (update_at k (\<lambda>s. s\<lparr>items := items s @ [i]\<rparr>) l)" for k
    using assms(1) by (rule no_repeats_update [where A = "{i}"]) (use assms(2) in \<open>auto simp: set_all_items\<close>)
  with assms(1) show ?thesis by (auto simp: addItemToLayout_def split: option.split)
qed

lemma filter_no_repeats:
  assumes "no_repeats l" "\<And>s. section_id (f s) = section_id s" "\<And>s. items (f s) = filter (P s) (items s)"
  shows "no_repeats (update_at k f l)"
  using assms(1,2) by (rule no_repeats_update [where A = "{}"]) (auto simp: assms(3))

lemma editor_trans_ok: "editor_trans e e' \<Longrightarrow> editor_ok e \<Longrightarrow> editor_ok e'"
proof (induction rule: editor_trans.induct)
  case (Hide e k i)
  then show ?case using editor_layout_no_repeats [of e]
    by (simp add: removeItem_def removeItemFromLayout_def filter_no_repeats [where P = "\<lambda>s j. j \<noteq> i"])
next
  case (Restore i e sectionIdx)
  then show ?case using editor_layout_no_repeats [of e]
    by (simp add: addItemToSection_def Let_def add_no_repeats offered_spec)
next
  case (RestoreGroup sid t xs e)
  have "no_repeats (addGroupToLayout (editor_layout e) sid (map fst xs))"
    using editor_layout_no_repeats [of e] RestoreGroup group_offered [OF RestoreGroup(1)]
    by (intro group_no_repeats) (auto simp: offered_spec)
  then show ?case using RestoreGroup by (simp add: addGroup_def)
next
  case (Relabel e k i l)
  then show ?case using editor_layout_no_repeats [of e]
    by (simp add: renameItem_def renameItemInLayout_def filter_no_repeats [where P = "\<lambda>s j. True"] Let_def)
next
  case (NewSection e newId)
  then show ?case using editor_layout_no_repeats [of e]
    by (simp add: addCustomSection_def no_repeats_def has_fixed_def menu_section_def)
next
  case (DropSection k e e')
  then show ?case using editor_layout_no_repeats [of e] drop_section_no_repeats [of "editor_layout e" k]
    by (auto simp: deleteSection_def)
next
  case (Retitle e k t)
  then show ?case using editor_layout_no_repeats [of e]
    by (simp add: renameSection_def renameSectionInLayout_def filter_no_repeats [where P = "\<lambda>s j. True"])
next
  case (Reset e)
  then show ?case by (simp add: handleReset_def editor_ok_def)
next
  case (Bin e i)
  then show ?case using editor_layout_no_repeats [of e]
    by (auto simp: drop_on_bin_def filter_no_repeats [where P = "\<lambda>s j. j \<noteq> i"] split: option.split)
next
  case (DropAvailable i e k n)
  have "no_repeats (update_at k (\<lambda>s. s\<lparr>items := take n (items s) @ i # drop n (items s)\<rparr>) (editor_layout e))"
    using editor_layout_no_repeats [of e] DropAvailable
    by (intro no_repeats_update [where A = "{i}"])
      (auto simp: take_insert_drop offered_spec set_all_items distinct_insert_at simp del: distinct_append set_append)
  then show ?case using DropAvailable by (simp add: drop_available_def)
qed

interpretation sidebar: transition_system "\<lambda>e. layout_value e = None" editor_trans editor_ok
  by unfold_locales (simp add: editor_ok_def, rule editor_trans_ok)

text \<open>
  Sidebar no repeats: whatever the user does in the editor, starting from the default layout, the
  sidebar never shows an item twice and never loses the section of custom resources.
\<close>
theorem sidebar_no_repeats:
  assumes "editor_trans\<^sup>*\<^sup>* \<lparr>layout_value = None, excludedItems = ex\<rparr> e"
  shows "distinct (all_items (editor_layout e)) \<and> ''custom-resources'' \<in> set (map section_id (editor_layout e))"
  using editor_layout_no_repeats [OF sidebar.reachable_inv [OF _ assms]]
  by (simp add: no_repeats_def has_fixed_ids)

theorem sidebar_no_repeats_witness:
  "distinct (all_items (editor_layout (removeItem 2 ''pods'' \<lparr>layout_value = None, excludedItems = []\<rparr>)))"
  using sidebar_no_repeats [of "[]" "removeItem 2 ''pods'' \<lparr>layout_value = None, excludedItems = []\<rparr>"] editor_trans.Hide
  by blast

end
