(* ===== verification/SidebarSearch.thy ===== *)
theory SidebarSearch
  imports JsMap JsStrings
begin

text \<open>
  The search field of the sidebar (\<open>components/layout/sidebarSearch.ts\<close>) and the names a
  navigation link uses (\<open>components/layout/navUtils.ts\<close>). An item of a standard group is its id
  and label; a custom resource has an optional kind and plural.
\<close>

section \<open>Search\<close>

definition matchesSidebarSearch :: "string \<Rightarrow> string option list \<Rightarrow> bool" where
  "matchesSidebarSearch query values =
     (let normalizedQuery = lower (trim query) in
      normalizedQuery = '''' \<or>
      list_ex (\<lambda>v. case v of Some s \<Rightarrow> str_includes (lower s) normalizedQuery | None \<Rightarrow> False) values)"

record search_item =
  item_id :: string
  item_label :: string

record search_group =
  group_id :: string
  group_title :: string
  group_items :: "search_item list"

definition filterSidebarGroups :: "search_group list \<Rightarrow> string \<Rightarrow> search_group list" where
  "filterSidebarGroups groups query =
     (if trim query = '''' then groups
      else concat (map (\<lambda>group.
        if matchesSidebarSearch query [Some (group_title group)] then [group]
        else (let matching = filter (\<lambda>i. matchesSidebarSearch query [Some (item_label i), Some (item_id i)]) (group_items group)
              in if matching \<noteq> [] then [group\<lparr>group_items := matching\<rparr>] else [])) groups))"

record crd_item =
  crd_kind :: "string option"
  crd_plural :: "string option"

definition filterCRDGroups :: "(string, crd_item list) js_map \<Rightarrow> string \<Rightarrow> bool \<Rightarrow> (string, crd_item list) js_map" where
  "filterCRDGroups groups query includeAll =
     (if trim query = '''' \<or> includeAll then groups
      else concat (map (\<lambda>(groupName, resources).
        if matchesSidebarSearch query [Some groupName] then [(groupName, resources)]
        else (let matching = filter (\<lambda>r. matchesSidebarSearch query [crd_kind r, crd_plural r]) resources
              in if matching \<noteq> [] then [(groupName, matching)] else [])) groups))"

section \<open>Navigation links\<close>

definition kindToViewName :: "(string, string) js_map" where
  "kindToViewName = [
     (''pod'', ''pods''), (''deployment'', ''deployments''), (''statefulset'', ''statefulsets''),
     (''daemonset'', ''daemonsets''), (''replicaset'', ''replicasets''), (''job'', ''jobs''),
     (''cronjob'', ''cronjobs''), (''configmap'', ''configmaps''), (''secret'', ''secrets''),
     (''service'', ''services''), (''ingress'', ''ingresses''), (''node'', ''nodes''),
     (''namespace'', ''namespaces''), (''event'', ''events''),
     (''persistentvolumeclaim'', ''pvcs''), (''pvc'', ''pvcs''),
     (''persistentvolume'', ''pvs''), (''pv'', ''pvs''),
     (''storageclass'', ''storageclasses''), (''serviceaccount'', ''serviceaccounts''),
     (''role'', ''roles''), (''clusterrole'', ''clusterroles''),
     (''rolebinding'', ''rolebindings''), (''clusterrolebinding'', ''clusterrolebindings''),
     (''horizontalpodautoscaler'', ''hpas''), (''hpa'', ''hpas''),
     (''poddisruptionbudget'', ''pdbs''), (''pdb'', ''pdbs''),
     (''networkpolicy'', ''networkpolicies''),
     (''endpoint'', ''endpoints''), (''endpointslice'', ''endpointslices''),
     (''ingressclass'', ''ingressclasses''), (''priorityclass'', ''priorityclasses''),
     (''resourcequota'', ''resourcequotas''), (''limitrange'', ''limitranges''),
     (''lease'', ''leases''), (''csidriver'', ''csidrivers''), (''csinode'', ''csinodes'')]"

text \<open>Where fewer than five parts are there, the fifth is \<open>undefined\<close>.\<close>

record cr_kind =
  cr_group :: string
  cr_version :: string
  cr_resource :: string
  cr_display :: string

definition parseCrKind :: "string \<Rightarrow> cr_kind option" where
  "parseCrKind kind =
     (if kind = '''' \<or> \<not> starts_with kind ''cr:'' then None
      else case split_on CHR '':'' kind of
             _ # grp # version # resource # rest \<Rightarrow>
               Some \<lparr>cr_group = grp, cr_version = version, cr_resource = resource,
                     cr_display = (case rest of d # _ \<Rightarrow> if d \<noteq> '''' then d else resource | [] \<Rightarrow> resource)\<rparr>
           | _ \<Rightarrow> None)"

section \<open>What a search shows\<close>

definition listed :: "search_group list \<Rightarrow> (string \<times> string \<times> search_item) list" where
  "listed groups = concat (map (\<lambda>g. map (\<lambda>i. (group_id g, group_title g, i)) (group_items g)) groups)"

definition found :: "string \<Rightarrow> string \<times> string \<times> search_item \<Rightarrow> bool" where
  "found query x =
     (case x of (gid, t, i) \<Rightarrow>
        matchesSidebarSearch query [Some t] \<or> matchesSidebarSearch query [Some (item_label i), Some (item_id i)])"

lemma lower_Nil_iff [simp]: "lower s = [] \<longleftrightarrow> s = []"
  by (simp add: lower_def)

lemma listed_Cons: "listed (g # gs) = map (\<lambda>i. (group_id g, group_title g, i)) (group_items g) @ listed gs"
  by (simp add: listed_def)

lemma listed_append: "listed (gs @ hs) = listed gs @ listed hs"
  by (simp add: listed_def)

lemma listed_Nil: "listed [] = []"
  by (simp add: listed_def)

lemma filter_group:
  "trim query \<noteq> [] \<Longrightarrow>
   listed (filterSidebarGroups (g # gs) query) =
     filter (found query) (map (\<lambda>i. (group_id g, group_title g, i)) (group_items g)) @
     listed (filterSidebarGroups gs query)"
  by (auto simp: filterSidebarGroups_def listed_append listed_Cons listed_Nil found_def filter_map comp_def Let_def)

text \<open>
  Sidebar search exact: the items the sidebar lists for a query are, in order, those of the groups
  whose title matches and those whose own label or id matches; a blank query lists all. A group is
  listed without items only if its title matches.
\<close>
theorem sidebar_search_exact:
  "listed (filterSidebarGroups groups query) = filter (found query) (listed groups) \<and>
   list_all (\<lambda>g. group_items g \<noteq> [] \<or> matchesSidebarSearch query [Some (group_title g)]) (filterSidebarGroups groups query)"
proof (cases "trim query = []")
  case True
  then have "matchesSidebarSearch query vs" for vs by (simp add: matchesSidebarSearch_def)
  with True show ?thesis by (simp add: filterSidebarGroups_def found_def case_prod_unfold list_all_iff)
next
  case False
  then have "listed (filterSidebarGroups groups query) = filter (found query) (listed groups)"
    by (induction groups) (simp_all add: filter_group listed_Cons, simp add: filterSidebarGroups_def listed_def)
  with False show ?thesis by (auto simp: filterSidebarGroups_def list_all_iff Let_def)
qed

text \<open>
  Custom resource link: the name of a custom resource in a link, written from its group, version and
  resource (none holding a colon), is read back as them; without a display name the resource stands
  for it.
\<close>
theorem custom_resource_link:
  assumes "CHR '':'' \<notin> set g" "CHR '':'' \<notin> set v" "CHR '':'' \<notin> set r" "CHR '':'' \<notin> set k"
  shows "parseCrKind (join '':'' [''cr'', g, v, r, k]) =
      Some \<lparr>cr_group = g, cr_version = v, cr_resource = r, cr_display = (if k \<noteq> '''' then k else r)\<rparr> \<and>
    parseCrKind (join '':'' [''cr'', g, v, r]) =
      Some \<lparr>cr_group = g, cr_version = v, cr_resource = r, cr_display = r\<rparr> \<and>
    parseCrKind (join '':'' [''cr'', g, v]) = None"
proof -
  have "split_on CHR '':'' (join '':'' (''cr'' # ss)) = ''cr'' # ss" if "\<forall>s \<in> set ss. CHR '':'' \<notin> set s" for ss
    using that by (intro split_on_join) auto
  moreover have "starts_with (join '':'' (''cr'' # s # ss)) ''cr:''" for s ss
    by (simp add: join_Cons)
  moreover have "join '':'' (''cr'' # s # ss) \<noteq> []" for s ss
    by (simp add: join_Cons)
  ultimately show ?thesis using assms
    by (auto simp: parseCrKind_def simp del: join.simps)
qed

theorem custom_resource_link_witness:
  "parseCrKind ''cr:apps.io:v1:widgets:Widget'' =
     Some \<lparr>cr_group = ''apps.io'', cr_version = ''v1'', cr_resource = ''widgets'', cr_display = ''Widget''\<rparr>"
  using custom_resource_link [of "''apps.io''" "''v1''" "''widgets''" "''Widget''"] by simp

end
