(* ===== verification/Snapshots.thy ===== *)
theory Snapshots
  imports NamespaceQuery JsMap
begin

text \<open>
  The cache of recently shown resource lists (\<open>utils/resourceSnapshots.ts\<close>): a \<open>Map\<close> whose
  order of insertion is the order of use, at most eight entries and 16 MiB. \<open>encoded\<close> is the
  encoded size of an item, as in \<open>NamespaceQuery\<close>; \<open>t\<close> is the clock, which does not move
  during one call.
\<close>

definition MAX_BYTES :: nat where "MAX_BYTES = 16 * 1024 * 1024"
definition TTL_MS :: int where "TTL_MS = 30000"

record 'v snapshot_entry =
  snap_map :: "(string, 'v) js_map"
  snap_bytes :: nat
  expires :: int

type_synonym 'v snapshots = "(string, 'v snapshot_entry) js_map"

definition readResourceSnapshot :: "int \<Rightarrow> string \<Rightarrow> 'v snapshots \<Rightarrow> (string, 'v) js_map option \<times> 'v snapshots" where
  "readResourceSnapshot t key snapshots =
     (case map_get snapshots key of
        None \<Rightarrow> (None, snapshots)
      | Some entry \<Rightarrow>
          if expires entry \<le> t then (None, map_delete key snapshots)
          else (Some (snap_map entry), map_set key entry (map_delete key snapshots)))"

text \<open>
  The loop that removes the oldest entries; \<open>None\<close> where the code reads the size of an entry of an
  empty map, which throws.
\<close>

fun evict :: "int \<Rightarrow> 'v snapshots \<Rightarrow> 'v snapshots option" where
  "evict tot snapshots =
     (if 8 < length snapshots \<or> int MAX_BYTES < tot
      then case snapshots of
             [] \<Rightarrow> None
           | (oldest, entry) # rest \<Rightarrow> evict (tot - int (snap_bytes entry)) rest
      else Some snapshots)"

definition drop_expired :: "int \<Rightarrow> 'v snapshots \<Rightarrow> 'v snapshots" where
  "drop_expired t snapshots = filter (\<lambda>(key, entry). t < expires entry) snapshots"

definition total_bytes :: "'v snapshots \<Rightarrow> int" where
  "total_bytes snapshots = sum_list (map (\<lambda>(key, entry). int (snap_bytes entry)) snapshots)"

definition writeResourceSnapshot ::
  "('v \<Rightarrow> nat) \<Rightarrow> int \<Rightarrow> string \<Rightarrow> (string, 'v) js_map \<Rightarrow> 'v snapshots \<Rightarrow> 'v snapshots option" where
  "writeResourceSnapshot encoded t key m snapshots =
     (let deleted = map_delete key snapshots;
          size = bytes (observeNamespaceList encoded (map snd m) 0 t)
      in if MAX_BYTES < size \<or> 10000 < length m then Some deleted
         else let added = map_set key \<lparr>snap_map = m, snap_bytes = size, expires = t + TTL_MS\<rparr> deleted;
                  live = drop_expired t added
              in evict (total_bytes live) live)"

definition deleteResourceSnapshot :: "string \<Rightarrow> 'v snapshots \<Rightarrow> 'v snapshots" where
  "deleteResourceSnapshot key snapshots = map_delete key snapshots"

section \<open>The bounds\<close>

definition within_bounds :: "'v snapshots \<Rightarrow> bool" where
  "within_bounds s \<longleftrightarrow> map_wf s \<and> length s \<le> 8 \<and> total_bytes s \<le> int MAX_BYTES"

declare evict.simps [simp del]

lemma evict_Nil: "tot \<le> int MAX_BYTES \<Longrightarrow> evict tot [] = Some []"
  by (simp add: evict.simps [of tot "[]"])

lemma evict_Cons:
  "evict tot (kv # s) =
     (if 8 < Suc (length s) \<or> int MAX_BYTES < tot then evict (tot - int (snap_bytes (snd kv))) s else Some (kv # s))"
  by (subst evict.simps) (simp split: prod.split)

lemma total_bytes_Cons [simp]: "total_bytes (kv # s) = int (snap_bytes (snd kv)) + total_bytes s"
  by (simp add: total_bytes_def case_prod_unfold)

lemma total_bytes_Nil [simp]: "total_bytes [] = 0"
  by (simp add: total_bytes_def)

lemma total_bytes_append [simp]: "total_bytes (s @ s') = total_bytes s + total_bytes s'"
  by (simp add: total_bytes_def)

lemma total_bytes_nonneg: "0 \<le> total_bytes s"
  by (induction s) auto

lemma total_bytes_filter: "total_bytes (filter P s) \<le> total_bytes s"
  by (induction s) auto

text \<open>Evicting keeps a suffix; an entry that fits is never the last one to go.\<close>

lemma evict_suffix:
  assumes "map_wf s"
  shows "\<exists>s'. evict (total_bytes s) s = Some s' \<and> suffix s' s \<and> within_bounds s'"
  using assms
proof (induction s)
  case Nil
  then show ?case by (simp add: evict_Nil within_bounds_def)
next
  case (Cons kv s)
  then obtain s' where "evict (total_bytes s) s = Some s'" "suffix s' s" "within_bounds s'" by auto
  then show ?case using Cons.prems by (auto simp: evict_Cons within_bounds_def suffix_Cons)
qed

lemma evict_keeps_last:
  "int (snap_bytes e) \<le> int MAX_BYTES \<Longrightarrow> evict (total_bytes (s @ [(k, e)])) (s @ [(k, e)]) = Some s' \<Longrightarrow>
   \<exists>s''. s' = s'' @ [(k, e)] \<and> suffix s'' s"
proof (induction s)
  case Nil
  then show ?case by (simp add: evict_Cons)
next
  case (Cons kv s)
  then show ?case by (auto simp: evict_Cons suffix_Cons split: if_splits)
qed

lemma map_wf_filter: "map_wf s \<Longrightarrow> map_wf (filter P s)"
  by (simp add: distinct_map_filter)

lemma delete_keys: "map_keys (map_delete k s) = filter (\<lambda>k'. k' \<noteq> k) (map_keys s)"
  by (induction s) auto

lemma delete_length: "length (map_delete k s) \<le> length s"
  by (simp add: AList.delete_eq)

lemma delete_bytes: "total_bytes (map_delete k s) \<le> total_bytes s"
  by (simp add: AList.delete_eq total_bytes_filter)

lemma delete_within: "within_bounds s \<Longrightarrow> within_bounds (map_delete k s)"
  using delete_length [of k s] delete_bytes [of k s] js.wf_del [of s k] by (auto simp: within_bounds_def)

lemma move_to_end:
  "map_wf s \<Longrightarrow> map_get s k = Some e \<Longrightarrow>
   length (map_delete k s) + 1 = length s \<and> total_bytes (map_delete k s) + int (snap_bytes e) = total_bytes s"
proof (induction s)
  case (Cons kv s)
  obtain k' e' where kv: "kv = (k', e')" by (cases kv)
  have "map_delete k s = s" if "k \<notin> fst ` set s" using that by (simp add: delete_id)
  with Cons kv show ?case by (cases "k' = k") auto
qed simp

lemma set_deleted: "map_set k e (map_delete k s) = map_delete k s @ [(k, e)]"
  by (intro update_fresh) (auto simp: AList.delete_eq)

section \<open>Operations\<close>

datatype 'v snapshot_op = ReadSnapshot int string | WriteSnapshot int string "(string, 'v) js_map" | DeleteSnapshot string

definition snapshot_step :: "('v \<Rightarrow> nat) \<Rightarrow> 'v snapshots option \<Rightarrow> 'v snapshot_op \<Rightarrow> 'v snapshots option" where
  "snapshot_step encoded s op =
     (case s of
        None \<Rightarrow> None
      | Some c \<Rightarrow>
          (case op of
             ReadSnapshot t key \<Rightarrow> Some (snd (readResourceSnapshot t key c))
           | WriteSnapshot t key m \<Rightarrow> writeResourceSnapshot encoded t key m c
           | DeleteSnapshot key \<Rightarrow> Some (deleteResourceSnapshot key c)))"

definition snapshots_ok :: "'v snapshots option \<Rightarrow> bool" where
  "snapshots_ok s = (case s of Some c \<Rightarrow> within_bounds c | None \<Rightarrow> False)"

lemma read_within: "within_bounds c \<Longrightarrow> within_bounds (snd (readResourceSnapshot t key c))"
proof -
  assume c: "within_bounds c"
  show ?thesis
  proof (cases "map_get c key")
    case (Some e)
    have "within_bounds (map_delete key c @ [(key, e)])"
      using move_to_end [of c key e] c Some js.wf_del [of c key]
      by (auto simp: within_bounds_def delete_keys)
    with Some delete_within [OF c] show ?thesis by (simp add: readResourceSnapshot_def set_deleted)
  qed (simp add: readResourceSnapshot_def c)
qed

lemma write_within:
  assumes "within_bounds c"
  shows "\<exists>c'. writeResourceSnapshot encoded t key m c = Some c' \<and> within_bounds c'"
proof -
  let ?size = "bytes (observeNamespaceList encoded (map snd m) 0 t)"
  let ?added = "map_set key \<lparr>snap_map = m, snap_bytes = ?size, expires = t + TTL_MS\<rparr> (map_delete key c)"
  have "map_wf (drop_expired t ?added)"
    using assms unfolding drop_expired_def
    by (intro map_wf_filter js.wf_put js.wf_del) (simp add: within_bounds_def)
  from evict_suffix [OF this] delete_within [OF assms] show ?thesis
    by (auto simp: writeResourceSnapshot_def Let_def)
qed

interpretation snapshots: machine "snapshot_step encoded" snapshots_ok
proof
  fix s :: "'a snapshots option" and op
  assume "snapshots_ok s"
  then obtain c where s: "s = Some c" and c: "within_bounds c" by (auto simp: snapshots_ok_def split: option.splits)
  show "snapshots_ok (snapshot_step encoded s op)"
  proof (cases op)
    case (WriteSnapshot t key m)
    with write_within [OF c, of encoded t key m] s show ?thesis by (auto simp: snapshot_step_def snapshots_ok_def)
  qed (use s c read_within delete_within in \<open>simp_all add: snapshot_step_def snapshots_ok_def deleteResourceSnapshot_def\<close>)
qed

text \<open>
  C37: whatever is read, written and deleted, no operation fails, and the cache never
  holds more than eight lists or more than 16 MiB by its own estimate, nor two for one key.
\<close>
theorem snapshots_bounded:
  "\<exists>c. foldl (snapshot_step encoded) (Some []) ops = Some c \<and>
     length c \<le> 8 \<and> total_bytes c \<le> int MAX_BYTES \<and> distinct (map fst c)"
  using snapshots.run_good [of "Some []" encoded ops]
  by (auto simp: snapshots_ok_def within_bounds_def split: option.splits)

text \<open>
  Snapshot read back: a list that is small enough can be read back under its key until it expires,
  whatever the cache held, and writing it changes no other list: each is kept or dropped.
\<close>
theorem snapshot_read_back:
  assumes "bytes (observeNamespaceList encoded (map snd m) 0 t) \<le> MAX_BYTES" "length m \<le> 10000"
    and "distinct (map fst c)" "writeResourceSnapshot encoded t key m c = Some c'" "t' < t + TTL_MS"
  shows "fst (readResourceSnapshot t' key c') = Some m \<and>
    (\<forall>k. k \<noteq> key \<longrightarrow> map_get c' k = None \<or> map_get c' k = map_get c k)"
proof -
  let ?e = "\<lparr>snap_map = m, snap_bytes = bytes (observeNamespaceList encoded (map snd m) 0 t), expires = t + TTL_MS\<rparr>"
  let ?live = "drop_expired t (map_delete key c)"
  have "drop_expired t (map_set key ?e (map_delete key c)) = ?live @ [(key, ?e)]"
    by (simp add: set_deleted drop_expired_def TTL_MS_def)
  then have "evict (total_bytes (?live @ [(key, ?e)])) (?live @ [(key, ?e)]) = Some c'"
    using assms(1,2,4) by (simp add: writeResourceSnapshot_def Let_def)
  from evict_keeps_last [OF _ this] assms(1)
  obtain s where c': "c' = s @ [(key, ?e)]" and s: "suffix s ?live" by auto
  have sub: "set s \<subseteq> set c - {key} \<times> UNIV"
    using set_mono_suffix [OF s] by (auto simp: drop_expired_def AList.delete_eq)
  then have "map_get s key = None" by (auto simp: map_of_eq_None_iff)
  then have "fst (readResourceSnapshot t' key c') = Some m"
    using assms(5) by (simp add: readResourceSnapshot_def c' map_add_def)
  moreover have "map_get c' k = None \<or> map_get c' k = map_get c k" if "k \<noteq> key" for k
  proof (cases "map_get c' k")
    case (Some e)
    with that have "map_get s k = Some e" by (simp add: c' map_add_def split: option.splits)
    then have "(k, e) \<in> set c" using sub by (auto dest: map_of_SomeD)
    with assms(3) Some show ?thesis by simp
  qed simp
  ultimately show ?thesis by blast
qed

theorem snapshot_read_back_witness:
  "\<exists>c'. writeResourceSnapshot (\<lambda>_. 5) 0 ''pods'' [(''u1'', 7 :: nat)] [] = Some c' \<and>
     fst (readResourceSnapshot 29999 ''pods'' c') = Some [(''u1'', 7)]"
proof -
  have size: "bytes (observeNamespaceList (\<lambda>_. 5) (map snd [(''u1'', 7 :: nat)]) 0 0) \<le> MAX_BYTES"
    by (simp add: observeNamespaceList_def sample_size_def MAX_BYTES_def)
  obtain c' where c': "writeResourceSnapshot (\<lambda>_. 5) 0 ''pods'' [(''u1'', 7 :: nat)] [] = Some c'"
    using write_within [of "[]" "\<lambda>_. 5" 0 "''pods''" "[(''u1'', 7 :: nat)]"] by (auto simp: within_bounds_def)
  from snapshot_read_back [OF size _ _ c', of 29999] c' show ?thesis by (simp add: TTL_MS_def)
qed

end
