(* ===== verification/Connection.thy ===== *)
theory Connection
  imports JsMap JsStrings
begin

text \<open>
  Streaming and its fallback to polling: the window of recent watch failures
  (\<open>utils/streamingCompatibility.ts\<close>) and the handlers of watcher errors and status changes
  (\<open>context/K8sContext.tsx\<close>). Times are milliseconds. A watch is identified by the pair of
  resource type and namespace, of which the code's key is the JSON text. Effects outside the
  state (storage, backend calls, notifications, timers) are listed in the order they are started.
\<close>

section \<open>Failure windows\<close>

datatype connection_mode = Streaming | Polling | Manual

definition WATCH_FAILURE_WINDOW_MS :: int where "WATCH_FAILURE_WINDOW_MS = 60000"
definition WATCH_FAILURE_THRESHOLD :: nat where "WATCH_FAILURE_THRESHOLD = 5"

definition restoreConnectionMode :: "string \<Rightarrow> (string \<Rightarrow> string option) \<Rightarrow> connection_mode" where
  "restoreConnectionMode ctx getItem =
     (let mode = (if ctx = '''' then None else getItem (''kubikles_connection_mode_'' @ ctx)) in
      if mode = Some ''polling'' then Polling else if mode = Some ''manual'' then Manual else Streaming)"

text \<open>\<open>first.*second\<close> of the regular expression: both on one line.\<close>

fun then_on_line :: "string \<Rightarrow> string \<Rightarrow> string \<Rightarrow> bool" where
  "then_on_line first second [] = False"
| "then_on_line first second (c # cs) =
     (prefix first (c # cs) \<and>
        str_includes (takeWhile (\<lambda>c. \<not> is_newline c) (drop (length first) (c # cs))) second
      \<or> then_on_line first second cs)"

definition isStreamTransportError :: "string \<Rightarrow> bool" where
  "isStreamTransportError error =
     (let e = lower error in
      list_ex (str_includes e)
        [''watch'', ''stream'', ''upgrade'', ''method not allowed'', ''status code 405'', ''unexpected eof'',
         ''context deadline exceeded'', ''awaiting headers'', ''connection reset'']
      \<or> then_on_line ''http2'' ''closed'' e \<or> then_on_line ''proxy'' ''closed'' e)"

record watch_closure =
  premature :: bool
  receivedAny :: bool
  openDurationMillis :: "int option"

definition isImmediateWatchClosure :: "watch_closure \<Rightarrow> bool" where
  "isImmediateWatchClosure event =
     (premature event \<and> \<not> receivedAny event \<and>
      (case openDurationMillis event of Some d \<Rightarrow> d | None \<Rightarrow> 0) < 5000)"

record 'k failure_window =
  failures :: "('k, int list) js_map"
  connectedAt :: "('k, int) js_map"

definition new_window :: "'k failure_window" where
  "new_window = \<lparr>failures = [], connectedAt = []\<rparr>"

definition clearHealthyHistory :: "'k \<Rightarrow> int \<Rightarrow> 'k failure_window \<Rightarrow> 'k failure_window" where
  "clearHealthyHistory key t w =
     (case map_get (connectedAt w) key of
        Some opened \<Rightarrow>
          if WATCH_FAILURE_WINDOW_MS \<le> t - opened then w\<lparr>failures := map_delete key (failures w)\<rparr> else w
      | None \<Rightarrow> w)"

definition window_status :: "'k \<Rightarrow> string \<Rightarrow> int \<Rightarrow> 'k failure_window \<Rightarrow> 'k failure_window" where
  "window_status key st t w =
     (if st = ''connected'' then w\<lparr>connectedAt := map_set key t (connectedAt w)\<rparr>
      else let w1 = clearHealthyHistory key t w;
               w2 = w1\<lparr>connectedAt := map_delete key (connectedAt w1)\<rparr>
           in if st = ''stopped'' then w2\<lparr>failures := map_delete key (failures w2)\<rparr> else w2)"

definition window_fail :: "'k \<Rightarrow> int \<Rightarrow> 'k failure_window \<Rightarrow> 'k failure_window \<times> bool" where
  "window_fail key t w =
     (let w1 = clearHealthyHistory key t w;
          w2 = w1\<lparr>connectedAt := map_delete key (connectedAt w1)\<rparr>;
          before = (case map_get (failures w2) key of Some ts \<Rightarrow> ts | None \<Rightarrow> []);
          recent = filter (\<lambda>time. t - time < WATCH_FAILURE_WINDOW_MS) before @ [t]
      in (w2\<lparr>failures := map_set key recent (failures w2)\<rparr>, WATCH_FAILURE_THRESHOLD \<le> length recent))"

section \<open>Handlers\<close>

datatype effect =
    PersistMode string connection_mode
  | PersistInterval string int
  | StopAllWatchers
  | Notify
  | ShowConnectionError string
  | ClearConnectionError
  | ScheduleReconcile

type_synonym watch_key = "string \<times> string"

record connection =
  current_ctx :: string
  conn_mode :: connection_mode
  window :: "watch_key failure_window"
  interval :: int
  prev_status :: "(string, string) js_map"

definition setConnectionMode :: "connection_mode \<Rightarrow> connection \<Rightarrow> connection \<times> effect list" where
  "setConnectionMode mode s =
     (s\<lparr>conn_mode := mode, window := new_window\<rparr>,
      (if current_ctx s \<noteq> '''' then [PersistMode (current_ctx s) mode] else []) @
      (if mode \<noteq> Streaming then [StopAllWatchers] else []))"

definition setPollingInterval :: "int \<Rightarrow> connection \<Rightarrow> connection \<times> effect list" where
  "setPollingInterval i s =
     (if i \<notin> set [5000, 10000, 30000, 60000] then (s, [])
      else (s\<lparr>interval := i\<rparr>, if current_ctx s \<noteq> '''' then [PersistInterval (current_ctx s) (i div 1000)] else []))"

record watcher_error =
  err_type :: string
  err_namespace :: "string option"
  err_text :: string
  err_context :: "string option"
  err_closure :: watch_closure

definition truthy_str :: "string option \<Rightarrow> bool" where
  "truthy_str v = (v \<noteq> None \<and> v \<noteq> Some '''')"

definition stale :: "string option \<Rightarrow> connection \<Rightarrow> bool" where
  "stale ctx s = (truthy_str ctx \<and> ctx \<noteq> Some (current_ctx s))"

definition watch_key :: "string \<Rightarrow> string option \<Rightarrow> watch_key" where
  "watch_key resourceType namespace = (resourceType, case namespace of Some n \<Rightarrow> n | None \<Rightarrow> '''')"

definition isAuthError :: "string \<Rightarrow> bool" where
  "isAuthError error =
     list_ex (str_includes error)
       [''executable aws not found'', ''executable az not found'', ''executable gcloud not found'',
        ''aws: executable file not found'', ''az: executable file not found'',
        ''gcloud: executable file not found'', ''credential plugin'', ''getting credentials'']"

definition fall_back :: "connection \<Rightarrow> connection \<times> effect list" where
  "fall_back s =
     (let (s1, e1) = setPollingInterval 10000 s; (s2, e2) = setConnectionMode Polling s1 in (s2, e1 @ e2 @ [Notify]))"

definition handleWatcherError :: "int \<Rightarrow> watcher_error \<Rightarrow> connection \<Rightarrow> connection \<times> effect list" where
  "handleWatcherError t event s =
     (if stale (err_context event) s then (s, [])
      else
        let (s', effs) =
              (if conn_mode s = Streaming \<and>
                  (isStreamTransportError (err_text event) \<or> isImmediateWatchClosure (err_closure event))
               then (let (w, full) = window_fail (watch_key (err_type event) (err_namespace event)) t (window s) in
                     if full then fall_back (s\<lparr>window := w\<rparr>) else (s\<lparr>window := w\<rparr>, []))
               else (s, []))
        in (s', effs @ (if isAuthError (err_text event) then [ShowConnectionError (err_text event)] else [])))"

definition handleWatcherStatus ::
  "int \<Rightarrow> string \<Rightarrow> string option \<Rightarrow> string \<Rightarrow> string option \<Rightarrow> connection \<Rightarrow> connection \<times> effect list" where
  "handleWatcherStatus t resourceType namespace st ctx s =
     (if stale ctx s then (s, [])
      else
        (s\<lparr>window := window_status (watch_key resourceType namespace) st t (window s),
           prev_status := map_set resourceType st (prev_status s)\<rparr>,
         (if map_get (prev_status s) resourceType = Some ''reconnecting'' \<and> st = ''connected'' then [ScheduleReconcile] else []) @
         (if st = ''running'' \<or> st = ''connected'' then [ClearConnectionError] else [])))"

text \<open>
  The effects of a change of context: one keeps the reference to it, one forgets the states of the
  watches, and one restores the stored mode and interval and starts a new window.
\<close>

definition forget_statuses :: "connection \<Rightarrow> connection" where
  "forget_statuses s = s\<lparr>prev_status := []\<rparr>"

definition context_changed :: "string \<Rightarrow> (string \<Rightarrow> string option) \<Rightarrow> int \<Rightarrow> connection \<Rightarrow> connection \<times> effect list" where
  "context_changed ctx getItem storedInterval s =
     (let mode = restoreConnectionMode ctx getItem in
      (forget_statuses (s\<lparr>current_ctx := ctx, conn_mode := mode, interval := storedInterval, window := new_window\<rparr>),
       if mode \<noteq> Streaming then [StopAllWatchers] else []))"

section \<open>What one watch contributes\<close>

datatype 'k watch_event = Failed 'k int | Status 'k string int

fun watch_of :: "'k watch_event \<Rightarrow> 'k" where
  "watch_of (Failed k t) = k"
| "watch_of (Status k st t) = k"

fun window_step :: "'k failure_window \<Rightarrow> 'k watch_event \<Rightarrow> 'k failure_window" where
  "window_step w (Failed k t) = fst (window_fail k t w)"
| "window_step w (Status k st t) = window_status k st t w"

text \<open>The specification: one watch alone, with the failures it remembers and the time it connected.\<close>

type_synonym watch_record = "int list \<times> int option"

definition healthy :: "int \<Rightarrow> int option \<Rightarrow> bool" where
  "healthy t c = (case c of Some opened \<Rightarrow> WATCH_FAILURE_WINDOW_MS \<le> t - opened | None \<Rightarrow> False)"

fun own_step :: "watch_record \<Rightarrow> 'k watch_event \<Rightarrow> watch_record" where
  "own_step (fs, c) (Failed k t) =
     (filter (\<lambda>time. t - time < WATCH_FAILURE_WINDOW_MS) (if healthy t c then [] else fs) @ [t], None)"
| "own_step (fs, c) (Status k st t) =
     (if st = ''connected'' then (fs, Some t)
      else (if healthy t c \<or> st = ''stopped'' then [] else fs, None))"

definition own :: "'k failure_window \<Rightarrow> 'k \<Rightarrow> watch_record" where
  "own w k = (case map_get (failures w) k of Some ts \<Rightarrow> ts | None \<Rightarrow> [], map_get (connectedAt w) k)"

definition window_wf :: "'k failure_window \<Rightarrow> bool" where
  "window_wf w \<longleftrightarrow> map_wf (failures w) \<and> map_wf (connectedAt w)"

lemmas window_defs = own_def window_wf_def window_fail_def window_status_def clearHealthyHistory_def Let_def

lemma window_step_wf: "window_wf w \<Longrightarrow> window_wf (window_step w e)"
  by (cases e) (auto simp: window_defs js.wf_put js.wf_del split: option.split)

lemma own_window_step:
  assumes "window_wf w"
  shows "own (window_step w e) k = (if watch_of e = k then own_step (own w k) e else own w k)"
proof (cases e)
  case (Failed k' t)
  with assms show ?thesis
    by (cases "map_get (connectedAt w) k'")
      (auto simp: window_defs healthy_def js.get_put js.get_del js.wf_del simp del: map_of_eq_Some_iff split: option.split)
next
  case (Status k' st t)
  with assms show ?thesis
    by (cases "map_get (connectedAt w) k'")
      (auto simp: window_defs healthy_def js.get_put js.get_del js.wf_del simp del: map_of_eq_Some_iff split: option.split)
qed

interpretation failure_window: machine window_step window_wf
  by unfold_locales (rule window_step_wf)

lemma new_window_wf: "window_wf new_window"
  by (simp add: window_wf_def new_window_def)

lemma own_run:
  "window_wf w \<Longrightarrow> own (foldl window_step w evs) k = foldl own_step (own w k) (filter (\<lambda>e. watch_of e = k) evs)"
  by (induction evs arbitrary: w) (auto simp: own_window_step window_step_wf)

lemma own_new: "own new_window k = ([], None)"
  by (simp add: own_def new_window_def)

lemma window_fail_own:
  "window_wf w \<Longrightarrow> snd (window_fail k t w) \<longleftrightarrow> WATCH_FAILURE_THRESHOLD \<le> length (fst (own_step (own w k) (Failed k t)))"
  by (cases "map_get (connectedAt w) k")
    (auto simp: window_defs healthy_def js.get_del js.wf_del split: option.split)

text \<open>The failures a watch remembers are among those that happened, in order.\<close>

fun failure_times :: "'k watch_event list \<Rightarrow> int list" where
  "failure_times [] = []"
| "failure_times (Failed k t # es) = t # failure_times es"
| "failure_times (Status k st t # es) = failure_times es"

lemma failure_times_append [simp]: "failure_times (xs @ ys) = failure_times xs @ failure_times ys"
  by (induction xs rule: failure_times.induct) auto

lemma remembered_subseq: "subseq (fst (foldl own_step ([], None) es)) (failure_times es)"
proof (induction es rule: rev_induct)
  case (snoc e es)
  obtain fs c where r: "foldl own_step ([], None) es = (fs, c)" by fastforce
  with snoc have fs: "subseq fs (failure_times es)" by simp
  have "subseq (filter P fs) (failure_times es)" for P
    using subseq_order.order_trans [OF subseq_filter_left fs] .
  with fs r show ?case by (cases e) (auto simp: list_emb_append_mono)
qed simp

lemma subseq_filter_length: "subseq xs ys \<Longrightarrow> length (filter P xs) \<le> length (filter P ys)"
  by (meson list_emb_length subseq_filter)

lemma count_failures:
  "length (filter P (failure_times es)) = length (filter (\<lambda>e. case e of Failed k u \<Rightarrow> P u | _ \<Rightarrow> False) es)"
  by (induction es rule: failure_times.induct) auto

definition recent_failure :: "'k \<Rightarrow> int \<Rightarrow> 'k watch_event \<Rightarrow> bool" where
  "recent_failure k t e = (case e of Failed k' u \<Rightarrow> k' = k \<and> t - u < WATCH_FAILURE_WINDOW_MS | _ \<Rightarrow> False)"

lemma fail_needs_recent:
  assumes "snd (window_fail k t (foldl window_step new_window evs))"
  shows "WATCH_FAILURE_THRESHOLD \<le> Suc (length (filter (recent_failure k t) evs))"
proof -
  let ?es = "filter (\<lambda>e. watch_of e = k) evs" and ?P = "\<lambda>u. t - u < WATCH_FAILURE_WINDOW_MS"
  obtain fs c where r: "foldl own_step ([], None) ?es = (fs, c)" by fastforce
  have wf: "window_wf (foldl window_step new_window evs)" by (rule failure_window.run_good [OF new_window_wf])
  have "WATCH_FAILURE_THRESHOLD \<le> length (fst (own_step (fs, c) (Failed k t)))"
    using assms unfolding window_fail_own [OF wf] own_run [OF new_window_wf] own_new r .
  also have "\<dots> \<le> Suc (length (filter ?P fs))" by simp
  also have "length (filter ?P fs) \<le> length (filter ?P (failure_times ?es))"
    using remembered_subseq [of ?es] r by (intro subseq_filter_length) simp
  also have "\<dots> = length (filter (recent_failure k t) evs)"
    unfolding count_failures
    by (simp, rule arg_cong [where f = length], rule filter_cong)
      (auto simp: recent_failure_def split: watch_event.split)
  finally show ?thesis by simp
qed

text \<open>Failures without a status in between are all remembered, as long as they are recent.\<close>

lemma remembered_run:
  assumes "sorted ts" "\<forall>u \<in> set ts. last ts - u < WATCH_FAILURE_WINDOW_MS" "ts \<noteq> []"
  shows "\<exists>older. foldl own_step r (map (Failed k) ts) = (older @ ts, None)"
  using assms
proof (induction ts rule: rev_induct)
  case (snoc u ts)
  show ?case
  proof (cases "ts = []")
    case True
    then show ?thesis by (cases r) auto
  next
    case False
    have "last ts \<le> u" using snoc.prems False by (simp add: sorted_append)
    then have "\<forall>v \<in> set ts. last ts - v < WATCH_FAILURE_WINDOW_MS"
      using snoc.prems(2) by fastforce
    with snoc False obtain older where "foldl own_step r (map (Failed k) ts) = (older @ ts, None)"
      by (auto simp: sorted_append)
    moreover have "filter (\<lambda>v. u - v < WATCH_FAILURE_WINDOW_MS) ts = ts"
      using snoc.prems by (simp add: filter_id_conv)
    ultimately show ?thesis by (auto simp: healthy_def)
  qed
qed simp

text \<open>
  C27: what the window knows about one watch depends on the events of that watch
  only, whatever happens to the others and in whatever order.
\<close>
theorem failures_isolated:
  "own (foldl window_step new_window evs) k = foldl own_step ([], None) (filter (\<lambda>e. watch_of e = k) evs)"
  by (simp add: own_run new_window_wf own_new)

text \<open>
  Repeated failures detected: when a watch fails five times within a minute and reports no status in
  between, the fifth failure is reported as too many, whatever happened before and to other watches.
\<close>
theorem repeated_failures_detected:
  assumes "filter (\<lambda>e. watch_of e = k) evs = earlier @ map (Failed k) ts" "4 \<le> length ts"
    and "sorted (ts @ [t])" "t - hd ts < 60000"
  shows "snd (window_fail k t (foldl window_step new_window evs))"
proof -
  have wf: "window_wf (foldl window_step new_window evs)" by (rule failure_window.run_good [OF new_window_wf])
  have ne: "ts \<noteq> []" using assms(2) by auto
  have near: "t - u < WATCH_FAILURE_WINDOW_MS" if "u \<in> set ts" for u
    using assms(3,4) that ne by (cases ts) (auto simp: WATCH_FAILURE_WINDOW_MS_def)
  have "last ts \<le> t" using assms(3) ne by (simp add: sorted_append)
  then have "\<forall>u \<in> set ts. last ts - u < WATCH_FAILURE_WINDOW_MS" using near by fastforce
  with assms(3) ne obtain older where
    "foldl own_step (foldl own_step ([], None) earlier) (map (Failed k) ts) = (older @ ts, None)"
    using remembered_run [of ts "foldl own_step ([], None) earlier" k] by (auto simp: sorted_append)
  then have "own (foldl window_step new_window evs) k = (older @ ts, None)"
    by (simp add: own_run new_window_wf own_new assms(1))
  moreover have "filter (\<lambda>v. t - v < WATCH_FAILURE_WINDOW_MS) ts = ts" using near by (simp add: filter_id_conv)
  ultimately show ?thesis
    using assms(2) by (simp add: window_fail_own [OF wf] WATCH_FAILURE_THRESHOLD_def healthy_def)
qed

theorem repeated_failures_detected_witness:
  "snd (window_fail ''pods'' 40000 (foldl window_step new_window
     [Failed ''pods'' 0, Status ''nodes'' ''stopped'' 5, Failed ''pods'' 10000, Failed ''pods'' 20000, Failed ''pods'' 30000]))"
  by (rule repeated_failures_detected [where earlier = "[]" and ts = "[0, 10000, 20000, 30000]"]) simp_all

section \<open>Falling back to polling\<close>

lemma fall_back_result:
  "fall_back s = (s', effs) \<Longrightarrow>
   conn_mode s' = Polling \<and> interval s' = 10000 \<and> window s' = new_window \<and> current_ctx s' = current_ctx s \<and>
   StopAllWatchers \<in> set effs \<and> Notify \<in> set effs \<and>
   (current_ctx s \<noteq> '''' \<longrightarrow> PersistMode (current_ctx s) Polling \<in> set effs)"
  by (auto simp: fall_back_def setPollingInterval_def setConnectionMode_def)

text \<open>
  C28: a watcher error switches a streaming connection to polling only when the
  watch it names has failed five times within the last minute, this error included; it is then
  polling every ten seconds, with the watchers stopped, the choice stored, the user told and no
  failure remembered. An error of another context changes nothing.
\<close>
theorem fallback_needs_failures:
  assumes "handleWatcherError t event s = (s', effs)" "conn_mode s = Streaming"
    and "window s = foldl window_step new_window evs"
  shows "(conn_mode s' = Streaming \<or>
      conn_mode s' = Polling \<and> interval s' = 10000 \<and> window s' = new_window \<and>
      StopAllWatchers \<in> set effs \<and> Notify \<in> set effs \<and>
      (current_ctx s = '''' \<or> PersistMode (current_ctx s) Polling \<in> set effs) \<and>
      4 \<le> length (filter (recent_failure (watch_key (err_type event) (err_namespace event)) t) evs)) \<and>
    (stale (err_context event) s \<longrightarrow> s' = s \<and> effs = [])"
proof (cases "stale (err_context event) s")
  case True
  with assms show ?thesis by (simp add: handleWatcherError_def)
next
  case False
  let ?k = "watch_key (err_type event) (err_namespace event)"
  obtain w full where f: "window_fail ?k t (window s) = (w, full)" by fastforce
  show ?thesis
  proof (cases "(isStreamTransportError (err_text event) \<or> isImmediateWatchClosure (err_closure event)) \<and> full")
    case True
    then have "4 \<le> length (filter (recent_failure ?k t) evs)"
      using fail_needs_recent [of ?k t evs] f assms(3) by (simp add: WATCH_FAILURE_THRESHOLD_def)
    moreover obtain s1 e1 where "fall_back (s\<lparr>window := w\<rparr>) = (s1, e1)" by fastforce
    moreover note fall_back_result [OF this]
    ultimately show ?thesis using assms False f True by (auto simp: handleWatcherError_def)
  next
    case no: False
    with assms False f show ?thesis by (auto simp: handleWatcherError_def split: if_splits)
  qed
qed

definition watch_error :: "string \<Rightarrow> watcher_error" where
  "watch_error err =
     \<lparr>err_type = ''pods'', err_namespace = Some ''a'', err_text = err, err_context = None,
      err_closure = \<lparr>premature = False, receivedAny = False, openDurationMillis = None\<rparr>\<rparr>"

definition streaming_in :: "string \<Rightarrow> watch_key failure_window \<Rightarrow> connection" where
  "streaming_in ctx w = \<lparr>current_ctx = ctx, conn_mode = Streaming, window = w, interval = 30000, prev_status = []\<rparr>"

theorem fallback_needs_failures_witness:
  "conn_mode (fst (handleWatcherError 4 (watch_error ''unexpected EOF'')
     (streaming_in ''dev'' (foldl window_step new_window (map (Failed (''pods'', ''a'')) [0, 1, 2]))))) = Streaming"
proof -
  let ?evs = "map (Failed (''pods'', ''a'')) [0, 1, 2]" and ?e = "watch_error ''unexpected EOF''"
  let ?s = "streaming_in ''dev'' (foldl window_step new_window ?evs)"
  obtain s' effs where h: "handleWatcherError 4 ?e ?s = (s', effs)" by fastforce
  have "length (filter P ?evs) \<le> 3" for P :: "watch_key watch_event \<Rightarrow> bool"
    using length_filter_le [of P ?evs] by (simp del: length_filter_le)
  then have "\<not> 4 \<le> length (filter (recent_failure (watch_key (err_type ?e) (err_namespace ?e)) 4) ?evs)"
    by (metis not_less_eq_eq numeral_3_eq_3 eval_nat_numeral(2) semiring_norm(26) semiring_norm(27))
  with fallback_needs_failures [OF h, of ?evs] h show ?thesis by (simp add: streaming_in_def)
qed

text \<open>
  Reconnect reconcile missed: the last status is remembered per resource type, not per watch: when the
  watch of one namespace is reconnecting and the watch of another namespace reports any status before
  it is connected again, the reconciliation that should remove deleted resources is not scheduled.
\<close>
theorem reconnect_reconcile_missed:
  assumes "\<not> stale ctx s" "st \<noteq> ''reconnecting''" "st \<noteq> ''connected''"
  shows "let (s1, e1) = handleWatcherStatus t1 resourceType (Some ''a'') ''reconnecting'' ctx s;
      (s2, e2) = handleWatcherStatus t2 resourceType (Some ''b'') st ctx s1;
      (s3, e3) = handleWatcherStatus t3 resourceType (Some ''a'') ''connected'' ctx s2
    in ScheduleReconcile \<notin> set (e1 @ e2 @ e3) \<and>
       ScheduleReconcile \<in> set (snd (handleWatcherStatus t3 resourceType (Some ''a'') ''connected'' ctx s1))"
  using assms by (auto simp: handleWatcherStatus_def stale_def update_conv' Let_def)

theorem reconnect_reconcile_missed_witness:
  "let (s1, e1) = handleWatcherStatus 0 ''pods'' (Some ''a'') ''reconnecting'' None (streaming_in ''dev'' new_window);
      (s2, e2) = handleWatcherStatus 1 ''pods'' (Some ''b'') ''stopped'' None s1;
      (s3, e3) = handleWatcherStatus 2 ''pods'' (Some ''a'') ''connected'' None s2
    in ScheduleReconcile \<notin> set (e1 @ e2 @ e3)"
  using reconnect_reconcile_missed [of None "streaming_in ''dev'' new_window" "''stopped''" 0 "''pods''" 1 2]
  by (simp add: stale_def truthy_str_def case_prod_unfold Let_def)

end
