(* ===== verification/NamespaceOptions.thy ===== *)
theory NamespaceOptions
  imports JsValue
begin

text \<open>
  The namespaces a user can choose from and the ones chosen (\<open>context/K8sContext.tsx\<close>): the list
  loaded from the cluster, the events of the namespace watcher, and the selection, where \<open>*\<close> and
  the empty name stand for all namespaces. \<open>localeCompare\<close> orders by the
  keys of the user's locale, the parameter \<open>collate\<close>. State updates are applied in the order they are queued.
\<close>

section \<open>Helpers\<close>

definition namespace_name :: "jsv \<Rightarrow> string" where
  "namespace_name item =
     (case item of
        JStr s \<Rightarrow> s
      | _ \<Rightarrow> (case jopt (jopt item ''metadata'') ''name'' of JStr s \<Rightarrow> s | _ \<Rightarrow> ''''))"

definition normalizeNamespaceNames :: "(string \<Rightarrow> 'k::linorder) \<Rightarrow> jsv list \<Rightarrow> string list" where
  "normalizeNamespaceNames collate list =
     '''' # sort_key collate (uniq (filter (\<lambda>n. n \<noteq> '''') (map namespace_name list)))"

definition pruneSelectedNamespaces :: "string list \<Rightarrow> string list \<Rightarrow> string list" where
  "pruneSelectedNamespaces selected available =
     filter (\<lambda>n. n = ''*'' \<or> n = '''' \<or> n \<in> set available - {''''}) selected"

section \<open>State\<close>

record namespace_state =
  options :: "string list"
  chosen :: "string list"

definition setSelectedNamespaces :: "string list \<Rightarrow> namespace_state \<Rightarrow> namespace_state" where
  "setSelectedNamespaces selection s = s\<lparr>chosen := if selection \<noteq> [] then selection else [''*'']\<rparr>"

definition applyNamespaceOptions :: "string list \<Rightarrow> namespace_state \<Rightarrow> namespace_state" where
  "applyNamespaceOptions next s =
     (let s' = s\<lparr>options := next\<rparr> in setSelectedNamespaces (pruneSelectedNamespaces (chosen s') next) s')"

datatype namespace_change = Added | Modified | Deleted

definition applyNamespaceEvent :: "(string \<Rightarrow> 'k::linorder) \<Rightarrow> namespace_change \<Rightarrow> jsv \<Rightarrow> namespace_state \<Rightarrow> namespace_state" where
  "applyNamespaceEvent collate kind resource s =
     (let namespaceName = namespace_name resource in
      if namespaceName = '''' then s
      else let previous = options s;
               next = (if kind = Deleted then filter (\<lambda>n. n \<noteq> namespaceName) previous
                       else normalizeNamespaceNames collate (map JStr previous @ [JStr namespaceName]))
           in if previous = next then s
              else let s' = s\<lparr>options := next\<rparr>
                   in setSelectedNamespaces (pruneSelectedNamespaces (chosen s') next) s')"

text \<open>The commit of a context switch, and the selection restored from storage.\<close>

definition reset_namespaces :: "namespace_state \<Rightarrow> namespace_state" where
  "reset_namespaces s = setSelectedNamespaces [''*''] (s\<lparr>options := []\<rparr>)"

definition restore_selection :: "string list \<Rightarrow> namespace_state \<Rightarrow> namespace_state" where
  "restore_selection saved s =
     (if saved = [] then s else setSelectedNamespaces (pruneSelectedNamespaces saved (options s)) s)"

definition currentNamespace :: "namespace_state \<Rightarrow> string" where
  "currentNamespace s = (case chosen s of [n] \<Rightarrow> n | _ \<Rightarrow> '''')"

section \<open>The selection is never empty and always available\<close>

datatype namespace_op =
    LoadNamespaces "jsv list"
  | NamespaceEvent namespace_change jsv
  | SelectNamespaces "string list"
  | SwitchedContext
  | RestoreSelection "string list"

definition namespace_step :: "(string \<Rightarrow> 'k::linorder) \<Rightarrow> namespace_state \<Rightarrow> namespace_op \<Rightarrow> namespace_state" where
  "namespace_step collate s op =
     (case op of
        LoadNamespaces list \<Rightarrow> applyNamespaceOptions (normalizeNamespaceNames collate list) s
      | NamespaceEvent kind resource \<Rightarrow> applyNamespaceEvent collate kind resource s
      | SelectNamespaces ns \<Rightarrow> setSelectedNamespaces ns s
      | SwitchedContext \<Rightarrow> reset_namespaces s
      | RestoreSelection saved \<Rightarrow> restore_selection saved s)"

definition available :: "namespace_state \<Rightarrow> string \<Rightarrow> bool" where
  "available s n \<longleftrightarrow> n = ''*'' \<or> n = '''' \<or> n \<in> set (options s)"

definition choice_ok :: "namespace_state \<Rightarrow> bool" where
  "choice_ok s \<longleftrightarrow> chosen s \<noteq> [] \<and> list_all (available s) (chosen s)"

lemma prune_available: "list_all (available s) (pruneSelectedNamespaces selected (options s))"
  by (auto simp: pruneSelectedNamespaces_def available_def list_all_iff)

lemma set_selected_ok:
  "list_all (available s) ns \<Longrightarrow> choice_ok (setSelectedNamespaces ns s)"
  by (auto simp: choice_ok_def setSelectedNamespaces_def available_def list_all_iff)

lemma prune_ok: "choice_ok (setSelectedNamespaces (pruneSelectedNamespaces selected (options s)) s)"
  by (intro set_selected_ok prune_available)

section \<open>The options follow the cluster\<close>

definition abs_namespace :: "string set \<Rightarrow> namespace_change \<times> jsv \<Rightarrow> string set" where
  "abs_namespace S e =
     (let n = namespace_name (snd e) in
      if n = '''' then S else if fst e = Deleted then S - {n} else insert n S)"

definition options_of :: "(string \<Rightarrow> 'k::linorder) \<Rightarrow> string set \<Rightarrow> string list \<Rightarrow> bool" where
  "options_of collate S l \<longleftrightarrow> (\<exists>xs. l = '''' # xs \<and> sorted (map collate xs) \<and> distinct xs \<and> set xs = S \<and> '''' \<notin> S)"

lemma name_of_string [simp]: "namespace_name (JStr s) = s"
  by (simp add: namespace_name_def)

lemma normalize_options: "options_of collate (set (map namespace_name list) - {''''}) (normalizeNamespaceNames collate list)"
  unfolding options_of_def normalizeNamespaceNames_def
  by (rule exI, intro conjI refl) auto

lemma event_options:
  assumes "options_of collate S (options s)"
  shows "options_of collate (abs_namespace S (kind, resource)) (options (applyNamespaceEvent collate kind resource s))"
proof (cases "namespace_name resource = ''''")
  case True
  with assms show ?thesis by (simp add: applyNamespaceEvent_def abs_namespace_def)
next
  case False
  obtain xs where xs: "options s = '''' # xs" "sorted (map collate xs)" "distinct xs" "set xs = S" "'''' \<notin> S"
    using assms by (auto simp: options_of_def)
  let ?n = "namespace_name resource"
  let ?next = "if kind = Deleted then filter (\<lambda>n. n \<noteq> ?n) (options s)
      else normalizeNamespaceNames collate (map JStr (options s) @ [JStr ?n])"
  have o: "options (applyNamespaceEvent collate kind resource s) = ?next"
    using False by (simp add: applyNamespaceEvent_def Let_def setSelectedNamespaces_def)
  show ?thesis
  proof (cases "kind = Deleted")
    case True
    have "options_of collate (S - {?n}) ('''' # filter (\<lambda>n. n \<noteq> ?n) xs)"
      unfolding options_of_def
      by (rule exI [of _ "filter (\<lambda>n. n \<noteq> ?n) xs"]) (use xs in \<open>auto simp: sorted_filter\<close>)
    then show ?thesis using True False unfolding o by (simp add: xs abs_namespace_def)
  next
    case no: False
    have names: "set (map namespace_name (map JStr (options s) @ [JStr ?n])) - {''''} = insert ?n S"
      using xs False by (auto simp: image_comp)
    show ?thesis
      using normalize_options [of collate "map JStr (options s) @ [JStr ?n]"] no False
      unfolding o names by (simp add: abs_namespace_def)
  qed
qed

lemma step_nonempty: "chosen s \<noteq> [] \<Longrightarrow> chosen (namespace_step collate s op) \<noteq> []"
  by (cases op)
    (simp_all add: namespace_step_def setSelectedNamespaces_def applyNamespaceOptions_def applyNamespaceEvent_def
      reset_namespaces_def restore_selection_def Let_def)

interpretation namespaces: machine "namespace_step collate" "\<lambda>s. chosen s \<noteq> []"
  for collate :: "string \<Rightarrow> 'k::linorder"
  by unfold_locales (rule step_nonempty)

text \<open>
  C39: in every state reached from the first one the selection is not empty; and
  right after a load, an event that changed the options, a switch or a restored selection, everything
  selected is available. (The user's own choice is not checked.)
\<close>
theorem selection_never_stale:
  assumes "chosen s \<noteq> []"
  shows "chosen (foldl (namespace_step collate) s ops) \<noteq> [] \<and>
    (case op of
       SelectNamespaces ns \<Rightarrow> True
     | NamespaceEvent kind r \<Rightarrow>
         options (namespace_step collate s op) = options s \<or> list_all (available (namespace_step collate s op)) (chosen (namespace_step collate s op))
     | RestoreSelection [] \<Rightarrow> True
     | _ \<Rightarrow> list_all (available (namespace_step collate s op)) (chosen (namespace_step collate s op)))"
proof
  show "chosen (foldl (namespace_step collate) s ops) \<noteq> []" using assms by (rule namespaces.run_good)
next
  have ok: "list_all (available s') (chosen s')"
    if "s' = setSelectedNamespaces (pruneSelectedNamespaces sel (options t)) t" for s' t sel
    using prune_ok [of sel t] that by (simp add: choice_ok_def)
  show "case op of
       SelectNamespaces ns \<Rightarrow> True
     | NamespaceEvent kind r \<Rightarrow>
         options (namespace_step collate s op) = options s \<or> list_all (available (namespace_step collate s op)) (chosen (namespace_step collate s op))
     | RestoreSelection [] \<Rightarrow> True
     | _ \<Rightarrow> list_all (available (namespace_step collate s op)) (chosen (namespace_step collate s op))"
  proof (cases op)
    case (LoadNamespaces l)
    then show ?thesis
      using ok [of "applyNamespaceOptions (normalizeNamespaceNames collate l) s" "chosen s" "s\<lparr>options := normalizeNamespaceNames collate l\<rparr>"]
      by (simp add: namespace_step_def applyNamespaceOptions_def Let_def)
  next
    case (NamespaceEvent kind r)
    show ?thesis
    proof (cases "options (applyNamespaceEvent collate kind r s) = options s")
      case False
      let ?next = "if kind = Deleted then filter (\<lambda>n. n \<noteq> namespace_name r) (options s)
        else normalizeNamespaceNames collate (map JStr (options s) @ [JStr (namespace_name r)])"
      have "applyNamespaceEvent collate kind r s =
          setSelectedNamespaces (pruneSelectedNamespaces (chosen s) ?next) (s\<lparr>options := ?next\<rparr>)"
        using False by (simp add: applyNamespaceEvent_def Let_def split: if_splits)
      with ok [of "applyNamespaceEvent collate kind r s" "chosen s" "s\<lparr>options := ?next\<rparr>"] NamespaceEvent
      show ?thesis by (simp add: namespace_step_def)
    qed (simp add: NamespaceEvent namespace_step_def)
  next
    case (RestoreSelection saved)
    then show ?thesis
      using ok [of "restore_selection saved s" saved s]
      by (cases saved) (simp_all add: namespace_step_def restore_selection_def)
  qed (auto simp: namespace_step_def reset_namespaces_def setSelectedNamespaces_def available_def)
qed

theorem selection_never_stale_witness:
  "chosen (foldl (namespace_step (\<lambda>s. s)) \<lparr>options = ['''', ''a''], chosen = [''a'']\<rparr> [NamespaceEvent Deleted (JStr ''a'')]) \<noteq> []"
  using selection_never_stale [where collate = "\<lambda>s. s", of "\<lparr>options = ['''', ''a''], chosen = [''a'']\<rparr>" "[NamespaceEvent Deleted (JStr ''a'')]"]
  by simp

text \<open>
  Namespace options track: after a load and any events of the namespace watcher the options are the
  empty name followed by the cluster's namespaces, sorted and without repetitions.
\<close>
theorem namespace_options_track:
  "\<exists>xs. options (foldl (\<lambda>s (kind, r). applyNamespaceEvent collate kind r s) (applyNamespaceOptions (normalizeNamespaceNames collate list) s) es) =
      '''' # xs \<and> sorted (map collate xs) \<and> distinct xs \<and>
    set xs = foldl abs_namespace (set (map namespace_name list) - {''''}) es"
proof -
  have "options_of collate S (options s) \<Longrightarrow>
      options_of collate (foldl abs_namespace S es) (options (foldl (\<lambda>s (kind, r). applyNamespaceEvent collate kind r s) s es))" for S s
    by (induction es arbitrary: S s) (auto simp: event_options)
  moreover have "options (applyNamespaceOptions (normalizeNamespaceNames collate list) s) = normalizeNamespaceNames collate list"
    by (simp add: applyNamespaceOptions_def setSelectedNamespaces_def Let_def)
  ultimately show ?thesis using normalize_options [of collate list] unfolding options_of_def by metis
qed

end
