(* ===== verification/LogText.thy ===== *)
theory LogText
  imports JsStrings
begin

text \<open>
  The text of container logs (\<open>log-viewer/logUtils.ts\<close>): splitting raw logs into entries, merging
  pages without repetitions, draining the pages of a poll, and printing entries. The patterns of the
  code are written out as scanners. \<open>fetchPage n cursor\<close> is the result of the \<open>n\<close>-th request of a
  poll: an error, or the logs (if any) and whether more follow.
\<close>

abbreviation newline :: char where "newline \<equiv> CHR 0x0A"
abbreviation escape :: char where "escape \<equiv> CHR 0x1B"

section \<open>Colour codes\<close>

text \<open>\<open>/\x1b\[[0-9;]*m/g\<close>: the sequence after the escape character, or \<open>None\<close>.\<close>

definition colour_code :: "string \<Rightarrow> string option" where
  "colour_code s =
     (if starts_with s ''['' then
        (case dropWhile (\<lambda>c. is_digit c \<or> c = CHR '';'') (tl s) of
           c # rest \<Rightarrow> if c = CHR ''m'' then Some rest else None
         | [] \<Rightarrow> None)
      else None)"

lemma colour_code_shorter: "colour_code s = Some rest \<Longrightarrow> length rest < length s"
proof -
  assume "colour_code s = Some rest"
  then obtain t where "s = CHR ''['' # t" "dropWhile (\<lambda>c. is_digit c \<or> c = CHR '';'') t = CHR ''m'' # rest"
    by (auto simp: colour_code_def split: if_splits list.splits elim!: prefixE)
  then show ?thesis
    using length_dropWhile_le [of "\<lambda>c. is_digit c \<or> c = CHR '';''" t] by simp
qed

function stripAnsiCodes :: "string \<Rightarrow> string" where
  "stripAnsiCodes [] = []"
| "stripAnsiCodes (c # s) =
     (case (if c = escape then colour_code s else None) of
        Some rest \<Rightarrow> stripAnsiCodes rest
      | None \<Rightarrow> c # stripAnsiCodes s)"
  by pat_completeness auto
termination
  by (relation "measure length") (auto dest: colour_code_shorter split: if_splits)

text \<open>
  \<open>/\x1b\[38;5;0*(\d{1,3})m/g\<close> and the same with 48: leading zeros are dropped from a colour number
  that has one to three digits without them.
\<close>

definition palette_code :: "string \<Rightarrow> string \<Rightarrow> (string \<times> string) option" where
  "palette_code intro s =
     (if starts_with s intro then
        let r = drop (length intro) s; ds = takeWhile is_digit r; after = dropWhile is_digit r;
            short = dropWhile (\<lambda>c. c = CHR ''0'') ds
        in if ds \<noteq> [] \<and> length short \<le> 3 \<and> starts_with after ''m''
           then Some (intro @ (if short = [] then ''0'' else short) @ ''m'', tl after) else None
      else None)"

lemma palette_code_shorter: "palette_code intro s = Some (code, rest) \<Longrightarrow> length rest < length s"
proof -
  assume p: "palette_code intro s = Some (code, rest)"
  let ?r = "drop (length intro) s"
  from p have "starts_with (dropWhile is_digit ?r) ''m''" and rest: "rest = tl (dropWhile is_digit ?r)"
    by (auto simp: palette_code_def Let_def split: if_splits)
  then have "dropWhile is_digit ?r \<noteq> []" by (metis list.discI prefix_Nil)
  then have "length rest < length (dropWhile is_digit ?r)" by (simp add: rest)
  also have "\<dots> \<le> length s" using length_dropWhile_le [of is_digit ?r] by simp
  finally show ?thesis .
qed

function replace_palette :: "string \<Rightarrow> string \<Rightarrow> string" where
  "replace_palette intro [] = []"
| "replace_palette intro (c # s) =
     (case (if c = escape then palette_code intro s else None) of
        Some (code, rest) \<Rightarrow> escape # code @ replace_palette intro rest
      | None \<Rightarrow> c # replace_palette intro s)"
  by pat_completeness auto
termination
  by (relation "measure (\<lambda>(intro, s). length s)") (auto dest: palette_code_shorter split: if_splits)

definition normalizeAnsiCodes :: "string \<Rightarrow> string" where
  "normalizeAnsiCodes s = replace_palette ''[48;5;'' (replace_palette ''[38;5;'' s)"

section \<open>Entries\<close>

record log_entry =
  timestamp :: string
  content :: string
  source :: string

text \<open>\<open>/^(\d{4}-\d{2}-\d{2}T\d{2}:\d{2}:\d{2}\.\d+Z)\s*(.*)/\<close>; in a shape \<open>d\<close> stands for a digit.\<close>

fun match_shape :: "string \<Rightarrow> string \<Rightarrow> bool" where
  "match_shape [] s = True"
| "match_shape (p # ps) (c # cs) = ((if p = CHR ''d'' then is_digit c else c = p) \<and> match_shape ps cs)"
| "match_shape (p # ps) [] = False"

definition time_shape :: string where
  "time_shape = ''dddd-dd-ddTdd:dd:dd.''"

definition scan_time :: "string \<Rightarrow> (string \<times> string) option" where
  "scan_time s =
     (if match_shape time_shape s then
        let r = drop 20 s; ds = takeWhile is_digit r; after = dropWhile is_digit r
        in if ds \<noteq> [] \<and> starts_with after ''Z'' then Some (take 20 s @ ds @ ''Z'', tl after) else None
      else None)"

definition parse_line :: "string \<Rightarrow> string \<Rightarrow> log_entry" where
  "parse_line src line =
     (case scan_time line of
        Some (t, rest) \<Rightarrow>
          \<lparr>timestamp = t, content = takeWhile (\<lambda>c. \<not> is_newline c) (dropWhile is_space rest), source = src\<rparr>
      | None \<Rightarrow> \<lparr>timestamp = '''', content = line, source = src\<rparr>)"

definition parseLogLines :: "string \<Rightarrow> string \<Rightarrow> log_entry list" where
  "parseLogLines rawLogs src =
     (if rawLogs = '''' then []
      else map (parse_line src) (filter (\<lambda>l. trim l \<noteq> '''') (split_on newline rawLogs)))"

section \<open>Merging without repetitions\<close>

definition entry_key :: "log_entry \<Rightarrow> string" where
  "entry_key e = timestamp e @ [CHR 0x00] @ content e"

fun unseen :: "string list \<Rightarrow> log_entry list \<Rightarrow> log_entry list" where
  "unseen seen [] = []"
| "unseen seen (e # es) =
     (if entry_key e \<in> set seen then unseen seen es else e # unseen (entry_key e # seen) es)"

definition appendUniqueLogEntries :: "log_entry list \<Rightarrow> log_entry list \<Rightarrow> log_entry list" where
  "appendUniqueLogEntries existing incoming = existing @ unseen (map entry_key existing) incoming"

section \<open>Draining the pages of a poll\<close>

definition MAX_LOG_PAGES_PER_POLL :: nat where "MAX_LOG_PAGES_PER_POLL = 5"

record log_page =
  page_logs :: "string option"
  hasMore :: bool

record drained =
  entries :: "log_entry list"
  cursor :: string
  truncated :: bool

definition page_entries :: "log_page \<Rightarrow> log_entry list" where
  "page_entries p =
     (case page_logs p of Some l \<Rightarrow> if trim l \<noteq> '''' then parseLogLines l ''poll'' else [] | None \<Rightarrow> [])"

definition last_time :: "log_entry list \<Rightarrow> string" where
  "last_time es = (case List.find (\<lambda>e. timestamp e \<noteq> '''') (rev es) of Some e \<Rightarrow> timestamp e | None \<Rightarrow> '''')"

fun drain :: "(nat \<Rightarrow> string \<Rightarrow> 'e + log_page) \<Rightarrow> nat \<Rightarrow> nat \<Rightarrow> string \<Rightarrow> log_entry list \<Rightarrow> 'e + drained" where
  "drain fetchPage page 0 cur es = Inr \<lparr>entries = es, cursor = cur, truncated = True\<rparr>"
| "drain fetchPage page (Suc left) cur es =
     (case fetchPage page cur of
        Inl err \<Rightarrow> Inl err
      | Inr result \<Rightarrow>
          let pageEntries = page_entries result in
          if pageEntries = [] then Inr \<lparr>entries = es, cursor = cur, truncated = False\<rparr>
          else let es' = appendUniqueLogEntries es pageEntries; nextCursor = last_time pageEntries in
               if nextCursor = '''' \<or> nextCursor = cur \<or> \<not> hasMore result
               then Inr \<lparr>entries = es', cursor = if nextCursor \<noteq> '''' then nextCursor else cur, truncated = False\<rparr>
               else drain fetchPage (Suc page) left nextCursor es')"

definition drainLogPages :: "(nat \<Rightarrow> string \<Rightarrow> 'e + log_page) \<Rightarrow> string \<Rightarrow> nat \<Rightarrow> 'e + drained" where
  "drainLogPages fetchPage initialCursor maxPages = drain fetchPage 0 maxPages initialCursor []"

section \<open>Printing\<close>

definition logsToVisibleString :: "log_entry list \<Rightarrow> bool \<Rightarrow> string" where
  "logsToVisibleString logs showTimestamps =
     join [newline]
       (map (\<lambda>e. if showTimestamps \<and> timestamp e \<noteq> '''' then timestamp e @ '' '' @ content e else content e) logs)"

definition toRFC3339 :: "string \<Rightarrow> string" where
  "toRFC3339 str =
     (if str = '''' then ''''
      else let normalized = (if CHR '' '' \<in> set str then takeWhile (\<lambda>c. c \<noteq> CHR '' '') str @ ''T'' @ tl (dropWhile (\<lambda>c. c \<noteq> CHR '' '') str) else str) in
        if \<not> str_includes normalized '':00Z'' \<and> \<not> ends_with normalized ''Z''
        then if length normalized = 16 then normalized @ '':00Z''
             else if length normalized = 19 then normalized @ ''Z'' else normalized
        else normalized)"

section \<open>Reading entries back\<close>

definition valid_time :: "string \<Rightarrow> bool" where
  "valid_time t \<longleftrightarrow> scan_time t = Some (t, [])"

lemma match_shape_length: "match_shape ps s \<Longrightarrow> length ps \<le> length s"
  by (induction ps s rule: match_shape.induct) auto

lemma match_shape_append: "match_shape ps s \<Longrightarrow> match_shape ps (s @ t)"
  by (induction ps s rule: match_shape.induct) auto

lemma match_shape_chars: "match_shape ps s \<Longrightarrow> c \<in> set (take (length ps) s) \<Longrightarrow> is_digit c \<or> c \<in> set ps - {CHR ''d''}"
  by (induction ps s rule: match_shape.induct) (auto split: if_splits)

lemma match_shape_hd: "match_shape (CHR ''d'' # ps) s \<Longrightarrow> s \<noteq> [] \<and> is_digit (hd s)"
  by (cases s) auto

lemma time_shape_length: "length time_shape = 20"
  by (simp add: time_shape_def)

lemma span_digits:
  "list_all is_digit ds \<Longrightarrow> \<not> is_digit c \<Longrightarrow>
   takeWhile is_digit (ds @ c # t) = ds \<and> dropWhile is_digit (ds @ c # t) = c # t"
  by (induction ds) auto

lemma scan_time_SomeE:
  assumes "scan_time s = Some (t, rest)"
  obtains ds where "match_shape time_shape s" "ds \<noteq> []" "list_all is_digit ds" "t = take 20 s @ ds @ ''Z''"
    "s = t @ rest"
proof -
  let ?r = "drop 20 s"
  from assms have m: "match_shape time_shape s" and ds: "takeWhile is_digit ?r \<noteq> []"
    and z: "starts_with (dropWhile is_digit ?r) ''Z''" and t: "t = take 20 s @ takeWhile is_digit ?r @ ''Z''"
    and rest: "rest = tl (dropWhile is_digit ?r)"
    by (auto simp: scan_time_def Let_def split: if_splits)
  obtain u where u: "dropWhile is_digit ?r = CHR ''Z'' # u" using z by (auto elim!: prefixE)
  have "s = take 20 s @ takeWhile is_digit ?r @ dropWhile is_digit ?r" by simp
  also have "\<dots> = t @ rest" by (simp only: t rest u) simp
  finally have split: "s = t @ rest" .
  have "list_all is_digit (takeWhile is_digit ?r)" by (auto simp: list_all_iff dest: set_takeWhileD)
  from that [OF m ds this t split] show thesis .
qed

lemma Z_not_digit: "\<not> is_digit CHR ''Z''"
  by code_simp

lemma scan_time_append:
  assumes "valid_time t"
  shows "scan_time (t @ r) = Some (t, r)"
proof -
  from assms obtain ds where m: "match_shape time_shape t" and ds: "ds \<noteq> []" "list_all is_digit ds"
    and t: "t = take 20 t @ ds @ ''Z''"
    unfolding valid_time_def by (rule scan_time_SomeE)
  let ?h = "take 20 t"
  have len: "length ?h = 20" using match_shape_length [OF m] by (simp add: time_shape_length)
  have "take 20 t @ drop 20 t = take 20 t @ ds @ ''Z''" using t by simp
  then have "drop 20 (t @ r) = ds @ CHR ''Z'' # r" using len by (simp del: append_take_drop_id)
  moreover have "take 20 (t @ r) = ?h" using len by simp
  moreover have "match_shape time_shape (t @ r)" using m by (rule match_shape_append)
  moreover note span_digits [OF ds(2) Z_not_digit, of r]
  ultimately have "scan_time (t @ r) = Some (?h @ ds @ ''Z'', r)"
    using ds unfolding scan_time_def Let_def by simp
  with t show ?thesis by simp
qed

lemma valid_time_chars:
  assumes "valid_time t" "c \<in> set t"
  shows "is_digit c \<or> c \<in> set ''-T:.Z''"
proof -
  from assms(1) obtain ds where m: "match_shape time_shape t" and ds: "list_all is_digit ds"
    and t: "t = take 20 t @ ds @ ''Z''"
    unfolding valid_time_def by (rule scan_time_SomeE)
  have shape: "is_digit c \<or> c \<in> set ''-T:.''" if "c \<in> set (take 20 t)" for c
    using match_shape_chars [OF m, of c] that unfolding time_shape_length by (auto simp: time_shape_def)
  have "c \<in> set (take 20 t @ ds @ ''Z'')" using assms(2) t by simp
  with shape ds show ?thesis by (auto simp: list_all_iff)
qed

lemma valid_time_head: "valid_time t \<Longrightarrow> t \<noteq> [] \<and> is_digit (hd t)"
  unfolding valid_time_def by (erule scan_time_SomeE) (auto simp: time_shape_def dest: match_shape_hd)

lemma digit_plain: "is_digit c \<Longrightarrow> \<not> is_space c \<and> \<not> is_newline c \<and> c \<noteq> CHR 0x00"
  by (auto simp: is_digit_def is_space_def is_newline_def Let_def)

lemma valid_time_plain: "valid_time t \<Longrightarrow> c \<in> set t \<Longrightarrow> \<not> is_newline c \<and> c \<noteq> CHR 0x00"
  using valid_time_chars [of t c] digit_plain [of c] by (auto simp: is_newline_def)

lemma trim_nonblank: "\<exists>c \<in> set s. \<not> is_space c \<Longrightarrow> trim s \<noteq> []"
  by (auto simp: trim_def trim_start_def dropWhile_eq_Nil_conv) (metis set_dropWhileD dropWhile_eq_Nil_conv hd_dropWhile hd_in_set)

abbreviation log_line :: "string \<times> string \<Rightarrow> string" where
  "log_line e \<equiv> fst e @ '' '' @ snd e"

lemma parse_log_line:
  "valid_time t \<Longrightarrow>
   parse_line src (t @ '' '' @ c) =
     \<lparr>timestamp = t, content = takeWhile (\<lambda>c. \<not> is_newline c) (dropWhile is_space c), source = src\<rparr>"
  by (simp add: parse_line_def scan_time_append is_space_def)

text \<open>
  Log line content: of a line with a timestamp the entry keeps the text after it up to the first
  line terminator, without the white space it starts with: the indentation of the line, and all
  that follows a carriage return, are lost.
\<close>
theorem log_line_content:
  assumes "valid_time t" "newline \<notin> set c"
  shows "map content (parseLogLines (t @ '' '' @ c) src) = [takeWhile (\<lambda>d. d \<noteq> CHR 0x0D) (dropWhile is_space c)]"
proof -
  have "newline \<notin> set (t @ '' '' @ c)"
    using assms valid_time_plain [OF assms(1), of newline] by (auto simp: is_newline_def)
  then have "split_on newline (t @ '' '' @ c) = [t @ '' '' @ c]" by (rule split_on_single)
  moreover have "trim (t @ '' '' @ c) \<noteq> []"
    using valid_time_head [OF assms(1)] digit_plain by (intro trim_nonblank bexI [of _ "hd t"]) auto
  moreover have "takeWhile (\<lambda>d. \<not> is_newline d) (dropWhile is_space c) = takeWhile (\<lambda>d. d \<noteq> CHR 0x0D) (dropWhile is_space c)"
    using assms(2) by (intro takeWhile_cong refl) (auto simp: is_newline_def dest: set_dropWhileD)
  ultimately show ?thesis
    using valid_time_head [OF assms(1)] by (simp add: parseLogLines_def parse_log_line [OF assms(1), simplified])
qed

theorem log_line_content_witness:
  "map content (parseLogLines ''2024-11-26T14:30:00.1Z     at main'' ''initial'') = [''at main'']"
proof -
  have "valid_time ''2024-11-26T14:30:00.1Z''" "newline \<notin> set ''    at main''" by code_simp+
  from log_line_content [OF this, of "''initial''"] show ?thesis by (simp add: is_space_def)
qed

text \<open>What an entry keeps of the text of a line.\<close>

definition kept_content :: "string \<Rightarrow> string" where
  "kept_content c = takeWhile (\<lambda>d. \<not> is_newline d) (dropWhile is_space c)"

definition plain_content :: "string \<Rightarrow> bool" where
  "plain_content c \<longleftrightarrow> list_all (\<lambda>d. \<not> is_newline d) c \<and> (c = [] \<or> \<not> is_space (hd c))"

definition log_of :: "(string \<times> string) list \<Rightarrow> string" where
  "log_of es = join [newline] (map log_line es)"

lemma kept_plain: "plain_content c \<Longrightarrow> kept_content c = c \<and> newline \<notin> set c"
  by (cases c) (auto simp: plain_content_def kept_content_def list_all_iff is_newline_def)

lemma parse_log_of:
  assumes "\<forall>(t, c) \<in> set es. valid_time t \<and> newline \<notin> set c"
  shows "parseLogLines (log_of es) src = map (\<lambda>(t, c). \<lparr>timestamp = t, content = kept_content c, source = src\<rparr>) es"
proof (cases "es = []")
  case True
  then show ?thesis by (simp add: log_of_def parseLogLines_def)
next
  case False
  have e: "newline \<notin> set (log_line e) \<and> trim (log_line e) \<noteq> [] \<and>
      parse_line src (log_line e) = (case e of (t, c) \<Rightarrow> \<lparr>timestamp = t, content = kept_content c, source = src\<rparr>)"
    if "e \<in> set es" for e
  proof -
    obtain t c where [simp]: "e = (t, c)" by (cases e)
    have t: "valid_time t" and c: "newline \<notin> set c" using assms that by auto
    have "newline \<notin> set (log_line e)"
      using valid_time_plain [OF t, of newline] c by (auto simp: is_newline_def)
    moreover have "trim (log_line e) \<noteq> []"
      using valid_time_head [OF t] digit_plain by (intro trim_nonblank bexI [of _ "hd t"]) auto
    ultimately show ?thesis by (simp add: parse_log_line [OF t, simplified] kept_content_def)
  qed
  have "split_on newline (log_of es) = map log_line es"
    unfolding log_of_def using False e by (intro split_on_join) auto
  moreover have "log_of es \<noteq> []"
    using False e [of "hd es"] by (cases es; cases "tl es") (auto simp: log_of_def join_Cons)
  moreover have "filter (\<lambda>l. trim l \<noteq> []) (map log_line es) = map log_line es"
    using e by (simp add: filter_id_conv)
  ultimately show ?thesis using e by (simp add: parseLogLines_def)
qed

text \<open>
  Log roundtrip: a log whose lines have timestamps and contents without line breaks and leading
  blanks is read back entry by entry from the text the viewer prints with timestamps.
\<close>
theorem log_roundtrip:
  assumes "\<forall>(t, c) \<in> set es. valid_time t \<and> plain_content c"
  shows "let logs = map (\<lambda>(t, c). \<lparr>timestamp = t, content = c, source = src\<rparr>) es in
    parseLogLines (logsToVisibleString logs True) src = logs"
proof -
  have "logsToVisibleString (map (\<lambda>(t, c). \<lparr>timestamp = t, content = c, source = src\<rparr>) es) True = log_of es"
    unfolding logsToVisibleString_def log_of_def map_map
    by (rule arg_cong [where f = "join [newline]"], rule map_cong [OF refl])
      (use assms valid_time_head in \<open>auto split: prod.splits\<close>)
  moreover have "map (\<lambda>(t, c). \<lparr>timestamp = t, content = kept_content c, source = src\<rparr>) es =
      map (\<lambda>(t, c). \<lparr>timestamp = t, content = c, source = src\<rparr>) es"
    using assms kept_plain by (intro map_cong refl) (auto split: prod.splits)
  moreover have "\<forall>(t, c) \<in> set es. valid_time t \<and> newline \<notin> set c" using assms kept_plain by auto
  ultimately show ?thesis using parse_log_of [of es src] by simp
qed

theorem log_roundtrip_witness:
  "let logs = [\<lparr>timestamp = ''2024-11-26T14:30:00.1Z'', content = ''started'', source = ''initial''\<rparr>] in
   parseLogLines (logsToVisibleString logs True) ''initial'' = logs"
proof -
  have "\<forall>(t, c) \<in> set [(''2024-11-26T14:30:00.1Z'', ''started'')]. valid_time t \<and> plain_content c" by code_simp
  from log_roundtrip [OF this, of "''initial''"] show ?thesis by simp
qed

section \<open>Merging adds what is new, once\<close>

lemma unseen_keys:
  "set (map entry_key (unseen seen es)) = set (map entry_key es) - set seen \<and>
   distinct (map entry_key (unseen seen es)) \<and> subseq (unseen seen es) es"
  by (induction seen es rule: unseen.induct) (auto intro: subseq_Cons')

lemma unseen_none: "set (map entry_key es) \<subseteq> set seen \<Longrightarrow> unseen seen es = []"
  by (induction seen es rule: unseen.induct) auto

lemma unseen_all:
  "distinct (map entry_key es) \<Longrightarrow> set (map entry_key es) \<inter> set seen = {} \<Longrightarrow> unseen seen es = es"
  by (induction seen es rule: unseen.induct) auto

text \<open>
  Merge logs: merging a page into the entries shown keeps them in place, adds new entries of the page
  in order, each once, so that exactly the lines of both are there; merging the page again adds
  nothing.
\<close>
theorem merge_logs:
  assumes "distinct (map entry_key existing)"
  shows "prefix existing (appendUniqueLogEntries existing incoming) \<and>
    subseq (drop (length existing) (appendUniqueLogEntries existing incoming)) incoming \<and>
    distinct (map entry_key (appendUniqueLogEntries existing incoming)) \<and>
    entry_key ` set (appendUniqueLogEntries existing incoming) = entry_key ` set existing \<union> entry_key ` set incoming \<and>
    appendUniqueLogEntries (appendUniqueLogEntries existing incoming) incoming = appendUniqueLogEntries existing incoming"
proof -
  note u = unseen_keys [of "map entry_key existing" incoming]
  have keys: "entry_key ` set (unseen (map entry_key existing) incoming) = entry_key ` set incoming - entry_key ` set existing"
    using u by simp
  have "unseen (map entry_key (existing @ unseen (map entry_key existing) incoming)) incoming = []"
    by (rule unseen_none) (use keys in auto)
  with u keys assms show ?thesis by (auto simp: appendUniqueLogEntries_def)
qed

definition log_entry_of :: "string \<Rightarrow> string \<Rightarrow> log_entry" where
  "log_entry_of t c = \<lparr>timestamp = t, content = c, source = ''poll''\<rparr>"

theorem merge_logs_witness:
  "length (appendUniqueLogEntries [log_entry_of ''1'' ''one''] [log_entry_of ''1'' ''one'', log_entry_of ''1'' ''two'']) = 2 \<and>
   prefix [log_entry_of ''1'' ''one''] (appendUniqueLogEntries [log_entry_of ''1'' ''one''] [log_entry_of ''1'' ''one'', log_entry_of ''1'' ''two''])"
  using merge_logs [of "[log_entry_of ''1'' ''one'']" "[log_entry_of ''1'' ''one'', log_entry_of ''1'' ''two'']"]
  by (simp add: appendUniqueLogEntries_def log_entry_of_def entry_key_def)

section \<open>A poll that drains a log\<close>

text \<open>
  What the backend documents of a page (\<open>GetPodLogsAfter\<close>): the lines after the cursor, at most
  \<open>limit\<close> of them, and whether there are more. \<open>lines\<close> are the lines after the cursor.
\<close>

definition page_of :: "nat \<Rightarrow> (string \<times> string) list \<Rightarrow> log_page" where
  "page_of limit lines = \<lparr>page_logs = Some (log_of (take limit lines)), hasMore = limit < length lines\<rparr>"

abbreviation polled :: "(string \<times> string) list \<Rightarrow> log_entry list" where
  "polled es \<equiv> map (\<lambda>(t, c). \<lparr>timestamp = t, content = kept_content c, source = ''poll''\<rparr>) es"

lemma page_entries_of:
  assumes "\<forall>(t, c) \<in> set lines. valid_time t \<and> newline \<notin> set c"
  shows "page_entries (page_of limit lines) = polled (take limit lines)"
proof -
  have ok: "\<forall>(t, c) \<in> set (take limit lines). valid_time t \<and> newline \<notin> set c"
    using assms by (auto dest: in_set_takeD)
  have "trim (log_of (take limit lines)) \<noteq> []" if "take limit lines = (t, c) # rest" for t c rest
  proof -
    have t: "valid_time t" using ok that by simp
    have "hd t \<in> set (log_of (take limit lines))"
      using valid_time_head [OF t] by (cases rest) (auto simp: that log_of_def)
    then show ?thesis using digit_plain valid_time_head [OF t] by (intro trim_nonblank) auto
  qed
  then show ?thesis using parse_log_of [OF ok, of "''poll''"]
    by (cases "take limit lines") (auto simp: page_entries_def page_of_def log_of_def trim_def trim_start_def)
qed

lemma key_time:
  assumes "valid_time t" "valid_time t'" "t @ [CHR 0x00] @ c = t' @ [CHR 0x00] @ c'"
  shows "t = t'"
proof -
  have "takeWhile (\<lambda>d. d \<noteq> CHR 0x00) (t @ [CHR 0x00] @ c) = t" if "valid_time t" for t c
    using valid_time_plain [OF that] by (induction t) auto
  from this [OF assms(1)] this [OF assms(2)] assms(3) show ?thesis by metis
qed

lemma polled_keys_distinct:
  assumes "distinct (map fst es)" "\<forall>(t, c) \<in> set es. valid_time t \<and> newline \<notin> set c"
  shows "distinct (map entry_key (polled es))"
  using assms
proof (induction es)
  case (Cons e es)
  obtain t c where e: "e = (t, c)" by (cases e)
  have "entry_key \<lparr>timestamp = t, content = kept_content c, source = ''poll''\<rparr> \<notin> set (map entry_key (polled es))"
  proof
    assume "entry_key \<lparr>timestamp = t, content = kept_content c, source = ''poll''\<rparr> \<in> set (map entry_key (polled es))"
    then obtain t' c' where in_es: "(t', c') \<in> set es"
      and "t @ [CHR 0x00] @ kept_content c = t' @ [CHR 0x00] @ kept_content c'"
      by (auto simp: entry_key_def)
    with key_time [of t t' "kept_content c" "kept_content c'"] Cons.prems(2) e have "t = t'" by auto
    with in_es Cons.prems(1) e show False by force
  qed
  with Cons e show ?case by simp
qed simp

lemma append_all_new: "distinct (map entry_key (xs @ ys)) \<Longrightarrow> appendUniqueLogEntries xs ys = xs @ ys"
  unfolding appendUniqueLogEntries_def by (simp, rule unseen_all) auto

lemma append_polled:
  assumes "distinct (map fst es)" "\<forall>(t, c) \<in> set es. valid_time t \<and> newline \<notin> set c" "j \<le> k"
  shows "appendUniqueLogEntries (polled (take j es)) (polled (take (k - j) (drop j es))) = polled (take k es)"
proof -
  have split: "take k es = take j es @ take (k - j) (drop j es)"
    using assms(3) by (metis le_add_diff_inverse take_add)
  have "distinct (map fst (take k es))" using assms(1) by (simp add: take_map [symmetric] distinct_take)
  moreover have "\<forall>(t, c) \<in> set (take k es). valid_time t \<and> newline \<notin> set c"
    using assms(2) by (auto dest: in_set_takeD)
  ultimately have "distinct (map entry_key (polled (take k es)))" by (rule polled_keys_distinct)
  then show ?thesis unfolding split map_append by (intro append_all_new) (simp only: map_append)
qed

lemma last_time_polled:
  assumes "es \<noteq> []" "\<forall>(t, c) \<in> set es. valid_time t \<and> newline \<notin> set c"
  shows "last_time (polled es) = fst (last es) \<and> fst (last es) \<noteq> []"
proof -
  obtain us t c where es: "es = us @ [(t, c)]" using assms(1) by (cases es rule: rev_cases) auto
  with assms(2) valid_time_head [of t] show ?thesis by (simp add: last_time_def)
qed

lemma drain_loop:
  fixes L :: "(string \<times> string) list"
  assumes L: "distinct (map fst L)" "\<forall>(t, c) \<in> set L. valid_time t \<and> newline \<notin> set c"
    and limit: "0 < limit"
    and server: "\<And>n i. i < length L \<Longrightarrow> fetchPage n (fst (L ! i)) = Inr (page_of limit (drop (Suc i) L))"
    and i: "i + j < length L"
  shows "\<exists>r k. drain fetchPage page left (fst (L ! (i + j))) (polled (take j (drop (Suc i) L))) = Inr r \<and>
    entries r = polled (take k (drop (Suc i) L)) \<and> i + k < length L \<and> cursor r = fst (L ! (i + k)) \<and>
    (if truncated r then k = j + left * limit else Suc (i + k) = length L)"
  using i
proof (induction left arbitrary: j page)
  case 0
  then show ?case
    by (intro exI [of _ "\<lparr>entries = polled (take j (drop (Suc i) L)), cursor = fst (L ! (i + j)), truncated = True\<rparr>"]
        exI [of _ j]) simp
next
  case (Suc left)
  let ?R = "drop (Suc i) L" and ?rest = "drop (Suc (i + j)) L"
  have rest: "?rest = drop j ?R" by (simp add: add.commute)
  have ok: "\<forall>(t, c) \<in> set ?rest. valid_time t \<and> newline \<notin> set c" using L(2) by (auto dest: in_set_dropD)
  have R: "distinct (map fst ?R)" "\<forall>(t, c) \<in> set ?R. valid_time t \<and> newline \<notin> set c"
    using L by (auto simp: drop_map [symmetric] dest: in_set_dropD)
  note page = server [OF Suc.prems, of page] page_entries_of [OF ok, of limit]
  show ?case
  proof (cases "?rest = []")
    case True
    then have "Suc (i + j) = length L" using Suc.prems by simp
    with True page show ?thesis
      by (intro exI [of _ "\<lparr>entries = polled (take j ?R), cursor = fst (L ! (i + j)), truncated = False\<rparr>"]
          exI [of _ j]) (simp add: Let_def)
  next
    case False
    let ?k = "min (j + limit) (length ?R)"
    have k: "j \<le> ?k" "take limit ?rest = take (?k - j) (drop j ?R)" "take limit ?rest \<noteq> []"
      using False limit rest Suc.prems by (auto simp: min_def)
    have es: "appendUniqueLogEntries (polled (take j ?R)) (polled (take limit ?rest)) = polled (take ?k ?R)"
      unfolding k(2) by (rule append_polled [OF R k(1)])
    have ik: "i + ?k < length L" using Suc.prems by auto
    have "last (take limit ?rest) = L ! (i + ?k)"
    proof -
      have len: "length (take limit ?rest) = ?k - j" using k(2) by simp
      have "last (take limit ?rest) = take limit ?rest ! (?k - j - 1)"
        using k(3) len by (simp add: last_conv_nth)
      also have "\<dots> = L ! (Suc (i + j) + (?k - j - 1))" using k(3) len Suc.prems by (subst nth_take) auto
      also have "Suc (i + j) + (?k - j - 1) = i + ?k" using k(3) len Suc.prems limit False by auto
      finally show ?thesis .
    qed
    with last_time_polled [OF k(3)] ok
    have cur: "last_time (polled (take limit ?rest)) = fst (L ! (i + ?k))" "fst (L ! (i + ?k)) \<noteq> []"
      by (auto dest: in_set_takeD)
    have "j < ?k" using k(3) limit Suc.prems False by (auto simp: min_def)
    then have new: "fst (L ! (i + ?k)) \<noteq> fst (L ! (i + j))"
      using nth_eq_iff_index_eq [OF L(1), of "i + ?k" "i + j"] ik Suc.prems
      by (metis add_left_cancel length_map less_irrefl_nat nth_map)
    show ?thesis
    proof (cases "limit < length ?rest")
      case True
      then have "?k = j + limit" by auto
      with Suc.IH [of ?k "Suc page"] ik page True es cur new k(3) show ?thesis
        by (auto simp: Let_def page_of_def algebra_simps split: if_splits)
    next
      case no: False
      then have "Suc (i + ?k) = length L" using Suc.prems False by auto
      with page no es cur ik k(3) show ?thesis
        by (intro exI [of _ "\<lparr>entries = polled (take ?k ?R), cursor = fst (L ! (i + ?k)), truncated = False\<rparr>"]
            exI [of _ ?k]) (simp add: Let_def page_of_def)
    qed
  qed
qed

text \<open>
  C21: against a backend that serves the lines after a cursor in pages, where every line
  has a timestamp of its own and one line of text, a poll that starts at the timestamp of a line returns an entry for exactly the lines
  after its cursor up to the new cursor, in order; it says \<open>truncated\<close> only after the allowed number
  of full pages, and otherwise nothing is left. The entry of a line keeps its timestamp and of its
  text what \<open>parseLogLines\<close> keeps of every line: from the first character that is not white space
  up to the first carriage return.
\<close>
theorem poll_drains_log:
  assumes "distinct (map fst L)" "\<forall>(t, c) \<in> set L. valid_time t \<and> newline \<notin> set c"
    and "0 < limit" "i < length L"
    and "\<And>n i. i < length L \<Longrightarrow> fetchPage n (fst (L ! i)) = Inr (page_of limit (drop (Suc i) L))"
  shows "\<exists>r k. drainLogPages fetchPage (fst (L ! i)) maxPages = Inr r \<and>
    entries r = polled (take k (drop (Suc i) L)) \<and> cursor r = fst (L ! (i + k)) \<and>
    (if truncated r then k = maxPages * limit else drop (Suc i + k) L = [])"
proof -
  from drain_loop [where fetchPage = fetchPage and i = i and j = 0 and page = 0 and left = maxPages, OF assms(1,2,3,5)] assms(4)
  obtain r k where "drainLogPages fetchPage (fst (L ! i)) maxPages = Inr r"
    "entries r = polled (take k (drop (Suc i) L))" "cursor r = fst (L ! (i + k))"
    "if truncated r then k = maxPages * limit else Suc (i + k) = length L"
    unfolding drainLogPages_def add_0 add_0_right take_0 list.map by blast
  then show ?thesis by (intro exI [of _ r] exI [of _ k]) (auto split: if_splits)
qed

definition three_lines :: "(string \<times> string) list" where
  "three_lines = [(''2024-11-26T14:30:00.1Z'', ''a''), (''2024-11-26T14:30:00.2Z'', ''b''), (''2024-11-26T14:30:00.3Z'', ''c'')]"

definition stack_lines :: "(string \<times> string) list" where
  "stack_lines = [(''2024-11-26T14:30:00.1Z'', ''failed''), (''2024-11-26T14:30:00.2Z'', ''    at main''), (''2024-11-26T14:30:00.3Z'', '''')]"

definition serve :: "nat \<Rightarrow> (string \<times> string) list \<Rightarrow> nat \<Rightarrow> string \<Rightarrow> string + log_page" where
  "serve limit L n cur = Inr (page_of limit (tl (dropWhile (\<lambda>e. fst e \<noteq> cur) L)))"

lemma serve_after:
  assumes "distinct (map fst L)" "i < length L"
  shows "serve limit L n (fst (L ! i)) = Inr (page_of limit (drop (Suc i) L))"
proof -
  have split: "L = take i L @ L ! i # drop (Suc i) L" using assms(2) by (rule id_take_nth_drop)
  have "\<forall>e \<in> set (take i L). fst e \<noteq> fst (L ! i)"
  proof
    fix e assume "e \<in> set (take i L)"
    then obtain j where "j < i" "e = L ! j" using assms(2) by (auto simp: in_set_conv_nth)
    then show "fst e \<noteq> fst (L ! i)"
      using nth_eq_iff_index_eq [OF assms(1), of j i] assms(2) by auto
  qed
  then have "dropWhile (\<lambda>e. fst e \<noteq> fst (L ! i)) (take i L @ L ! i # drop (Suc i) L) = L ! i # drop (Suc i) L"
    by (simp add: dropWhile_append3 [symmetric])
  with split show ?thesis by (simp add: serve_def)
qed

theorem poll_drains_log_witness:
  "\<exists>r k. drainLogPages (serve 1 stack_lines) ''2024-11-26T14:30:00.1Z'' 5 = Inr r \<and>
     entries r = polled (take k (drop 1 stack_lines)) \<and> (truncated r \<longrightarrow> k = 5)"
proof -
  have d: "distinct (map fst stack_lines)" and v: "\<forall>(t, c) \<in> set stack_lines. valid_time t \<and> newline \<notin> set c"
    by code_simp+
  have "0 < length stack_lines" by (simp add: stack_lines_def)
  from poll_drains_log [where fetchPage = "serve 1 stack_lines" and limit = 1 and maxPages = 5, OF d v _ this serve_after [OF d]]
  obtain r k where "drainLogPages (serve 1 stack_lines) (fst (stack_lines ! 0)) 5 = Inr r"
    "entries r = polled (take k (drop (Suc 0) stack_lines))" "truncated r \<longrightarrow> k = 5"
    by (auto split: if_splits)
  moreover have "fst (stack_lines ! 0) = ''2024-11-26T14:30:00.1Z''" by (simp add: stack_lines_def)
  ultimately show ?thesis by (metis One_nat_def)
qed

definition serve_after_time :: "nat \<Rightarrow> (string \<times> string) list \<Rightarrow> nat \<Rightarrow> string \<Rightarrow> string + log_page" where
  "serve_after_time limit L n cur = Inr (page_of limit (filter (\<lambda>e. cur < fst e) L))"

text \<open>
  Tied lines skipped: the cursor is a timestamp and the backend serves the lines after it, so when a
  page ends between two lines of the same timestamp the second one is never fetched, although the
  poll does not report that it stopped early.
\<close>
theorem tied_lines_skipped:
  "drainLogPages (serve_after_time 1 [(''2024-11-26T14:30:00.2Z'', ''b''), (''2024-11-26T14:30:00.2Z'', ''c'')])
      ''2024-11-26T14:30:00.1Z'' 5 =
    Inr \<lparr>entries = polled [(''2024-11-26T14:30:00.2Z'', ''b'')], cursor = ''2024-11-26T14:30:00.2Z'', truncated = False\<rparr>"
proof -
  let ?L = "[(''2024-11-26T14:30:00.2Z'', ''b''), (''2024-11-26T14:30:00.2Z'', ''c'')]"
  let ?fetch = "serve_after_time 1 ?L" and ?x = "polled [(''2024-11-26T14:30:00.2Z'', ''b'')]"
  have v: "\<forall>(t, c) \<in> set ?L. valid_time t \<and> newline \<notin> set c" by code_simp
  have p: "page_entries (page_of 1 ?L) = ?x" and e: "page_entries (page_of 1 []) = []"
    using page_entries_of [OF v, of 1] page_entries_of [of "[]" 1] by simp_all
  have "filter (\<lambda>e. ''2024-11-26T14:30:00.1Z'' < fst e) ?L = ?L" "filter (\<lambda>e. ''2024-11-26T14:30:00.2Z'' < fst e) ?L = []"
    by code_simp+
  then have f1: "?fetch n ''2024-11-26T14:30:00.1Z'' = Inr (page_of 1 ?L)"
    and f2: "?fetch n ''2024-11-26T14:30:00.2Z'' = Inr (page_of 1 [])" for n
    by (simp_all only: serve_after_time_def)
  have two: "drain ?fetch (Suc 0) (Suc 3) ''2024-11-26T14:30:00.2Z'' ?x =
      Inr \<lparr>entries = ?x, cursor = ''2024-11-26T14:30:00.2Z'', truncated = False\<rparr>"
    unfolding drain.simps f2 sum.case Let_def e by simp
  have "drain ?fetch 0 (Suc (Suc 3)) ''2024-11-26T14:30:00.1Z'' [] =
      drain ?fetch (Suc 0) (Suc 3) ''2024-11-26T14:30:00.2Z'' ?x"
    unfolding drain.simps(2) [of _ _ "Suc 3"] f1 sum.case Let_def p
    by (simp add: last_time_def appendUniqueLogEntries_def page_of_def del: drain.simps)
  then show ?thesis unfolding drainLogPages_def two by (simp add: eval_nat_numeral del: drain.simps)
qed

end
