(* ===== verification/LogHighlight.thy ===== *)
theory LogHighlight
  imports JsStrings
begin

text \<open>
  Marking the matches of a search in a coloured log line (\<open>highlightMatchesInHtml\<close> of
  \<open>log-viewer/logUtils.ts\<close>). The line is HTML made from the plain text the expression is matched
  against: tags stand for no character, an entity or any other character for one.
  \<open>exec i\<close> is the result of the compiled expression's \<open>exec\<close> with \<open>lastIndex = i\<close>: where the
  match starts and how long it is.
\<close>

definition mark_open :: string where "mark_open = ''<mark class=\"bg-yellow-500/50 text-inherit\">''"
definition mark_close :: string where "mark_close = ''</mark>''"

type_synonym exec = "nat \<Rightarrow> (nat \<times> nat) option"

text \<open>The loop that collects the matches; an empty match ends it.\<close>

partial_function (option) collect :: "exec \<Rightarrow> nat \<Rightarrow> (nat \<times> nat) list option" where
  "collect exec from =
     (case exec from of
        None \<Rightarrow> Some []
      | Some (start, len) \<Rightarrow>
          if len = 0 then Some [(start, start)]
          else Option.bind (collect exec (start + len)) (\<lambda>ms. Some ((start, start + len) # ms)))"

text \<open>The next unit of the HTML: whether it is a tag, its text and what follows.\<close>

definition next_unit :: "string \<Rightarrow> bool \<times> string \<times> string" where
  "next_unit html =
     (let cs = tl html in
      if hd html = CHR ''<'' \<and> CHR ''>'' \<in> set cs
      then (True, hd html # takeWhile (\<lambda>c. c \<noteq> CHR ''>'') cs @ ''>'', tl (dropWhile (\<lambda>c. c \<noteq> CHR ''>'') cs))
      else if hd html = CHR ''&'' \<and> CHR '';'' \<in> set cs \<and> length (takeWhile (\<lambda>c. c \<noteq> CHR '';'') cs) + 1 < 10
      then (False, hd html # takeWhile (\<lambda>c. c \<noteq> CHR '';'') cs @ '';'', tl (dropWhile (\<lambda>c. c \<noteq> CHR '';'') cs))
      else (False, [hd html], cs))"

lemma split_at: "c \<in> set cs \<Longrightarrow> cs = takeWhile (\<lambda>d. d \<noteq> c) cs @ c # tl (dropWhile (\<lambda>d. d \<noteq> c) cs)"
  by (induction cs) auto

lemma next_unit_split:
  assumes "html \<noteq> []" "next_unit html = (tag, u, rest)"
  shows "html = u @ rest \<and> u \<noteq> []"
  using assms split_at [of "CHR ''>''" "tl html"] split_at [of "CHR '';''" "tl html"]
  by (cases html) (auto simp: next_unit_def Let_def split: if_splits)

lemma next_unit_shorter: "html \<noteq> [] \<Longrightarrow> next_unit html = (tag, u, rest) \<Longrightarrow> length rest < length html"
  using next_unit_split [of html tag u rest] by (cases u) auto

function walk :: "string \<Rightarrow> nat \<Rightarrow> (nat \<times> nat) list \<Rightarrow> bool \<Rightarrow> string" where
  "walk html plainIdx matches inHighlight =
     (if html = [] then (if inHighlight then mark_close else [])
      else case next_unit html of (tag, u, rest) \<Rightarrow>
        if tag then
          (if inHighlight then mark_close @ u @ mark_open else u) @ walk rest plainIdx matches inHighlight
        else
          (let begins = (\<not> inHighlight \<and> matches \<noteq> [] \<and> plainIdx = fst (hd matches));
               inside = (inHighlight \<or> begins);
               ends = (inside \<and> matches \<noteq> [] \<and> plainIdx + 1 = snd (hd matches))
           in (if begins then mark_open else []) @ u @ (if ends then mark_close else []) @
              walk rest (plainIdx + 1) (if ends then tl matches else matches) (inside \<and> \<not> ends)))"
  by pat_completeness auto
termination
  by (relation "measure (\<lambda>(html, p, ms, inH). length html)") (auto dest: next_unit_shorter [OF _ sym])

declare walk.simps [simp del]

definition highlightMatchesInHtml :: "string \<Rightarrow> exec option \<Rightarrow> string option" where
  "highlightMatchesInHtml html searchRegex =
     (case searchRegex of
        None \<Rightarrow> Some html
      | Some exec \<Rightarrow>
          map_option (\<lambda>matches. if matches = [] then html else walk html 0 matches False) (collect exec 0))"

section \<open>The matches\<close>

text \<open>What the language promises of \<open>exec\<close> on a text of \<open>n\<close> characters.\<close>

definition exec_ok :: "nat \<Rightarrow> exec \<Rightarrow> bool" where
  "exec_ok n exec \<longleftrightarrow> (\<forall>i start len. exec i = Some (start, len) \<longrightarrow> i \<le> start \<and> start + len \<le> n)"

fun matches_from :: "nat \<Rightarrow> (nat \<times> nat) list \<Rightarrow> bool" where
  "matches_from p [] = True"
| "matches_from p ((s, e) # ms) = (p \<le> s \<and> (s < e \<and> matches_from e ms \<or> s = e \<and> ms = []))"

lemma collect_returns:
  assumes "exec_ok n exec"
  shows "\<exists>ms. collect exec from = Some ms \<and> matches_from from ms"
proof (induction "Suc n - from" arbitrary: "from" rule: less_induct)
  case less
  show ?case
  proof (cases "exec from")
    case None
    then show ?thesis by (simp add: collect.simps)
  next
    case (Some m)
    obtain start len where m: "m = (start, len)" by (cases m)
    with Some assms have b: "from \<le> start" "start + len \<le> n" by (auto simp: exec_ok_def)
    show ?thesis
    proof (cases "len = 0")
      case True
      with Some m b show ?thesis by (auto simp: collect.simps [of exec "from"])
    next
      case False
      with b have "Suc n - (start + len) < Suc n - from" by auto
      from less [OF this] obtain ms where "collect exec (start + len) = Some ms" "matches_from (start + len) ms"
        by blast
      with Some m False b show ?thesis by (auto simp: collect.simps [of exec "from"])
    qed
  qed
qed

text \<open>
  The matches of an expression from a position on, one after the other, where none is empty:
  each starts at the end of the one before or later, and after the last there is no other.
\<close>

fun successive :: "exec \<Rightarrow> nat \<Rightarrow> (nat \<times> nat) list \<Rightarrow> bool" where
  "successive exec p [] = (exec p = None)"
| "successive exec p ((s, e) # ms) = (exec p = Some (s, e - s) \<and> s < e \<and> successive exec e ms)"

lemma collect_successive:
  assumes "\<forall>i s. exec i \<noteq> Some (s, 0)" "collect exec p = Some ms"
  shows "successive exec p ms"
  using assms(2)
proof (induction ms arbitrary: p)
  case Nil
  then show ?case
    using assms(1) by (auto simp: collect.simps [of exec p] split: option.splits if_splits Option.bind_splits)
next
  case (Cons m ms)
  then obtain s len where m: "exec p = Some (s, len)" by (auto simp: collect.simps [of exec p] split: option.splits)
  with assms(1) have "0 < len" by (cases len) auto
  with m Cons show ?case
    by (auto simp: collect.simps [of exec p] split: Option.bind_splits)
qed

section \<open>What is marked\<close>

text \<open>
  \<open>marked S p inH out html\<close>: \<open>out\<close> is \<open>html\<close> with marks around some of its text, where the text
  from here on starts at position \<open>p\<close> of the plain text, \<open>inH\<close> says whether a mark is open, tags
  are outside marks, and a character is inside a mark exactly when its position is in \<open>S\<close>.
\<close>

inductive marked :: "nat set \<Rightarrow> nat \<Rightarrow> bool \<Rightarrow> string \<Rightarrow> string \<Rightarrow> bool" where
  Done: "marked S p False [] []"
| Open: "marked S p True out html \<Longrightarrow> marked S p False (mark_open @ out) html"
| Close: "marked S p False out html \<Longrightarrow> marked S p True (mark_close @ out) html"
| Tag: "html \<noteq> [] \<Longrightarrow> next_unit html = (True, u, rest) \<Longrightarrow> marked S p False out rest \<Longrightarrow> marked S p False (u @ out) html"
| Char: "html \<noteq> [] \<Longrightarrow> next_unit html = (False, u, rest) \<Longrightarrow> inH = (p \<in> S) \<Longrightarrow> marked S (Suc p) inH out rest \<Longrightarrow>
    marked S p inH (u @ out) html"

text \<open>
  The positions the walk marks: those of the matches, and all from an empty match on, whose mark is
  only closed by the end of the line.
\<close>

fun marked_by :: "(nat \<times> nat) list \<Rightarrow> nat set" where
  "marked_by [] = {}"
| "marked_by ((s, e) # ms) = (if s = e then {s..} else {s..<e}) \<union> marked_by ms"

lemma marked_by_from: "matches_from p ms \<Longrightarrow> q \<in> marked_by ms \<Longrightarrow> p \<le> q"
proof (induction ms arbitrary: p)
  case (Cons m ms)
  obtain s e where m: "m = (s, e)" by (cases m)
  then consider "q \<in> (if s = e then {s..} else {s..<e})" | "q \<in> marked_by ms" using Cons.prems(2) by auto
  then show ?case
  proof cases
    case 1
    with m Cons.prems(1) show ?thesis by (simp split: if_splits)
  next
    case 2
    with m Cons.prems(1) Cons.IH [of e] show ?thesis by auto
  qed
qed simp

text \<open>The state of the walk: where it is relative to the matches that are left.\<close>

definition walking :: "nat set \<Rightarrow> nat \<Rightarrow> (nat \<times> nat) list \<Rightarrow> bool \<Rightarrow> bool" where
  "walking S p ms inH \<longleftrightarrow>
     (if inH then \<exists>s e ms'. ms = (s, e) # ms' \<and> s \<le> p \<and>
          (p < e \<and> matches_from e ms' \<and> (\<forall>q \<ge> p. q \<in> S \<longleftrightarrow> q < e \<or> q \<in> marked_by ms') \<or>
           s = e \<and> ms' = [] \<and> (\<forall>q \<ge> p. q \<in> S))
      else matches_from p ms \<and> (\<forall>q \<ge> p. q \<in> S \<longleftrightarrow> q \<in> marked_by ms))"

lemma matches_from_Suc: "matches_from p ms \<Longrightarrow> p \<notin> marked_by ms \<Longrightarrow> matches_from (Suc p) ms"
  by (cases ms) (auto split: if_splits simp: le_less Suc_le_eq)

lemma walking_inside:
  assumes "walking S p ms True"
  shows "p \<in> S" "walking S (Suc p) (if p + 1 = snd (hd ms) then tl ms else ms) (p + 1 \<noteq> snd (hd ms))"
proof -
  from assms obtain s e ms' where ms: "ms = (s, e) # ms'" "s \<le> p" and
    "p < e \<and> matches_from e ms' \<and> (\<forall>q \<ge> p. q \<in> S \<longleftrightarrow> q < e \<or> q \<in> marked_by ms') \<or> s = e \<and> ms' = [] \<and> (\<forall>q \<ge> p. q \<in> S)"
    by (auto simp: walking_def)
  then consider (full) "p < e" "matches_from e ms'" "\<forall>q \<ge> p. q \<in> S \<longleftrightarrow> q < e \<or> q \<in> marked_by ms'"
    | (empty) "s = e" "ms' = []" "\<forall>q \<ge> p. q \<in> S" by blast
  then have "p \<in> S \<and> walking S (Suc p) (if p + 1 = snd (hd ms) then tl ms else ms) (p + 1 \<noteq> snd (hd ms))"
    by cases (use ms in \<open>auto simp: walking_def\<close>)
  then show "p \<in> S" "walking S (Suc p) (if p + 1 = snd (hd ms) then tl ms else ms) (p + 1 \<noteq> snd (hd ms))"
    by auto
qed

lemma walking_begins: "walking S p ms False \<Longrightarrow> ms \<noteq> [] \<Longrightarrow> p = fst (hd ms) \<Longrightarrow> walking S p ms True"
  by (cases ms) (auto simp: walking_def split: if_splits)

lemma walking_outside:
  assumes "walking S p ms False" "\<not> (ms \<noteq> [] \<and> p = fst (hd ms))"
  shows "p \<notin> S" "walking S (Suc p) ms False"
proof -
  from assms have m: "matches_from p ms" and S: "\<forall>q \<ge> p. q \<in> S \<longleftrightarrow> q \<in> marked_by ms"
    by (auto simp: walking_def)
  have "p \<notin> marked_by ms"
  proof (cases ms)
    case (Cons x ms')
    obtain s e where x: "x = (s, e)" by (cases x)
    with Cons assms(2) m have "p < s" "matches_from e ms'" "s \<le> e" by auto
    with x Cons marked_by_from [of e ms' p] show ?thesis by (auto split: if_splits)
  qed simp
  with S matches_from_Suc [OF m] show "p \<notin> S" "walking S (Suc p) ms False" by (auto simp: walking_def)
qed

lemma walking_next:
  assumes "walking S p ms inH"
    and "begins = (\<not> inH \<and> ms \<noteq> [] \<and> p = fst (hd ms))" "inside = (inH \<or> begins)"
    and "ends = (inside \<and> ms \<noteq> [] \<and> p + 1 = snd (hd ms))"
  shows "inside = (p \<in> S)" "walking S (Suc p) (if ends then tl ms else ms) (inside \<and> \<not> ends)"
proof -
  have "inside = (p \<in> S) \<and> walking S (Suc p) (if ends then tl ms else ms) (inside \<and> \<not> ends)"
  proof (cases inside)
    case True
    then have w: "walking S p ms True" using assms walking_begins by auto
    then have "ms \<noteq> []" by (auto simp: walking_def)
    with True walking_inside [OF w] assms(4) show ?thesis by auto
  next
    case False
    with assms walking_outside [of S p ms] show ?thesis by auto
  qed
  then show "inside = (p \<in> S)" "walking S (Suc p) (if ends then tl ms else ms) (inside \<and> \<not> ends)" by auto
qed

lemma walk_marked: "walking S p ms inH \<Longrightarrow> marked S p inH (walk html p ms inH) html"
proof (induction html p ms inH rule: walk.induct)
  case (1 html p ms inH)
  show ?case
  proof (cases "html = []")
    case True
    then show ?thesis
      using Close [OF Done, of S p] by (cases inH) (simp_all add: walk.simps Done)
  next
    case False
    obtain tag u rest where n: "next_unit html = (tag, u, rest)" by (cases "next_unit html") auto
    show ?thesis
    proof (cases tag)
      case True
      from 1(1) [OF False n [symmetric] refl True] 1(3)
      have r: "marked S p inH (walk rest p ms inH) rest" by blast
      show ?thesis
      proof (cases inH)
        case h: True
        from r h have "marked S p False (mark_open @ walk rest p ms inH) rest" by (auto intro: Open)
        from Close [OF Tag [OF False _ this]] n True h show ?thesis
          by (simp add: walk.simps [of html] False)
      next
        case h: False
        with Tag [OF False, of u rest S p] r n True show ?thesis by (simp add: walk.simps [of html] False)
      qed
    next
      case nt: False
      define begins where "begins = (\<not> inH \<and> ms \<noteq> [] \<and> p = fst (hd ms))"
      define inside where "inside = (inH \<or> begins)"
      define ends where "ends = (inside \<and> ms \<noteq> [] \<and> p + 1 = snd (hd ms))"
      let ?w = "walk rest (Suc p) (if ends then tl ms else ms) (inside \<and> \<not> ends)"
      note w = walking_next [OF 1(3) begins_def inside_def ends_def]
      have "marked S (Suc p) (inside \<and> \<not> ends) ?w rest"
        using 1(2) [OF False n [symmetric] refl nt begins_def inside_def ends_def] w(2) by simp
      then have "marked S (Suc p) inside ((if ends then mark_close else []) @ ?w) rest"
        by (cases ends) (auto simp: ends_def intro: Close)
      from Char [OF False _ w(1) this] n nt
      have c: "marked S p inside (u @ (if ends then mark_close else []) @ ?w) html" by simp
      have "walk html p ms inH = (if begins then mark_open else []) @ u @ (if ends then mark_close else []) @ ?w"
        unfolding walk.simps [of html] Let_def begins_def [symmetric] inside_def [symmetric] ends_def [symmetric]
        by (simp add: False n nt Let_def)
      then show ?thesis using c by (auto simp: begins_def inside_def intro: Open)
    qed
  qed
qed

lemma marked_self: "marked {} p False html html"
proof (induction "length html" arbitrary: html p rule: less_induct)
  case less
  show ?case
  proof (cases "html = []")
    case False
    obtain tag u rest where n: "next_unit html = (tag, u, rest)" by (cases "next_unit html") auto
    with False have u: "html = u @ rest" "length rest < length html"
      using next_unit_split next_unit_shorter by blast+
    show ?thesis
      using less [OF u(2), of p] less [OF u(2), of "Suc p"] Tag [OF False, of u rest] Char [OF False, of u rest False p "{}"] n u(1)
      by (cases tag) auto
  qed (simp add: Done)
qed

section \<open>Highlighting\<close>

text \<open>The characters of the matches.\<close>

definition covered :: "(nat \<times> nat) list \<Rightarrow> nat set" where
  "covered ms = (\<Union>(s, e) \<in> set ms. {s..<e})"

lemma marked_by_covered: "successive exec p ms \<Longrightarrow> marked_by ms = covered ms"
  by (induction exec p ms rule: successive.induct) (auto simp: covered_def)

lemma highlight_walk:
  assumes "exec_ok n exec"
  shows "\<exists>ms out. collect exec 0 = Some ms \<and> highlightMatchesInHtml html (Some exec) = Some out \<and>
    marked (marked_by ms) 0 False out html"
proof -
  obtain ms where ms: "collect exec 0 = Some ms" "matches_from 0 ms" using collect_returns [OF assms] by blast
  then have w: "walking (marked_by ms) 0 ms False" by (simp add: walking_def)
  have "marked (marked_by ms) 0 False (if ms = [] then html else walk html 0 ms False) html"
    using walk_marked [OF w, of html] marked_self by simp
  with ms show ?thesis by (simp add: highlightMatchesInHtml_def)
qed

text \<open>
  C26: for an expression whose matches lie in the text and start where the search starts or later, as
  the language specifies, highlighting a log line always returns. When the expression has no empty
  match in the line, what it returns is the line's HTML with marks around exactly the characters of
  the expression's successive matches: every mark is closed, none contains a tag, and no character
  of the line is lost, entities counting as the one character they stand for. (With an empty match
  the code marks the rest of the line, \<open>empty_match_marks_line\<close>.)
\<close>

theorem highlight_marks_matches:
  assumes "exec_ok n exec"
  shows "\<exists>out. highlightMatchesInHtml html (Some exec) = Some out \<and>
    ((\<forall>i s. exec i \<noteq> Some (s, 0)) \<longrightarrow>
       (\<exists>ms. successive exec 0 ms \<and> marked (covered ms) 0 False out html))"
proof -
  obtain ms out where ms: "collect exec 0 = Some ms" and out: "highlightMatchesInHtml html (Some exec) = Some out"
    and m: "marked (marked_by ms) 0 False out html" using highlight_walk [OF assms] by blast
  have "\<exists>ms. successive exec 0 ms \<and> marked (covered ms) 0 False out html" if "\<forall>i s. exec i \<noteq> Some (s, 0)"
    using collect_successive [OF that ms] m marked_by_covered by metis
  with out show ?thesis by blast
qed

theorem highlight_marks_matches_witness:
  "\<exists>ms. successive (\<lambda>i. if i \<le> 1 then Some (1, 2) else None) 0 ms \<and>
     marked (covered ms) 0 False (''<b>a'' @ mark_open @ ''&lt;c'' @ mark_close @ ''</b>'') ''<b>a&lt;c</b>''"
proof -
  let ?exec = "\<lambda>i. if i \<le> 1 then Some (1, 2) else None"
  have ok: "exec_ok 3 ?exec" by (auto simp: exec_ok_def split: if_splits)
  have "highlightMatchesInHtml ''<b>a&lt;c</b>'' (Some ?exec) =
     Some (''<b>a'' @ mark_open @ ''&lt;c'' @ mark_close @ ''</b>'')"
    by (simp add: highlightMatchesInHtml_def collect.simps walk.simps next_unit_def)
  with highlight_marks_matches [OF ok, of "''<b>a&lt;c</b>''"] show ?thesis by simp
qed

text \<open>
  Empty match marks line: an expression whose first match in the line is empty, as \<open>x*\<close>
  where the line does not begin with an x, marks the line from there to its end.
\<close>

theorem empty_match_marks_line:
  assumes "exec 0 = Some (s, 0)"
  shows "\<exists>out. highlightMatchesInHtml html (Some exec) = Some out \<and> marked {s..} 0 False out html"
proof -
  have "walking {s..} 0 [(s, s)] False" by (simp add: walking_def)
  from walk_marked [OF this, of html] assms show ?thesis
    by (simp add: highlightMatchesInHtml_def collect.simps [of exec 0])
qed

theorem empty_match_marks_line_witness:
  "\<exists>out. highlightMatchesInHtml ''abc'' (Some (\<lambda>i. Some (i, 0))) = Some out \<and> marked {0..} 0 False out ''abc''"
  by (rule empty_match_marks_line) simp

end
