(* ===== verification/Settings.thy ===== *)
theory Settings
  imports JsValue "HOL-Library.Multiset"
begin

text \<open>
  The settings document (\<open>context/ConfigContext.tsx\<close>): the defaults, migration of old documents,
  merging a stored document into the defaults, the difference that is stored, and access by path.

  A document stands for its JSON text: \<open>json v\<close> is what \<open>JSON.parse(JSON.stringify(v))\<close> gives, and
  two values have the same text when it is the same. \<open>None\<close> is a thrown \<open>TypeError\<close>. Paths into
  arrays, which the application never sets, are outside the model, as is the key \<open>__proto__\<close>.
\<close>

section \<open>Documents\<close>

definition own_props :: "jsv \<Rightarrow> (string \<times> jsv) list" where  \<comment> \<open>\<open>{ ...v }\<close>, \<open>for (const key in v)\<close>\<close>
  "own_props v = (case jentries v of Some kvs \<Rightarrow> kvs | None \<Rightarrow> [])"

fun json :: "jsv \<Rightarrow> jsv" where
  "json (JArr xs) = JArr (map (\<lambda>x. if x = JUndef then JNull else json x) xs)"
| "json (JObj kvs) = JObj (map (\<lambda>(k, v). (k, json v)) (filter (\<lambda>(k, v). v \<noteq> JUndef) kvs))"
| "json v = v"

definition is_object :: "jsv \<Rightarrow> bool" where  \<comment> \<open>\<open>v && typeof v === 'object' && !Array.isArray(v)\<close>\<close>
  "is_object v = (case v of JObj _ \<Rightarrow> True | _ \<Rightarrow> False)"

definition is_array :: "jsv \<Rightarrow> bool" where
  "is_array v = (case v of JArr _ \<Rightarrow> True | _ \<Rightarrow> False)"

definition typeof_object :: "jsv \<Rightarrow> bool" where
  "typeof_object v = (case v of JObj _ \<Rightarrow> True | JArr _ \<Rightarrow> True | JNull \<Rightarrow> True | _ \<Rightarrow> False)"

definition js_sort :: "jsv list \<Rightarrow> jsv list" where  \<comment> \<open>\<open>[...xs].sort()\<close>\<close>
  "js_sort xs = sort_key jstring (filter (\<lambda>x. x \<noteq> JUndef) xs) @ filter (\<lambda>x. x = JUndef) xs"

abbreviation prop_of :: "(string \<times> jsv) list \<Rightarrow> string \<Rightarrow> jsv" where
  "prop_of kvs k \<equiv> js_member (JObj kvs) k"

section \<open>Merging and comparing\<close>

text \<open>Only objects are merged and compared recursively: their nesting bounds the recursion.\<close>

fun nesting :: "jsv \<Rightarrow> nat" where
  "nesting (JObj kvs) = Suc (sum_list (map (\<lambda>(k, v). Suc (nesting v)) kvs))"
| "nesting _ = 0"

definition props_nesting :: "(string \<times> jsv) list \<Rightarrow> nat" where
  "props_nesting kvs = sum_list (map (\<lambda>(k, v). Suc (nesting v)) kvs)"

lemma nesting_object: "is_object v \<Longrightarrow> nesting v = Suc (props_nesting (own_props v))"
  by (cases v) (simp_all add: is_object_def own_props_def props_nesting_def)

lemma props_nesting_Cons [simp]: "props_nesting ((k, v) # kvs) = Suc (nesting v) + props_nesting kvs"
  by (simp add: props_nesting_def)

function (sequential) deepMerge :: "jsv \<Rightarrow> jsv \<Rightarrow> jsv"
  and merge_props :: "(string \<times> jsv) list \<Rightarrow> (string \<times> jsv) list \<Rightarrow> (string \<times> jsv) list" where
  "deepMerge target source = JObj (merge_props (own_props target) (own_props source))"
| "merge_props result [] = result"
| "merge_props result ((k, v) # kvs) =
     merge_props (map_set k (if is_object v then deepMerge (jor (prop_of result k) (JObj [])) v else v) result) kvs"
  by pat_completeness auto
termination
  by (relation "measure (case_sum (\<lambda>(t, s). Suc (props_nesting (own_props s))) (\<lambda>(r, kvs). props_nesting kvs))")
    (auto simp: nesting_object)

declare deepMerge.simps [simp del]

text \<open>The entry \<open>getDiff\<close> stores for a value that is not an object, if any.\<close>

definition array_differs :: "jsv list \<Rightarrow> jsv \<Rightarrow> bool option" where
  "array_differs xs defaultVal =
     (if xs \<noteq> [] \<and> typeof_object (hd xs)
      then Some (json (JArr xs) \<noteq> json (jor defaultVal (JArr [])))
      else do { ds \<leftarrow> jiter (jor defaultVal (JArr []));
                Some (json (JArr (js_sort xs)) \<noteq> json (JArr (js_sort ds))) })"

function (sequential) getDiff :: "jsv \<Rightarrow> jsv \<Rightarrow> jsv option"
  and diff_props :: "(string \<times> jsv) list \<Rightarrow> jsv \<Rightarrow> (string \<times> jsv) list \<Rightarrow> (string \<times> jsv) list option" where
  "getDiff current defaults = map_option JObj (diff_props [] defaults (own_props current))"
| "diff_props diff defaults [] = Some diff"
| "diff_props diff defaults ((k, v) # kvs) =
     (let defaultVal = jopt defaults k in
      if is_object v
      then (case getDiff v (jor defaultVal (JObj [])) of
              None \<Rightarrow> None
            | Some nestedDiff \<Rightarrow>
                diff_props (if own_props nestedDiff \<noteq> [] then map_set k nestedDiff diff else diff) defaults kvs)
      else case v of
        JArr xs \<Rightarrow>
          (case array_differs xs defaultVal of
             None \<Rightarrow> None
           | Some b \<Rightarrow> diff_props (if b then map_set k v diff else diff) defaults kvs)
      | _ \<Rightarrow> diff_props (if v \<noteq> defaultVal then map_set k v diff else diff) defaults kvs)"
  by pat_completeness auto
termination
  by (relation "measure (case_sum (\<lambda>(c, d). Suc (props_nesting (own_props c))) (\<lambda>(r, d, kvs). props_nesting kvs))")
    (auto simp: nesting_object)

declare getDiff.simps [simp del] diff_props.simps [simp del]

section \<open>Access by path\<close>

definition getByPath :: "jsv \<Rightarrow> string \<Rightarrow> jsv" where
  "getByPath obj path = foldl jopt obj (split_on CHR ''.'' path)"

text \<open>The walk of \<open>setByPath\<close> over the parts, which creates the objects that are missing.\<close>

fun set_parts :: "string list \<Rightarrow> jsv \<Rightarrow> jsv \<Rightarrow> jsv option" where
  "set_parts (p # ps) value (JObj kvs) =
     (if ps = [] then Some (JObj (map_set p value kvs))
      else map_option (\<lambda>x. JObj (map_set p x kvs)) (set_parts ps value (jor (prop_of kvs p) (JObj []))))"
| "set_parts _ _ _ = None"

definition setByPath :: "jsv \<Rightarrow> string \<Rightarrow> jsv \<Rightarrow> jsv option" where
  "setByPath obj path value = set_parts (split_on CHR ''.'' path) value (json obj)"

section \<open>Defaults, migration, loading and saving\<close>

definition defaultConfig :: jsv where
  "defaultConfig = JObj [
     (''logs'', JObj [
       (''lineWrap'', JBool True), (''showTimestamps'', JBool False), (''position'', JStr ''end''),
       (''search'', JObj [
         (''debounceMs'', JNum 200), (''searchOnEnter'', JBool True), (''useRegex'', JBool False),
         (''filterOnly'', JBool True), (''contextLinesBefore'', JNum 1), (''contextLinesAfter'', JNum 5)])]),
     (''ai'', JObj [
       (''model'', JStr ''sonnet''), (''panelWidth'', JNum 384),
       (''allowedTools'', JArr (map JStr [
         ''get_pod_logs'', ''get_resource_yaml'', ''list_resources'', ''get_events'', ''describe_resource'',
         ''list_crds'', ''list_custom_resources'', ''get_custom_resource_yaml'']))]),
     (''ui'', JObj [
       (''searchDebounceMs'', JNum 150), (''copyFeedbackMs'', JNum 2000), (''scrollZoomEnabled'', JBool False),
       (''showTabIcons'', JBool True), (''largeDatasetThreshold'', JNum 5000)]),
     (''kubernetes'', JObj [
       (''apiTimeoutMs'', JNum 60000), (''metricsPollIntervalMs'', JNum 30000),
       (''connectionTestTimeoutSeconds'', JNum 5), (''nodeDebugImage'', JStr ''alpine:latest'')]),
     (''metrics'', JObj [(''preferredSource'', JStr ''auto'')]),
     (''performance'', JObj [
       (''pollIntervalMs'', JNum 1500), (''eventCoalescerMs'', JNum 16), (''enableRequestCancellation'', JBool True),
       (''forceHttp1'', JBool False), (''clientPoolSize'', JNum 0)]),
     (''debug'', JObj [(''showDebugIcon'', JBool False), (''showLogSourceMarkers'', JBool False)])]"

text \<open>Assigning to a property of a primitive value throws; one of an array is not enumerated as an entry.\<close>

fun with_prop :: "jsv \<Rightarrow> string \<Rightarrow> jsv \<Rightarrow> jsv option" where
  "with_prop (JObj kvs) k v = Some (JObj (map_set k v kvs))"
| "with_prop (JArr xs) k v = Some (JArr xs)"
| "with_prop _ k v = None"

definition migrateConfig :: "jsv \<Rightarrow> jsv option" where
  "migrateConfig config =
     do { metrics \<leftarrow> jget config ''metrics'';
          let migrated = own_props config;
          let interval = jopt metrics ''pollIntervalMs'';
          if interval = JUndef then Some (JObj migrated)
          else do {
            let kubernetes = jor (prop_of migrated ''kubernetes'') (JObj []);
            polled \<leftarrow> (if jopt kubernetes ''metricsPollIntervalMs'' = JUndef
                       then with_prop kubernetes ''metricsPollIntervalMs'' interval else Some kubernetes);
            Some (JObj (map_delete ''metrics'' (map_set ''kubernetes'' polled migrated))) } }"

text \<open>What the storage holds under the settings key: nothing, a text that does not parse, or a document.\<close>

datatype stored_settings = Absent | Unreadable | Stored jsv

definition load_settings :: "stored_settings \<Rightarrow> jsv" where
  "load_settings stored =
     (case stored of
        Stored parsed \<Rightarrow>
          (case migrateConfig parsed of
             Some migrated \<Rightarrow> deepMerge defaultConfig migrated
           | None \<Rightarrow> defaultConfig)
      | _ \<Rightarrow> defaultConfig)"

text \<open>The effect that stores the difference; on a thrown error the storage keeps what it had.\<close>

definition save_settings :: "jsv \<Rightarrow> stored_settings \<Rightarrow> stored_settings" where
  "save_settings config before =
     (case getDiff config defaultConfig of
        None \<Rightarrow> before
      | Some diff \<Rightarrow> if own_props diff \<noteq> [] then Stored (json diff) else Absent)"

definition getConfig :: "jsv \<Rightarrow> string \<Rightarrow> jsv" where
  "getConfig config path =
     (let value = getByPath config path in if value = JUndef then getByPath defaultConfig path else value)"

definition setConfig :: "string \<Rightarrow> jsv \<Rightarrow> jsv \<Rightarrow> jsv option" where
  "setConfig path value prev = setByPath prev path value"

definition updateConfig :: "jsv \<Rightarrow> jsv" where
  "updateConfig newConfig = deepMerge defaultConfig newConfig"

section \<open>Looking up merged and compared documents\<close>

lemma merge_lookup:
  "distinct (map fst kvs) \<Longrightarrow> map_of (merge_props result kvs) k =
     (case map_of kvs k of
        None \<Rightarrow> map_of result k
      | Some v \<Rightarrow> Some (if is_object v then deepMerge (jor (prop_of result k) (JObj [])) v else v))"
proof (induction kvs arbitrary: result)
  case (Cons kv kvs)
  obtain k' v where kv: "kv = (k', v)" by (cases kv)
  with Cons.prems have "map_of kvs k' = None" by (simp add: map_of_eq_None_iff)
  with Cons kv show ?case by (auto simp: update_conv' simp del: map_of_eq_Some_iff split: option.splits)
qed simp

text \<open>The entry the difference has for one property.\<close>

definition diff_entry :: "jsv \<Rightarrow> string \<Rightarrow> jsv \<Rightarrow> jsv option option" where
  "diff_entry defaults k v =
     (if is_object v
      then map_option (\<lambda>n. if own_props n \<noteq> [] then Some n else None) (getDiff v (jor (jopt defaults k) (JObj [])))
      else case v of
        JArr xs \<Rightarrow> map_option (\<lambda>b. if b then Some v else None) (array_differs xs (jopt defaults k))
      | _ \<Rightarrow> Some (if v \<noteq> jopt defaults k then Some v else None))"

lemma diff_props_Cons:
  "diff_props diff defaults ((k, v) # kvs) =
     (case diff_entry defaults k v of
        None \<Rightarrow> None
      | Some e \<Rightarrow> diff_props (case e of None \<Rightarrow> diff | Some x \<Rightarrow> map_set k x diff) defaults kvs)"
  by (auto simp: diff_props.simps diff_entry_def Let_def is_object_def split: option.splits jsv.splits)

lemma diff_lookup:
  assumes "distinct (map fst kvs)" "\<forall>(k, v) \<in> set kvs. diff_entry defaults k v \<noteq> None" "map_wf diff"
    and "fst ` set diff \<inter> fst ` set kvs = {}"
  shows "\<exists>r. diff_props diff defaults kvs = Some r \<and> map_wf r \<and>
    (\<forall>k. map_of r k = (case map_of kvs k of None \<Rightarrow> map_of diff k | Some v \<Rightarrow> the (diff_entry defaults k v)))"
  using assms
proof (induction kvs arbitrary: diff)
  case (Cons kv kvs)
  obtain k v where kv: "kv = (k, v)" by (cases kv)
  obtain e where e: "diff_entry defaults k v = Some e" using Cons.prems(2) kv by auto
  let ?d = "case e of None \<Rightarrow> diff | Some x \<Rightarrow> map_set k x diff"
  have fresh: "map_of diff k = None" using Cons.prems(4) kv by (force simp: map_of_eq_None_iff)
  have "map_wf ?d" using Cons.prems(3) by (auto simp: distinct_update split: option.split)
  moreover have "fst ` set ?d \<inter> fst ` set kvs = {}"
    using Cons.prems(1,4) kv by (auto simp: dom_update split: option.split)
  ultimately obtain r where r: "diff_props ?d defaults kvs = Some r" "map_wf r"
    "\<forall>k. map_of r k = (case map_of kvs k of None \<Rightarrow> map_of ?d k | Some v \<Rightarrow> the (diff_entry defaults k v))"
    using Cons.IH [of ?d] Cons.prems(1,2) kv by auto
  have "map_of kvs k = None" using Cons.prems(1) kv by (simp add: map_of_eq_None_iff)
  then show ?case
    using r e fresh by (auto simp: kv diff_props_Cons update_conv' split: option.splits)
qed (simp add: diff_props.simps)

lemma json_lookup:
  "distinct (map fst kvs) \<Longrightarrow>
     map_of (map (\<lambda>(k, v). (k, json v)) (filter (\<lambda>(k, v). v \<noteq> JUndef) kvs)) k =
       (case map_of kvs k of Some v \<Rightarrow> if v = JUndef then None else Some (json v) | None \<Rightarrow> None)"
proof (induction kvs)
  case (Cons kv kvs)
  obtain k' v where kv: "kv = (k', v)" by (cases kv)
  with Cons.prems have "map_of kvs k' = None" by (simp add: map_of_eq_None_iff)
  with Cons kv show ?case by (cases "k = k'") (auto simp del: map_of_eq_Some_iff)
qed simp

lemma json_distinct:
  "distinct (map fst kvs) \<Longrightarrow> distinct (map fst (map (\<lambda>(k, v). (k, json v)) (filter (\<lambda>(k, v). v \<noteq> JUndef) kvs)))"
  by (simp add: comp_def case_prod_beta distinct_map_filter)

section \<open>Settings survive a restart\<close>

text \<open>
  Two documents with the same settings: lists of plain values may differ in order (the code
  compares them as sorted), a property that is \<open>undefined\<close> counts as absent.
\<close>

inductive same_settings :: "jsv \<Rightarrow> jsv \<Rightarrow> bool" where
  Same: "same_settings v v"
| Reordered: "mset xs = mset ys \<Longrightarrow> xs = [] \<or> \<not> typeof_object (hd xs) \<Longrightarrow> same_settings (JArr ys) (JArr xs)"
| Objects: "(\<And>k. same_settings (prop_of xs k) (prop_of ys k)) \<Longrightarrow> same_settings (JObj xs) (JObj ys)"

text \<open>
  \<open>storable d c\<close>: the settings \<open>c\<close> keep the shape of the defaults \<open>d\<close>. Where the defaults have
  an object or a list, so has \<open>c\<close>, no default is undefined in \<open>c\<close>, and what \<open>c\<close> adds is not hollow: an
  added list is not empty and an added object has a defined property.
\<close>

inductive storable :: "jsv \<Rightarrow> jsv \<Rightarrow> bool" where
  Value: "\<not> is_object c \<Longrightarrow> \<not> is_array c \<Longrightarrow> c \<noteq> JUndef \<or> d = JUndef \<Longrightarrow> json c = c \<Longrightarrow> storable d c"
| ListValue: "json (JArr ds) = JArr ds \<Longrightarrow> json (JArr xs) = JArr xs \<Longrightarrow> storable (JArr ds) (JArr xs)"
| NewList: "json (JArr xs) = JArr xs \<Longrightarrow> xs \<noteq> [] \<Longrightarrow> storable JUndef (JArr xs)"
| Section: "distinct (map fst cs) \<Longrightarrow> (\<And>k. prop_of ds k \<noteq> JUndef \<Longrightarrow> prop_of cs k \<noteq> JUndef) \<Longrightarrow>
    (\<And>k. storable (prop_of ds k) (prop_of cs k)) \<Longrightarrow> storable (JObj ds) (JObj cs)"
| NewSection: "distinct (map fst cs) \<Longrightarrow> (\<And>k. storable JUndef (prop_of cs k)) \<Longrightarrow> prop_of cs k \<noteq> JUndef \<Longrightarrow>
    storable JUndef (JObj cs)"

lemma json_array_elems: "json (JArr xs) = JArr xs \<Longrightarrow> x \<in> set xs \<Longrightarrow> x \<noteq> JUndef \<and> json x = x"
  by (auto simp: list_eq_iff_nth_eq in_set_conv_nth split: if_splits)

lemma json_array: "\<forall>x \<in> set xs. x \<noteq> JUndef \<and> json x = x \<Longrightarrow> json (JArr xs) = JArr xs"
  by (auto intro: map_idI)

lemma js_sort_json: "json (JArr xs) = JArr xs \<Longrightarrow> json (JArr (js_sort xs)) = JArr (sort_key jstring xs)"
proof -
  assume "json (JArr xs) = JArr xs"
  note e = json_array_elems [OF this]
  then have "js_sort xs = sort_key jstring xs" by (auto simp: js_sort_def filter_id_conv filter_empty_conv)
  then show ?thesis using e by (simp add: json_array del: json.simps)
qed

lemma array_differs_new: "json (JArr xs) = JArr xs \<Longrightarrow> xs \<noteq> [] \<Longrightarrow> array_differs xs JUndef = Some True"
proof -
  assume j: "json (JArr xs) = JArr xs" and "xs \<noteq> []"
  then have "sort_key jstring xs \<noteq> []" by (metis length_0_conv length_sort)
  with j \<open>xs \<noteq> []\<close> show ?thesis
    by (simp add: array_differs_def jor_def js_sort_json js_sort_def [of "[]"] del: json.simps) (simp add: json.simps)
qed

text \<open>A list of the same kind is stored unless it is a reordering of the default.\<close>

lemma array_differs_list:
  assumes "json (JArr xs) = JArr xs" "json (JArr ds) = JArr ds"
  obtains b where "array_differs xs (JArr ds) = Some b" "\<not> b \<Longrightarrow> same_settings (JArr ds) (JArr xs)"
proof (cases "xs \<noteq> [] \<and> typeof_object (hd xs)")
  case True
  then show ?thesis using that [of "xs \<noteq> ds"] assms
    by (auto simp: array_differs_def jor_def Same simp del: json.simps)
next
  case False
  have "array_differs xs (JArr ds) = Some (sort_key jstring xs \<noteq> sort_key jstring ds)"
    using False assms by (auto simp: array_differs_def jor_def js_sort_json simp del: json.simps)
  moreover have "same_settings (JArr ds) (JArr xs)" if "sort_key jstring xs = sort_key jstring ds"
    using False Reordered [of xs ds] that by (metis mset_sort)
  ultimately show ?thesis using that [of "sort_key jstring xs \<noteq> sort_key jstring ds"] by blast
qed

text \<open>What the stored difference becomes when it is merged into the defaults, per property.\<close>

lemma merged_prop:
  assumes "distinct (map fst diff)"
  shows "\<exists>r. deepMerge (JObj ds) (json (JObj diff)) = JObj r \<and>
    (\<forall>k. prop_of r k = (case map_of diff k of
        None \<Rightarrow> prop_of ds k
      | Some v \<Rightarrow> if v = JUndef then prop_of ds k
          else if is_object v then deepMerge (jor (prop_of ds k) (JObj [])) (json v) else json v))"
proof -
  have obj: "is_object (json v) = is_object v" for v by (cases v) (auto simp: is_object_def)
  let ?j = "map (\<lambda>(k, v). (k, json v)) (filter (\<lambda>(k, v). v \<noteq> JUndef) diff)"
  have "deepMerge (JObj ds) (json (JObj diff)) = JObj (merge_props ds ?j)"
    by (simp add: deepMerge.simps own_props_def)
  moreover have "prop_of (merge_props ds ?j) k = (case map_of diff k of
        None \<Rightarrow> prop_of ds k
      | Some v \<Rightarrow> if v = JUndef then prop_of ds k
          else if is_object v then deepMerge (jor (prop_of ds k) (JObj [])) (json v) else json v)" for k
    using assms by (simp add: merge_lookup [OF json_distinct] json_lookup obj split: option.split)
  ultimately show ?thesis by blast
qed

text \<open>A property that is stored when it should be: what the restart gives for it.\<close>

definition recovers :: "jsv \<Rightarrow> jsv \<Rightarrow> bool" where
  "recovers d c \<longleftrightarrow> (\<exists>diff. getDiff c (jor d (JObj [])) = Some (JObj diff) \<and>
     same_settings (deepMerge (jor d (JObj [])) (json (JObj diff))) c \<and> (d = JUndef \<longrightarrow> diff \<noteq> []))"

lemma prop_recovers:
  assumes "storable d v" "is_object v \<Longrightarrow> recovers d v" "jopt defaults k = d"
  obtains e where "diff_entry defaults k v = Some e" "e = Some JUndef \<Longrightarrow> d = JUndef \<and> v = JUndef"
    "same_settings (case e of None \<Rightarrow> d
       | Some x \<Rightarrow> if x = JUndef then d else if is_object x then deepMerge (jor d (JObj [])) (json x) else json x) v"
    "d = JUndef \<Longrightarrow> v \<noteq> JUndef \<Longrightarrow> e \<noteq> None"
  using assms(1)
proof cases
  case Value
  show ?thesis
  proof (cases "v = d")
    case True
    with Value show ?thesis
      using that [of None] assms(3) by (cases v) (auto simp: diff_entry_def is_object_def is_array_def Same)
  next
    case False
    with Value show ?thesis
      using that [of "Some v"] assms(3) by (cases v) (auto simp: diff_entry_def is_object_def is_array_def Same)
  qed
next
  case (ListValue ds xs)
  obtain b where b: "array_differs xs (JArr ds) = Some b" "\<not> b \<Longrightarrow> same_settings (JArr ds) (JArr xs)"
    using array_differs_list [OF ListValue(4,3)] by blast
  then show ?thesis
    using that [of "if b then Some v else None"] assms(3) ListValue
    by (cases b) (auto simp: diff_entry_def is_object_def Same simp del: json.simps)
next
  case (NewList xs)
  then show ?thesis
    using that [of "Some v"] assms(3) array_differs_new [of xs]
    by (auto simp: diff_entry_def is_object_def Same simp del: json.simps)
next
  case (Section cs ds)
  then obtain diff where diff: "getDiff v (JObj ds) = Some (JObj diff)" "same_settings (deepMerge (JObj ds) (json (JObj diff))) v"
    using assms(2) by (auto simp: recovers_def is_object_def jor_def simp del: json.simps)
  have "deepMerge (JObj ds) (json (JObj [])) = JObj ds" by (simp add: deepMerge.simps own_props_def)
  then show ?thesis
    using that [of "if diff \<noteq> [] then Some (JObj diff) else None"] diff Section assms(3)
    by (cases "diff = []") (auto simp: diff_entry_def is_object_def jor_def own_props_def simp del: json.simps)
next
  case (NewSection cs k')
  then obtain diff where "getDiff v (JObj []) = Some (JObj diff)" "same_settings (deepMerge (JObj []) (json (JObj diff))) v"
    "diff \<noteq> []"
    using assms(2) by (auto simp: recovers_def is_object_def jor_def simp del: json.simps)
  then show ?thesis
    using that [of "Some (JObj diff)"] NewSection assms(3)
    by (auto simp: diff_entry_def is_object_def jor_def own_props_def simp del: json.simps)
qed

lemma props_recover:
  assumes "distinct (map fst cs)" "\<And>k. storable (prop_of ds k) (prop_of cs k)"
    and "\<And>k. is_object (prop_of cs k) \<Longrightarrow> recovers (prop_of ds k) (prop_of cs k)"
    and "\<And>k. prop_of ds k \<noteq> JUndef \<Longrightarrow> prop_of cs k \<noteq> JUndef"
  shows "\<exists>diff. getDiff (JObj cs) (JObj ds) = Some (JObj diff) \<and>
    same_settings (deepMerge (JObj ds) (json (JObj diff))) (JObj cs) \<and>
    (\<forall>k. prop_of ds k = JUndef \<longrightarrow> prop_of cs k \<noteq> JUndef \<longrightarrow> diff \<noteq> [])"
proof -
  let ?ok = "\<lambda>k v e. (e = Some JUndef \<longrightarrow> prop_of ds k = JUndef \<and> v = JUndef) \<and>
      same_settings (case e of None \<Rightarrow> prop_of ds k
        | Some x \<Rightarrow> if x = JUndef then prop_of ds k else if is_object x then deepMerge (jor (prop_of ds k) (JObj [])) (json x) else json x) v \<and>
      (prop_of ds k = JUndef \<longrightarrow> v \<noteq> JUndef \<longrightarrow> e \<noteq> None)"
  have entry: "\<exists>e. diff_entry (JObj ds) k v = Some e \<and> ?ok k v e" if "map_of cs k = Some v" for k v
  proof -
    from that have v: "prop_of cs k = v" by simp
    show ?thesis
      by (rule prop_recovers [of "prop_of ds k" v "JObj ds" k]) (use assms(2,3) [of k] v in \<open>auto simp: jopt_def simp del: json.simps\<close>)
  qed
  have "\<forall>(k, v) \<in> set cs. diff_entry (JObj ds) k v \<noteq> None"
    using entry assms(1) by (auto simp del: json.simps)
  from diff_lookup [OF assms(1) this, of "[]"] obtain diff where diff: "diff_props [] (JObj ds) cs = Some diff"
    "map_wf diff" and get: "\<forall>k. map_of diff k = (case map_of cs k of None \<Rightarrow> map_of [] k | Some v \<Rightarrow> the (diff_entry (JObj ds) k v))"
    by auto
  have get: "map_of diff k = (case map_of cs k of None \<Rightarrow> None | Some v \<Rightarrow> the (diff_entry (JObj ds) k v))" for k
    using get by (cases "map_of cs k") simp_all
  obtain r where r: "deepMerge (JObj ds) (json (JObj diff)) = JObj r"
    "\<And>k. prop_of r k = (case map_of diff k of None \<Rightarrow> prop_of ds k
      | Some v \<Rightarrow> if v = JUndef then prop_of ds k
          else if is_object v then deepMerge (jor (prop_of ds k) (JObj [])) (json v) else json v)"
    using merged_prop [OF diff(2), of ds] by blast
  have "same_settings (prop_of r k) (prop_of cs k)" for k
  proof (cases "map_of cs k")
    case None
    with assms(4) [of k] have "prop_of ds k = JUndef" by auto
    with None show ?thesis unfolding r(2) by (simp add: get Same)
  next
    case (Some v)
    from entry [OF this] show ?thesis unfolding r(2) using Some by (auto simp: get simp del: json.simps map_of_eq_Some_iff)
  qed
  then have "same_settings (JObj r) (JObj cs)" by (rule Objects)
  moreover have "diff \<noteq> []" if new: "prop_of ds k = JUndef" "prop_of cs k \<noteq> JUndef" for k
  proof -
    obtain v where v: "map_of cs k = Some v" "v \<noteq> JUndef" using new(2) by (auto split: option.splits)
    with entry [OF v(1)] new(1) have "map_of diff k \<noteq> None" by (auto simp: get simp del: json.simps map_of_eq_Some_iff)
    then show ?thesis by auto
  qed
  ultimately show ?thesis using diff(1) r(1) by (auto simp: getDiff.simps own_props_def simp del: json.simps)
qed

lemma storable_recovers: "storable d c \<Longrightarrow> is_object c \<Longrightarrow> recovers d c"
proof (induction rule: storable.induct)
  case (Section cs ds)
  from props_recover [OF Section(1,3) _ Section(2)] Section(4) show ?case
    by (auto simp: recovers_def jor_def simp del: json.simps js_member.simps)
next
  case (NewSection cs k)
  have "prop_of [] k = JUndef" for k by simp
  from props_recover [OF NewSection(1), of "[]", unfolded this] NewSection show ?case
    by (auto simp: recovers_def jor_def simp del: json.simps js_member.simps)
qed (auto simp: is_object_def)

text \<open>Where the stored difference comes from.\<close>

lemma diff_props_sub:
  "diff_props diff defaults kvs = Some r \<Longrightarrow> (k, x) \<in> set r \<Longrightarrow>
     (k, x) \<in> set diff \<or> (\<exists>v. (k, v) \<in> set kvs \<and> diff_entry defaults k v = Some (Some x))"
proof (induction kvs arbitrary: diff)
  case (Cons kv kvs)
  obtain k' v where kv: "kv = (k', v)" by (cases kv)
  with Cons.prems(1) obtain e where e: "diff_entry defaults k' v = Some e"
    "diff_props (case e of None \<Rightarrow> diff | Some y \<Rightarrow> map_set k' y diff) defaults kvs = Some r"
    by (auto simp: diff_props_Cons split: option.splits)
  have sub: "(k, x) \<in> set (map_set k' y diff) \<Longrightarrow> (k, x) = (k', y) \<or> (k, x) \<in> set diff" for y
    by (induction diff) (auto split: if_splits)
  from Cons.IH [OF e(2) Cons.prems(2)] sub e(1) kv show ?case by (cases e) auto
qed (simp add: diff_props.simps)

lemma diff_sub:
  assumes "getDiff c d = Some (JObj diff)" "(k, x) \<in> set diff"
  obtains v where "(k, v) \<in> set (own_props c)" "(\<not> is_object v \<and> x = v) \<or> (is_object v \<and> (\<exists>d'. getDiff v d' = Some x))"
proof -
  have "diff_props [] d (own_props c) = Some diff" using assms(1) by (auto simp: getDiff.simps)
  from diff_props_sub [OF this assms(2)] obtain v where "(k, v) \<in> set (own_props c)" "diff_entry d k v = Some (Some x)"
    by auto
  then show ?thesis using that by (auto simp: diff_entry_def split: if_splits jsv.splits)
qed

lemma prop_of_json: "prop_of (map (\<lambda>(k, v). (k, json v)) (filter (\<lambda>(k, v). v \<noteq> JUndef) kvs)) k = y \<Longrightarrow> y \<noteq> JUndef \<Longrightarrow>
    \<exists>x. (k, x) \<in> set kvs \<and> y = json x \<and> x \<noteq> JUndef"
  by (auto split: option.splits dest!: map_of_SomeD)

lemma storable_distinct: "storable d (JObj cs) \<Longrightarrow> distinct (map fst cs)"
  by (erule storable.cases) (auto simp: is_object_def)

lemma storable_prop: "storable d (JObj cs) \<Longrightarrow> \<exists>d'. storable d' (prop_of cs k)"
  by (erule storable.cases) (auto simp: is_object_def)

lemma prop_of_mem: "distinct (map fst kvs) \<Longrightarrow> (k, v) \<in> set kvs \<Longrightarrow> prop_of kvs k = v"
  by (simp add: map_of_eq_Some_iff split: option.split)

text \<open>The difference never stores the property the migration moves, if the settings have none.\<close>

lemma diff_not_migrated:
  assumes "storable d (JObj cs)" "getDiff (JObj cs) d' = Some (JObj diff)"
    and "jopt (prop_of cs ''metrics'') ''pollIntervalMs'' = JUndef"
  shows "migrateConfig (json (JObj diff)) = Some (json (JObj diff))"
proof -
  let ?j = "map (\<lambda>(k, v). (k, json v)) (filter (\<lambda>(k, v). v \<noteq> JUndef) diff)"
  have "jopt (prop_of ?j ''metrics'') ''pollIntervalMs'' = JUndef"
  proof (rule ccontr)
    assume neq: "jopt (prop_of ?j ''metrics'') ''pollIntervalMs'' \<noteq> JUndef"
    then have "prop_of ?j ''metrics'' \<noteq> JUndef" by (auto simp: jopt_def simp del: js_member.simps(1))
    then obtain x where x: "(''metrics'', x) \<in> set diff" "prop_of ?j ''metrics'' = json x"
      using prop_of_json [OF refl, of diff "''metrics''"] by blast
    obtain m where m: "(''metrics'', m) \<in> set cs"
      "(\<not> is_object m \<and> x = m) \<or> (is_object m \<and> (\<exists>d'. getDiff m d' = Some x))"
      using diff_sub [OF assms(2) x(1)] by (auto simp: own_props_def)
    have pm: "prop_of cs ''metrics'' = m" by (rule prop_of_mem [OF storable_distinct [OF assms(1)] m(1)])
    show False
    proof (cases "is_object m")
      case False
      with m(2) neq show False unfolding x(2)
        by (cases m) (auto simp: jopt_def is_object_def split: if_splits)
    next
      case True
      then obtain ms where ms: "m = JObj ms" by (auto simp: is_object_def split: jsv.splits)
      obtain nd d2 where nd: "x = JObj nd" "getDiff m d2 = Some (JObj nd)"
        using m(2) True by (auto simp: getDiff.simps)
      have "prop_of (map (\<lambda>(k, v). (k, json v)) (filter (\<lambda>(k, v). v \<noteq> JUndef) nd)) ''pollIntervalMs'' \<noteq> JUndef"
        using neq unfolding x(2) nd(1) by (simp add: jopt_def)
      from prop_of_json [OF refl this] obtain w where w: "(''pollIntervalMs'', w) \<in> set nd" "w \<noteq> JUndef" by blast
      obtain u where u: "(''pollIntervalMs'', u) \<in> set ms" "\<not> is_object u \<and> w = u \<or> is_object u"
        using diff_sub [OF nd(2) w(1)] by (auto simp: own_props_def ms)
      have "distinct (map fst ms)"
        using storable_prop [OF assms(1), of "''metrics''"] unfolding pm ms by (auto intro: storable_distinct)
      from prop_of_mem [OF this u(1)] assms(3) have "u = JUndef" unfolding pm ms by (simp add: jopt_def)
      with u w show False by (simp add: is_object_def)
    qed
  qed
  then show ?thesis by (simp add: migrateConfig_def jget_def own_props_def Let_def)
qed

text \<open>
  C32: what the effect stores for the settings gives the same settings
  back when the application starts again, up to the order of plain lists: the difference to the
  defaults loses nothing of settings that keep the shape of the defaults, whatever was stored
  before, and the migration leaves it alone.
\<close>

theorem settings_survive_restart:
  assumes "storable defaultConfig config" "is_object config"
    and "jopt (jopt config ''metrics'') ''pollIntervalMs'' = JUndef"
  shows "same_settings (load_settings (save_settings config before)) config"
proof -
  obtain ds where ds: "defaultConfig = JObj ds" by (simp add: defaultConfig_def)
  obtain cs where cs: "config = JObj cs" using assms(2) by (auto simp: is_object_def split: jsv.splits)
  obtain diff where diff: "getDiff config defaultConfig = Some (JObj diff)"
    "same_settings (deepMerge defaultConfig (json (JObj diff))) config"
    using storable_recovers [OF assms(1,2)] by (auto simp: recovers_def jor_def ds)
  have "jopt (prop_of cs ''metrics'') ''pollIntervalMs'' = JUndef" using assms(3) by (simp add: cs jopt_def)
  with diff_not_migrated [of defaultConfig cs defaultConfig diff] assms(1) diff(1)
  have "migrateConfig (json (JObj diff)) = Some (json (JObj diff))" unfolding cs by blast
  moreover have "deepMerge defaultConfig (json (JObj [])) = defaultConfig" by (simp add: ds deepMerge.simps own_props_def)
  ultimately show ?thesis using diff
    by (cases "diff = []") (auto simp: save_settings_def load_settings_def own_props_def simp del: json.simps)
qed

lemma storable_sectionI:
  assumes "distinct (map fst cs)" "list_all (\<lambda>(k, v). storable (prop_of ds k) v) cs"
    and "list_all (\<lambda>(k, d). prop_of cs k \<noteq> JUndef) ds"
  shows "storable (JObj ds) (JObj cs)"
proof (rule storable.Section [OF assms(1)])
  fix k
  show def_ok: "prop_of cs k \<noteq> JUndef" if "prop_of ds k \<noteq> JUndef"
  proof -
    from that obtain d where "(k, d) \<in> set ds" by (auto split: option.splits dest!: map_of_SomeD simp del: map_of_eq_Some_iff)
    with assms(3) show ?thesis by (auto simp: list_all_iff simp del: js_member.simps)
  qed
  show "storable (prop_of ds k) (prop_of cs k)"
  proof (cases "map_of cs k")
    case None
    then have "prop_of ds k = JUndef" using def_ok by auto
    with None show ?thesis by (simp add: storable.Value is_object_def is_array_def)
  next
    case (Some v)
    with assms(2) show ?thesis by (auto simp: list_all_iff dest!: map_of_SomeD simp del: map_of_eq_Some_iff)
  qed
qed

lemma storable_new_sectionI:
  assumes "distinct (map fst cs)" "list_all (\<lambda>(k, v). storable JUndef v \<and> v \<noteq> JUndef) cs" "cs \<noteq> []"
  shows "storable JUndef (JObj cs)"
proof (rule storable.NewSection [OF assms(1)])
  show "prop_of cs (fst (hd cs)) \<noteq> JUndef" using assms by (cases cs) auto
  fix k
  show "storable JUndef (prop_of cs k)"
    using assms(2) by (cases "map_of cs k")
      (auto simp: list_all_iff storable.Value is_object_def is_array_def dest!: map_of_SomeD simp del: map_of_eq_Some_iff)
qed

definition changed_settings :: jsv where
  "changed_settings = deepMerge defaultConfig (JObj [
     (''logs'', JObj [(''position'', JStr ''start'')]),
     (''ui'', JObj [(''sidebar'', JObj [(''excludedItems'', JArr [JStr ''jobs''])])])])"

lemma storable_leaf: "is_object c = False \<Longrightarrow> is_array c = False \<Longrightarrow> c \<noteq> JUndef \<Longrightarrow> json c = c \<Longrightarrow> storable d c"
  by (rule storable.Value) auto

lemma storable_changed: "storable defaultConfig changed_settings"
  unfolding changed_settings_def defaultConfig_def
  apply (simp add: deepMerge.simps own_props_def is_object_def jor_def)
  apply (rule storable_sectionI)
    apply simp
   apply simp
   apply (intro conjI)
         apply ((rule storable_sectionI storable_new_sectionI;
        simp add: storable_leaf is_object_def is_array_def storable.ListValue storable.NewList)+)
  apply simp
  done

theorem settings_survive_restart_witness:
  "same_settings (load_settings (save_settings changed_settings Unreadable)) changed_settings"
  by (rule settings_survive_restart [OF storable_changed])
    (simp_all add: changed_settings_def defaultConfig_def deepMerge.simps own_props_def is_object_def jopt_def jor_def)

section \<open>Setting and reading by path\<close>

lemma map_set_inj: "map_set k x kvs = map_set k y kvs \<Longrightarrow> x = y"
  by (metis update_Some_unfold fun_upd_same update_conv')

lemma jopt_object: "jopt (JObj kvs) k = prop_of kvs k"
  by (simp add: jopt_def)

lemma set_parts_get: "set_parts ps val v = Some w \<Longrightarrow> foldl jopt w ps = val"
proof (induction ps val v arbitrary: w rule: set_parts.induct)
  case (1 p ps val kvs)
  show ?case
  proof (cases "ps = []")
    case True
    with 1(2) show ?thesis by (auto simp: jopt_def update_conv')
  next
    case False
    with 1(2) obtain x where x: "set_parts ps val (jor (prop_of kvs p) (JObj [])) = Some x" "w = JObj (map_set p x kvs)"
      by auto
    from 1(1) [OF False x(1)] x(2) show ?thesis by (simp add: jopt_def update_conv')
  qed
qed auto

lemma foldl_jopt_empty: "''length'' \<notin> set qs \<Longrightarrow> qs \<noteq> [] \<Longrightarrow> \<not> truthy v \<Longrightarrow> foldl jopt v qs = JUndef"
  by (cases qs; cases v) (auto simp: jopt_def)

lemma set_parts_frame:
  assumes "set_parts ps val v = Some w" "\<not> prefix ps qs" "\<not> prefix qs ps" "''length'' \<notin> set qs"
  shows "foldl jopt w qs = foldl jopt v qs"
  using assms
proof (induction ps val v arbitrary: w qs rule: set_parts.induct)
  case (1 p ps val kvs)
  obtain q qs' where qs: "qs = q # qs'" using 1(4) by (cases qs) auto
  obtain x where x: "w = JObj (map_set p x kvs)"
    using 1(2) by (auto split: if_splits)
  show ?case
  proof (cases "q = p")
    case False
    with x qs show ?thesis by (simp add: jopt_object update_conv')
  next
    case True
    with 1(3,4) qs have ps: "ps \<noteq> []" "\<not> prefix ps qs'" "\<not> prefix qs' ps" by auto
    then have sub: "set_parts ps val (jor (prop_of kvs p) (JObj [])) = Some x"
      using 1(2) x by (auto dest: map_set_inj)
    have "qs' \<noteq> []" using ps by auto
    moreover have "foldl jopt (jor (prop_of kvs p) (JObj [])) qs' = foldl jopt (prop_of kvs p) qs'"
    proof (cases "truthy (prop_of kvs p)")
      case False
      have "foldl jopt (JObj []) qs' = JUndef" using \<open>qs' \<noteq> []\<close> by (cases qs') (auto simp: jopt_def)
      with False show ?thesis using \<open>qs' \<noteq> []\<close> 1(5) qs foldl_jopt_empty [of qs' "prop_of kvs p"]
        by (simp add: jor_def del: js_member.simps)
    qed (simp add: jor_def del: js_member.simps)
    ultimately show ?thesis
      using 1(1) [OF ps(1) sub ps(2,3)] 1(5) qs True x by (simp add: jopt_object update_conv')
  qed
qed auto

text \<open>
  Set config path: setting a path reads back, and leaves every other path as it was, unless
  one of the two leads through the other; the settings before are not changed by it.
\<close>

theorem set_config_path:
  assumes "setByPath obj path value = Some obj'"
  shows "getByPath obj' path = value \<and>
    (\<forall>other. \<not> prefix (split_on CHR ''.'' path) (split_on CHR ''.'' other) \<longrightarrow>
      \<not> prefix (split_on CHR ''.'' other) (split_on CHR ''.'' path) \<longrightarrow>
      ''length'' \<notin> set (split_on CHR ''.'' other) \<longrightarrow> getByPath obj' other = getByPath (json obj) other)"
  using set_parts_get set_parts_frame assms unfolding setByPath_def getByPath_def by blast

theorem set_config_path_witness:
  "\<exists>w. setByPath (JObj [(''ui'', JObj [(''zoom'', JBool False)])]) ''ui.sidebar.layout'' (JArr []) = Some w \<and>
     getByPath w ''ui.sidebar.layout'' = JArr []"
proof -
  have s: "setByPath (JObj [(''ui'', JObj [(''zoom'', JBool False)])]) ''ui.sidebar.layout'' (JArr []) =
      Some (JObj [(''ui'', JObj [(''zoom'', JBool False), (''sidebar'', JObj [(''layout'', JArr [])])])])"
    by (simp add: setByPath_def jor_def)
  from set_config_path [OF s] s show ?thesis by blast
qed

text \<open>
  The migration drops the whole \<open>metrics\<close> section of an old document, the chosen source of
  metrics with it.
\<close>

lemma migration_drops_source:
  "migrateConfig (JObj [(''metrics'', JObj [(''pollIntervalMs'', JNum 5000), (''preferredSource'', JStr ''k8s'')])]) =
     Some (JObj [(''kubernetes'', JObj [(''metricsPollIntervalMs'', JNum 5000)])])"
  by (simp add: migrateConfig_def jget_def jopt_def jor_def own_props_def Let_def)

end
