(* ===== verification/BulkActions.thy ===== *)
theory BulkActions
  imports Prelude
begin

text \<open>
  Bulk actions on selected resources (\<open>hooks/useBulkActions.tsx\<close>): the dialog, its progress, and
  the loop that applies an action to one item after the other, with pausing, a delay between
  items and the backup of the YAML texts.

  A call of \<open>confirmBulkAction\<close> is a \<open>run\<close>; between two awaits it is atomic, and its phase says what
  it awaits. Runs, the user's handlers and the settling of calls interleave as the steps of
  \<open>bulk_step\<close>. State updates of React are applied in the order they are queued.
\<close>

section \<open>Items and state\<close>

record bulk_item =
  item_namespace :: "string option"
  item_name :: "string option"

record bulk_result =
  res_name :: string
  res_namespace :: string
  success :: bool
  message :: string

datatype bulk_status = Idle | InProgress | Paused | Complete

record bulk_progress =
  current :: nat
  total_items :: nat
  status :: bulk_status
  results :: "bulk_result list"

text \<open>A call of the action's API: the namespace, for namespaced resources, and the name.\<close>

type_synonym api_call = "string option \<times> string"

datatype run_phase = Waiting nat | Woken nat | Calling nat | Sleeping nat | Finished

record bulk_run =
  run_action :: string
  run_items :: "bulk_item list"
  delayMs :: int
  phase :: run_phase
  run_results :: "bulk_result list"
  calls :: "api_call list"

record bulk_hook =
  is_open :: bool
  action :: "string option"
  modal_items :: "bulk_item list"
  progress :: bulk_progress
  paused :: bool
  resolver :: "nat option"  \<comment> \<open>the run that \<open>resumeResolverRef\<close> would resume\<close>
  runs :: "bulk_run list"

record bulk_config =
  isNamespaced :: bool
  has_restart :: bool
  custom_actions :: "string list"

definition bulk_start :: bulk_hook where
  "bulk_start =
     \<lparr>is_open = False, action = None, modal_items = [],
      progress = \<lparr>current = 0, total_items = 0, status = Idle, results = []\<rparr>,
      paused = False, resolver = None, runs = []\<rparr>"

section \<open>The dialog\<close>

definition open_modal :: "string \<Rightarrow> bulk_item list \<Rightarrow> bulk_hook \<Rightarrow> bulk_hook" where
  "open_modal act its s =
     s\<lparr>is_open := True, action := Some act, modal_items := its,
       progress := \<lparr>current = 0, total_items = length its, status = Idle, results = []\<rparr>\<rparr>"

definition openBulkDelete :: "bulk_item list \<Rightarrow> bulk_hook \<Rightarrow> bulk_hook" where
  "openBulkDelete its s = open_modal ''delete'' its s"

definition openBulkRestart :: "bulk_config \<Rightarrow> bulk_item list \<Rightarrow> bulk_hook \<Rightarrow> bulk_hook" where
  "openBulkRestart cfg its s = (if \<not> has_restart cfg then s else open_modal ''restart'' its s)"

definition openBulkCustomAction :: "bulk_config \<Rightarrow> bulk_item list \<Rightarrow> string \<Rightarrow> bulk_hook \<Rightarrow> bulk_hook" where
  "openBulkCustomAction cfg its act s = (if act \<notin> set (custom_actions cfg) then s else open_modal act its s)"

definition closeBulkAction :: "bulk_hook \<Rightarrow> bulk_hook" where
  "closeBulkAction s =
     s\<lparr>is_open := False, action := None, modal_items := [],
       progress := \<lparr>current = 0, total_items = 0, status = Idle, results = []\<rparr>\<rparr>"

definition pauseBulkAction :: "bulk_hook \<Rightarrow> bulk_hook" where
  "pauseBulkAction s =
     s\<lparr>paused := True,
       progress := (if status (progress s) = InProgress then (progress s)\<lparr>status := Paused\<rparr> else progress s)\<rparr>"

fun woken :: "bulk_run \<Rightarrow> bulk_run" where
  "woken r = (case phase r of Waiting i \<Rightarrow> r\<lparr>phase := Woken i\<rparr> | _ \<Rightarrow> r)"

definition resumeBulkAction :: "bulk_hook \<Rightarrow> bulk_hook" where
  "resumeBulkAction s =
     s\<lparr>paused := False,
       progress := (if status (progress s) = Paused then (progress s)\<lparr>status := InProgress\<rparr> else progress s),
       runs := (case resolver s of Some k \<Rightarrow> (runs s)[k := woken (runs s ! k)] | None \<Rightarrow> runs s),
       resolver := None\<rparr>"

section \<open>The loop\<close>

definition named :: "bulk_item \<Rightarrow> bool" where
  "named it \<longleftrightarrow> item_name it \<noteq> None \<and> item_name it \<noteq> Some ''''"

definition target_namespace :: "bulk_item \<Rightarrow> string" where  \<comment> \<open>\<open>namespace || ''\<close>\<close>
  "target_namespace it = (case item_namespace it of Some n \<Rightarrow> n | None \<Rightarrow> '''')"

definition api_target :: "bool \<Rightarrow> bulk_item \<Rightarrow> api_call" where
  "api_target nsd it = (if nsd then Some (target_namespace it) else None, the (item_name it))"

text \<open>
  From the head of the loop at \<open>i\<close> to the next await: \<open>checked\<close> when the check for a pause at \<open>i\<close>
  is behind it.
\<close>

function advance :: "bulk_item list \<Rightarrow> bool \<Rightarrow> bool \<Rightarrow> nat \<Rightarrow> run_phase" where
  "advance its isPaused checked i =
     (if length its \<le> i then Finished
      else if isPaused \<and> \<not> checked then Waiting i
      else if \<not> named (its ! i) then advance its isPaused False (i + 1)
      else Calling i)"
  by pat_completeness auto
termination by (relation "measure (\<lambda>(its, p, c, i). length its - i)") auto

declare advance.simps [simp del]

text \<open>A run reaches an await: it calls the API, waits to be resumed, or is done.\<close>

definition enter :: "bool \<Rightarrow> nat \<Rightarrow> run_phase \<Rightarrow> bulk_hook \<Rightarrow> bulk_hook" where
  "enter nsd k ph s =
     (let r = runs s ! k;
          r' = r\<lparr>phase := ph, calls := calls r @ (case ph of Calling i \<Rightarrow> [api_target nsd (run_items r ! i)] | _ \<Rightarrow> [])\<rparr>
      in s\<lparr>runs := (runs s)[k := r'],
           resolver := (case ph of Waiting i \<Rightarrow> Some k | _ \<Rightarrow> resolver s),
           progress := (if ph = Finished then (progress s)\<lparr>status := Complete\<rparr> else progress s)\<rparr>)"

definition has_api :: "bulk_config \<Rightarrow> string \<Rightarrow> bool" where
  "has_api cfg act \<longleftrightarrow> act = ''delete'' \<or> (act = ''restart'' \<and> has_restart cfg) \<or>
     (act \<noteq> ''restart'' \<and> act \<in> set (custom_actions cfg))"

definition confirmBulkAction :: "bulk_config \<Rightarrow> bulk_item list \<Rightarrow> int \<Rightarrow> bulk_hook \<Rightarrow> bulk_hook" where
  "confirmBulkAction cfg its delay s =
     (case action s of
        Some act \<Rightarrow>
          if \<not> has_api cfg act then s
          else
            let r = \<lparr>run_action = act, run_items = its, delayMs = delay, phase = Woken 0, run_results = [], calls = []\<rparr>;
                s' = s\<lparr>paused := False, resolver := None,
                       progress := (progress s)\<lparr>status := InProgress, results := []\<rparr>, runs := runs s @ [r]\<rparr>
            in enter (isNamespaced cfg) (length (runs s)) (advance its False False 0) s'
      | None \<Rightarrow> s)"

text \<open>The API call of item \<open>i\<close> settles, with an error message if it failed.\<close>

definition settle :: "bool \<Rightarrow> nat \<Rightarrow> nat \<Rightarrow> string option \<Rightarrow> bulk_hook \<Rightarrow> bulk_hook" where
  "settle nsd k i err s =
     (let r = runs s ! k; it = run_items r ! i;
          res = \<lparr>res_name = the (item_name it), res_namespace = target_namespace it, success = (err = None),
                 message = (case err of Some e \<Rightarrow> e | None \<Rightarrow> '''')\<rparr>;
          rs = run_results r @ [res];
          s' = s\<lparr>runs := (runs s)[k := r\<lparr>run_results := rs\<rparr>],
                 progress := (progress s)\<lparr>current := i + 1, results := rs\<rparr>\<rparr>
      in if delayMs r > 0 \<and> i + 1 < length (run_items r)
         then s'\<lparr>runs := (runs s')[k := (runs s' ! k)\<lparr>phase := Sleeping i\<rparr>]\<rparr>
         else enter nsd k (advance (run_items r) (paused s) False (i + 1)) s')"

inductive bulk_step :: "bulk_config \<Rightarrow> bulk_hook \<Rightarrow> bulk_hook \<Rightarrow> bool" for cfg :: bulk_config where
  open_delete: "bulk_step cfg s (openBulkDelete its s)"
| open_restart: "bulk_step cfg s (openBulkRestart cfg its s)"
| open_custom: "bulk_step cfg s (openBulkCustomAction cfg its act s)"
| close: "bulk_step cfg s (closeBulkAction s)"
| pause: "bulk_step cfg s (pauseBulkAction s)"
| resume: "bulk_step cfg s (resumeBulkAction s)"
| confirm: "bulk_step cfg s (confirmBulkAction cfg its delay s)"
| settled: "k < length (runs s) \<Longrightarrow> phase (runs s ! k) = Calling i \<Longrightarrow>
    bulk_step cfg s (settle (isNamespaced cfg) k i err s)"
| timer: "k < length (runs s) \<Longrightarrow> phase (runs s ! k) = Sleeping i \<Longrightarrow>
    bulk_step cfg s (enter (isNamespaced cfg) k (advance (run_items (runs s ! k)) (paused s) False (i + 1)) s)"
| continue: "k < length (runs s) \<Longrightarrow> phase (runs s ! k) = Woken i \<Longrightarrow>
    bulk_step cfg s (enter (isNamespaced cfg) k (advance (run_items (runs s ! k)) (paused s) True i) s)"

inductive_cases bulk_stepE: "bulk_step cfg s t"

section \<open>Every item once\<close>

abbreviation items_named :: "bulk_item list \<Rightarrow> nat \<Rightarrow> bulk_item list" where
  "items_named its n \<equiv> filter named (take n its)"

definition result_of :: "bulk_item \<Rightarrow> string \<times> string" where
  "result_of it = (the (item_name it), target_namespace it)"

abbreviation result_ids :: "bulk_result list \<Rightarrow> (string \<times> string) list" where
  "result_ids rs \<equiv> map (\<lambda>r. (res_name r, res_namespace r)) rs"

text \<open>How many items a run has called for, and how many have settled.\<close>

fun called_at :: "nat \<Rightarrow> run_phase \<Rightarrow> nat" where
  "called_at n (Waiting i) = i"
| "called_at n (Woken i) = i"
| "called_at n (Calling i) = Suc i"
| "called_at n (Sleeping i) = Suc i"
| "called_at n Finished = n"

fun settled_at :: "nat \<Rightarrow> run_phase \<Rightarrow> nat" where
  "settled_at n (Calling i) = i"
| "settled_at n ph = called_at n ph"

definition run_ok :: "bool \<Rightarrow> bulk_run \<Rightarrow> bool" where
  "run_ok nsd r \<longleftrightarrow>
     (let its = run_items r; n = length its in
      called_at n (phase r) \<le> n \<and>
      (case phase r of Calling i \<Rightarrow> named (its ! i) | _ \<Rightarrow> True) \<and>
      calls r = map (api_target nsd) (items_named its (called_at n (phase r))) \<and>
      result_ids (run_results r) = map result_of (items_named its (settled_at n (phase r))))"

definition hook_ok :: "bool \<Rightarrow> bulk_hook \<Rightarrow> bool" where
  "hook_ok nsd s \<longleftrightarrow> (\<forall>r \<in> set (runs s). run_ok nsd r) \<and>
     (case resolver s of Some k \<Rightarrow> k < length (runs s) | None \<Rightarrow> True)"

lemma items_named_Suc:
  "i < length its \<Longrightarrow> items_named its (Suc i) = items_named its i @ (if named (its ! i) then [its ! i] else [])"
  by (simp add: take_Suc_conv_app_nth)

text \<open>The loop passes over items without a name and stops at the next one, at a pause or at the end.\<close>

lemma advance_next:
  assumes "i \<le> length its"
  shows "(case advance its p c i of
      Finished \<Rightarrow> items_named its i = items_named its (length its)
    | Waiting j \<Rightarrow> p \<and> i \<le> j \<and> (c \<longrightarrow> i < j) \<and> j \<le> length its \<and> items_named its i = items_named its j
    | Calling j \<Rightarrow> i \<le> j \<and> j < length its \<and> named (its ! j) \<and> items_named its i = items_named its j \<and> (p \<longrightarrow> c)
    | _ \<Rightarrow> False)"
  using assms
proof (induction its p c i rule: advance.induct)
  case (1 its p c i)
  show ?case
  proof (cases "i < length its \<and> \<not> (p \<and> \<not> c) \<and> \<not> named (its ! i)")
    case True
    then have "advance its p c i = advance its p False (i + 1)"
      by (cases p; cases c) (simp_all add: advance.simps [of its _ _ i])
    moreover have "items_named its (Suc i) = items_named its i" using True by (simp add: items_named_Suc)
    ultimately show ?thesis using 1(1) True by (auto split: run_phase.splits)
  next
    case False
    with 1(2) show ?thesis by (auto simp: advance.simps [of its p c i] dest: le_antisym)
  qed
qed

lemma enter_ok:
  assumes "hook_ok nsd s" "k < length (runs s)"
    and "calls (runs s ! k) = map (api_target nsd) (items_named (run_items (runs s ! k)) i)"
    and "result_ids (run_results (runs s ! k)) = map result_of (items_named (run_items (runs s ! k)) i)"
    and "i \<le> length (run_items (runs s ! k))"
  shows "hook_ok nsd (enter nsd k (advance (run_items (runs s ! k)) p c i) s)"
proof -
  let ?r = "runs s ! k" let ?ph = "advance (run_items ?r) p c i"
  let ?r' = "?r\<lparr>phase := ?ph, calls := calls ?r @ (case ?ph of Calling i \<Rightarrow> [api_target nsd (run_items ?r ! i)] | _ \<Rightarrow> [])\<rparr>"
  have "run_ok nsd ?r'"
    using advance_next [OF assms(5), of p c] assms(3,4)
    by (auto simp: run_ok_def Let_def items_named_Suc simp del: take_all split: run_phase.splits)
  then show ?thesis using assms(1,2)
    by (auto simp: hook_ok_def enter_def Let_def dest!: subsetD [OF set_update_subset_insert] split: run_phase.splits option.splits)
qed

text \<open>The settling of a call: first the result, then the delay or the next item.\<close>

definition call_result :: "bulk_item \<Rightarrow> string option \<Rightarrow> bulk_result" where
  "call_result it err =
     \<lparr>res_name = the (item_name it), res_namespace = target_namespace it, success = (err = None),
      message = (case err of Some e \<Rightarrow> e | None \<Rightarrow> '''')\<rparr>"

definition slept :: "nat \<Rightarrow> nat \<Rightarrow> string option \<Rightarrow> bulk_hook \<Rightarrow> bulk_hook" where
  "slept k i err s =
     (let r = runs s ! k; rs = run_results r @ [call_result (run_items r ! i) err]
      in s\<lparr>progress := (progress s)\<lparr>current := i + 1, results := rs\<rparr>,
           runs := (runs s)[k := r\<lparr>run_results := rs, phase := Sleeping i\<rparr>]\<rparr>)"

lemma settle_slept:
  assumes "k < length (runs s)"
  shows "settle nsd k i err s =
    (if delayMs (runs s ! k) > 0 \<and> i + 1 < length (run_items (runs s ! k)) then slept k i err s
     else enter nsd k (advance (run_items (runs s ! k)) (paused s) False (Suc i)) (slept k i err s))"
  using assms unfolding settle_def slept_def Let_def call_result_def [symmetric]
  by (cases "advance (run_items (runs s ! k)) (paused s) False (Suc i)") (simp_all add: enter_def Let_def)

lemma hook_ok_step: "hook_ok (isNamespaced cfg) s \<Longrightarrow> bulk_step cfg s t \<Longrightarrow> hook_ok (isNamespaced cfg) t"
proof (erule bulk_stepE, goal_cases)
  case (6)
  show ?case
  proof (cases "resolver s")
    case (Some k)
    with 6 have "run_ok (isNamespaced cfg) (runs s ! k)" by (auto simp: hook_ok_def)
    then have "run_ok (isNamespaced cfg) (woken (runs s ! k))"
      by (cases "phase (runs s ! k)") (simp_all add: run_ok_def Let_def)
    with 6 Some show ?thesis
      by (auto simp: hook_ok_def resumeBulkAction_def simp del: woken.simps dest!: subsetD [OF set_update_subset_insert])
  qed (use 6 in \<open>simp add: hook_ok_def resumeBulkAction_def\<close>)
next
  case (7 its delay)
  show ?case
  proof (cases "action s")
    case (Some act)
    let ?r = "\<lparr>run_action = act, run_items = its, delayMs = delay, phase = Woken 0, run_results = [], calls = []\<rparr>"
    let ?s = "s\<lparr>paused := False, resolver := None, progress := (progress s)\<lparr>status := InProgress, results := []\<rparr>,
      runs := runs s @ [?r]\<rparr>"
    have "hook_ok (isNamespaced cfg) ?s" using 7 by (auto simp: hook_ok_def run_ok_def)
    from enter_ok [OF this, of "length (runs s)" 0 False False] show ?thesis
      using 7 Some by (auto simp: confirmBulkAction_def Let_def)
  qed (use 7 in \<open>simp add: confirmBulkAction_def\<close>)
next
  case (8 k i err)
  let ?r = "runs s ! k" and ?s = "slept k i err s"
  have r: "run_ok (isNamespaced cfg) ?r" "phase ?r = Calling i" "k < length (runs s)"
    using 8 by (auto simp: hook_ok_def)
  have done_i: "i < length (run_items ?r)" "calls ?r = map (api_target (isNamespaced cfg)) (items_named (run_items ?r) (Suc i))"
    "result_ids (run_results ?r @ [call_result (run_items ?r ! i) err]) = map result_of (items_named (run_items ?r) (Suc i))"
    using r by (auto simp: run_ok_def Let_def items_named_Suc call_result_def result_of_def)
  have "run_ok (isNamespaced cfg)
      (?r\<lparr>run_results := run_results ?r @ [call_result (run_items ?r ! i) err], phase := Sleeping i\<rparr>)"
    using done_i by (simp add: run_ok_def Let_def del: take_all)
  then have "hook_ok (isNamespaced cfg) ?s"
    using 8(1) by (auto simp: hook_ok_def slept_def Let_def dest!: subsetD [OF set_update_subset_insert] split: option.splits)
  moreover from enter_ok [OF this, of k "Suc i" "paused s" False] done_i r(3)
  have "hook_ok (isNamespaced cfg) (enter (isNamespaced cfg) k (advance (run_items ?r) (paused s) False (Suc i)) ?s)"
    by (simp add: slept_def Let_def)
  ultimately show ?case unfolding 8(2) settle_slept [OF r(3)] by simp
next
  case (9 k i)
  then have "run_ok (isNamespaced cfg) (runs s ! k)" by (auto simp: hook_ok_def)
  with 9 enter_ok [OF 9(1), of k "Suc i" "paused s" False] show ?case by (auto simp: run_ok_def Let_def)
next
  case (10 k i)
  then have "run_ok (isNamespaced cfg) (runs s ! k)" by (auto simp: hook_ok_def)
  with 10 enter_ok [OF 10(1), of k i "paused s" True] show ?case by (auto simp: run_ok_def Let_def)
qed (auto simp: hook_ok_def openBulkDelete_def openBulkRestart_def openBulkCustomAction_def open_modal_def
    closeBulkAction_def pauseBulkAction_def split: option.splits)

interpretation bulk: transition_system "\<lambda>s. s = bulk_start" "bulk_step cfg" "hook_ok (isNamespaced cfg)"
  for cfg :: bulk_config
  by unfold_locales (simp add: hook_ok_def bulk_start_def, rule hook_ok_step)

text \<open>
  C13: whatever the interleaving of the dialog, pauses, settling calls and other
  runs, a bulk action calls its API for the selected items that have a name, in their order and
  never twice; and when it is done it has called it for all of them, a result for each.
\<close>

theorem bulk_each_item_once:
  assumes "(bulk_step cfg)\<^sup>*\<^sup>* bulk_start s" "r \<in> set (runs s)"
  shows "prefix (calls r) (map (api_target (isNamespaced cfg)) (filter named (run_items r))) \<and>
    (phase r = Finished \<longrightarrow>
      calls r = map (api_target (isNamespaced cfg)) (filter named (run_items r)) \<and>
      result_ids (run_results r) = map result_of (filter named (run_items r)))"
proof -
  have ok: "run_ok (isNamespaced cfg) r" using bulk.reachable_inv [OF refl assms(1)] assms(2) by (auto simp: hook_ok_def)
  have "prefix (items_named (run_items r) n) (filter named (run_items r))" for n
    by (metis append_take_drop_id filter_append prefixI)
  with ok show ?thesis by (auto simp: run_ok_def Let_def intro: map_mono_prefix)
qed

definition two_items :: "bulk_item list" where
  "two_items = [\<lparr>item_namespace = Some ''ns'', item_name = Some ''a''\<rparr>, \<lparr>item_namespace = Some ''ns'', item_name = Some ''b''\<rparr>]"

definition namespaced_config :: bulk_config where
  "namespaced_config = \<lparr>isNamespaced = True, has_restart = False, custom_actions = []\<rparr>"

definition confirmed :: bulk_hook where
  "confirmed = confirmBulkAction namespaced_config two_items 0 (openBulkDelete two_items bulk_start)"

lemma confirmed_reachable: "(bulk_step namespaced_config)\<^sup>*\<^sup>* bulk_start confirmed"
  unfolding confirmed_def by (rule converse_rtranclp_into_rtranclp [OF bulk_step.open_delete r_into_rtranclp [of "bulk_step _"]])
    (rule bulk_step.confirm)

lemmas bulk_eval = confirmed_def two_items_def namespaced_config_def confirmBulkAction_def openBulkDelete_def
  open_modal_def bulk_start_def has_api_def enter_def advance.simps named_def api_target_def target_namespace_def
  settle_def closeBulkAction_def Let_def


lemma confirmed_calls: "map calls (runs confirmed) = [[(Some ''ns'', ''a'')]] \<and> map phase (runs confirmed) = [Calling 0]"
  by (simp add: bulk_eval)

theorem bulk_each_item_once_witness:
  "\<exists>r \<in> set (runs confirmed). calls r = [(Some ''ns'', ''a'')] \<and>
     prefix (calls r) (map (api_target True) (filter named (run_items r)))"
proof -
  have "hd (runs confirmed) \<in> set (runs confirmed)" "calls (hd (runs confirmed)) = [(Some ''ns'', ''a'')]"
    using confirmed_calls by (cases "runs confirmed"; simp)+
  with bulk_each_item_once [OF confirmed_reachable, of "hd (runs confirmed)"] show ?thesis
    by (auto simp: namespaced_config_def)
qed

section \<open>Pausing\<close>

lemma same_at: "k < length xs \<Longrightarrow> (map f xs)[k := f (xs ! k)] = map f xs"
  by (metis list_update_id nth_map)

lemma enter_calls:
  "k < length (runs s) \<Longrightarrow> (\<And>j. ph \<noteq> Calling j) \<Longrightarrow> map calls (runs (enter nsd k ph s)) = map calls (runs s)"
  by (cases ph) (auto simp: enter_def Let_def map_update list_update_same_conv)

lemma advance_paused: "advance its True False i \<noteq> Calling j"
  by (simp add: advance.simps)

text \<open>
  C33: while a bulk action is paused no step but resuming it or confirming another makes
  an API call, once the wake-ups of an earlier resumption have run: not the settling of the call
  that was under way, not the timer between items, not the dialog.
\<close>

theorem pause_holds:
  assumes "bulk_step cfg s t" "paused s" "paused t" "\<forall>r \<in> set (runs s). \<forall>i. phase r \<noteq> Woken i"
  shows "concat (map calls (runs t)) = concat (map calls (runs s))"
  using assms
proof cases
  case (settled k i err)
  show ?thesis
    using settled assms(2) enter_calls [OF _ advance_paused, of k]
    by (auto simp: settle_def Let_def map_update same_at)
next
  case (timer k i)
  then show ?thesis using assms(2) enter_calls [OF _ advance_paused, of k s] by simp
next
  case (continue k i)
  then show ?thesis using assms(4) by auto
next
  case (confirm its delay)
  then show ?thesis using assms(2,3)
    by (auto simp: confirmBulkAction_def enter_def Let_def split: option.splits if_splits)
qed (auto simp: openBulkDelete_def openBulkRestart_def openBulkCustomAction_def open_modal_def closeBulkAction_def
    pauseBulkAction_def resumeBulkAction_def)

text \<open>
  Closing the dialog does not end the run: the items that are left are deleted with no dialog open,
  and the progress of the next dialog is overwritten.
\<close>

lemma closed_dialog_deletes:
  "let s = settle True 0 0 None (closeBulkAction confirmed)
   in \<not> is_open s \<and> map calls (runs s) = [[(Some ''ns'', ''a''), (Some ''ns'', ''b'')]] \<and> results (progress s) \<noteq> []"
  by (simp add: bulk_eval)

section \<open>Every run ends\<close>

text \<open>
  An upper bound of the steps a run still makes: at every item it calls, waits for the call, for the
  delay and for a pause.
\<close>

definition work :: "bulk_run \<Rightarrow> nat" where
  "work r = (let n = length (run_items r) in
     case phase r of
       Finished \<Rightarrow> 0
     | Calling i \<Rightarrow> 4 * (n - i)
     | Sleeping i \<Rightarrow> 4 * (n - i) - 1
     | Woken i \<Rightarrow> 4 * (n - i) + 1
     | Waiting i \<Rightarrow> 4 * (n - i) + 2)"

definition work_left :: "bulk_hook \<Rightarrow> nat" where
  "work_left s = sum_list (map work (runs s))"

lemma sum_list_decreases:
  "k < length xs \<Longrightarrow> f y < f (xs ! k) \<Longrightarrow> sum_list (map f (xs[k := y])) < sum_list (map f xs :: nat list)"
  by (induction xs arbitrary: k) (auto simp: nth_Cons split: nat.splits)

lemma advance_work:
  assumes "i \<le> length (run_items r)" "phase r' = advance (run_items r) p c i" "run_items r' = run_items r"
  shows "work r' \<le> 4 * (length (run_items r) - i) + (if c then 0 else 2)"
  using advance_next [OF assms(1), of p c] assms(2,3)
  by (cases "advance (run_items r) p c i") (auto simp: work_def Let_def)

lemma enter_work:
  assumes "k < length (runs s)" "i \<le> length (run_items (runs s ! k))"
    and "4 * (length (run_items (runs s ! k)) - i) + (if c then 0 else 2) < work (runs s0 ! k)"
    and "runs s = (runs s0)[k := r]"
  shows "work_left (enter nsd k (advance (run_items (runs s ! k)) p c i) s) < work_left s0"
proof -
  let ?ph = "advance (run_items (runs s ! k)) p c i"
  let ?r = "(runs s ! k)\<lparr>phase := ?ph,
    calls := calls (runs s ! k) @ (case ?ph of Calling i \<Rightarrow> [api_target nsd (run_items (runs s ! k) ! i)] | _ \<Rightarrow> [])\<rparr>"
  have "work ?r < work (runs s0 ! k)"
    using advance_work [OF assms(2), of ?r p c] assms(3) by simp
  moreover have "runs (enter nsd k ?ph s) = (runs s)[k := ?r]" by (simp add: enter_def Let_def)
  then have "runs (enter nsd k ?ph s) = (runs s0)[k := ?r]" by (metis assms(4) list_update_overwrite)
  ultimately show ?thesis
    using assms(1,4) sum_list_decreases [of k "runs s0" work ?r] by (simp add: work_left_def)
qed

lemma resume_work:
  assumes "hook_ok nsd s" "runs (resumeBulkAction s) \<noteq> runs s"
  shows "work_left (resumeBulkAction s) < work_left s"
proof -
  obtain k where k: "resolver s = Some k" using assms(2) by (cases "resolver s") (auto simp: resumeBulkAction_def)
  then have len: "k < length (runs s)" using assms(1) by (auto simp: hook_ok_def)
  have r: "runs (resumeBulkAction s) = (runs s)[k := woken (runs s ! k)]"
    using k by (simp add: resumeBulkAction_def del: woken.simps)
  with assms(2) have "woken (runs s ! k) \<noteq> runs s ! k" by (auto simp del: woken.simps)
  then have "work (woken (runs s ! k)) < work (runs s ! k)"
    by (cases "phase (runs s ! k)") (auto simp: work_def Let_def)
  from sum_list_decreases [OF len this] show ?thesis by (simp add: work_left_def r del: woken.simps)
qed

lemma settle_work:
  assumes "k < length (runs s)" "phase (runs s ! k) = Calling i" "i < length (run_items (runs s ! k))"
  shows "work_left (settle nsd k i err s) < work_left s"
proof -
  have w: "work (runs s ! k) = 4 * (length (run_items (runs s ! k)) - i)" using assms(2) by (simp add: work_def Let_def)
  let ?r = "(runs s ! k)\<lparr>run_results := run_results (runs s ! k) @ [call_result (run_items (runs s ! k) ! i) err], phase := Sleeping i\<rparr>"
  have u: "runs (slept k i err s) = (runs s)[k := ?r]" by (simp add: slept_def Let_def)
  have "work ?r < work (runs s ! k)" using w assms(3) by (simp add: work_def Let_def)
  from sum_list_decreases [OF assms(1) this] have "work_left (slept k i err s) < work_left s"
    by (simp add: work_left_def u)
  moreover have "run_items (runs (slept k i err s) ! k) = run_items (runs s ! k)" using assms(1) u by simp
  then have "work_left (enter nsd k (advance (run_items (runs s ! k)) (paused s) False (Suc i)) (slept k i err s)) < work_left s"
    using enter_work [OF _ _ _ u, of "Suc i" False] assms(1,3) w u by simp
  ultimately show ?thesis unfolding settle_slept [OF assms(1)] by simp
qed

text \<open>
  C40: a bulk action cannot go on for ever. Every step of the dialog, of a timer or of a
  settling call that changes the runs and starts none leaves strictly less work, also when calls
  fail and however often the user pauses and resumes.
\<close>

theorem bulk_runs_end:
  assumes "(bulk_step cfg)\<^sup>*\<^sup>* bulk_start s" "bulk_step cfg s t"
    and "length (runs t) = length (runs s)" "runs t \<noteq> runs s"
  shows "work_left t < work_left s"
proof -
  have hook: "hook_ok (isNamespaced cfg) s" by (rule bulk.reachable_inv [OF refl assms(1)])
  then have ok: "run_ok (isNamespaced cfg) (runs s ! k)" if "k < length (runs s)" for k
    using that by (auto simp: hook_ok_def)
  have u: "runs s = (runs s)[k := runs s ! k]" for k by simp
  from assms(2) show ?thesis
  proof cases
    case resume
    then show ?thesis using resume_work [OF hook] assms(4) by simp
  next
    case (confirm its delay)
    with assms(3,4) show ?thesis
      by (auto simp: confirmBulkAction_def enter_def Let_def split: option.splits if_splits)
  next
    case (settled k i err)
    with ok [of k] show ?thesis by (auto simp: run_ok_def Let_def intro!: settle_work)
  next
    case (timer k i)
    with ok [of k] enter_work [OF _ _ _ u, of k "Suc i" False] show ?thesis by (auto simp: run_ok_def work_def Let_def)
  next
    case (continue k i)
    with ok [of k] enter_work [OF _ _ _ u, of k i True] show ?thesis by (auto simp: run_ok_def work_def Let_def)
  qed (use assms(4) in \<open>auto simp: openBulkDelete_def openBulkRestart_def openBulkCustomAction_def open_modal_def
    closeBulkAction_def pauseBulkAction_def split: if_splits\<close>)
qed

theorem bulk_runs_end_witness:
  "work_left (settle True 0 0 (Some ''denied'') confirmed) < work_left confirmed"
proof (rule bulk_runs_end [OF confirmed_reachable])
  have "bulk_step namespaced_config confirmed (settle (isNamespaced namespaced_config) 0 0 (Some ''denied'') confirmed)"
    by (rule bulk_step.settled) (simp_all add: bulk_eval)
  then show "bulk_step namespaced_config confirmed (settle True 0 0 (Some ''denied'') confirmed)"
    by (simp add: namespaced_config_def)
qed (simp_all add: bulk_eval)

text \<open>A paused action whose call settles makes no further call.\<close>

theorem pause_holds_witness:
  "concat (map calls (runs (settle True 0 0 None (pauseBulkAction confirmed)))) = [(Some ''ns'', ''a'')]"
proof -
  have "bulk_step namespaced_config (pauseBulkAction confirmed)
      (settle (isNamespaced namespaced_config) 0 0 None (pauseBulkAction confirmed))"
    by (rule bulk_step.settled) (simp_all add: bulk_eval pauseBulkAction_def)
  then have "bulk_step namespaced_config (pauseBulkAction confirmed) (settle True 0 0 None (pauseBulkAction confirmed))"
    by (simp add: namespaced_config_def)
  from pause_holds [OF this] show ?thesis by (simp add: bulk_eval pauseBulkAction_def)
qed

section \<open>The backup\<close>

text \<open>
  \<open>exportYaml\<close>: the entries it hands to \<open>SaveYamlBackup\<close>, if any. \<open>fetch\<close> is the API that reads a
  text or fails with a message, \<open>aborted i\<close> says whether the signal is set when the loop is at \<open>i\<close>.
  The name of the archive, which contains the time, and its saving are outside the model.
\<close>

record yaml_entry =
  entry_namespace :: string
  entry_name :: string
  entry_kind :: string
  entry_yaml :: string

definition backup_entry :: "(api_call \<Rightarrow> string + string) \<Rightarrow> bool \<Rightarrow> string \<Rightarrow> bulk_item \<Rightarrow> yaml_entry" where
  "backup_entry fetch nsd resourceLabel it =
     \<lparr>entry_namespace = target_namespace it, entry_name = the (item_name it), entry_kind = resourceLabel,
      entry_yaml = (case fetch (api_target nsd it) of
          Inr yaml \<Rightarrow> yaml
        | Inl err \<Rightarrow> ''# Failed to fetch YAML: '' @ err)\<rparr>"

fun export_entries ::
  "(api_call \<Rightarrow> string + string) \<Rightarrow> bool \<Rightarrow> string \<Rightarrow> (nat \<Rightarrow> bool) \<Rightarrow> nat \<Rightarrow> bulk_item list \<Rightarrow> yaml_entry list" where
  "export_entries fetch nsd resourceLabel aborted i [] = []"
| "export_entries fetch nsd resourceLabel aborted i (it # its) =
     (if aborted i then []
      else if \<not> named it then export_entries fetch nsd resourceLabel aborted (i + 1) its
      else backup_entry fetch nsd resourceLabel it # export_entries fetch nsd resourceLabel aborted (i + 1) its)"

definition exportYaml ::
  "(api_call \<Rightarrow> string + string) \<Rightarrow> bool \<Rightarrow> string \<Rightarrow> (nat \<Rightarrow> bool) \<Rightarrow> bulk_item list \<Rightarrow> yaml_entry list option" where
  "exportYaml fetch nsd resourceLabel aborted its =
     (let entries = export_entries fetch nsd resourceLabel aborted 0 its in
      if entries = [] then None else Some entries)"

lemma export_entries_prefix:
  "prefix (export_entries fetch nsd l aborted i its) (map (backup_entry fetch nsd l) (filter named its)) \<and>
   ((\<forall>j. \<not> aborted j) \<longrightarrow> export_entries fetch nsd l aborted i its = map (backup_entry fetch nsd l) (filter named its))"
  by (induction its arbitrary: i) auto

text \<open>
  Backup complete: the backup has an entry for every selected item with a name, in their order,
  also for those whose text could not be read; an abort only shortens it at the end.
\<close>

theorem backup_complete:
  "(exportYaml fetch nsd resourceLabel (\<lambda>i. False) its =
      (if filter named its = [] then None else Some (map (backup_entry fetch nsd resourceLabel) (filter named its)))) \<and>
   (case exportYaml fetch nsd resourceLabel aborted its of
      None \<Rightarrow> True
    | Some entries \<Rightarrow> prefix entries (map (backup_entry fetch nsd resourceLabel) (filter named its)))"
  using export_entries_prefix [of fetch nsd resourceLabel "\<lambda>i. False" 0 its]
    export_entries_prefix [of fetch nsd resourceLabel aborted 0 its]
  by (simp add: exportYaml_def Let_def)

end
