(* ===== verification/WatchSubscription.thy ===== *)
theory WatchSubscription
  imports ResourceSync "HOL-Library.Multiset"
begin

text \<open>
  Subscribing to watch events (\<open>hooks/useResourceWatcher.tsx\<close>). One run of the effect of
  \<open>useResourceWatcher\<close> or \<open>useCRDWatcher\<close> subscribes to its namespaces one after the other, filters
  the events it is handed, and unsubscribes when it is cleaned up; the backend's answers arrive
  between its steps. Both hooks are the same up to the call that subscribes and the type they expect.
\<close>

section \<open>The key of the namespaces\<close>

definition createNamespaceKey :: "jsv \<Rightarrow> string" where
  "createNamespaceKey namespaces =
     (if \<not> truthy namespaces then ''''
      else let arr = (case namespaces of JArr xs \<Rightarrow> xs | v \<Rightarrow> [v])
           in join '','' (map jstring (sort_key jstring arr)))"

definition crdResourceType :: "string \<Rightarrow> string \<Rightarrow> string \<Rightarrow> string" where
  "crdResourceType grp version res = ''crd:'' @ grp @ ''/'' @ version @ ''/'' @ res"

lemma join_inj:
  "ss \<noteq> [] \<Longrightarrow> ts \<noteq> [] \<Longrightarrow> \<forall>s \<in> set ss \<union> set ts. d \<notin> set s \<Longrightarrow> join [d] ss = join [d] ts \<Longrightarrow> ss = ts"
  by (metis Un_iff split_on_join)

text \<open>
  Namespace key exact: the effect runs again exactly when other namespaces are chosen: for
  namespace names, which contain no comma, two keys are equal just when the lists are reorderings
  of each other.
\<close>

theorem namespace_key_exact:
  assumes "xs \<noteq> []" "ys \<noteq> []" "\<forall>s \<in> set xs \<union> set ys. CHR '','' \<notin> set s"
  shows "createNamespaceKey (JArr (map JStr xs)) = createNamespaceKey (JArr (map JStr ys)) \<longleftrightarrow> mset xs = mset ys"
proof -
  have key: "createNamespaceKey (JArr (map JStr zs)) = join '','' (sort zs)" for zs
  proof -
    have "map jstring (sort_key jstring (map JStr zs)) = sort (map jstring (map JStr zs))"
      by (rule properties_for_sort [symmetric]) (simp_all add: image_mset.compositionality)
    then show ?thesis by (simp add: createNamespaceKey_def o_def)
  qed
  show ?thesis
  proof
    assume "createNamespaceKey (JArr (map JStr xs)) = createNamespaceKey (JArr (map JStr ys))"
    then have "join '','' (sort xs) = join '','' (sort ys)" by (simp only: key)
    with join_inj [of "sort xs" "sort ys" "CHR '',''"] assms have "sort xs = sort ys"
      by (metis length_0_conv length_sort set_sort)
    then show "mset xs = mset ys" by (metis mset_sort)
  next
    assume "mset xs = mset ys"
    then have "sort xs = sort ys" by (metis properties_for_sort sorted_sort mset_sort)
    then show "createNamespaceKey (JArr (map JStr xs)) = createNamespaceKey (JArr (map JStr ys))" by (simp only: key)
  qed
qed

theorem namespace_key_exact_witness:
  "createNamespaceKey (JArr (map JStr [''b'', ''a''])) = createNamespaceKey (JArr (map JStr [''a'', ''b'']))"
  by (subst namespace_key_exact) simp_all

section \<open>Subscribing\<close>

text \<open>
  One run of the effect. \<open>requested\<close> are the namespaces it has asked for, \<open>handed\<close> the keys the
  backend has answered with, \<open>released\<close> the keys it has unsubscribed.
\<close>

record subscription =
  mounted :: bool
  todo :: "string list"
  awaiting :: "string option"
  subscribedKeys :: "string list"
  requested :: "string list"
  handed :: "string list"
  released :: "string list"
  reported :: "(string \<times> string) list"

text \<open>The loop of \<open>subscribe\<close> up to its next await.\<close>

definition subscribe_next :: "subscription \<Rightarrow> subscription" where
  "subscribe_next s =
     (case todo s of
        [] \<Rightarrow> s\<lparr>awaiting := None\<rparr>
      | ns # nss \<Rightarrow>
          if \<not> mounted s then s\<lparr>awaiting := None, todo := []\<rparr>
          else s\<lparr>awaiting := Some ns, todo := nss, requested := requested s @ [ns]\<rparr>)"

definition run_effect :: "bool \<Rightarrow> string \<Rightarrow> string list \<Rightarrow> subscription option" where
  "run_effect enabled connectionMode namespaces =
     (if \<not> enabled \<or> connectionMode \<noteq> ''streaming'' then None
      else Some (subscribe_next
        \<lparr>mounted = True, todo = namespaces, awaiting = None, subscribedKeys = [], requested = [], handed = [],
         released = [], reported = []\<rparr>))"

definition answered :: "string \<Rightarrow> subscription \<Rightarrow> subscription" where
  "answered watchKey s =
     subscribe_next
       (if watchKey = '''' then s
        else if mounted s then s\<lparr>subscribedKeys := subscribedKeys s @ [watchKey], handed := handed s @ [watchKey]\<rparr>
        else s\<lparr>released := released s @ [watchKey], handed := handed s @ [watchKey]\<rparr>)"

definition rejected :: "string \<Rightarrow> string \<Rightarrow> subscription \<Rightarrow> subscription" where
  "rejected err ns s = subscribe_next (if mounted s then s\<lparr>reported := reported s @ [(err, ns)]\<rparr> else s)"

definition clean_up :: "subscription \<Rightarrow> subscription" where
  "clean_up s = s\<lparr>mounted := False, released := released s @ subscribedKeys s\<rparr>"

inductive subscription_step :: "subscription \<Rightarrow> subscription \<Rightarrow> bool" where
  answer: "awaiting s = Some ns \<Longrightarrow> subscription_step s (answered watchKey s)"
| reject: "awaiting s = Some ns \<Longrightarrow> subscription_step s (rejected err ns s)"
| unmount: "mounted s \<Longrightarrow> subscription_step s (clean_up s)"

inductive_cases subscription_stepE: "subscription_step s t"

definition subscription_ok :: "string list \<Rightarrow> subscription \<Rightarrow> bool" where
  "subscription_ok namespaces s \<longleftrightarrow>
     (if mounted s then released s = [] \<and> handed s = subscribedKeys s \<and> requested s @ todo s = namespaces
      else mset (released s) = mset (handed s) \<and> prefix (requested s) namespaces) \<and>
     (awaiting s = None \<and> mounted s \<longrightarrow> todo s = [])"

lemma subscribe_next_ok:
  "subscription_ok namespaces (s\<lparr>awaiting := Some x\<rparr>) \<Longrightarrow> subscription_ok namespaces (subscribe_next s)"
  by (auto simp: subscription_ok_def subscribe_next_def split: list.splits if_splits)

lemma subscription_step_ok: "subscription_ok namespaces s \<Longrightarrow> subscription_step s t \<Longrightarrow> subscription_ok namespaces t"
proof (erule subscription_stepE)
  fix ns watchKey assume "subscription_ok namespaces s" "t = answered watchKey s" "awaiting s = Some ns"
  then show ?thesis
    by (simp only: answered_def, intro subscribe_next_ok [where x = ns]) (auto simp: subscription_ok_def split: if_splits)
next
  fix ns err assume "subscription_ok namespaces s" "t = rejected err ns s" "awaiting s = Some ns"
  then show ?thesis
    by (simp only: rejected_def, intro subscribe_next_ok [where x = ns]) (auto simp: subscription_ok_def split: if_splits)
qed (auto simp: subscription_ok_def clean_up_def prefix_def)

interpretation subscriptions: transition_system
  "\<lambda>s. run_effect True ''streaming'' namespaces = Some s" subscription_step "subscription_ok namespaces"
  for namespaces :: "string list"
proof
  fix s assume "run_effect True ''streaming'' namespaces = Some s"
  then show "subscription_ok namespaces s"
    by (auto simp: run_effect_def subscription_ok_def subscribe_next_def split: list.splits)
qed (rule subscription_step_ok)

text \<open>
  C4: a watcher is never leaked and never released early. While the effect is
  mounted it has unsubscribed nothing; from its cleanup on, at every moment, it has unsubscribed
  every key the backend ever handed it, each as often as it got it, also a key that arrives after
  the cleanup; and it asks the backend for its namespaces in order, none after the cleanup.
\<close>

theorem watchers_released:
  assumes "run_effect True ''streaming'' namespaces = Some s0" "subscription_step\<^sup>*\<^sup>* s0 s"
  shows "(mounted s \<longrightarrow> released s = [] \<and> handed s = subscribedKeys s) \<and>
    (\<not> mounted s \<longrightarrow> mset (released s) = mset (handed s)) \<and>
    prefix (requested s) namespaces \<and>
    (\<forall>t. \<not> mounted s \<longrightarrow> subscription_step s t \<longrightarrow> requested t = requested s \<and> awaiting t = None)"
proof -
  have ok: "subscription_ok namespaces s" by (rule subscriptions.reachable_inv [OF assms])
  have "requested t = requested s \<and> awaiting t = None" if "\<not> mounted s" "subscription_step s t" for t
    using that(2,1) by cases (auto simp: answered_def rejected_def subscribe_next_def split: list.splits)
  with ok show ?thesis by (auto simp: subscription_ok_def split: if_splits)
qed

theorem watchers_released_witness:
  "mset (released (answered ''k2'' (clean_up (answered ''k1'' (the (run_effect True ''streaming'' [''a'', ''b'', ''c''])))))) =
     {#''k1'', ''k2''#}"
proof -
  define s0 where "s0 = the (run_effect True ''streaming'' [''a'', ''b'', ''c''])"
  have r: "run_effect True ''streaming'' [''a'', ''b'', ''c''] = Some s0" by (simp add: s0_def run_effect_def)
  have s0: "awaiting s0 = Some ''a''" "todo s0 = [''b'', ''c'']" "mounted s0" "handed s0 = []"
    by (simp_all add: s0_def run_effect_def subscribe_next_def)
  let ?s1 = "answered ''k1'' s0" let ?s2 = "clean_up ?s1" let ?s3 = "answered ''k2'' ?s2"
  have a1: "awaiting ?s1 = Some ''b''" "mounted ?s1" "handed ?s1 = [''k1'']" using s0 by (simp_all add: answered_def subscribe_next_def)
  then have "subscription_step s0 ?s1" "subscription_step ?s1 ?s2" "subscription_step ?s2 ?s3"
    using subscription_step.answer [OF s0(1)] subscription_step.unmount [OF a1(2)]
      subscription_step.answer [of ?s2 "''b''"] by (simp_all add: clean_up_def)
  then have "subscription_step\<^sup>*\<^sup>* s0 ?s3" by (metis converse_rtranclp_into_rtranclp rtranclp.rtrancl_refl)
  from watchers_released [OF r this] a1 have "mset (released ?s3) = mset (handed ?s3)"
    by (auto simp: answered_def [of "''k2''"] clean_up_def subscribe_next_def split: list.splits)
  moreover have "handed ?s3 = [''k1'', ''k2'']"
    using a1 by (auto simp: answered_def [of "''k2''"] clean_up_def subscribe_next_def split: list.splits)
  ultimately show ?thesis by (simp add: s0_def)
qed

section \<open>Events\<close>

text \<open>An event as the backend sends it: what the resource hook reads of it, and the type it is of.\<close>

record wire_event = hook_event +
  wire_resourceType :: string

definition event_expected :: "string \<Rightarrow> string \<Rightarrow> wire_event \<Rightarrow> bool" where
  "event_expected expectedType currentContext e \<longleftrightarrow>
     (event_context e = None \<or> event_context e = Some '''' \<or> event_context e = Some currentContext) \<and>
     wire_resourceType e = expectedType"

text \<open>The handler a view passes: for one event and, when it has one, for a batch.\<close>

record 'v event_handler =
  on_event :: "wire_event \<Rightarrow> 'v \<Rightarrow> 'v"
  on_batch :: "(wire_event list \<Rightarrow> 'v \<Rightarrow> 'v) option"

definition handleEvent :: "'v event_handler \<Rightarrow> bool \<Rightarrow> string \<Rightarrow> string \<Rightarrow> wire_event \<Rightarrow> 'v \<Rightarrow> 'v" where
  "handleEvent h isMounted expectedType currentContext e v =
     (if isMounted \<and> event_expected expectedType currentContext e then on_event h e v else v)"

definition handleBatchEvents :: "'v event_handler \<Rightarrow> bool \<Rightarrow> string \<Rightarrow> string \<Rightarrow> wire_event list \<Rightarrow> 'v \<Rightarrow> 'v" where
  "handleBatchEvents h isMounted expectedType currentContext es v =
     (if \<not> isMounted then v
      else let matching = filter (event_expected expectedType currentContext) es in
           case on_batch h of
             Some batch \<Rightarrow> batch matching v
           | None \<Rightarrow> foldl (\<lambda>v e. on_event h e v) v matching)"

text \<open>The two listeners of the effect: for \<open>resource-event\<close> and for \<open>resource-events-batch\<close>.\<close>

datatype delivery = Single wire_event | Batch "wire_event list"

fun deliver :: "'v event_handler \<Rightarrow> bool \<Rightarrow> string \<Rightarrow> string \<Rightarrow> delivery \<Rightarrow> 'v \<Rightarrow> 'v" where
  "deliver h m t c (Single e) v = handleEvent h m t c e v"
| "deliver h m t c (Batch es) v = handleBatchEvents h m t c es v"

fun wire_events :: "delivery \<Rightarrow> wire_event list" where
  "wire_events (Single e) = [e]"
| "wire_events (Batch es) = es"

text \<open>
  What a handler owes its watcher: a batch is handled as its events one after the other would be.
\<close>

locale batch_handler =
  fixes h :: "'v event_handler"
  assumes batch_events: "on_batch h = Some batch \<Longrightarrow> batch es v = foldl (\<lambda>v e. on_event h e v) v es"
begin

lemma deliver_events:
  "deliver h True t c d v = foldl (\<lambda>v e. on_event h e v) v (filter (event_expected t c) (wire_events d))"
  using batch_events by (cases d) (auto simp: handleEvent_def handleBatchEvents_def Let_def split: option.split)

lemma deliveries:
  "foldl (\<lambda>v d. deliver h True t c d v) v ds =
     foldl (\<lambda>v e. on_event h e v) v (filter (event_expected t c) (concat (map wire_events ds)))"
  by (induction ds arbitrary: v) (simp_all add: deliver_events)

end

text \<open>
  The handler of the resource hook (\<open>hooks/useResource.tsx\<close>): \<open>handleEvents\<close> for a batch, and the
  same with one event.
\<close>

definition hook_handler :: "sync_env \<Rightarrow> sync event_handler" where
  "hook_handler env =
     \<lparr>on_event = (\<lambda>e. watch_arrives env [hook_event.truncate e]),
      on_batch = Some (\<lambda>es. watch_arrives env (map hook_event.truncate es))\<rparr>"

lemma watch_arrives_Nil: "watch_arrives env [] s = s"
  by (cases "journal s"; cases "snapshot s") (simp_all add: watch_arrives_def applyResourceEvents_def)

lemma watch_arrives_append: "watch_arrives env (es @ fs) s = watch_arrives env fs (watch_arrives env es s)"
  by (cases "journal s") (simp_all add: watch_arrives_def Let_def applyResourceEvents_append)

lemma watch_arrives_each:
  "foldl (\<lambda>s e. watch_arrives env [f e] s) s es = watch_arrives env (map f es) s"
proof (induction es arbitrary: s)
  case (Cons e es)
  then show ?case using watch_arrives_append [of env "[f e]" "map f es" s] by simp
qed (simp add: watch_arrives_Nil)

interpretation hook_delivery: batch_handler "hook_handler env" for env
  by unfold_locales (auto simp: hook_handler_def watch_arrives_each)

lemma not_mounted: "deliver h False t c d v = v"
  by (cases d) (simp_all add: handleEvent_def handleBatchEvents_def)

lemma not_mounted_all: "foldl (\<lambda>v d. deliver h False t c d v) v ds = v"
  by (induction ds) (simp_all add: not_mounted)

text \<open>The events that concern a resource hook, of those the backend sends.\<close>

definition own_events :: "sync_env \<Rightarrow> string \<Rightarrow> wire_event list \<Rightarrow> resource_event list" where
  "own_events env t es =
     map watch (filter (\<lambda>e. event_expected t (current_context env) e \<and> event_matches env (hook_event.truncate e)) es)"

text \<open>
  C36: however the backend splits the events it sends into single ones and batches, a resource hook
  that is mounted takes exactly those that are of its resource type and context, lie in its scope
  and carry a UID, in their order: it adds them to the journal of the list under way, if there is
  one, and applies them to the resources it shows, if these are of its present context, type and
  scope; nothing else of its state changes. After the effect's cleanup it takes none.
\<close>

theorem delivery_exact:
  "foldl (\<lambda>s d. deliver (hook_handler env) isMounted t (current_context env) d s) s ds =
     (if isMounted
      then s\<lparr>journal := map_option (\<lambda>j. j @ own_events env t (concat (map wire_events ds))) (journal s),
             snapshot := (if fst (snapshot s) = key env
               then (key env, applyResourceEvents (snd (snapshot s)) (own_events env t (concat (map wire_events ds))))
               else snapshot s)\<rparr>
      else s)"
proof (cases isMounted)
  case True
  have "map watch (filter (event_matches env) (map hook_event.truncate (filter (event_expected t (current_context env)) es))) =
      own_events env t es" for es
    by (simp add: own_events_def filter_map o_def conj_commute hook_event.truncate_def)
  then show ?thesis
    using hook_delivery.deliveries [where t = t and c = "current_context env" and env = env and v = s and ds = ds] True
    by (simp add: hook_handler_def watch_arrives_each) (simp add: watch_arrives_def Let_def)
qed (simp add: not_mounted_all)

end
