(* ===== verification/AiChat.thy ===== *)
theory AiChat
  imports Complex_Main Prelude JsStrings
begin

text \<open>
  The AI chat (\<open>utils/aiChatBlocks.ts\<close>, \<open>context/AIChatContext.tsx\<close>): how the events of a
  streamed answer become messages made of text and tool cards, and the conversations kept.

  \<open>setMessages\<close> takes a function of the previous messages. React runs it at once when nothing is
  queued, and otherwise when it renders next; the functions here also read and write the ref of the
  message under construction and draw message ids, so that the moment matters. The model keeps the
  queue of these functions (\<open>update\<close>) in the state, and whether one runs at once is a choice.
\<close>

section \<open>Blocks\<close>

datatype toolCallStatus = ToolRunning | ToolDone | ToolError

record tool_call =
  toolId :: string
  tool_name :: string
  tool_input :: "string option"
  tool_result :: "string option"
  tool_status :: toolCallStatus

datatype message_block = TextBlock string | ToolBlock tool_call

record tool_event =
  ev_id :: string
  ev_name :: string
  ev_input :: "string option"
  ev_result :: "string option"
  ev_error :: bool
  ev_done :: bool

definition appendText :: "message_block list \<Rightarrow> string \<Rightarrow> message_block list" where
  "appendText blocks chunk =
     (if blocks = [] then [TextBlock chunk]
      else case List.last blocks of
             TextBlock c \<Rightarrow> butlast blocks @ [TextBlock (c @ chunk)]
           | ToolBlock _ \<Rightarrow> blocks @ [TextBlock chunk])"

definition final_status :: "tool_event \<Rightarrow> toolCallStatus" where
  "final_status ev = (if ev_error ev then ToolError else ToolDone)"

fun is_call :: "string \<Rightarrow> message_block \<Rightarrow> bool" where
  "is_call i (ToolBlock t) = (toolId t = i)"
| "is_call i (TextBlock _) = False"

fun finish_call :: "tool_event \<Rightarrow> message_block \<Rightarrow> message_block" where
  "finish_call ev (ToolBlock t) =
     (if toolId t = ev_id ev then ToolBlock (t\<lparr>tool_result := ev_result ev, tool_status := final_status ev\<rparr>)
      else ToolBlock t)"
| "finish_call ev (TextBlock c) = TextBlock c"

definition applyToolEvent :: "message_block list \<Rightarrow> tool_event \<Rightarrow> message_block list" where
  "applyToolEvent blocks ev =
     (if \<not> ev_done ev then
        blocks @ [ToolBlock \<lparr>toolId = ev_id ev, tool_name = ev_name ev, tool_input = ev_input ev,
                             tool_result = None, tool_status = ToolRunning\<rparr>]
      else if \<exists>b \<in> set blocks. is_call (ev_id ev) b then map (finish_call ev) blocks
      else blocks @ [ToolBlock \<lparr>toolId = ev_id ev, tool_name = ev_name ev, tool_input = None,
                                tool_result = ev_result ev, tool_status = final_status ev\<rparr>])"

fun finalize_block :: "toolCallStatus \<Rightarrow> message_block \<Rightarrow> message_block" where
  "finalize_block st (ToolBlock t) =
     (if tool_status t = ToolRunning then ToolBlock (t\<lparr>tool_status := st\<rparr>) else ToolBlock t)"
| "finalize_block st (TextBlock c) = TextBlock c"

definition finalizeBlocks :: "message_block list \<Rightarrow> toolCallStatus \<Rightarrow> message_block list" where
  "finalizeBlocks blocks interruptedStatus = map (finalize_block interruptedStatus) blocks"

fun block_text :: "message_block \<Rightarrow> string" where
  "block_text (TextBlock c) = c"
| "block_text (ToolBlock _) = ''''"

definition blocksToText :: "message_block list \<Rightarrow> string" where
  "blocksToText blocks = concat (map block_text blocks)"

fun runs_tool :: "message_block \<Rightarrow> bool" where
  "runs_tool (ToolBlock t) = (tool_status t = ToolRunning)"
| "runs_tool (TextBlock _) = False"

lemma text_append [simp]: "blocksToText (appendText bs c) = blocksToText bs @ c"
proof (cases bs rule: rev_cases)
  case (snoc ys y)
  then show ?thesis by (cases y) (simp_all add: appendText_def blocksToText_def)
qed (simp add: appendText_def blocksToText_def)

lemma text_single [simp]: "blocksToText [] = ''''" "blocksToText [TextBlock c] = c"
  by (simp_all add: blocksToText_def)

lemma text_finish [simp]: "block_text (finish_call ev b) = block_text b"
  by (cases b) auto

lemma text_tool [simp]: "blocksToText (applyToolEvent bs ev) = blocksToText bs"
  by (simp add: applyToolEvent_def blocksToText_def o_def)

lemma text_final_block [simp]: "block_text (finalize_block st b) = block_text b"
  by (cases b) auto

lemma text_final [simp]: "blocksToText (finalizeBlocks bs st) = blocksToText bs"
  by (simp add: finalizeBlocks_def blocksToText_def o_def)

lemma finalized_block: "st \<noteq> ToolRunning \<Longrightarrow> \<not> runs_tool (finalize_block st b)"
  by (cases b) auto

lemma finalized: "st \<noteq> ToolRunning \<Longrightarrow> b \<in> set (finalizeBlocks bs st) \<Longrightarrow> \<not> runs_tool b"
  using finalized_block by (auto simp: finalizeBlocks_def)

lemma append_runs: "b \<in> set (appendText bs c) \<Longrightarrow> runs_tool b \<Longrightarrow> b \<in> set bs"
proof (cases bs rule: rev_cases)
  case (snoc ys y)
  assume "b \<in> set (appendText bs c)" "runs_tool b"
  with snoc show ?thesis by (cases y) (auto simp: appendText_def)
qed (auto simp: appendText_def)

section \<open>Messages and state\<close>

text \<open>
  The ids \<open>msg-1\<close>, \<open>msg-2\<close>, ... are kept as their numbers. The usage numbers of an answer are only
  stored and shown: the fields that are set, with their values.
\<close>

type_synonym token_usage = "(string \<times> rat) list"

record chat_message =
  msg_id :: nat
  role :: string
  content :: string
  streaming :: bool
  isError :: bool
  usage :: "token_usage option"
  blocks :: "message_block list option"

record ai_response =
  res_session :: "string option"
  res_generation :: "nat option"
  res_error :: "string option"
  res_chunk :: "string option"
  res_tool :: "tool_event option"
  res_usage :: "token_usage option"
  res_done :: bool

text \<open>The functions handed to \<open>setMessages\<close>, with what they close over.\<close>

datatype update =
    AddError string
  | FoldTool tool_event
  | FoldChunk string
  | FinishMessage nat "token_usage option"
  | CancelMessage nat
  | AddMessage chat_message
  | SetMessages "chat_message list"

record conversation =
  conv_id :: string
  title :: string
  conv_messages :: "chat_message list"
  updatedAt :: int

record chat =
  messages :: "chat_message list"
  queue :: "update list"
  isStreaming :: bool
  sessionId :: "string option"
  conversationId :: "string option"
  streamingRef :: "nat option"
  generation :: nat
  currentUsage :: "token_usage option"
  messageCounter :: nat
  conversationHistory :: "conversation list"
  isOpen :: bool
  pendingMessage :: "string option"
  sends :: nat  \<comment> \<open>calls of \<open>SendAIMessage\<close> the backend has not answered\<close>
  clears :: "conversation option list"  \<comment> \<open>those of \<open>ClearAISession\<close>, with the conversation to load\<close>

definition map_message :: "nat \<Rightarrow> (chat_message \<Rightarrow> chat_message) \<Rightarrow> chat_message list \<Rightarrow> chat_message list" where
  "map_message i f ms = map (\<lambda>m. if msg_id m = i then f m else m) ms"

definition stop_message :: "string \<Rightarrow> bool \<Rightarrow> chat_message \<Rightarrow> chat_message" where
  "stop_message marker err m =
     m\<lparr>content := content m @ marker, streaming := False, isError := err \<or> isError m,
       blocks := map_option (\<lambda>bs. appendText (finalizeBlocks bs ToolError) marker) (blocks m)\<rparr>"

definition fold_tool :: "tool_event \<Rightarrow> chat_message \<Rightarrow> chat_message" where
  "fold_tool tool m = m\<lparr>blocks := Some (applyToolEvent (case blocks m of Some bs \<Rightarrow> bs | None \<Rightarrow> []) tool)\<rparr>"

definition fold_chunk :: "string \<Rightarrow> chat_message \<Rightarrow> chat_message" where
  "fold_chunk chunk m =
     m\<lparr>content := content m @ chunk,
       blocks := Some (appendText (case blocks m of Some bs \<Rightarrow> bs | None \<Rightarrow> [TextBlock (content m)]) chunk)\<rparr>"

definition finish_message :: "token_usage option \<Rightarrow> chat_message \<Rightarrow> chat_message" where
  "finish_message finalUsage m =
     m\<lparr>streaming := False, usage := finalUsage, blocks := map_option (\<lambda>bs. finalizeBlocks bs ToolDone) (blocks m)\<rparr>"

definition blank_line :: string where
  "blank_line = [CHR 0x0A, CHR 0x0A]"

text \<open>A new assistant message, which becomes the one under construction.\<close>

definition open_message :: "string \<Rightarrow> message_block list \<Rightarrow> chat \<Rightarrow> chat" where
  "open_message txt bs s =
     s\<lparr>messages := messages s @ [\<lparr>msg_id = Suc (messageCounter s), role = ''assistant'', content = txt,
         streaming = True, isError = False, usage = None, blocks = Some bs\<rparr>],
       messageCounter := Suc (messageCounter s), streamingRef := Some (Suc (messageCounter s))\<rparr>"

fun run_update :: "update \<Rightarrow> chat \<Rightarrow> chat" where
  "run_update (AddError err) s =
     (case streamingRef s of
        Some i \<Rightarrow>
          s\<lparr>streamingRef := None,
            messages := map_message i (stop_message (blank_line @ ''[Error: '' @ err @ '']'') True) (messages s)\<rparr>
      | None \<Rightarrow>
          s\<lparr>messages := messages s @ [\<lparr>msg_id = Suc (messageCounter s), role = ''assistant'',
              content = ''Error: '' @ err, streaming = False, isError = True, usage = None, blocks = None\<rparr>],
            messageCounter := Suc (messageCounter s)\<rparr>)"
| "run_update (FoldTool tool) s =
     (case streamingRef s of
        Some i \<Rightarrow>
          s\<lparr>messages := map_message i (fold_tool tool) (messages s)\<rparr>
      | None \<Rightarrow> open_message '''' (applyToolEvent [] tool) s)"
| "run_update (FoldChunk chunk) s =
     (case streamingRef s of
        Some i \<Rightarrow>
          s\<lparr>messages := map_message i (fold_chunk chunk) (messages s)\<rparr>
      | None \<Rightarrow> open_message chunk [TextBlock chunk] s)"
| "run_update (FinishMessage i finalUsage) s =
     s\<lparr>messages := map_message i (finish_message finalUsage) (messages s)\<rparr>"
| "run_update (CancelMessage i) s =
     s\<lparr>messages := map_message i (stop_message (blank_line @ ''[Cancelled]'') False) (messages s)\<rparr>"
| "run_update (AddMessage m) s = s\<lparr>messages := messages s @ [m]\<rparr>"
| "run_update (SetMessages ms) s = s\<lparr>messages := ms\<rparr>"

definition setMessages :: "bool \<Rightarrow> update \<Rightarrow> chat \<Rightarrow> chat" where
  "setMessages eager u s =
     (if eager \<and> queue s = [] then run_update u s else s\<lparr>queue := queue s @ [u]\<rparr>)"

text \<open>React renders: the queued functions run in order.\<close>

definition render :: "chat \<Rightarrow> chat" where
  "render s = foldl (\<lambda>s u. run_update u s) (s\<lparr>queue := []\<rparr>) (queue s)"

section \<open>Events of an answer\<close>

text \<open>An absent string and an empty one are both falsy.\<close>

definition given :: "string option \<Rightarrow> string option" where
  "given v = (if v = Some '''' then None else v)"

definition stale_event :: "ai_response \<Rightarrow> chat \<Rightarrow> bool" where
  "stale_event ev s \<longleftrightarrow>
     res_session ev = None \<or> res_session ev \<noteq> sessionId s \<or>
     (case res_generation ev of Some g \<Rightarrow> g \<noteq> 0 \<and> g < generation s | None \<Rightarrow> False)"

definition note_usage :: "token_usage option \<Rightarrow> chat \<Rightarrow> chat" where
  "note_usage u s = (case u of Some _ \<Rightarrow> s\<lparr>currentUsage := u\<rparr> | None \<Rightarrow> s)"

definition finish_answer :: "bool \<Rightarrow> ai_response \<Rightarrow> chat \<Rightarrow> chat" where
  "finish_answer eager ev s =
     (let s1 = note_usage (res_usage ev) s;
          finalUsage = (case res_usage ev of Some u \<Rightarrow> Some u | None \<Rightarrow> currentUsage s1);
          s2 = (case streamingRef s1 of
                  Some i \<Rightarrow> setMessages eager (FinishMessage i finalUsage) s1
                | None \<Rightarrow> s1)
      in s2\<lparr>streamingRef := None, isStreaming := False\<rparr>)"

definition fold_response :: "bool \<Rightarrow> ai_response \<Rightarrow> chat \<Rightarrow> chat" where
  "fold_response eager ev s =
     (let s1 = (case res_tool ev of Some t \<Rightarrow> setMessages eager (FoldTool t) s | None \<Rightarrow> s)
      in case given (res_chunk ev) of
           Some c \<Rightarrow> setMessages eager (FoldChunk c) (note_usage (res_usage ev) s1)
         | None \<Rightarrow> s1)"

definition handleResponse :: "bool \<Rightarrow> ai_response \<Rightarrow> chat \<Rightarrow> chat" where
  "handleResponse eager ev s =
     (if stale_event ev s then s
      else case given (res_error ev) of
             Some err \<Rightarrow>
               let s1 = setMessages eager (AddError err) s
               in if res_done ev then s1\<lparr>isStreaming := False, streamingRef := None\<rparr> else s1
           | None \<Rightarrow>
               let s1 = fold_response eager ev s
               in if res_done ev then finish_answer eager ev s1 else s1)"

section \<open>What the user does\<close>

definition sendMessage :: "bool \<Rightarrow> string \<Rightarrow> chat \<Rightarrow> chat" where
  "sendMessage eager txt s =
     (if trim txt = '''' \<or> sessionId s = None \<or> isStreaming s then s
      else let i = Suc (messageCounter s);
               s1 = setMessages eager
                 (AddMessage \<lparr>msg_id = i, role = ''user'', content = trim txt, streaming = False,
                    isError = False, usage = None, blocks = None\<rparr>)
                 (s\<lparr>messageCounter := i\<rparr>)
           in s1\<lparr>generation := Suc (generation s1), currentUsage := None, sends := Suc (sends s1)\<rparr>)"

definition send_answered :: "bool \<Rightarrow> chat \<Rightarrow> chat" where
  "send_answered success s = s\<lparr>sends := sends s - 1, isStreaming := success \<or> isStreaming s\<rparr>"

definition togglePanel :: "chat \<Rightarrow> chat" where
  "togglePanel s = s\<lparr>isOpen := \<not> isOpen s\<rparr>"

definition openAndSend :: "bool \<Rightarrow> string \<Rightarrow> chat \<Rightarrow> chat" where
  "openAndSend eager txt s =
     (if trim txt = '''' then s
      else if sessionId s \<noteq> None then sendMessage eager txt (s\<lparr>isOpen := True\<rparr>)
      else s\<lparr>pendingMessage := Some txt, isOpen := True\<rparr>)"

text \<open>A session id arrives; the effect that waits for it sends the queued message.\<close>

definition session_ready :: "bool \<Rightarrow> string \<Rightarrow> chat \<Rightarrow> chat" where
  "session_ready eager i s =
     (if i = '''' then s
      else let s1 = s\<lparr>sessionId := Some i\<rparr>
           in case given (pendingMessage s1) of
                Some txt \<Rightarrow> sendMessage eager txt (s1\<lparr>pendingMessage := None\<rparr>)
              | None \<Rightarrow> s1)"

definition cancelRequest :: "bool \<Rightarrow> chat \<Rightarrow> chat" where
  "cancelRequest eager s =
     (if sessionId s = None then s
      else let s1 = s\<lparr>isStreaming := False\<rparr>
           in case streamingRef s1 of
                Some i \<Rightarrow> (setMessages eager (CancelMessage i) s1)\<lparr>streamingRef := None\<rparr>
              | None \<Rightarrow> s1)"

definition resetChatState :: "bool \<Rightarrow> chat \<Rightarrow> chat" where
  "resetChatState eager s =
     (setMessages eager (SetMessages []) s)
       \<lparr>isStreaming := False, streamingRef := None, generation := 0, conversationId := None\<rparr>"

definition startNewChat :: "bool \<Rightarrow> chat \<Rightarrow> chat" where
  "startNewChat eager s =
     (if sessionId s \<noteq> None then s\<lparr>clears := clears s @ [None]\<rparr> else resetChatState eager s)"

definition load_state :: "bool \<Rightarrow> conversation \<Rightarrow> chat \<Rightarrow> chat" where
  "load_state eager conv s =
     (setMessages eager (SetMessages (filter (\<lambda>m. role m \<noteq> ''thought'') (conv_messages conv))) s)
       \<lparr>conversationId := Some (conv_id conv), isStreaming := False, streamingRef := None, generation := 0\<rparr>"

definition loadConversation :: "bool \<Rightarrow> string \<Rightarrow> chat \<Rightarrow> chat" where
  "loadConversation eager convId s =
     (case List.find (\<lambda>c. conv_id c = convId) (conversationHistory s) of
        None \<Rightarrow> s
      | Some conv \<Rightarrow>
          let s1 = s\<lparr>messageCounter := fold max (map msg_id (conv_messages conv)) (messageCounter s)\<rparr>
          in if sessionId s1 \<noteq> None then s1\<lparr>clears := clears s1 @ [Some conv]\<rparr>
             else load_state eager conv s1)"

text \<open>\<open>ClearAISession\<close> answers with a new session id, an empty one, or fails (\<open>None\<close>).\<close>

definition clear_answered :: "bool \<Rightarrow> string option \<Rightarrow> conversation option \<Rightarrow> chat \<Rightarrow> chat" where
  "clear_answered eager newId what s =
     (let s1 = (case what of None \<Rightarrow> resetChatState eager s | Some conv \<Rightarrow> load_state eager conv s)
      in case newId of Some i \<Rightarrow> session_ready eager i s1 | None \<Rightarrow> s1)"

definition deleteConversation :: "bool \<Rightarrow> string \<Rightarrow> chat \<Rightarrow> chat" where
  "deleteConversation eager convId s =
     (let s1 = s\<lparr>conversationHistory := filter (\<lambda>c. conv_id c \<noteq> convId) (conversationHistory s)\<rparr>
      in if conversationId s1 = Some convId then resetChatState eager s1 else s1)"

section \<open>The conversations kept\<close>

definition MAX_CONVERSATIONS :: nat where
  "MAX_CONVERSATIONS = 10"

text \<open>The ellipsis, in UTF-8.\<close>

definition ellipsis :: string where
  "ellipsis = [CHR 0xE2, CHR 0x80, CHR 0xA6]"

definition generateTitle :: "chat_message list \<Rightarrow> string" where
  "generateTitle ms =
     (case List.find (\<lambda>m. role m = ''user'') ms of
        None \<Rightarrow> ''New conversation''
      | Some m \<Rightarrow> if length (content m) > 50 then take 50 (content m) @ ellipsis else content m)"

definition store_conversation :: "conversation \<Rightarrow> conversation list \<Rightarrow> conversation list" where
  "store_conversation conv prev =
     (let updated = (case find_index (\<lambda>c. conv_id c = conv_id conv) prev of
                       Some i \<Rightarrow> prev[i := conv]
                     | None \<Rightarrow> conv # prev)
      in if length updated > MAX_CONVERSATIONS then take MAX_CONVERSATIONS updated else updated)"

definition autosave :: "int \<Rightarrow> chat \<Rightarrow> chat" where
  "autosave now s =
     (if (\<forall>m \<in> set (messages s). role m \<noteq> ''user'') \<or> isStreaming s then s
      else let i = (case given (conversationId s) of Some c \<Rightarrow> c | None \<Rightarrow> ''conv-'' @ show_int now)
           in s\<lparr>conversationId := Some i,
                conversationHistory := store_conversation
                  \<lparr>conv_id = i, title = generateTitle (messages s),
                   conv_messages = map (\<lambda>m. m\<lparr>blocks := None\<rparr>) (messages s), updatedAt = now\<rparr>
                  (conversationHistory s)\<rparr>)"

section \<open>The chat as interleaved steps\<close>

inductive chat_step :: "chat \<Rightarrow> chat \<Rightarrow> bool" where
  respond: "chat_step s (handleResponse eager ev s)"
| rendered: "chat_step s (render s)"
| send: "chat_step s (sendMessage eager txt s)"
| sent: "sends s > 0 \<Longrightarrow> chat_step s (send_answered success s)"
| open_send: "chat_step s (openAndSend eager txt s)"
| session: "chat_step s (session_ready eager i s)"
| cancel: "chat_step s (cancelRequest eager s)"
| new_chat: "chat_step s (startNewChat eager s)"
| load: "chat_step s (loadConversation eager convId s)"
| cleared: "clears s = cs @ what # cs' \<Longrightarrow> chat_step s (clear_answered eager newId what (s\<lparr>clears := cs @ cs'\<rparr>))"
| delete: "chat_step s (deleteConversation eager convId s)"
| autosaved: "queue s = [] \<Longrightarrow> chat_step s (autosave now s)"
| toggle: "chat_step s (togglePanel s)"

inductive_cases chat_stepE: "chat_step s t"

subsection \<open>The invariant\<close>

definition message_ok :: "chat_message \<Rightarrow> bool" where
  "message_ok m \<longleftrightarrow>
     (\<forall>bs. blocks m = Some bs \<longrightarrow>
        blocksToText bs = content m \<and> (\<not> streaming m \<longrightarrow> (\<forall>b \<in> set bs. \<not> runs_tool b)))"

definition stored_ok :: "chat_message list \<Rightarrow> bool" where
  "stored_ok ms \<longleftrightarrow> distinct (map msg_id ms) \<and> (\<forall>m \<in> set ms. blocks m = None)"

fun update_ok :: "nat \<Rightarrow> nat option \<Rightarrow> update \<Rightarrow> bool" where
  "update_ok n r (AddMessage m) \<longleftrightarrow> msg_id m \<le> n \<and> blocks m = None \<and> r \<noteq> Some (msg_id m)"
| "update_ok n r (SetMessages ms) \<longleftrightarrow> stored_ok ms \<and> (\<forall>m \<in> set ms. msg_id m \<le> n \<and> r \<noteq> Some (msg_id m))"
| "update_ok n r (FinishMessage i _) \<longleftrightarrow> i \<le> n \<and> r \<noteq> Some i"
| "update_ok n r (CancelMessage i) \<longleftrightarrow> i \<le> n \<and> r \<noteq> Some i"
| "update_ok n r _ \<longleftrightarrow> True"

text \<open>No queued message has an id that is there when it is added.\<close>

fun queue_ok :: "nat set \<Rightarrow> update list \<Rightarrow> bool" where
  "queue_ok A [] \<longleftrightarrow> True"
| "queue_ok A (AddMessage m # us) \<longleftrightarrow> msg_id m \<notin> A \<and> queue_ok (insert (msg_id m) A) us"
| "queue_ok A (SetMessages ms # us) \<longleftrightarrow> queue_ok (msg_id ` set ms) us"
| "queue_ok A (_ # us) \<longleftrightarrow> queue_ok A us"

definition chat_inv :: "update list \<Rightarrow> chat \<Rightarrow> bool" where
  "chat_inv us s \<longleftrightarrow>
     distinct (map msg_id (messages s)) \<and>
     (\<forall>m \<in> set (messages s). msg_id m \<le> messageCounter s \<and> message_ok m) \<and>
     queue_ok (msg_id ` set (messages s)) us \<and>
     (\<forall>u \<in> set us. update_ok (messageCounter s) (streamingRef s) u) \<and>
     (\<forall>i. streamingRef s = Some i \<longrightarrow>
        i \<le> messageCounter s \<and> (\<forall>m \<in> set (messages s). msg_id m = i \<longrightarrow> streaming m \<and> blocks m \<noteq> None)) \<and>
     (\<forall>c \<in> set (conversationHistory s). stored_ok (conv_messages c)) \<and>
     (\<forall>c. Some c \<in> set (clears s) \<longrightarrow>
        stored_ok (conv_messages c) \<and> (\<forall>m \<in> set (conv_messages c). msg_id m \<le> messageCounter s))"

definition chat_ok :: "chat \<Rightarrow> bool" where
  "chat_ok s \<longleftrightarrow> chat_inv (queue s) s"

lemma update_ok_fresh: "update_ok n r u \<Longrightarrow> update_ok (Suc n) (Some (Suc n)) u"
  by (cases u) auto

lemma update_ok_Suc: "update_ok n r u \<Longrightarrow> \<forall>i. r = Some i \<longrightarrow> i \<le> n \<Longrightarrow> update_ok (Suc n) r u"
  by (cases u) auto

lemma update_ok_none: "update_ok n r u \<Longrightarrow> update_ok n None u"
  by (cases u) auto

lemma update_ok_mono: "update_ok n r u \<Longrightarrow> n \<le> k \<Longrightarrow> update_ok k r u"
  by (cases u) auto

lemma queue_ok_insert:
  "queue_ok A us \<Longrightarrow> \<forall>u \<in> set us. update_ok n r u \<Longrightarrow> n < k \<Longrightarrow> queue_ok (insert k A) us"
proof (induction A us rule: queue_ok.induct)
  case (2 A m us)
  then show ?case by (auto simp: insert_commute)
qed auto

lemma queue_ok_add:
  "queue_ok A us \<Longrightarrow> \<forall>u \<in> set us. update_ok n r u \<Longrightarrow> \<forall>a \<in> A. a \<le> n \<Longrightarrow> n < msg_id m \<Longrightarrow>
   queue_ok A (us @ [AddMessage m])"
proof (induction A us rule: queue_ok.induct)
  case (3 A ms us)
  then show ?case by (auto simp: image_iff)
qed auto

lemma queue_ok_snoc: "queue_ok A us \<Longrightarrow> \<forall>m. u \<noteq> AddMessage m \<Longrightarrow> queue_ok A (us @ [u])"
  by (induction A us rule: queue_ok.induct) (cases u; auto)+

lemma map_message_ids [simp]: "(\<And>m. msg_id (f m) = msg_id m) \<Longrightarrow> map msg_id (map_message i f ms) = map msg_id ms"
  by (simp add: map_message_def)

lemma map_message_ids_set [simp]:
  "(\<And>m. msg_id (f m) = msg_id m) \<Longrightarrow> msg_id ` set (map_message i f ms) = msg_id ` set ms"
  by (metis list.set_map map_message_ids)

lemma map_message_ball:
  "(\<forall>m \<in> set (map_message i f ms). P m) \<longleftrightarrow> (\<forall>m \<in> set ms. P (if msg_id m = i then f m else m))"
  by (auto simp: map_message_def)

lemma stop_message_ok: "message_ok m \<Longrightarrow> message_ok (stop_message marker err m)"
proof (cases "blocks m")
  case (Some bs)
  assume "message_ok m"
  moreover have "\<not> runs_tool b" if "b \<in> set (appendText (finalizeBlocks bs ToolError) marker)" for b
    using append_runs [OF that] finalized [of ToolError b bs] by auto
  ultimately show ?thesis using Some by (auto simp: message_ok_def stop_message_def)
qed (auto simp: message_ok_def stop_message_def)

lemma stop_message_id [simp]: "msg_id (stop_message marker err m) = msg_id m"
  by (simp add: stop_message_def)

lemma finish_message_ok:
  "message_ok m \<Longrightarrow>
   message_ok (finish_message u m)"
  using finalized [of ToolDone] by (auto simp: message_ok_def finish_message_def)

lemma tool_message_ok:
  "message_ok m \<Longrightarrow> streaming m \<Longrightarrow> blocks m \<noteq> None \<Longrightarrow>
   message_ok (fold_tool tool m)"
  by (auto simp: message_ok_def fold_tool_def)

lemma chunk_message_ok:
  "message_ok m \<Longrightarrow> streaming m \<Longrightarrow>
   message_ok (fold_chunk chunk m)"
  by (auto simp: message_ok_def fold_chunk_def split: option.splits)

lemma folded_fields [simp]:
  "msg_id (fold_tool tool m) = msg_id m" "streaming (fold_tool tool m) = streaming m" "blocks (fold_tool tool m) \<noteq> None"
  "msg_id (fold_chunk chunk m) = msg_id m" "streaming (fold_chunk chunk m) = streaming m"
  "blocks (fold_chunk chunk m) \<noteq> None" "msg_id (finish_message u m) = msg_id m"
  by (simp_all add: fold_tool_def fold_chunk_def finish_message_def)

lemma chat_inv_map:
  assumes inv: "chat_inv us s"
    and t: "messages t = map_message i f (messages s)" "streamingRef t = r" "messageCounter t = messageCounter s"
      "conversationHistory t = conversationHistory s" "clears t = clears s"
    and id: "\<And>m. msg_id (f m) = msg_id m"
    and ok: "\<And>m. m \<in> set (messages s) \<Longrightarrow> msg_id m = i \<Longrightarrow> message_ok m \<Longrightarrow> message_ok (f m)"
    and r: "r = None \<or> r = streamingRef s \<and>
      (r = Some i \<longrightarrow> (\<forall>m \<in> set (messages s). msg_id m = i \<longrightarrow> streaming (f m) \<and> blocks (f m) \<noteq> None))"
  shows "chat_inv us t"
proof -
  have "\<forall>u \<in> set us. update_ok (messageCounter s) r u"
    using inv r update_ok_none by (auto simp: chat_inv_def)
  with inv r ok show ?thesis by (auto simp: chat_inv_def id map_message_ball t)
qed

lemma open_message_inv:
  assumes inv: "chat_inv us s" and ok: "blocksToText bs = txt"
  shows "chat_inv us (open_message txt bs s)"
proof -
  have "queue_ok (insert (Suc (messageCounter s)) (msg_id ` set (messages s))) us"
    using inv by (intro queue_ok_insert [where n = "messageCounter s" and r = "streamingRef s"]) (auto simp: chat_inv_def)
  moreover have "msg_id m \<noteq> Suc (messageCounter s)" if "m \<in> set (messages s)" for m
    using inv that by (auto simp: chat_inv_def)
  ultimately show ?thesis using inv update_ok_fresh ok
    by (fastforce simp: chat_inv_def open_message_def message_ok_def le_SucI)
qed

lemma add_message_inv:
  assumes inv: "chat_inv us s" and m: "blocks m = None" "msg_id m = Suc (messageCounter s)"
  shows "chat_inv us (s\<lparr>messages := messages s @ [m], messageCounter := Suc (messageCounter s)\<rparr>)"
proof -
  have "queue_ok (insert (Suc (messageCounter s)) (msg_id ` set (messages s))) us"
    using inv by (intro queue_ok_insert [where n = "messageCounter s" and r = "streamingRef s"]) (auto simp: chat_inv_def)
  moreover have "msg_id x \<noteq> Suc (messageCounter s)" if "x \<in> set (messages s)" for x
    using inv that by (auto simp: chat_inv_def)
  moreover have "update_ok (Suc (messageCounter s)) (streamingRef s) u" if "u \<in> set us" for u
    using inv that by (intro update_ok_Suc) (auto simp: chat_inv_def)
  ultimately show ?thesis using inv m by (auto simp: chat_inv_def message_ok_def le_SucI)
qed

lemma fold_update_inv:
  assumes inv: "chat_inv us s"
  shows "chat_inv us (run_update (AddError err) s)" "chat_inv us (run_update (FoldTool tool) s)"
    "chat_inv us (run_update (FoldChunk chunk) s)"
proof -
  show "chat_inv us (run_update (AddError err) s)"
  proof (cases "streamingRef s")
    case None
    with inv show ?thesis by (auto intro!: add_message_inv)
  next
    case (Some k)
    then show ?thesis
      by (intro chat_inv_map [OF inv, where r = None and i = k
            and f = "stop_message (blank_line @ ''[Error: '' @ err @ '']'') True"]) (auto simp: stop_message_ok)
  qed
  show "chat_inv us (run_update (FoldTool tool) s)"
  proof (cases "streamingRef s")
    case None
    with inv show ?thesis by (auto intro!: open_message_inv)
  next
    case (Some k)
    with inv show ?thesis
      by (intro chat_inv_map [OF inv, where r = "streamingRef s" and i = k and f = "fold_tool tool"])
        (auto simp: chat_inv_def tool_message_ok)
  qed
  show "chat_inv us (run_update (FoldChunk chunk) s)"
  proof (cases "streamingRef s")
    case None
    with inv show ?thesis by (auto intro!: open_message_inv)
  next
    case (Some k)
    with inv show ?thesis
      by (intro chat_inv_map [OF inv, where r = "streamingRef s" and i = k and f = "fold_chunk chunk"])
        (auto simp: chat_inv_def chunk_message_ok)
  qed
qed

lemma close_update_inv:
  assumes inv: "chat_inv us s" "streamingRef s \<noteq> Some k"
  shows "chat_inv us (run_update (FinishMessage k fu) s)" "chat_inv us (run_update (CancelMessage k) s)"
proof -
  show "chat_inv us (run_update (FinishMessage k fu) s)"
    using inv(2) by (intro chat_inv_map [OF inv(1), where r = "streamingRef s" and i = k
        and f = "finish_message fu"])
      (auto simp: finish_message_ok)
  show "chat_inv us (run_update (CancelMessage k) s)"
    using inv(2) by (intro chat_inv_map [OF inv(1), where r = "streamingRef s" and i = k
        and f = "stop_message (blank_line @ ''[Cancelled]'') False"]) (auto simp: stop_message_ok)
qed

lemma run_update_inv:
  assumes i: "chat_inv (u # us) s"
  shows "chat_inv us (run_update u s)"
proof (cases u)
  case (FinishMessage k fu)
  with i have "chat_inv us s" "streamingRef s \<noteq> Some k" by (auto simp: chat_inv_def)
  then show ?thesis unfolding FinishMessage by (rule close_update_inv)
next
  case (CancelMessage k)
  with i have "chat_inv us s" "streamingRef s \<noteq> Some k" by (auto simp: chat_inv_def)
  then show ?thesis unfolding CancelMessage by (rule close_update_inv)
next
  case (AddMessage m)
  with i show ?thesis by (auto simp: chat_inv_def message_ok_def)
next
  case (SetMessages ms)
  with i show ?thesis by (auto simp: chat_inv_def message_ok_def stored_ok_def)
next
  case (AddError err)
  with i have "chat_inv us s" by (auto simp: chat_inv_def)
  then show ?thesis unfolding AddError by (rule fold_update_inv)
next
  case (FoldTool tool)
  with i have "chat_inv us s" by (auto simp: chat_inv_def)
  then show ?thesis unfolding FoldTool by (rule fold_update_inv)
next
  case (FoldChunk chunk)
  with i have "chat_inv us s" by (auto simp: chat_inv_def)
  then show ?thesis unfolding FoldChunk by (rule fold_update_inv)
qed

lemma run_update_queue [simp]: "queue (run_update u s) = queue s"
  by (cases u) (auto simp: open_message_def split: option.splits)

lemma run_updates_inv:
  "chat_inv us t \<Longrightarrow> queue t = [] \<Longrightarrow>
   chat_inv [] (foldl (\<lambda>s u. run_update u s) t us) \<and> queue (foldl (\<lambda>s u. run_update u s) t us) = []"
  by (induction us arbitrary: t) (auto simp: run_update_inv simp del: run_update.simps)

lemma chat_inv_queue [simp]: "chat_inv us (s\<lparr>queue := q\<rparr>) = chat_inv us s"
  by (simp add: chat_inv_def)

lemma render_inv: "chat_ok s \<Longrightarrow> chat_ok (render s)"
  using run_updates_inv [of "queue s" "s\<lparr>queue := []\<rparr>"] by (simp add: chat_ok_def render_def)

lemma setMessages_inv: "chat_inv (queue s @ [u]) s \<Longrightarrow> chat_ok (setMessages eager u s)"
proof (cases "eager \<and> queue s = []")
  case True
  assume "chat_inv (queue s @ [u]) s"
  with True have "chat_inv [] (run_update u s)" by (simp add: run_update_inv)
  with True show ?thesis by (simp add: setMessages_def chat_ok_def)
qed (auto simp: setMessages_def chat_ok_def)

lemma chat_inv_snoc:
  "chat_inv us s \<Longrightarrow> update_ok (messageCounter s) (streamingRef s) u \<Longrightarrow> \<forall>m. u \<noteq> AddMessage m \<Longrightarrow> chat_inv (us @ [u]) s"
  using queue_ok_snoc unfolding chat_inv_def by auto

lemma fold_inv:
  "chat_ok s \<Longrightarrow> u \<in> {AddError err, FoldTool tool, FoldChunk chunk} \<Longrightarrow> chat_ok (setMessages eager u s)"
  unfolding chat_ok_def by (rule setMessages_inv [unfolded chat_ok_def], rule chat_inv_snoc) auto

text \<open>The bookkeeping around a call of \<open>setMessages\<close> does not touch what the invariant is about.\<close>

lemma chat_ok_fields [simp]:
  "chat_ok (s\<lparr>isStreaming := a\<rparr>) = chat_ok s" "chat_ok (s\<lparr>sessionId := b\<rparr>) = chat_ok s"
  "chat_ok (s\<lparr>conversationId := c\<rparr>) = chat_ok s" "chat_ok (s\<lparr>generation := n\<rparr>) = chat_ok s"
  "chat_ok (s\<lparr>currentUsage := u\<rparr>) = chat_ok s" "chat_ok (s\<lparr>isOpen := d\<rparr>) = chat_ok s"
  "chat_ok (s\<lparr>pendingMessage := e\<rparr>) = chat_ok s" "chat_ok (s\<lparr>sends := n\<rparr>) = chat_ok s"
  by (simp_all add: chat_ok_def chat_inv_def)

lemma chat_ok_closed [simp]:
  "chat_ok (s\<lparr>isStreaming := a, streamingRef := r\<rparr>) = chat_ok (s\<lparr>streamingRef := r\<rparr>)"
  "chat_ok (s\<lparr>conversationId := c, streamingRef := r\<rparr>) = chat_ok (s\<lparr>streamingRef := r\<rparr>)"
  "chat_ok (s\<lparr>conversationId := c, isStreaming := a, streamingRef := r\<rparr>) = chat_ok (s\<lparr>streamingRef := r\<rparr>)"
  "chat_ok (s\<lparr>isStreaming := a, streamingRef := r, generation := n, conversationId := c\<rparr>) = chat_ok (s\<lparr>streamingRef := r\<rparr>)"
  by (simp_all add: chat_ok_def chat_inv_def)

lemma chat_ok_none: "chat_ok s \<Longrightarrow> chat_ok (s\<lparr>streamingRef := None\<rparr>)"
  using update_ok_none by (auto simp: chat_ok_def chat_inv_def)

lemma note_usage_ok [simp]: "chat_ok (note_usage u s) = chat_ok s"
  by (simp add: note_usage_def split: option.splits)

lemma setMessages_ref:
  assumes "u \<in> {FinishMessage i x, CancelMessage i, SetMessages ms}"
  shows "(setMessages eager u s)\<lparr>streamingRef := r\<rparr> = setMessages eager u (s\<lparr>streamingRef := r\<rparr>)"
  using assms by (auto simp: setMessages_def)

lemma close_inv:
  assumes "chat_ok s" "streamingRef s = Some i" "u \<in> {FinishMessage i x, CancelMessage i}"
  shows "chat_ok ((setMessages eager u s)\<lparr>streamingRef := None\<rparr>)"
proof -
  have "(setMessages eager u s)\<lparr>streamingRef := None\<rparr> = setMessages eager u (s\<lparr>streamingRef := None\<rparr>)"
    using assms(3) by (intro setMessages_ref [where i = i and x = x and ms = "[]"]) auto
  moreover have "i \<le> messageCounter s" using assms by (auto simp: chat_ok_def chat_inv_def)
  ultimately show ?thesis
    using chat_ok_none [OF assms(1)] assms(3) unfolding chat_ok_def
    by (auto intro!: setMessages_inv [unfolded chat_ok_def] chat_inv_snoc)
qed

lemma set_inv:
  assumes "chat_ok s" "stored_ok ms" "\<forall>m \<in> set ms. msg_id m \<le> messageCounter s"
  shows "chat_ok ((setMessages eager (SetMessages ms) s)\<lparr>streamingRef := None\<rparr>)"
proof -
  have "(setMessages eager (SetMessages ms) s)\<lparr>streamingRef := None\<rparr> =
      setMessages eager (SetMessages ms) (s\<lparr>streamingRef := None\<rparr>)"
    by (intro setMessages_ref [where i = 0 and x = None and ms = ms]) auto
  then show ?thesis
    using chat_ok_none [OF assms(1)] assms(2,3) unfolding chat_ok_def
    by (auto intro!: setMessages_inv [unfolded chat_ok_def] chat_inv_snoc)
qed

subsection \<open>Every step keeps it\<close>

lemma fold_response_ok: "chat_ok s \<Longrightarrow> chat_ok (fold_response eager ev s)"
  using fold_inv by (fastforce simp: fold_response_def Let_def split: option.splits)

lemma finish_answer_ok: "chat_ok s \<Longrightarrow> chat_ok (finish_answer eager ev s)"
  using close_inv [of "note_usage (res_usage ev) s"] chat_ok_none
  by (fastforce simp: finish_answer_def Let_def split: option.splits)

lemma handleResponse_ok: "chat_ok s \<Longrightarrow> chat_ok (handleResponse eager ev s)"
  using fold_inv [of s "AddError _"] chat_ok_none [of "setMessages _ _ s\<lparr>isStreaming := False\<rparr>"]
  by (auto simp: handleResponse_def Let_def fold_response_ok finish_answer_ok split: option.splits)

lemma sendMessage_ok: "chat_ok s \<Longrightarrow> chat_ok (sendMessage eager txt s)"
proof -
  assume ok: "chat_ok s"
  define m where "m = \<lparr>msg_id = Suc (messageCounter s), role = ''user'', content = trim txt, streaming = False,
    isError = False, usage = None, blocks = None\<rparr>"
  let ?s = "s\<lparr>messageCounter := Suc (messageCounter s)\<rparr>"
  have "queue_ok (msg_id ` set (messages s)) (queue s @ [AddMessage m])"
    using ok by (intro queue_ok_add [where n = "messageCounter s" and r = "streamingRef s"])
      (auto simp: chat_ok_def chat_inv_def m_def)
  moreover have "update_ok (Suc (messageCounter s)) (streamingRef s) u" if "u \<in> set (queue s)" for u
    using ok that by (intro update_ok_Suc) (auto simp: chat_ok_def chat_inv_def)
  ultimately have "chat_inv (queue ?s @ [AddMessage m]) ?s"
    using ok by (auto simp: chat_ok_def chat_inv_def le_SucI m_def)
  from setMessages_inv [OF this, of eager] ok show ?thesis
    by (simp add: sendMessage_def Let_def m_def)
qed

lemma resetChatState_ok: "chat_ok s \<Longrightarrow> chat_ok (resetChatState eager s)"
  using set_inv [of s "[]" eager] chat_ok_none [of "setMessages eager (SetMessages []) s"]
  by (simp add: resetChatState_def stored_ok_def)

lemma load_state_ok:
  assumes "chat_ok s" "stored_ok (conv_messages conv)" "\<forall>m \<in> set (conv_messages conv). msg_id m \<le> messageCounter s"
  shows "chat_ok (load_state eager conv s)"
proof -
  have "stored_ok (filter P (conv_messages conv))" for P
    using assms(2) by (auto simp: stored_ok_def distinct_map_filter)
  from set_inv [OF assms(1) this, of _ eager] assms(3) show ?thesis by (simp add: load_state_def)
qed

lemma session_ready_ok: "chat_ok s \<Longrightarrow> chat_ok (session_ready eager i s)"
  by (auto simp: session_ready_def Let_def sendMessage_ok split: option.splits)

lemma counter_raised:
  "chat_ok s \<Longrightarrow> messageCounter s \<le> n \<Longrightarrow> chat_ok (s\<lparr>messageCounter := n\<rparr>)"
  using update_ok_mono by (fastforce simp: chat_ok_def chat_inv_def)

lemma fold_max_le: "(n :: nat) \<le> fold max xs n \<and> (\<forall>x \<in> set xs. x \<le> fold max xs n)"
  by (induction xs arbitrary: n) (auto, (metis le_max_iff_disj max.cobounded1 max.cobounded2 order_trans)+)

lemma loadConversation_ok: "chat_ok s \<Longrightarrow> chat_ok (loadConversation eager convId s)"
proof (cases "List.find (\<lambda>c. conv_id c = convId) (conversationHistory s)")
  case (Some conv)
  assume ok: "chat_ok s"
  let ?n = "fold max (map msg_id (conv_messages conv)) (messageCounter s)"
  have "conv \<in> set (conversationHistory s)" using Some by (auto simp: find_Some_iff)
  with ok have st: "stored_ok (conv_messages conv)" by (auto simp: chat_ok_def chat_inv_def)
  have n: "messageCounter s \<le> ?n" "\<forall>m \<in> set (conv_messages conv). msg_id m \<le> ?n"
    using fold_max_le [of "messageCounter s" "map msg_id (conv_messages conv)"] by auto
  from counter_raised [OF ok n(1)] have ok': "chat_ok (s\<lparr>messageCounter := ?n\<rparr>)" .
  then have "chat_ok (s\<lparr>messageCounter := ?n, clears := clears s @ [Some conv]\<rparr>)"
    using st n(2) by (auto simp: chat_ok_def chat_inv_def)
  with load_state_ok [OF ok' st, of eager] n(2) Some show ?thesis
    by (simp add: loadConversation_def Let_def)
qed (simp add: loadConversation_def)

lemma clear_answered_ok:
  assumes "chat_ok s" "clears s = cs @ what # cs'"
  shows "chat_ok (clear_answered eager newId what (s\<lparr>clears := cs @ cs'\<rparr>))"
proof -
  let ?s = "s\<lparr>clears := cs @ cs'\<rparr>"
  have ok: "chat_ok ?s" using assms by (auto simp: chat_ok_def chat_inv_def)
  have "chat_ok (case what of None \<Rightarrow> resetChatState eager ?s | Some conv \<Rightarrow> load_state eager conv ?s)"
  proof (cases what)
    case (Some conv)
    with assms have "stored_ok (conv_messages conv)" "\<forall>m \<in> set (conv_messages conv). msg_id m \<le> messageCounter ?s"
      by (auto simp: chat_ok_def chat_inv_def)
    with ok Some show ?thesis by (simp add: load_state_ok)
  qed (simp add: resetChatState_ok ok)
  then show ?thesis by (auto simp: clear_answered_def Let_def session_ready_ok split: option.splits)
qed

lemma store_conversation_set: "set (store_conversation conv prev) \<subseteq> insert conv (set prev)"
proof -
  have "set (prev[i := conv]) \<subseteq> insert conv (set prev)" for i by (rule set_update_subset_insert)
  then show ?thesis by (auto simp: store_conversation_def Let_def split: option.splits dest: in_set_takeD)
qed

lemma autosave_ok: "chat_ok s \<Longrightarrow> chat_ok (autosave now s)"
proof -
  assume ok: "chat_ok s"
  have st: "stored_ok (map (\<lambda>m. m\<lparr>blocks := None\<rparr>) (messages s))"
    using ok by (auto simp: stored_ok_def chat_ok_def chat_inv_def o_def)
  have "chat_ok (s\<lparr>conversationId := i, conversationHistory := store_conversation conv (conversationHistory s)\<rparr>)"
    if "stored_ok (conv_messages conv)" for i conv
    using ok that store_conversation_set [of conv "conversationHistory s"] by (auto simp: chat_ok_def chat_inv_def)
  with ok st show ?thesis by (simp add: autosave_def Let_def)
qed

lemma deleteConversation_ok: "chat_ok s \<Longrightarrow> chat_ok (deleteConversation eager convId s)"
proof -
  assume "chat_ok s"
  then have "chat_ok (s\<lparr>conversationHistory := filter (\<lambda>c. conv_id c \<noteq> convId) (conversationHistory s)\<rparr>)"
    by (auto simp: chat_ok_def chat_inv_def)
  then show ?thesis by (auto simp: deleteConversation_def Let_def resetChatState_ok)
qed

lemma cancelRequest_ok: "chat_ok s \<Longrightarrow> chat_ok (cancelRequest eager s)"
  using close_inv [of "s\<lparr>isStreaming := False\<rparr>"] chat_ok_none
  by (fastforce simp: cancelRequest_def Let_def split: option.splits)

lemma startNewChat_ok: "chat_ok s \<Longrightarrow> chat_ok (startNewChat eager s)"
proof -
  assume ok: "chat_ok s"
  then have "chat_ok (s\<lparr>clears := clears s @ [None]\<rparr>)" by (auto simp: chat_ok_def chat_inv_def)
  with ok show ?thesis by (auto simp: startNewChat_def resetChatState_ok)
qed

lemmas chat_operation_ok =
  handleResponse_ok render_inv sendMessage_ok session_ready_ok cancelRequest_ok startNewChat_ok
  loadConversation_ok clear_answered_ok deleteConversation_ok autosave_ok

lemma chat_step_ok: "chat_ok s \<Longrightarrow> chat_step s t \<Longrightarrow> chat_ok t"
  by (erule chat_stepE) (auto simp: chat_operation_ok send_answered_def togglePanel_def openAndSend_def)

text \<open>The provider mounts: no messages, the conversations that were stored.\<close>

definition chat_start :: "conversation list \<Rightarrow> chat" where
  "chat_start stored =
     \<lparr>messages = [], queue = [], isStreaming = False, sessionId = None, conversationId = None,
      streamingRef = None, generation = 0, currentUsage = None, messageCounter = 0,
      conversationHistory = map (\<lambda>c. c\<lparr>conv_messages := filter (\<lambda>m. role m \<noteq> ''thought'') (conv_messages c)\<rparr>) stored,
      isOpen = False, pendingMessage = None, sends = 0, clears = []\<rparr>"

interpretation chat: transition_system
  "\<lambda>s. \<exists>stored. (\<forall>c \<in> set stored. stored_ok (conv_messages c)) \<and> s = chat_start stored" chat_step chat_ok
proof
  fix s assume "\<exists>stored. (\<forall>c \<in> set stored. stored_ok (conv_messages c)) \<and> s = chat_start stored"
  then show "chat_ok s"
    by (auto simp: chat_start_def chat_ok_def chat_inv_def stored_ok_def distinct_map_filter)
qed (rule chat_step_ok)

text \<open>
  C5: however events, renders, sends, cancellations, loads and saves interleave,
  and whenever React runs the queued functions, the messages shown keep distinct ids, the text blocks
  of a message are exactly its content, which is what is copied and stored, and a message that is no
  longer streaming shows no tool call as running.
\<close>

theorem chat_messages_sound:
  assumes "\<forall>c \<in> set stored. stored_ok (conv_messages c)" "chat_step\<^sup>*\<^sup>* (chat_start stored) s"
  shows "distinct (map msg_id (messages s)) \<and>
    (\<forall>m \<in> set (messages s). \<forall>bs. blocks m = Some bs \<longrightarrow>
      blocksToText bs = content m \<and> (\<not> streaming m \<longrightarrow> (\<forall>b \<in> set bs. \<not> runs_tool b)))"
proof -
  have "chat_ok s" using assms by (intro chat.reachable_inv) auto
  then show ?thesis by (auto simp: chat_ok_def chat_inv_def message_ok_def)
qed

definition chunk_event :: "string \<Rightarrow> string \<Rightarrow> ai_response" where
  "chunk_event sid c = \<lparr>res_session = Some sid, res_generation = None, res_error = None, res_chunk = Some c,
     res_tool = None, res_usage = None, res_done = False\<rparr>"

definition done_event :: "string \<Rightarrow> ai_response" where
  "done_event sid = \<lparr>res_session = Some sid, res_generation = None, res_error = None, res_chunk = None,
     res_tool = None, res_usage = None, res_done = True\<rparr>"

lemmas event_defs = chunk_event_def done_event_def

theorem chat_messages_sound_witness:
  "distinct (map msg_id (messages (handleResponse True (chunk_event ''s'' ''hi'')
     (sendMessage True ''hello'' (session_ready True ''s'' (chat_start []))))))"
proof -
  let ?s = "chat_start []"
  have "chat_step\<^sup>*\<^sup>* ?s (handleResponse True (chunk_event ''s'' ''hi'')
      (sendMessage True ''hello'' (session_ready True ''s'' ?s)))"
    by (meson chat_step.session chat_step.send chat_step.respond rtranclp.rtrancl_refl rtranclp.rtrancl_into_rtrancl)
  then show ?thesis using chat_messages_sound [of "[]"] by simp
qed

section \<open>An answer\<close>

definition chunk_of :: "ai_response \<Rightarrow> string" where
  "chunk_of ev = (case res_chunk ev of Some c \<Rightarrow> c | None \<Rightarrow> '''')"

definition answer_part :: "ai_response \<Rightarrow> chat \<Rightarrow> bool" where
  "answer_part ev s \<longleftrightarrow> \<not> stale_event ev s \<and> given (res_error ev) = None \<and> \<not> res_done ev"

lemma map_message_last:
  "\<forall>x \<in> set ms. msg_id x \<noteq> i \<Longrightarrow> msg_id m = i \<Longrightarrow> map_message i f (ms @ [m]) = ms @ [f m]"
  by (simp add: map_message_def map_idI)

definition fold_part :: "ai_response \<Rightarrow> chat_message \<Rightarrow> chat_message" where
  "fold_part ev m =
     (let m1 = (case res_tool ev of Some t \<Rightarrow> fold_tool t m | None \<Rightarrow> m)
      in case given (res_chunk ev) of Some c \<Rightarrow> fold_chunk c m1 | None \<Rightarrow> m1)"

lemma fold_part_fields [simp]:
  "msg_id (fold_part ev m) = msg_id m" "content (fold_part ev m) = content m @ chunk_of ev"
  "blocks m \<noteq> None \<Longrightarrow> blocks (fold_part ev m) \<noteq> None"
  by (auto simp: fold_part_def Let_def chunk_of_def given_def fold_tool_def fold_chunk_def split: option.splits if_splits)

definition answering :: "chat_message list \<Rightarrow> chat_message \<Rightarrow> chat \<Rightarrow> bool" where
  "answering ms m s \<longleftrightarrow>
     queue s = [] \<and> streamingRef s = Some (msg_id m) \<and> messages s = ms @ [m] \<and> (\<forall>x \<in> set ms. msg_id x \<noteq> msg_id m)"

lemma run_update_fields [simp]:
  "sessionId (run_update u s) = sessionId s" "generation (run_update u s) = generation s"
  by (cases u; auto simp: open_message_def split: option.splits)+

lemma setMessages_fields [simp]:
  "sessionId (setMessages eager u s) = sessionId s" "generation (setMessages eager u s) = generation s"
  by (auto simp: setMessages_def simp del: run_update.simps)

lemma note_usage_fields [simp]:
  "sessionId (note_usage u s) = sessionId s" "generation (note_usage u s) = generation s"
  "messages (note_usage u s) = messages s" "queue (note_usage u s) = queue s"
  "streamingRef (note_usage u s) = streamingRef s" "messageCounter (note_usage u s) = messageCounter s"
  by (auto simp: note_usage_def split: option.splits)

lemma handleResponse_fields [simp]:
  "sessionId (handleResponse eager ev s) = sessionId s" "generation (handleResponse eager ev s) = generation s"
  by (auto simp: handleResponse_def fold_response_def finish_answer_def Let_def split: option.splits)

lemma answer_part_kept [simp]: "answer_part ev' (handleResponse eager ev s) = answer_part ev' s"
  by (simp add: answer_part_def stale_event_def split: option.splits)

lemma handle_part: "answer_part ev s \<Longrightarrow> handleResponse eager ev s = fold_response eager ev s"
  by (simp add: handleResponse_def answer_part_def)

lemma part_folds: "answering ms m s \<Longrightarrow> answer_part ev s \<Longrightarrow> answering ms (fold_part ev m) (handleResponse True ev s)"
  by (auto simp: handle_part answering_def fold_response_def Let_def setMessages_def fold_part_def map_message_last
      split: option.splits)

lemma parts_fold:
  "answering ms m s \<Longrightarrow> \<forall>ev \<in> set evs. answer_part ev s \<Longrightarrow>
   answering ms (foldl (\<lambda>m ev. fold_part ev m) m evs) (foldl (\<lambda>s ev. handleResponse True ev s) s evs)"
  by (induction evs arbitrary: s m) (auto simp: part_folds)

lemma parts_content:
  "content (foldl (\<lambda>m ev. fold_part ev m) m evs) = content m @ concat (map chunk_of evs)"
  "msg_id (foldl (\<lambda>m ev. fold_part ev m) m evs) = msg_id m"
  by (induction evs arbitrary: m) auto

definition empty_bubble :: "nat \<Rightarrow> chat_message" where
  "empty_bubble i = \<lparr>msg_id = i, role = ''assistant'', content = '''', streaming = True, isError = False, usage = None,
     blocks = Some []\<rparr>"

lemma first_part:
  assumes "queue s = []" "streamingRef s = None" "\<forall>m \<in> set (messages s). msg_id m \<le> messageCounter s"
    and "answer_part ev s" "res_tool ev \<noteq> None \<or> given (res_chunk ev) \<noteq> None"
  shows "answering (messages s) (fold_part ev (empty_bubble (Suc (messageCounter s)))) (handleResponse True ev s)"
proof -
  have "\<forall>m \<in> set (messages s). msg_id m \<noteq> Suc (messageCounter s)" using assms(3) by auto
  with assms show ?thesis
    by (auto simp: handle_part answering_def fold_response_def Let_def setMessages_def fold_part_def map_message_last
        open_message_def empty_bubble_def fold_tool_def fold_chunk_def appendText_def split: option.splits)
qed

text \<open>
  C6: when React has nothing queued as the events of an answer come in, its chunks
  and tool events, whatever they carry and however they alternate, become one message behind the
  others: its content is the chunks in their order, its text blocks say the same, and with the done
  event it stops streaming, no tool call is left running, and the next question can be asked.
\<close>

theorem answer_assembled:
  assumes "chat_ok s" "queue s = []" "streamingRef s = None"
    and parts: "\<forall>e \<in> set (ev # evs). answer_part e s"
    and first: "res_tool ev \<noteq> None \<or> given (res_chunk ev) \<noteq> None"
    and fin: "\<not> stale_event fin s" "given (res_error fin) = None" "res_done fin" "res_tool fin = None" "res_chunk fin = None"
  defines "t \<equiv> handleResponse True fin (foldl (\<lambda>s ev. handleResponse True ev s) s (ev # evs))"
  shows "\<exists>m bs. messages t = messages s @ [m] \<and> content m = concat (map chunk_of (ev # evs)) \<and>
    blocks m = Some bs \<and> blocksToText bs = content m \<and> (\<forall>b \<in> set bs. \<not> runs_tool b) \<and>
    \<not> streaming m \<and> \<not> isStreaming t \<and> streamingRef t = None \<and> queue t = []"
proof -
  let ?go = "foldl (\<lambda>s ev. handleResponse True ev s)"
  define m where "m = foldl (\<lambda>m ev. fold_part ev m) (fold_part ev (empty_bubble (Suc (messageCounter s)))) evs"
  have le: "\<forall>m \<in> set (messages s). msg_id m \<le> messageCounter s" using assms(1) by (auto simp: chat_ok_def chat_inv_def)
  from first_part [OF assms(2,3) le _ first] parts
  have "answering (messages s) (fold_part ev (empty_bubble (Suc (messageCounter s)))) (handleResponse True ev s)" by simp
  from parts_fold [OF this, of evs] parts have an: "answering (messages s) m (?go s (ev # evs))" by (simp add: m_def)
  have ok: "chat_ok (?go s es)" if "chat_ok s" for es s
    using that by (induction es arbitrary: s) (simp_all add: handleResponse_ok)
  have same: "sessionId (?go s es) = sessionId s \<and> generation (?go s es) = generation s" for es s
    by (induction es arbitrary: s) simp_all
  from same [of s "ev # evs"] fin(1) have "\<not> stale_event fin (?go s (ev # evs))" by (simp add: stale_event_def split: option.splits)
  with fin have t: "t = finish_answer True fin (?go s (ev # evs))"
    by (simp add: t_def handleResponse_def fold_response_def given_def)
  have "chat_ok t" unfolding t_def by (intro handleResponse_ok ok assms(1))
  moreover obtain u where "messages t = messages s @ [finish_message u m]" "\<not> isStreaming t" "streamingRef t = None" "queue t = []"
    using an by (auto simp: t finish_answer_def answering_def Let_def setMessages_def map_message_last)
  moreover have "content m = concat (map chunk_of (ev # evs))" "blocks m \<noteq> None"
    using ok [OF assms(1), of "ev # evs"] an
    by (auto simp: m_def parts_content empty_bubble_def chat_ok_def chat_inv_def answering_def)
  ultimately show ?thesis
    by (auto simp: chat_ok_def chat_inv_def message_ok_def finish_message_def)
qed

definition ready_chat :: chat where
  "ready_chat = (chat_start [])\<lparr>sessionId := Some ''s''\<rparr>"

lemma ready_chat_ok: "chat_ok ready_chat"
proof -
  have "chat_ok (chat_start [])" by (rule chat.start_inv) (intro exI [of _ "[]"], simp)
  then show ?thesis by (simp add: ready_chat_def)
qed

lemma ready_chat_fields [simp]:
  "queue ready_chat = []" "messages ready_chat = []" "streamingRef ready_chat = None" "sessionId ready_chat = Some ''s''"
  "messageCounter ready_chat = 0" "generation ready_chat = 0" "isStreaming ready_chat = False" "sends ready_chat = 0"
  by (simp_all add: ready_chat_def chat_start_def)

theorem answer_assembled_witness:
  "\<exists>m bs. messages (handleResponse True (done_event ''s'')
       (foldl (\<lambda>s ev. handleResponse True ev s) ready_chat [chunk_event ''s'' ''Two '', chunk_event ''s'' ''pods''])) =
     [m] \<and> content m = ''Two pods'' \<and> blocks m = Some bs \<and> blocksToText bs = content m"
  using answer_assembled [of ready_chat "chunk_event ''s'' ''Two ''" "[chunk_event ''s'' ''pods'']" "done_event ''s''"]
  by (auto simp: ready_chat_ok event_defs answer_part_def stale_event_def given_def chunk_of_def)

section \<open>Saved conversations\<close>

lemma find_append_None: "\<forall>x \<in> set xs. \<not> P x \<Longrightarrow> List.find P (xs @ ys) = List.find P ys"
  by (induction xs) auto

lemma store_conversation_found:
  assumes "length prev \<le> MAX_CONVERSATIONS"
  shows "List.find (\<lambda>c. conv_id c = conv_id conv) (store_conversation conv prev) = Some conv"
proof (cases "find_index (\<lambda>c. conv_id c = conv_id conv) prev")
  case None
  then show ?thesis by (auto simp: store_conversation_def Let_def MAX_CONVERSATIONS_def take_Cons')
next
  case (Some i)
  then have i: "i < length prev" "\<And>j. j < i \<Longrightarrow> conv_id (prev ! j) \<noteq> conv_id conv"
    by (auto dest: find_index_SomeD)
  then have "prev[i := conv] = take i prev @ conv # drop (Suc i) prev" by (simp add: upd_conv_take_nth_drop)
  moreover have "\<forall>x \<in> set (take i prev). conv_id x \<noteq> conv_id conv" using i by (auto simp: in_set_conv_nth)
  moreover have "store_conversation conv prev = prev[i := conv]"
    using Some assms by (simp add: store_conversation_def)
  ultimately show ?thesis by (simp add: find_append_None)
qed

lemma autosave_found:
  assumes "length (conversationHistory s) \<le> MAX_CONVERSATIONS" "\<exists>m \<in> set (messages s). role m = ''user''"
    and "\<not> isStreaming s" "conversationId (autosave now s) = Some convId"
  shows "\<exists>c. List.find (\<lambda>c. conv_id c = convId) (conversationHistory (autosave now s)) = Some c \<and>
    conv_messages c = map (\<lambda>m. m\<lparr>blocks := None\<rparr>) (messages s)"
proof -
  define conv where "conv = \<lparr>conv_id = convId, title = generateTitle (messages s),
    conv_messages = map (\<lambda>m. m\<lparr>blocks := None\<rparr>) (messages s), updatedAt = now\<rparr>"
  have n: "(\<forall>m \<in> set (messages s). role m \<noteq> ''user'') = False" using assms(2) by blast
  have "conversationHistory (autosave now s) = store_conversation conv (conversationHistory s)"
    using assms(3,4) by (simp add: autosave_def n Let_def) (simp add: conv_def)
  moreover have "conv_id conv = convId" by (simp add: conv_def)
  ultimately show ?thesis
    using store_conversation_found [OF assms(1), of conv] by (intro exI [of _ conv]) (simp add: conv_def)
qed

lemma run_update_frame: "run_update u (s\<lparr>sessionId := i\<rparr>) = (run_update u s)\<lparr>sessionId := i\<rparr>"
  by (cases u) (simp_all add: open_message_def split: option.split)

lemma run_updates_frame:
  fixes s :: chat
  shows "foldl (\<lambda>s u. run_update u s) (s\<lparr>sessionId := i\<rparr>) us = (foldl (\<lambda>s u. run_update u s) s us)\<lparr>sessionId := i\<rparr>"
  by (induction us arbitrary: s) (simp_all add: run_update_frame)

text \<open>
  A session id is never given up, no call of \<open>ClearAISession\<close> is made without one, no message waits
  for a session that is there, and at most ten conversations are kept.
\<close>

definition session_inv :: "chat \<Rightarrow> bool" where
  "session_inv s \<longleftrightarrow>
     (clears s \<noteq> [] \<longrightarrow> sessionId s \<noteq> None) \<and> (sessionId s \<noteq> None \<longrightarrow> given (pendingMessage s) = None) \<and>
     length (conversationHistory s) \<le> MAX_CONVERSATIONS"

lemma run_update_session [simp]:
  "sessionId (run_update u s) = sessionId s" "pendingMessage (run_update u s) = pendingMessage s"
  "clears (run_update u s) = clears s" "conversationHistory (run_update u s) = conversationHistory s"
  by (cases u; simp add: open_message_def split: option.split)+

lemma setMessages_session [simp]:
  "sessionId (setMessages eager u s) = sessionId s" "pendingMessage (setMessages eager u s) = pendingMessage s"
  "clears (setMessages eager u s) = clears s" "conversationHistory (setMessages eager u s) = conversationHistory s"
  by (simp_all add: setMessages_def)

lemma run_updates_session:
  "sessionId (foldl (\<lambda>s u. run_update u s) s us) = sessionId s \<and>
   pendingMessage (foldl (\<lambda>s u. run_update u s) s us) = pendingMessage s \<and>
   clears (foldl (\<lambda>s u. run_update u s) s us) = clears s \<and>
   conversationHistory (foldl (\<lambda>s u. run_update u s) s us) = conversationHistory s"
  by (induction us arbitrary: s) simp_all

lemma session_inv_same:
  "sessionId t = sessionId s \<Longrightarrow> pendingMessage t = pendingMessage s \<Longrightarrow> clears t = clears s \<Longrightarrow>
   conversationHistory t = conversationHistory s \<Longrightarrow> session_inv t = session_inv s"
  by (simp add: session_inv_def)

lemma session_kept:
  "session_inv (render s) = session_inv s" "session_inv (handleResponse eager ev s) = session_inv s"
  "session_inv (sendMessage eager txt s) = session_inv s" "session_inv (send_answered success s) = session_inv s"
  "session_inv (togglePanel s) = session_inv s" "session_inv (cancelRequest eager s) = session_inv s"
  "session_inv (resetChatState eager s) = session_inv s" "session_inv (load_state eager conv s) = session_inv s"
  by (rule session_inv_same;
      simp add: render_def run_updates_session handleResponse_def fold_response_def finish_answer_def note_usage_def
        sendMessage_def send_answered_def togglePanel_def cancelRequest_def resetChatState_def load_state_def Let_def
        split: option.split)+

lemma session_ready_inv:
  assumes "session_inv s" shows "session_inv (session_ready eager i s)"
proof (cases "given (pendingMessage s)")
  case None
  then have "session_inv (s\<lparr>sessionId := Some i\<rparr>)" using assms by (simp add: session_inv_def)
  with None assms show ?thesis by (simp add: session_ready_def)
next
  case (Some msg)
  have "session_inv (s\<lparr>sessionId := Some i, pendingMessage := None\<rparr>)" using assms by (simp add: session_inv_def given_def)
  with Some assms show ?thesis by (simp add: session_ready_def session_kept)
qed

lemma store_conversation_length:
  "length prev \<le> MAX_CONVERSATIONS \<Longrightarrow> length (store_conversation conv prev) \<le> MAX_CONVERSATIONS"
  by (simp add: store_conversation_def Let_def)

lemma autosave_inv: "session_inv s \<Longrightarrow> session_inv (autosave now s)"
  using store_conversation_length by (simp add: autosave_def session_inv_def Let_def)

lemma loadConversation_inv:
  assumes "session_inv s" shows "session_inv (loadConversation eager convId s)"
proof (cases "List.find (\<lambda>c. conv_id c = convId) (conversationHistory s)")
  case (Some conv)
  have "session_inv (s\<lparr>messageCounter := n\<rparr>)" for n using assms by (simp add: session_inv_def)
  with Some assms show ?thesis
    by (simp add: loadConversation_def Let_def session_kept) (simp add: session_inv_def)
qed (simp add: loadConversation_def assms)

lemma clear_answered_inv:
  assumes "session_inv s" "clears s = cs @ what # cs'"
  shows "session_inv (clear_answered eager newId what (s\<lparr>clears := cs @ cs'\<rparr>))"
proof -
  have "session_inv (s\<lparr>clears := cs @ cs'\<rparr>)" using assms by (auto simp: session_inv_def)
  then show ?thesis
    by (auto simp: clear_answered_def Let_def session_kept intro: session_ready_inv split: option.split)
qed

lemma open_send_inv: "session_inv s \<Longrightarrow> session_inv (openAndSend eager txt s)"
proof -
  assume s: "session_inv s"
  then have "session_inv (s\<lparr>isOpen := True\<rparr>)" "sessionId s = None \<Longrightarrow> session_inv (s\<lparr>pendingMessage := Some txt, isOpen := True\<rparr>)"
    by (simp_all add: session_inv_def)
  with s show ?thesis by (auto simp: openAndSend_def session_kept)
qed

lemma delete_inv: "session_inv s \<Longrightarrow> session_inv (deleteConversation eager convId s)"
proof -
  assume s: "session_inv s"
  then have "session_inv (s\<lparr>conversationHistory := filter (\<lambda>c. conv_id c \<noteq> convId) (conversationHistory s)\<rparr>)"
    using le_trans [OF length_filter_le [of "\<lambda>c. conv_id c \<noteq> convId" "conversationHistory s"]] by (simp add: session_inv_def)
  then show ?thesis by (simp add: deleteConversation_def Let_def session_kept)
qed

lemma new_chat_inv: "session_inv s \<Longrightarrow> session_inv (startNewChat eager s)"
  by (auto simp: startNewChat_def session_kept) (simp add: session_inv_def)

lemma session_step: "session_inv s \<Longrightarrow> chat_step s t \<Longrightarrow> session_inv t"
  by (erule chat_stepE)
    (auto simp: session_kept intro: session_ready_inv autosave_inv loadConversation_inv clear_answered_inv
      open_send_inv delete_inv new_chat_inv)

interpretation sessions: transition_system
  "\<lambda>s. \<exists>stored. length stored \<le> MAX_CONVERSATIONS \<and> s = chat_start stored" chat_step session_inv
proof
  fix s assume "\<exists>stored. length stored \<le> MAX_CONVERSATIONS \<and> s = chat_start stored"
  then show "session_inv s" by (auto simp: session_inv_def chat_start_def)
qed (rule session_step)

text \<open>What is kept of the messages of a conversation, and a chat that shows a conversation.\<close>

definition kept_messages :: "chat_message list \<Rightarrow> chat_message list" where
  "kept_messages ms = map (\<lambda>m. m\<lparr>blocks := None\<rparr>) (filter (\<lambda>m. role m \<noteq> ''thought'') ms)"

definition shows_conversation :: "string \<Rightarrow> chat_message list \<Rightarrow> chat \<Rightarrow> bool" where
  "shows_conversation convId ms s \<longleftrightarrow>
     messages (render s) = ms \<and> conversationId s = Some convId \<and> streamingRef s = None \<and> \<not> isStreaming s"

lemma load_state_shows:
  "shows_conversation (conv_id conv) (filter (\<lambda>m. role m \<noteq> ''thought'') (conv_messages conv)) (load_state eager conv s)"
  by (auto simp: shows_conversation_def load_state_def setMessages_def render_def)

lemma load_answered_shows:
  assumes "session_inv v" "clears v = cs @ Some conv # cs'"
  shows "shows_conversation (conv_id conv) (filter (\<lambda>m. role m \<noteq> ''thought'') (conv_messages conv))
    (clear_answered eager newId (Some conv) (v\<lparr>clears := cs @ cs'\<rparr>))"
proof -
  let ?w = "load_state eager conv (v\<lparr>clears := cs @ cs'\<rparr>)"
  have p: "given (pendingMessage ?w) = None" using assms by (auto simp: session_inv_def load_state_def)
  have "shows_conversation c ms (x\<lparr>sessionId := i\<rparr>) = shows_conversation c ms x" for c ms x i
  proof -
    have "messages (foldl (\<lambda>s u. run_update u s) (x\<lparr>sessionId := i, queue := []\<rparr>) us) =
        messages (foldl (\<lambda>s u. run_update u s) (x\<lparr>queue := []\<rparr>) us)" for us
    proof -
      have "x\<lparr>sessionId := i, queue := []\<rparr> = (x\<lparr>queue := []\<rparr>)\<lparr>sessionId := i\<rparr>" by (cases x) simp
      then show ?thesis by (simp only: run_updates_frame) (cases "foldl (\<lambda>s u. run_update u s) (x\<lparr>queue := []\<rparr>) us", simp)
    qed
    then show ?thesis by (simp add: shows_conversation_def render_def)
  qed
  with load_state_shows [of conv eager "v\<lparr>clears := cs @ cs'\<rparr>"] p show ?thesis
    by (auto simp: clear_answered_def session_ready_def Let_def split: option.split)
qed


definition question :: chat_message where
  "question = \<lparr>msg_id = 1, role = ''user'', content = ''Why?'', streaming = False, isError = False, usage = None,
     blocks = None\<rparr>"

text \<open>The session is open, a message is sent, the answer ends, the chat is saved and opened again.\<close>

definition asked_chat :: chat where
  "asked_chat = render (sendMessage True ''Why?'' (session_ready True ''s1'' (chat_start [])))"

lemma asked_chat_reached: "chat_step\<^sup>*\<^sup>* (chat_start []) asked_chat"
  unfolding asked_chat_def
  using chat_step.session [of "chat_start []" True "''s1''"] chat_step.send [of "session_ready True ''s1'' (chat_start [])" True "''Why?''"]
    chat_step.rendered [of "sendMessage True ''Why?'' (session_ready True ''s1'' (chat_start []))"]
  by (meson converse_rtranclp_into_rtranclp rtranclp.rtrancl_refl)

lemma asked_chat_fields:
  "messages asked_chat = [question]" "\<not> isStreaming asked_chat" "conversationId asked_chat = None"
  "sessionId asked_chat = Some ''s1''" "clears asked_chat = []" "conversationHistory asked_chat = []"
  "queue asked_chat = []"
  by (simp_all add: asked_chat_def session_ready_def chat_start_def given_def sendMessage_def trim_def trim_start_def
      is_space_def setMessages_def render_def question_def Let_def)


section \<open>What goes wrong\<close>

text \<open>
  The functions handed to \<open>setMessages\<close> read the ref of the message under construction when they run,
  not when they are queued. When the done event comes before React has rendered the last chunk, the
  chunk finds no message to continue and opens a second one, which nothing ever finishes.
\<close>

theorem late_chunk_splits_answer:
  assumes "chat_ok s" "queue s = []" "streamingRef s = None" "sessionId s = Some sid" "a \<noteq> ''''" "b \<noteq> ''''"
  shows "\<exists>m1 m2. messages (render (handleResponse False (done_event sid)
      (handleResponse False (chunk_event sid b) (handleResponse True (chunk_event sid a) s)))) = messages s @ [m1, m2] \<and>
    content m1 = a \<and> content m2 = b \<and> \<not> streaming m1 \<and> streaming m2"
  using assms
  by (auto simp: handleResponse_def stale_event_def event_defs given_def fold_response_def finish_answer_def note_usage_def
      setMessages_def render_def Let_def open_message_def map_message_def finish_message_def chat_ok_def chat_inv_def
      intro!: map_idI)

text \<open>
  The provider counts the sends, the backend the requests it starts. After one send that the backend
  refused, every event of the following answer carries a smaller number and is dropped as stale.
\<close>

theorem refused_send_mutes_answers:
  assumes "sessionId s = Some sid" "\<not> isStreaming s" "generation s = g" "trim q1 \<noteq> ''''" "trim q2 \<noteq> ''''"
    and "res_generation ev = Some (Suc g)"
  defines "t \<equiv> send_answered True (sendMessage True q2 (send_answered False (sendMessage True q1 s)))"
  shows "handleResponse eager ev t = t \<and> isStreaming t"
proof -
  have st: "isStreaming (setMessages e (AddMessage m) s) = isStreaming s" for e m s by (simp add: setMessages_def)
  have "generation t = Suc (Suc g)"
    using assms(1-5) by (simp add: t_def send_answered_def sendMessage_def Let_def st)
  then have "stale_event ev t" using assms(6) by (simp add: stale_event_def)
  then show ?thesis using assms(1-5) by (simp add: handleResponse_def t_def send_answered_def)
qed

text \<open>
  The flag that blocks the input is set when the call of the backend returns, which may be after the
  answer is over: then no event takes it back, and nothing can be sent.
\<close>

theorem late_return_blocks_input:
  assumes "chat_ok s" "queue s = []" "sessionId s = Some sid" "\<not> isStreaming s" "streamingRef s = None" "sends s = 0"
    "trim q \<noteq> ''''" "c \<noteq> ''''"
  defines "t \<equiv> send_answered True (handleResponse True (done_event sid)
    (handleResponse True (chunk_event sid c) (sendMessage True q s)))"
  shows "sends t = 0 \<and> streamingRef t = None \<and> (\<forall>m \<in> set (messages t). m \<notin> set (messages s) \<longrightarrow> \<not> streaming m) \<and>
    sendMessage eager txt t = t"
proof -
  have "\<forall>m \<in> set (messages s). msg_id m \<le> messageCounter s" using assms(1) by (auto simp: chat_ok_def chat_inv_def)
  then show ?thesis using assms(2-8)
    by (auto simp: t_def send_answered_def sendMessage_def Let_def setMessages_def handleResponse_def stale_event_def event_defs
        given_def fold_response_def finish_answer_def note_usage_def open_message_def map_message_def finish_message_def)
qed

text \<open>
  Deleting the conversation on the screen empties it but leaves the backend's request running: the
  rest of the answer opens a new message in the empty chat.
\<close>

theorem deleted_chat_goes_on:
  assumes "sessionId s = Some sid" "queue s = []" "conversationId s = Some convId" "c \<noteq> ''''"
  shows "map content (messages (handleResponse True (chunk_event sid c) (render (deleteConversation False convId s)))) = [c]"
  using assms
  by (simp add: deleteConversation_def Let_def resetChatState_def setMessages_def render_def handleResponse_def
      stale_event_def event_defs given_def fold_response_def note_usage_def open_message_def)

end
