(* ===== verification/AiNavigation.thy ===== *)
theory AiNavigation
  imports AiChat SidebarSearch
begin

text \<open>
  Navigation links in the answers of the AI (\<open>components/layout/navUtils.ts\<close>, \<open>executeNavLink\<close> of
  \<open>AIMarkdown.tsx\<close>) and their automatic execution when a message is finished (\<open>AIPanel.tsx\<close>).
  Kinds named like a member of \<open>Object.prototype\<close> are outside the model.
\<close>

section \<open>Links in a text\<close>

text \<open>\<open>/\[([^\]]+)\]\((nav:\/\/[^)]+)\)/g\<close>: the link at the start of a text, and what follows it.\<close>

definition nav_prefix :: string where "nav_prefix = ''nav://''"

definition link_here :: "string \<Rightarrow> (string \<times> string) option" where
  "link_here s =
     (case s of
        [] \<Rightarrow> None
      | c # r \<Rightarrow>
          let label = takeWhile (\<lambda>d. d \<noteq> CHR '']'') r;
              after = dropWhile (\<lambda>d. d \<noteq> CHR '']'') r;
              link = takeWhile (\<lambda>d. d \<noteq> CHR '')'') (drop 2 after);
              rest = dropWhile (\<lambda>d. d \<noteq> CHR '')'') (drop 2 after)
          in if c = CHR ''['' \<and> label \<noteq> [] \<and> starts_with after ''](''
               \<and> starts_with link nav_prefix \<and> length link > length nav_prefix \<and> rest \<noteq> []
             then Some (link, tl rest) else None)"

lemma link_here_shorter: "link_here s = Some (l, rest) \<Longrightarrow> length rest < length s"
proof -
  assume a: "link_here s = Some (l, rest)"
  then obtain c r where s: "s = c # r" by (auto simp: link_here_def split: list.splits)
  have "length rest \<le> length (dropWhile (\<lambda>d. d \<noteq> CHR '')'') (drop 2 (dropWhile (\<lambda>d. d \<noteq> CHR '']'') r)))"
    using a s by (auto simp: link_here_def Let_def split: if_splits)
  also have "\<dots> \<le> length (drop 2 (dropWhile (\<lambda>d. d \<noteq> CHR '']'') r))" by (rule length_dropWhile_le)
  also have "\<dots> \<le> length r" using length_dropWhile_le [of "\<lambda>d. d \<noteq> CHR '']''" r] by simp
  finally show ?thesis by (simp add: s)
qed

function nav_links :: "string \<Rightarrow> string list" where
  "nav_links [] = []"
| "nav_links (c # s) =
     (case link_here (c # s) of
        Some (link, rest) \<Rightarrow> link # nav_links rest
      | None \<Rightarrow> nav_links s)"
  by pat_completeness auto
termination
  by (relation "measure length") (auto dest: link_here_shorter)

section \<open>Executing a link\<close>

text \<open>\<open>new URLSearchParams(query).get('search')\<close>: plus is a space, percent codes are bytes.\<close>

definition hex_digit :: "char \<Rightarrow> nat option" where
  "hex_digit c =
     (if is_digit c then Some (digit_val c)
      else if CHR ''a'' \<le> to_lower c \<and> to_lower c \<le> CHR ''f'' then Some (10 + (of_char (to_lower c) - of_char CHR ''a''))
      else None)"

fun percent_decode :: "string \<Rightarrow> string" where
  "percent_decode [] = []"
| "percent_decode (c # s) =
     (if c = CHR ''+'' then CHR '' '' # percent_decode s
      else if c = CHR ''%'' then
        (case s of
           a # b # r \<Rightarrow>
             (case (hex_digit a, hex_digit b) of
                (Some x, Some y) \<Rightarrow> char_of (16 * x + y) # percent_decode r
              | _ \<Rightarrow> c # percent_decode s)
         | _ \<Rightarrow> c # percent_decode s)
      else c # percent_decode s)"

definition query_pair :: "string \<Rightarrow> string \<times> string" where
  "query_pair p =
     (percent_decode (takeWhile (\<lambda>c. c \<noteq> CHR ''='') p), percent_decode (tl (dropWhile (\<lambda>c. c \<noteq> CHR ''='') p)))"

definition query_get :: "string \<Rightarrow> string \<Rightarrow> string option" where
  "query_get name query = map_of (map query_pair (filter (\<lambda>p. p \<noteq> '''') (split_on CHR ''&'' query))) name"

text \<open>What a link makes the application do; \<open>OpenTab\<close> gives the tab's id and title.\<close>

datatype nav_action =
    ShowView string
  | SearchView string string bool
  | OpenEditor string string
  | OpenLogs string string

definition href_rest :: "string \<Rightarrow> string" where
  "href_rest href = drop (length nav_prefix) href"

definition nth_part :: "string list \<Rightarrow> nat \<Rightarrow> string option" where
  "nth_part ps i = (if i < length ps then Some (ps ! i) else None)"

definition path_parts :: "string \<Rightarrow> string list" where
  "path_parts raw = filter (\<lambda>p. p \<noteq> '''') (split_on CHR ''/'' (hd (split_on CHR ''?'' raw)))"

definition query_part :: "string \<Rightarrow> string" where
  "query_part raw = (case tl (split_on CHR ''?'' raw) of q # _ \<Rightarrow> q | [] \<Rightarrow> '''')"

definition or_empty :: "string option \<Rightarrow> string" where
  "or_empty v = (case v of Some x \<Rightarrow> x | None \<Rightarrow> '''')"

definition yaml_tab :: "string \<Rightarrow> string \<Rightarrow> string \<Rightarrow> string option \<Rightarrow> nav_action" where
  "yaml_tab ctx kind name ns =
     (case parseCrKind kind of
        Some cr \<Rightarrow>
          OpenEditor (ctx @ ''-cr-yaml-'' @ cr_group cr @ ''-'' @ cr_resource cr @ ''-'' @ or_empty ns @ ''-'' @ name)
            (name @ '' ('' @ cr_display cr @ '')'')
      | None \<Rightarrow> OpenEditor (ctx @ ''-yaml-'' @ kind @ ''-'' @ or_empty ns @ ''/'' @ name) name)"

definition details_view :: "string \<Rightarrow> string \<Rightarrow> string option \<Rightarrow> nav_action" where
  "details_view kind name ns =
     (case parseCrKind kind of
        Some cr \<Rightarrow>
          SearchView (''cr:'' @ cr_group cr @ '':'' @ cr_version cr @ '':'' @ cr_resource cr @ '':'' @ cr_display cr @
            '':'' @ (if or_empty ns \<noteq> '''' then ''true'' else ''false'')) name True
      | None \<Rightarrow>
          SearchView (case map_of kindToViewName (lower kind) of Some v \<Rightarrow> v | None \<Rightarrow> lower kind @ ''s'') name True)"

definition executeNavLink :: "string \<Rightarrow> string \<Rightarrow> nav_action option" where
  "executeNavLink currentContext href =
     (let parts = path_parts (href_rest href) in
      case parts of
        [] \<Rightarrow> None
      | command # args \<Rightarrow>
          if command = ''view'' then
            (case nth_part args 0 of
               None \<Rightarrow> None
             | Some v \<Rightarrow>
                 (case given (query_get ''search'' (query_part (href_rest href))) of
                    Some q \<Rightarrow> Some (SearchView v q False)
                  | None \<Rightarrow> Some (ShowView v)))
          else if command = ''yaml'' then
            (case (nth_part args 0, nth_part args 1) of
               (Some kind, Some name) \<Rightarrow> Some (yaml_tab currentContext kind name (nth_part args 2))
             | _ \<Rightarrow> None)
          else if command = ''logs'' then
            (case nth_part args 0 of
               None \<Rightarrow> None
             | Some podName \<Rightarrow>
                 Some (OpenLogs (''logs-pod-'' @ currentContext @ ''-'' @ or_empty (nth_part args 1) @ ''/'' @ podName) podName))
          else if command = ''details'' then
            (case (nth_part args 0, nth_part args 1) of
               (Some kind, Some name) \<Rightarrow> Some (details_view kind name (nth_part args 2))
             | _ \<Rightarrow> None)
          else None)"

section \<open>Automatic execution\<close>

definition auto_action :: "string \<Rightarrow> string" where
  "auto_action href = hd (split_on CHR ''?'' (hd (split_on CHR ''/'' (href_rest href))))"

definition finished_answer :: "chat_message list \<Rightarrow> chat_message option" where
  "finished_answer ms =
     (if ms = [] then None
      else let m = List.last ms in
           if role m \<noteq> ''assistant'' \<or> streaming m \<or> isError m then None else Some m)"

text \<open>The effect of the panel: the ids executed so far, and what it does.\<close>

definition auto_execute :: "string \<Rightarrow> chat_message list \<Rightarrow> nat list \<Rightarrow> nat list \<times> nav_action list" where
  "auto_execute ctx ms executed =
     (case finished_answer ms of
        None \<Rightarrow> (executed, [])
      | Some m \<Rightarrow>
          if msg_id m \<in> set executed \<or> nav_links (content m) = [] then (executed, [])
          else (executed @ [msg_id m],
                List.map_filter (executeNavLink ctx)
                  (filter (\<lambda>href. auto_action href \<noteq> ''yaml'') (nav_links (content m)))))"

section \<open>What is executed\<close>

lemma hd_split_on: "hd (split_on d s) = takeWhile (\<lambda>c. c \<noteq> d) s"
proof (induction s)
  case (Cons c s)
  then show ?case by (cases "split_on d s") auto
qed simp

lemma split_on_head: "split_on d s = takeWhile (\<lambda>c. c \<noteq> d) s # tl (split_on d s)"
  by (metis hd_split_on list.collapse split_on_nonempty)

lemma takeWhile_swap: "takeWhile P (takeWhile Q s) = takeWhile Q (takeWhile P s)"
  by (induction s) auto

lemma executed_editor:
  "executeNavLink ctx href = Some (OpenEditor i t) \<Longrightarrow> \<exists>args. path_parts (href_rest href) = ''yaml'' # args"
  by (auto simp: executeNavLink_def Let_def details_view_def split: list.splits option.splits if_splits prod.splits)

lemma editor_guard:
  assumes "executeNavLink ctx href = Some (OpenEditor i t)" "auto_action href \<noteq> ''yaml''"
  shows "starts_with (href_rest href) ''/''"
proof (rule ccontr)
  let ?raw = "href_rest href"
  assume slash: "\<not> starts_with ?raw ''/''"
  let ?p = "takeWhile (\<lambda>c. c \<noteq> CHR ''?'') ?raw"
  let ?a = "takeWhile (\<lambda>c. c \<noteq> CHR ''/'') ?p"
  have a: "auto_action href = ?a" by (simp add: auto_action_def hd_split_on takeWhile_swap)
  obtain args where parts: "filter (\<lambda>p. p \<noteq> '''') (split_on CHR ''/'' ?p) = ''yaml'' # args"
    using executed_editor [OF assms(1)] by (auto simp: path_parts_def hd_split_on)
  have "?a \<noteq> ''''"
  proof
    assume "?a = ''''"
    with slash have "?p = ''''" by (cases ?raw) (auto split: if_splits)
    with parts show False by simp
  qed
  then have "hd (filter (\<lambda>p. p \<noteq> '''') (split_on CHR ''/'' ?p)) = ?a"
    by (subst split_on_head) simp
  with parts a assms(2) show False by simp
qed

text \<open>
  C30: an answer of the AI never opens an editor by itself, unless one of its links
  has a slash right after the scheme.
\<close>

theorem editor_needs_click:
  assumes "OpenEditor i t \<in> set (snd (auto_execute ctx ms executed))"
  shows "\<exists>href \<in> set (nav_links (content (List.last ms))). starts_with (href_rest href) ''/''"
proof -
  from assms obtain href where "href \<in> set (nav_links (content (List.last ms)))" "auto_action href \<noteq> ''yaml''"
    "executeNavLink ctx href = Some (OpenEditor i t)"
    by (auto simp: auto_execute_def finished_answer_def Let_def map_filter_def split: option.splits if_splits)
  with editor_guard show ?thesis by blast
qed

definition answer_with :: "string \<Rightarrow> chat_message" where
  "answer_with txt = \<lparr>msg_id = 2, role = ''assistant'', content = txt, streaming = False, isError = False, usage = None,
     blocks = None\<rparr>"

text \<open>
  The check looks at the text before the first slash, the execution at the first part that is not
  empty: with a slash more the link is taken for harmless and opens the editor of a secret.
\<close>

theorem slash_opens_editor:
  "snd (auto_execute ''c'' [answer_with ''[x](nav:///yaml/secret/db/prod)''] []) = [OpenEditor ''c-yaml-secret-prod/db'' ''db'']"
  by code_simp

theorem editor_needs_click_witness:
  "\<exists>href \<in> set (nav_links (content (List.last [answer_with ''[x](nav:///yaml/secret/db/prod)'']))).
     starts_with (href_rest href) ''/''"
  by (rule editor_needs_click [of "''c-yaml-secret-prod/db''" "''db''" "''c''" _ "[]"]) (simp add: slash_opens_editor)

section \<open>Executed once\<close>

text \<open>The renders of one chat: the ids executed, and those whose links have been carried out.\<close>

definition auto_run :: "string \<Rightarrow> chat_message list list \<Rightarrow> nat list \<times> nav_action list" where
  "auto_run ctx renders =
     foldl (\<lambda>(executed, acts) ms. let (executed', new) = auto_execute ctx ms executed in (executed', acts @ new)) ([], []) renders"

lemma auto_execute_once:
  "distinct executed \<Longrightarrow> distinct (fst (auto_execute ctx ms executed)) \<and>
   (fst (auto_execute ctx ms executed) = executed \<longrightarrow> snd (auto_execute ctx ms executed) = [])"
  by (auto simp: auto_execute_def split: option.splits)

text \<open>
  Links carried out once: however often the panel renders, the links of a message are carried out at
  most once: the ids executed stay distinct, and a render that adds no id does nothing.
\<close>

theorem links_carried_out_once:
  "distinct (fst (auto_run ctx renders)) \<and>
   (fst (auto_run ctx (renders @ [ms])) = fst (auto_run ctx renders) \<longrightarrow>
     snd (auto_run ctx (renders @ [ms])) = snd (auto_run ctx renders))"
proof -
  have d: "distinct (fst (auto_run ctx rs))" for rs
  proof (induction rs rule: rev_induct)
    case (snoc x xs)
    with auto_execute_once [of "fst (auto_run ctx xs)" ctx x] show ?case
      by (auto simp: auto_run_def split: prod.splits)
  qed (simp add: auto_run_def)
  obtain ex acts where r: "auto_run ctx renders = (ex, acts)" by (cases "auto_run ctx renders")
  with d [of renders] auto_execute_once [of ex ctx ms] show ?thesis
    by (auto simp: auto_run_def split: prod.splits)
qed

text \<open>Opening a saved conversation forgets the ids, so the links of its last answer are carried out again.\<close>

theorem loaded_answer_executes:
  assumes "conv_messages conv = [m]" "finished_answer [m] = Some m" "nav_links (content m) \<noteq> []"
  shows "fst (auto_execute ctx (messages (render (load_state eager conv s))) []) = [msg_id m]"
proof -
  from assms(2) have "role m \<noteq> ''thought''" by (auto simp: finished_answer_def Let_def split: if_splits)
  then have "messages (render (load_state eager conv s)) = [m]"
    by (simp add: load_state_def setMessages_def render_def assms(1))
  then show ?thesis using assms by (simp add: auto_execute_def)
qed

end
