(* ===== verification/LogStream.thy ===== *)
theory LogStream
  imports LogText
begin

text \<open>
  Fetching and streaming logs (\<open>log-viewer/useLogStream.ts\<close>): the state of the hook, the calls of
  the backend it has under way, and what each answer does. An operation runs up to its await and
  leaves a \<open>log_call\<close>; the answers arrive in any order. State updates take effect in their order, and
  a callback sees the state it is called in; what it closes over is stored with its call.
\<close>

section \<open>What is shown\<close>

abbreviation ALL_CONTAINERS :: string where "ALL_CONTAINERS \<equiv> ''__ALL__''"
abbreviation ALL_PODS :: string where "ALL_PODS \<equiv> ''__ALL_PODS__''"

definition CHUNK_SIZE :: nat where "CHUNK_SIZE = 200"

text \<open>The properties of the hook; an absent list is the empty one, which the code treats alike.\<close>

record log_target =
  namespace :: string
  pod :: string
  container :: string
  containers :: "string list"
  siblingPods :: "string list"
  podContainerMap :: "string \<rightharpoonup> string list"
  showPrevious :: bool
  sinceTime :: string
  viewMode :: string

definition buildPodContainerPairs :: "log_target \<Rightarrow> (string \<times> string list) list" where
  "buildPodContainerPairs t =
     (if pod t \<noteq> ALL_PODS \<or> siblingPods t = [] then []
      else map (\<lambda>podName.
        (podName,
         if container t = ALL_CONTAINERS
         then (case podContainerMap t podName of Some cs \<Rightarrow> cs | None \<Rightarrow> containers t)
         else if container t = '''' then [] else [container t])) (siblingPods t))"

text \<open>The three families of calls.\<close>

datatype log_selection =
    OnePod string string string
  | AllContainersOf string string "string list"
  | AllPodsOf string "(string \<times> string list) list" bool

definition select :: "log_target \<Rightarrow> log_selection" where
  "select t =
     (let podPairs = buildPodContainerPairs t in
      if pod t = ALL_PODS \<and> podPairs \<noteq> [] then AllPodsOf (namespace t) podPairs (container t = ALL_CONTAINERS)
      else if container t = ALL_CONTAINERS \<and> containers t \<noteq> []
      then AllContainersOf (namespace t) (pod t) (containers t)
      else OnePod (namespace t) (pod t) (container t))"

datatype log_request =
    FromStart log_selection bool
  | Recent log_selection bool string
  | Everything log_selection bool
  | Before log_selection bool string nat
  | After log_selection bool string nat
  | Follow log_selection

definition fetch_request :: "log_target \<Rightarrow> log_request" where
  "fetch_request t =
     (if viewMode t = ''start'' then FromStart (select t) (showPrevious t)
      else Recent (select t) (showPrevious t) (sinceTime t))"

section \<open>State\<close>

text \<open>
  Calls under way. A fetch knows whether there were logs when its callback was made, and whether
  the target it asks for differs from the one shown.
\<close>

datatype log_call =
    Resolving bool log_target
  | Fetching bool bool log_request
  | LoadingEverything log_request
  | LoadingOlder log_request
  | LoadingNewer log_request
  | PollingAfter log_request
  | StartingStream log_request

record log_hook =
  target :: log_target
  prevTarget :: log_target
  logs :: "log_entry list"
  loading :: bool
  loadingAll :: bool
  loadingBefore :: bool
  loadingAfter :: bool
  hasMoreBefore :: bool
  hasMoreAfter :: bool
  isAllLoaded :: bool
  streamDisconnected :: bool
  disconnectReason :: string
  disconnectedRef :: bool
  firstItemIndex :: int
  fetchError :: "string option"
  streamIdRef :: "string option"
  loadingBeforeRef :: bool
  loadingAfterRef :: bool
  pollingAfterRef :: bool
  lastFetchedBeforeTs :: string
  lastFetchedAfterTs :: string
  initialLoadDone :: bool
  isFetchingRef :: bool
  calls :: "log_call list"
  openStreams :: "string list"  \<comment> \<open>streams the backend has started and not been told to stop\<close>

definition hook_start :: "log_target \<Rightarrow> bool \<Rightarrow> log_hook" where
  "hook_start t allLoaded =
     \<lparr>target = t, prevTarget = t, logs = [], loading = True, loadingAll = False, loadingBefore = False,
      loadingAfter = False, hasMoreBefore = False, hasMoreAfter = False, isAllLoaded = allLoaded,
      streamDisconnected = False, disconnectReason = '''', disconnectedRef = False, firstItemIndex = 10000,
      fetchError = None, streamIdRef = None, loadingBeforeRef = False, loadingAfterRef = False,
      pollingAfterRef = False, lastFetchedBeforeTs = '''', lastFetchedAfterTs = '''', initialLoadDone = False,
      isFetchingRef = True, calls = [], openStreams = []\<rparr>"

definition getFirstTimestamp :: "log_entry list \<Rightarrow> string" where
  "getFirstTimestamp es = (case List.find (\<lambda>e. timestamp e \<noteq> '''') es of Some e \<Rightarrow> timestamp e | None \<Rightarrow> '''')"

definition getLastTimestamp :: "log_entry list \<Rightarrow> string" where
  "getLastTimestamp es = getFirstTimestamp (rev es)"

definition resetChunkState :: "log_hook \<Rightarrow> log_hook" where
  "resetChunkState s =
     s\<lparr>loadingBeforeRef := False, loadingAfterRef := False, lastFetchedBeforeTs := '''',
       lastFetchedAfterTs := '''', loadingBefore := False, loadingAfter := False, firstItemIndex := 10000\<rparr>"

definition issue :: "log_call \<Rightarrow> log_hook \<Rightarrow> log_hook" where
  "issue c s = s\<lparr>calls := calls s @ [c]\<rparr>"

definition stopStreaming :: "log_hook \<Rightarrow> log_hook" where
  "stopStreaming s =
     (case streamIdRef s of
        Some i \<Rightarrow> s\<lparr>streamIdRef := None, openStreams := filter (\<lambda>x. x \<noteq> i) (openStreams s)\<rparr>
      | None \<Rightarrow> s)"

section \<open>Fetching\<close>

text \<open>\<open>had_logs\<close> is \<open>logs.length > 0\<close> in the render whose callback this is.\<close>

definition fetchLogs :: "bool \<Rightarrow> bool \<Rightarrow> log_hook \<Rightarrow> log_hook" where
  "fetchLogs refreshTarget had_logs s =
     (let s1 = resetChunkState
           ((stopStreaming (s\<lparr>isFetchingRef := True\<rparr>))
             \<lparr>disconnectedRef := False, streamDisconnected := False, disconnectReason := '''',
              isAllLoaded := False, loading := True\<rparr>)
      in issue (if refreshTarget then Resolving had_logs (target s1)
                else Fetching had_logs False (fetch_request (target s1))) s1)"

text \<open>The fields of a freshly resolved target that are given replace those of the old one.\<close>

record fresh_target =
  fresh_namespace :: "string option"
  fresh_pod :: "string option"
  fresh_container :: "string option"
  fresh_containers :: "string list option"
  fresh_siblingPods :: "string list option"
  fresh_map :: "(string \<rightharpoonup> string list) option"

definition nullish_or :: "'a option \<Rightarrow> 'a \<Rightarrow> 'a" where
  "nullish_or v d = (case v of Some x \<Rightarrow> x | None \<Rightarrow> d)"

definition refresh_target :: "fresh_target \<Rightarrow> log_target \<Rightarrow> log_target" where
  "refresh_target f t =
     t\<lparr>namespace := nullish_or (fresh_namespace f) (namespace t), pod := nullish_or (fresh_pod f) (pod t),
       container := nullish_or (fresh_container f) (container t),
       containers := nullish_or (fresh_containers f) (containers t),
       siblingPods := nullish_or (fresh_siblingPods f) (siblingPods t),
       podContainerMap := nullish_or (fresh_map f) (podContainerMap t)\<rparr>"

definition resolved :: "bool \<Rightarrow> log_target \<Rightarrow> fresh_target option \<Rightarrow> log_hook \<Rightarrow> log_hook" where
  "resolved had_logs t fresh s =
     (let t' = (case fresh of Some f \<Rightarrow> refresh_target f t | None \<Rightarrow> t)
      in issue (Fetching had_logs (pod t' \<noteq> pod t \<or> container t' \<noteq> container t) (fetch_request t')) s)"

definition fetch_over :: "log_hook \<Rightarrow> log_hook" where
  "fetch_over s = s\<lparr>loading := False, isFetchingRef := False\<rparr>"

definition logs_failed :: "bool \<Rightarrow> string \<Rightarrow> log_hook \<Rightarrow> log_hook" where
  "logs_failed had_logs err s =
     fetch_over (s\<lparr>fetchError := Some (''Error fetching logs: '' @ err),
                   logs := (if had_logs then logs s else []), hasMoreBefore := False, hasMoreAfter := False\<rparr>)"

fun from_start :: "log_request \<Rightarrow> bool" where
  "from_start (FromStart _ _) = True"
| "from_start _ = False"

definition fetched :: "bool \<Rightarrow> bool \<Rightarrow> log_request \<Rightarrow> string \<Rightarrow> log_hook \<Rightarrow> log_hook" where
  "fetched had_logs changed r logData s =
     (let s1 = s\<lparr>hasMoreBefore := \<not> from_start r, hasMoreAfter := from_start r\<rparr>;
          parsed = parseLogLines logData ''initial''
      in fetch_over
           (if parsed = [] \<and> had_logs \<and> \<not> changed
            then s1\<lparr>fetchError := Some ''Container no longer available''\<rparr>
            else s1\<lparr>fetchError := None, logs := parsed\<rparr>))"

definition loadAllLogs :: "log_hook \<Rightarrow> log_hook" where
  "loadAllLogs s =
     (let s1 = (resetChunkState (stopStreaming (s\<lparr>isFetchingRef := True\<rparr>)))
             \<lparr>streamDisconnected := False, disconnectReason := '''', loading := True, loadingAll := True,
              hasMoreBefore := False, hasMoreAfter := False, isAllLoaded := True\<rparr>
      in issue (LoadingEverything (Everything (select (target s1)) (showPrevious (target s1)))) s1)"

definition all_loaded :: "string + string \<Rightarrow> log_hook \<Rightarrow> log_hook" where
  "all_loaded answer s =
     (fetch_over
       (case answer of
          Inr allLogs \<Rightarrow> s\<lparr>logs := parseLogLines allLogs ''initial''\<rparr>
        | Inl err \<Rightarrow> s\<lparr>logs := [\<lparr>timestamp = '''', content = ''Error fetching all logs: '' @ err, source = ''error''\<rparr>],
                        isAllLoaded := False\<rparr>))\<lparr>loadingAll := False\<rparr>"

section \<open>Pages\<close>

definition page_text :: "log_page \<Rightarrow> string" where
  "page_text p = (case page_logs p of Some l \<Rightarrow> (if trim l = '''' then '''' else l) | None \<Rightarrow> '''')"

definition loadOlderLogs :: "log_hook \<Rightarrow> log_hook" where
  "loadOlderLogs s =
     (let firstTs = getFirstTimestamp (logs s) in
      if loadingBeforeRef s \<or> \<not> hasMoreBefore s then s
      else if firstTs = '''' then s\<lparr>hasMoreBefore := False\<rparr>
      else if firstTs = lastFetchedBeforeTs s then s
      else issue (LoadingOlder (Before (select (target s)) (showPrevious (target s)) firstTs CHUNK_SIZE))
             (s\<lparr>lastFetchedBeforeTs := firstTs, loadingBeforeRef := True, loadingBefore := True\<rparr>))"

definition older_loaded :: "string + log_page \<Rightarrow> log_hook \<Rightarrow> log_hook" where
  "older_loaded answer s =
     (case answer of
        Inr p \<Rightarrow>
          if page_text p \<noteq> '''' then
            let newEntries = parseLogLines (page_text p) ''before''
            in s\<lparr>firstItemIndex := firstItemIndex s - int (length newEntries), logs := newEntries @ logs s,
                 hasMoreBefore := hasMore p\<rparr>
          else s\<lparr>hasMoreBefore := False\<rparr>
      | Inl err \<Rightarrow> s\<lparr>hasMoreBefore := False\<rparr>)\<lparr>loadingBeforeRef := False, loadingBefore := False\<rparr>"

definition loadNewerLogs :: "log_hook \<Rightarrow> log_hook" where
  "loadNewerLogs s =
     (let lastTs = getLastTimestamp (logs s) in
      if loadingAfterRef s \<or> \<not> hasMoreAfter s then s
      else if lastTs = '''' then s\<lparr>hasMoreAfter := False\<rparr>
      else if lastTs = lastFetchedAfterTs s then s
      else issue (LoadingNewer (After (select (target s)) (showPrevious (target s)) lastTs CHUNK_SIZE))
             (s\<lparr>lastFetchedAfterTs := lastTs, loadingAfterRef := True, loadingAfter := True\<rparr>))"

definition newer_loaded :: "string + log_page \<Rightarrow> log_hook \<Rightarrow> log_hook" where
  "newer_loaded answer s =
     (case answer of
        Inr p \<Rightarrow>
          if page_text p \<noteq> '''' then
            s\<lparr>logs := logs s @ parseLogLines (page_text p) ''after'', hasMoreAfter := hasMore p\<rparr>
          else s\<lparr>hasMoreAfter := False\<rparr>
      | Inl err \<Rightarrow> s\<lparr>fetchError := Some (''Error loading newer logs: '' @ err), hasMoreAfter := False\<rparr>)
        \<lparr>loadingAfterRef := False, loadingAfter := False\<rparr>"

definition pollNewerLogs :: "log_hook \<Rightarrow> log_hook" where
  "pollNewerLogs s =
     (let cur = getLastTimestamp (logs s) in
      if pollingAfterRef s \<or> cur = '''' then s
      else issue (PollingAfter (After (select (target s)) (showPrevious (target s)) cur CHUNK_SIZE))
             (s\<lparr>pollingAfterRef := True\<rparr>))"

text \<open>The poll drains the pages after its cursor (\<open>drainLogPages\<close>).\<close>

fun poll_result :: "(nat \<Rightarrow> string \<Rightarrow> string + log_page) \<Rightarrow> log_request \<Rightarrow> string + drained" where
  "poll_result fetchPage (After _ _ cur _) = drainLogPages fetchPage cur MAX_LOG_PAGES_PER_POLL"
| "poll_result fetchPage _ = Inl ''''"

definition poll_answered :: "string + drained \<Rightarrow> log_hook \<Rightarrow> log_hook" where
  "poll_answered answer s =
     (case answer of
        Inr d \<Rightarrow>
          s\<lparr>logs := (if entries d \<noteq> [] then appendUniqueLogEntries (logs s) (entries d) else logs s),
            fetchError :=
              (if truncated d
               then Some ''Log polling caught up partially; remaining pages will be fetched on the next interval.''
               else None)\<rparr>
      | Inl err \<Rightarrow> s\<lparr>fetchError := Some (''Error polling logs: '' @ err)\<rparr>)\<lparr>pollingAfterRef := False\<rparr>"

section \<open>Changing the target\<close>

definition nothing_to_show :: "log_target \<Rightarrow> bool" where
  "nothing_to_show t \<longleftrightarrow>
     namespace t = '''' \<or> (pod t \<noteq> ALL_PODS \<and> pod t = '''') \<or> (pod t = ALL_PODS \<and> siblingPods t = [])"

definition same_view :: "log_target \<Rightarrow> log_target \<Rightarrow> bool" where
  "same_view t u \<longleftrightarrow>
     pod t = pod u \<and> container t = container u \<and> showPrevious t = showPrevious u \<and>
     sinceTime t = sinceTime u \<and> viewMode t = viewMode u"

text \<open>
  The effect on the target, with the callbacks of the render it belongs to: \<open>logs.length\<close> is that of
  the render, also after the effect has queued the empty list.
\<close>

definition target_effect :: "string \<Rightarrow> log_hook \<Rightarrow> log_hook" where
  "target_effect initialPosition s =
     (if nothing_to_show (target s) then s
      else
        let had_logs = (logs s \<noteq> []);
            s1 = s\<lparr>prevTarget := target s\<rparr>
        in if \<not> same_view (target s) (prevTarget s) then
             let s2 = (resetChunkState
                   (s1\<lparr>isFetchingRef := True, disconnectedRef := False, streamDisconnected := False,
                       disconnectReason := '''', loading := True\<rparr>))\<lparr>logs := []\<rparr>
             in if isAllLoaded s then loadAllLogs s2 else fetchLogs False had_logs s2
           else if \<not> initialLoadDone s1 \<and> initialPosition = ''all''
           then loadAllLogs (s1\<lparr>initialLoadDone := True\<rparr>)
           else if isAllLoaded s1 \<or> disconnectedRef s1 \<or> initialLoadDone s1 then s1
           else fetchLogs False had_logs (s1\<lparr>initialLoadDone := True\<rparr>))"

definition change_target :: "string \<Rightarrow> log_target \<Rightarrow> log_hook \<Rightarrow> log_hook" where
  "change_target initialPosition t s = target_effect initialPosition (s\<lparr>target := t\<rparr>)"

section \<open>Streaming\<close>

definition startStreaming :: "log_hook \<Rightarrow> log_hook" where
  "startStreaming s =
     (let s1 = stopStreaming s in issue (StartingStream (Follow (select (target s1)))) s1)"

definition stream_started :: "string option \<Rightarrow> log_hook \<Rightarrow> log_hook" where
  "stream_started answer s =
     (case answer of
        Some i \<Rightarrow> s\<lparr>streamIdRef := Some i, openStreams := openStreams s @ [i]\<rparr>
      | None \<Rightarrow> s)"

text \<open>The entries of a line, or of all lines of a batch, that are later than what is shown.\<close>

definition later_entries :: "log_entry list \<Rightarrow> log_entry list \<Rightarrow> log_entry list" where
  "later_entries shown new =
     (let lastTs = getLastTimestamp shown in
      if lastTs = '''' then new
      else filter (\<lambda>e. timestamp e = '''' \<or> timestamp e > lastTs) new)"

lemma later_entries_none [simp]: "later_entries shown [] = []"
  by (simp add: later_entries_def Let_def)

lemma later_entries_all:
  "getLastTimestamp shown = '''' \<or> (\<forall>y \<in> set ys. timestamp y > getLastTimestamp shown) \<Longrightarrow> later_entries shown ys = ys"
  by (auto simp: later_entries_def Let_def intro!: filter_True)

definition processLine :: "string \<Rightarrow> log_hook \<Rightarrow> log_hook" where
  "processLine line s = s\<lparr>logs := logs s @ later_entries (logs s) (parseLogLines line ''stream'')\<rparr>"

definition processBatch :: "string list \<Rightarrow> log_hook \<Rightarrow> log_hook" where
  "processBatch lines s =
     s\<lparr>logs := logs s @ later_entries (logs s) (concat (map (\<lambda>l. parseLogLines l ''stream'') lines))\<rparr>"

record log_event =
  event_stream :: string
  event_done :: bool
  event_error :: string
  event_line :: string

text \<open>The backend has ended the stream.\<close>

definition disconnected :: "string \<Rightarrow> string \<Rightarrow> log_hook \<Rightarrow> log_hook" where
  "disconnected i reason s =
     s\<lparr>openStreams := filter (\<lambda>x. x \<noteq> i) (openStreams s), streamIdRef := None, disconnectedRef := True, streamDisconnected := True, disconnectReason := reason\<rparr>"

definition handleLogEvent :: "log_event \<Rightarrow> log_hook \<Rightarrow> log_hook" where
  "handleLogEvent e s =
     (if streamIdRef s \<noteq> Some (event_stream e) then s
      else if event_done e then disconnected (event_stream e) ''Pod terminated or container restarted'' s
      else if event_error e \<noteq> '''' then disconnected (event_stream e) (event_error e) s
      else if event_line e \<noteq> '''' then processLine (event_line e) s
      else s)"

definition handleBatchEvent :: "string \<Rightarrow> string list \<Rightarrow> log_hook \<Rightarrow> log_hook" where
  "handleBatchEvent i lines s = (if streamIdRef s \<noteq> Some i then s else processBatch lines s)"

section \<open>The hook as interleaved steps\<close>

inductive log_step :: "log_hook \<Rightarrow> log_hook \<Rightarrow> bool" where
  refresh: "log_step s (fetchLogs True had_logs s)"
| load_all: "log_step s (loadAllLogs s)"
| older: "log_step s (loadOlderLogs s)"
| newer: "log_step s (loadNewerLogs s)"
| poll: "log_step s (pollNewerLogs s)"
| retarget: "log_step s (change_target initialPosition t s)"
| stream: "log_step s (startStreaming s)"
| unstream: "log_step s (stopStreaming s)"
| line: "log_step s (handleLogEvent e s)"
| batch: "log_step s (handleBatchEvent i ls s)"
| resolve: "calls s = cs @ Resolving h t # cs' \<Longrightarrow> log_step s (resolved h t fresh (s\<lparr>calls := cs @ cs'\<rparr>))"
| unresolved: "calls s = cs @ Resolving h t # cs' \<Longrightarrow> log_step s (logs_failed h err (s\<lparr>calls := cs @ cs'\<rparr>))"
| fetch: "calls s = cs @ Fetching h c r # cs' \<Longrightarrow> log_step s (fetched h c r logData (s\<lparr>calls := cs @ cs'\<rparr>))"
| fetch_fail: "calls s = cs @ Fetching h c r # cs' \<Longrightarrow> log_step s (logs_failed h err (s\<lparr>calls := cs @ cs'\<rparr>))"
| everything: "calls s = cs @ LoadingEverything r # cs' \<Longrightarrow> log_step s (all_loaded answer (s\<lparr>calls := cs @ cs'\<rparr>))"
| older_page: "calls s = cs @ LoadingOlder r # cs' \<Longrightarrow> log_step s (older_loaded page (s\<lparr>calls := cs @ cs'\<rparr>))"
| newer_page: "calls s = cs @ LoadingNewer r # cs' \<Longrightarrow> log_step s (newer_loaded page (s\<lparr>calls := cs @ cs'\<rparr>))"
| polled: "calls s = cs @ PollingAfter r # cs' \<Longrightarrow>
    log_step s (poll_answered (poll_result fetchPage r) (s\<lparr>calls := cs @ cs'\<rparr>))"
| started: "calls s = cs @ StartingStream r # cs' \<Longrightarrow> log_step s (stream_started answer (s\<lparr>calls := cs @ cs'\<rparr>))"

inductive_cases log_stepE: "log_step s t"

fun is_poll :: "log_call \<Rightarrow> bool" where
  "is_poll (PollingAfter _) = True"
| "is_poll _ = False"

definition poll_ok :: "log_hook \<Rightarrow> bool" where
  "poll_ok s \<longleftrightarrow> length (filter is_poll (calls s)) = (if pollingAfterRef s then 1 else 0)"

lemma stopStreaming_fields [simp]:
  "calls (stopStreaming s) = calls s" "pollingAfterRef (stopStreaming s) = pollingAfterRef s" "logs (stopStreaming s) = logs s"
  "target (stopStreaming s) = target s" "firstItemIndex (stopStreaming s) = firstItemIndex s"
  by (simp_all add: stopStreaming_def split: option.splits)

lemma poll_ok_quiet: "calls t = calls s \<Longrightarrow> pollingAfterRef t = pollingAfterRef s \<Longrightarrow> poll_ok s \<Longrightarrow> poll_ok t"
  by (simp add: poll_ok_def)

lemmas request_defs =
  fetchLogs_def loadAllLogs_def issue_def resetChunkState_def

lemma event_quiet:
  "calls (handleLogEvent e s) = calls s \<and> pollingAfterRef (handleLogEvent e s) = pollingAfterRef s"
  "calls (handleBatchEvent i ls s) = calls s \<and> pollingAfterRef (handleBatchEvent i ls s) = pollingAfterRef s"
  by (simp_all add: handleLogEvent_def handleBatchEvent_def disconnected_def processLine_def processBatch_def)

lemma request_polls [simp]:
  "pollingAfterRef (fetchLogs b h s) = pollingAfterRef s" "pollingAfterRef (loadAllLogs s) = pollingAfterRef s"
  "filter is_poll (calls (fetchLogs b h s)) = filter is_poll (calls s)"
  "filter is_poll (calls (loadAllLogs s)) = filter is_poll (calls s)"
  by (simp_all add: request_defs Let_def)

lemma request_poll_ok:
  "poll_ok s \<Longrightarrow> poll_ok (fetchLogs b h s)" "poll_ok s \<Longrightarrow> poll_ok (loadAllLogs s)"
  by (simp_all add: poll_ok_def)

lemma target_effect_poll_ok: "poll_ok s \<Longrightarrow> poll_ok (target_effect i s)"
proof -
  assume ok: "poll_ok s"
  let ?s1 = "s\<lparr>prevTarget := target s\<rparr>"
  let ?s2 = "(resetChunkState (?s1\<lparr>isFetchingRef := True, disconnectedRef := False, streamDisconnected := False,
    disconnectReason := '''', loading := True\<rparr>))\<lparr>logs := []\<rparr>"
  have "poll_ok ?s1" "poll_ok ?s2" "poll_ok (?s1\<lparr>initialLoadDone := True\<rparr>)"
    using ok by (simp_all add: poll_ok_def resetChunkState_def)
  with ok show ?thesis by (simp add: target_effect_def Let_def request_poll_ok)
qed

lemma log_step_poll_ok: "poll_ok s \<Longrightarrow> log_step s t \<Longrightarrow> poll_ok t"
proof (erule log_stepE)
  fix i u assume "poll_ok s" "t = change_target i u s"
  then show ?thesis using target_effect_poll_ok [of "s\<lparr>target := u\<rparr>"] by (simp add: change_target_def poll_ok_def)
qed (auto simp: poll_ok_def loadOlderLogs_def loadNewerLogs_def pollNewerLogs_def startStreaming_def
    resolved_def logs_failed_def fetch_over_def fetched_def all_loaded_def older_loaded_def newer_loaded_def poll_answered_def
    stream_started_def issue_def Let_def event_quiet split: option.splits sum.splits if_splits)

interpretation log_hook: transition_system "\<lambda>s. \<exists>t a. s = hook_start t a" log_step poll_ok
proof
  fix s :: log_hook assume "\<exists>t a. s = hook_start t a"
  then show "poll_ok s" by (auto simp: hook_start_def poll_ok_def)
qed (rule log_step_poll_ok)

text \<open>
  One poll at a time: whatever is fetched, paged, streamed or shown meanwhile, the hook never has
  two polls of the backend under way.
\<close>

theorem one_poll_at_a_time:
  assumes "log_step\<^sup>*\<^sup>* (hook_start t a) s"
  shows "length (filter is_poll (calls s)) \<le> 1"
proof -
  have "poll_ok s" using log_hook.reachable_inv [OF _ assms] by blast
  then show ?thesis by (simp add: poll_ok_def)
qed

definition demo_target :: log_target where
  "demo_target = \<lparr>namespace = ''ns'', pod = ''p'', container = ''c'', containers = [''c''], siblingPods = [],
     podContainerMap = Map.empty, showPrevious = False, sinceTime = '''', viewMode = ''end''\<rparr>"

theorem one_poll_at_a_time_witness:
  "length (filter is_poll (calls (pollNewerLogs (pollNewerLogs (hook_start demo_target False))))) \<le> 1"
proof -
  let ?s = "hook_start demo_target False"
  have "log_step\<^sup>*\<^sup>* ?s (pollNewerLogs (pollNewerLogs ?s))"
    by (meson log_step.poll rtranclp.rtrancl_refl rtranclp.rtrancl_into_rtrancl)
  then show ?thesis by (rule one_poll_at_a_time)
qed

section \<open>Rows keep their place\<close>

text \<open>The list shows entry \<open>k\<close> under the index \<open>firstItemIndex + k\<close>.\<close>

definition row :: "log_hook \<Rightarrow> int \<Rightarrow> log_entry option" where
  "row s i =
     (if firstItemIndex s \<le> i \<and> nat (i - firstItemIndex s) < length (logs s)
      then Some (logs s ! nat (i - firstItemIndex s)) else None)"

lemma row_appended:
  "firstItemIndex t = firstItemIndex s \<Longrightarrow> logs t = logs s @ es \<Longrightarrow> row s i = Some e \<Longrightarrow> row t i = Some e"
  by (auto simp: row_def nth_append split: if_splits)

lemma row_prepended:
  assumes "firstItemIndex t = firstItemIndex s - int (length es)" "logs t = es @ logs s" "row s i = Some e"
  shows "row t i = Some e"
proof -
  let ?k = "nat (i - firstItemIndex s)"
  from assms(3) have "firstItemIndex s \<le> i" "?k < length (logs s)" "e = logs s ! ?k" by (auto simp: row_def split: if_splits)
  moreover from this have "nat (i - firstItemIndex t) = length es + ?k" using assms(1) by simp
  ultimately show ?thesis using assms(1,2) by (auto simp: row_def nth_append)
qed

lemma event_appends:
  "firstItemIndex (handleLogEvent e s) = firstItemIndex s \<and> (\<exists>es. logs (handleLogEvent e s) = logs s @ es)"
  "firstItemIndex (handleBatchEvent i ls s) = firstItemIndex s \<and> (\<exists>es. logs (handleBatchEvent i ls s) = logs s @ es)"
  by (simp_all add: handleLogEvent_def handleBatchEvent_def processLine_def processBatch_def disconnected_def)

lemma newer_appends: "firstItemIndex (newer_loaded p s) = firstItemIndex s \<and> (\<exists>es. logs (newer_loaded p s) = logs s @ es)"
  by (auto simp: newer_loaded_def split: sum.splits)

lemma poll_appends: "firstItemIndex (poll_answered d s) = firstItemIndex s \<and> (\<exists>es. logs (poll_answered d s) = logs s @ es)"
  by (auto simp: poll_answered_def appendUniqueLogEntries_def split: sum.splits)

text \<open>
  C19: scrolling never jumps: a page of older or newer logs, a poll, a streamed line or
  a batch, and any error of these, leaves every entry that is shown at the index it is shown under.
\<close>

theorem rows_keep_index:
  assumes "row s i = Some e"
    and "t \<in> {older_loaded page s, newer_loaded page s, poll_answered drained s, handleLogEvent ev s, handleBatchEvent sid ls s}"
  shows "row t i = Some e"
proof -
  have older: "row (older_loaded page s) i = Some e"
  proof (cases page)
    case (Inl err)
    then show ?thesis using row_appended [OF _ _ assms(1), of "older_loaded page s" "[]"] by (simp add: older_loaded_def)
  next
    case (Inr p)
    show ?thesis
    proof (cases "page_text p = ''''")
      case True
      with Inr show ?thesis using row_appended [OF _ _ assms(1), of "older_loaded page s" "[]"] by (simp add: older_loaded_def)
    next
      case False
      with Inr show ?thesis
        by (intro row_prepended [OF _ _ assms(1), where es = "parseLogLines (page_text p) ''before''"])
          (simp_all add: older_loaded_def Let_def)
    qed
  qed
  have kept: "row u i = Some e" if "firstItemIndex u = firstItemIndex s \<and> (\<exists>es. logs u = logs s @ es)" for u
    using that row_appended [OF _ _ assms(1)] by blast
  from assms(2) show ?thesis
    using older kept [OF newer_appends] kept [OF poll_appends] kept [OF event_appends(1)] kept [OF event_appends(2)] by auto
qed

theorem rows_keep_index_witness:
  "row (older_loaded (Inr \<lparr>page_logs = Some ''a'', hasMore = False\<rparr>)
       ((hook_start demo_target False)\<lparr>logs := [log_entry_of '''' ''b'']\<rparr>)) 10000 = Some (log_entry_of '''' ''b'')"
  by (rule rows_keep_index [where s = "(hook_start demo_target False)\<lparr>logs := [log_entry_of '''' ''b'']\<rparr>"])
    (auto simp: row_def hook_start_def)

section \<open>Streams\<close>

datatype stream_delivery = OneLine string | Lines "string list"

fun deliver_log :: "string \<Rightarrow> stream_delivery \<Rightarrow> log_hook \<Rightarrow> log_hook" where
  "deliver_log i (OneLine l) s =
     handleLogEvent \<lparr>event_stream = i, event_done = False, event_error = '''', event_line = l\<rparr> s"
| "deliver_log i (Lines ls) s = handleBatchEvent i ls s"

fun delivered :: "stream_delivery \<Rightarrow> log_entry list" where
  "delivered (OneLine l) = parseLogLines l ''stream''"
| "delivered (Lines ls) = concat (map (\<lambda>l. parseLogLines l ''stream'') ls)"

lemma deliver_log_appends:
  "streamIdRef s = Some i \<Longrightarrow> deliver_log i d s = s\<lparr>logs := logs s @ later_entries (logs s) (delivered d)\<rparr>"
  by (cases s; cases d) (auto simp: handleLogEvent_def handleBatchEvent_def processLine_def processBatch_def
      parseLogLines_def)

lemma last_timestamp_append:
  "getLastTimestamp (xs @ ys) = (if getLastTimestamp ys = '''' then getLastTimestamp xs else getLastTimestamp ys)"
  by (induction ys rule: rev_induct) (auto simp: getLastTimestamp_def getFirstTimestamp_def split: option.splits)

lemma last_timestamp_stamped:
  "xs \<noteq> [] \<Longrightarrow> '''' \<notin> set (map timestamp xs) \<Longrightarrow> getLastTimestamp xs = timestamp (List.last xs)"
  by (induction xs rule: rev_induct) (auto simp: getLastTimestamp_def getFirstTimestamp_def)

text \<open>Later entries of a stream in order of time, taken in two parts.\<close>

lemma later_entries_append:
  assumes "sorted_wrt (<) (map timestamp (xs @ ys))" "'''' \<notin> set (map timestamp (xs @ ys))"
  shows "later_entries shown xs @ later_entries (shown @ later_entries shown xs) ys = later_entries shown (xs @ ys)"
proof (cases "later_entries shown xs = []")
  case True
  then show ?thesis by (auto simp: later_entries_def Let_def split: if_splits)
next
  case False
  let ?l = "later_entries shown xs" and ?t = "getLastTimestamp shown"
  have sub: "set ?l \<subseteq> set xs" by (auto simp: later_entries_def Let_def)
  with assms(2) have st: "'''' \<notin> set (map timestamp ?l)" by auto
  have l: "List.last ?l \<in> set ?l" using False by simp
  then have nz: "timestamp (List.last ?l) \<noteq> ''''" using st by (metis image_eqI list.set_map)
  then have t: "getLastTimestamp (shown @ ?l) = timestamp (List.last ?l)"
    using last_timestamp_stamped [OF False st] by (simp add: last_timestamp_append)
  have "?t = '''' \<or> ?t < timestamp x" if "x \<in> set ?l" "timestamp x \<noteq> ''''" for x
    using that by (auto simp: later_entries_def Let_def split: if_splits)
  from this [OF l nz] have above: "?t = '''' \<or> ?t < timestamp (List.last ?l)" .
  have ys: "timestamp (List.last ?l) < timestamp y \<and> timestamp y \<noteq> ''''" if "y \<in> set ys" for y
    using assms that l sub by (auto simp: sorted_wrt_append image_iff)
  have "later_entries (shown @ ?l) ys = ys"
    by (rule later_entries_all) (use ys in \<open>simp add: t\<close>)
  moreover have "later_entries shown ys = ys"
    by (rule later_entries_all) (use ys above in \<open>auto intro: order.strict_trans\<close>)
  ultimately show ?thesis by (auto simp: later_entries_def Let_def split: if_splits)
qed

text \<open>
  C17: a stream whose lines carry increasing timestamps is shown the same
  however the backend groups the lines into single events and batches: behind what was shown stand
  exactly the lines later than it, each once and in order.
\<close>

theorem stream_grouping_irrelevant:
  assumes "streamIdRef s = Some i"
    and "sorted_wrt (<) (map timestamp (concat (map delivered ds)))" "'''' \<notin> set (map timestamp (concat (map delivered ds)))"
  shows "logs (foldl (\<lambda>s d. deliver_log i d s) s ds) = logs s @ later_entries (logs s) (concat (map delivered ds))"
  using assms
proof (induction ds arbitrary: s)
  case Nil
  then show ?case by simp
next
  case (Cons d ds)
  have "logs (foldl (\<lambda>s d. deliver_log i d s) (deliver_log i d s) ds) =
      logs (deliver_log i d s) @ later_entries (logs (deliver_log i d s)) (concat (map delivered ds))"
    using Cons.prems by (intro Cons.IH) (auto simp: deliver_log_appends sorted_wrt_append)
  then show ?case
    using Cons.prems by (simp add: deliver_log_appends later_entries_append del: map_append)
qed

definition streaming_hook :: log_hook where
  "streaming_hook = (hook_start demo_target False)\<lparr>streamIdRef := Some ''i''\<rparr>"

definition two_deliveries :: "stream_delivery list" where
  "two_deliveries = [OneLine ''2024-11-26T14:30:00.1Z a'', Lines [''2024-11-26T14:30:00.2Z b'', ''2024-11-26T14:30:00.3Z c'']]"

lemma two_deliveries_entries:
  "map (\<lambda>e. (timestamp e, content e)) (concat (map delivered two_deliveries)) = three_lines"
  by code_simp

theorem stream_grouping_irrelevant_witness:
  "map content (logs (foldl (\<lambda>s d. deliver_log ''i'' d s) streaming_hook two_deliveries)) = [''a'', ''b'', ''c'']"
proof -
  let ?es = "concat (map delivered two_deliveries)"
  have m: "map timestamp ?es = map fst three_lines" "map content ?es = map snd three_lines"
    unfolding two_deliveries_entries [symmetric] by (simp_all add: o_def)
  have "sorted_wrt (<) (map fst three_lines)" "'''' \<notin> set (map fst three_lines)" by code_simp+
  with stream_grouping_irrelevant [of streaming_hook "''i''" two_deliveries] m
  have "logs (foldl (\<lambda>s d. deliver_log ''i'' d s) streaming_hook two_deliveries) = later_entries [] ?es"
    by (simp add: streaming_hook_def hook_start_def)
  moreover have "later_entries [] ?es = ?es"
    by (rule later_entries_all) (simp add: getLastTimestamp_def getFirstTimestamp_def)
  ultimately show ?thesis using m(2) by (simp add: three_lines_def)
qed

section \<open>Refreshing\<close>

text \<open>A refresh whose two calls, the fresh target and the logs, are answered one after the other.\<close>

definition another_target :: "log_target \<Rightarrow> fresh_target option \<Rightarrow> bool" where
  "another_target t fresh =
     (case fresh of
        Some f \<Rightarrow> pod (refresh_target f t) \<noteq> pod t \<or> container (refresh_target f t) \<noteq> container t
      | None \<Rightarrow> False)"

definition answer_fetch :: "string + string \<Rightarrow> log_hook \<Rightarrow> log_hook" where
  "answer_fetch answer s =
     (case List.last (calls s) of
        Fetching h c r \<Rightarrow>
          (case answer of
             Inl err \<Rightarrow> logs_failed h err (s\<lparr>calls := butlast (calls s)\<rparr>)
           | Inr txt \<Rightarrow> fetched h c r txt (s\<lparr>calls := butlast (calls s)\<rparr>))
      | _ \<Rightarrow> s)"

definition answer_refresh :: "string + fresh_target option \<Rightarrow> string + string \<Rightarrow> log_hook \<Rightarrow> log_hook" where
  "answer_refresh resolution answer s =
     (case List.last (calls s) of
        Resolving h t \<Rightarrow>
          (case resolution of
             Inl err \<Rightarrow> logs_failed h err (s\<lparr>calls := butlast (calls s)\<rparr>)
           | Inr fresh \<Rightarrow> answer_fetch answer (resolved h t fresh (s\<lparr>calls := butlast (calls s)\<rparr>)))
      | _ \<Rightarrow> s)"

lemma fetchLogs_refresh:
  "calls (fetchLogs True h s) = calls s @ [Resolving h (target s)]" "logs (fetchLogs True h s) = logs s"
  by (simp_all add: request_defs Let_def)

text \<open>
  C18: a refresh never loses what is on the screen to a failure: when the target
  cannot be resolved, when the call fails, and when the container that is shown returns nothing any
  more, the logs stay and an error is shown; otherwise the logs returned are shown, without an error;
  in every case the hook is neither loading nor fetching afterwards.
\<close>

theorem refresh_keeps_logs:
  assumes "logs s \<noteq> []" "u = answer_refresh resolution answer (fetchLogs True (logs s \<noteq> []) s)"
  shows "\<not> loading u \<and> \<not> isFetchingRef u \<and>
    (case (resolution, answer) of
       (Inr fresh, Inr txt) \<Rightarrow>
         if parseLogLines txt ''initial'' \<noteq> [] \<or> another_target (target s) fresh
         then logs u = parseLogLines txt ''initial'' \<and> fetchError u = None
         else logs u = logs s \<and> fetchError u \<noteq> None
     | _ \<Rightarrow> logs u = logs s \<and> fetchError u \<noteq> None)"
  using assms
  by (auto simp: answer_refresh_def answer_fetch_def fetchLogs_refresh resolved_def issue_def logs_failed_def
      fetched_def fetch_over_def another_target_def Let_def split: sum.splits option.splits)

theorem refresh_keeps_logs_witness:
  "logs (answer_refresh (Inr None) (Inl ''down'')
     (fetchLogs True True ((hook_start demo_target False)\<lparr>logs := [log_entry_of '''' ''b'']\<rparr>))) = [log_entry_of '''' ''b'']"
  using refresh_keeps_logs [of "(hook_start demo_target False)\<lparr>logs := [log_entry_of '''' ''b'']\<rparr>" _ "Inr None" "Inl ''down''", OF _ refl]
  by simp

section \<open>What goes wrong\<close>

text \<open>
  The callback of the effect still has the number of logs of the render in which the target changed:
  switching from a pod with logs to one that has printed nothing reports its container as gone.
\<close>

lemma change_target_fetches:
  assumes "\<not> isAllLoaded s" "\<not> nothing_to_show t" "\<not> same_view t (prevTarget s)"
  shows "calls (change_target p t s) = calls s @ [Fetching (logs s \<noteq> []) False (fetch_request t)]"
    "prevTarget (change_target p t s) = t" "target (change_target p t s) = t"
    "isAllLoaded (change_target p t s) = False" "logs (change_target p t s) = []"
  using assms
  by (simp_all add: change_target_def target_effect_def Let_def fetchLogs_def issue_def resetChunkState_def stopStreaming_def
      split: option.splits)

theorem quiet_pod_reported_gone:
  assumes "logs s \<noteq> []" "\<not> isAllLoaded s" "\<not> nothing_to_show t" "\<not> same_view t (prevTarget s)"
  shows "fetchError (answer_fetch (Inr '''') (change_target p t s)) = Some ''Container no longer available''"
  using assms(1) change_target_fetches [OF assms(2-4)]
  by (simp add: answer_fetch_def fetched_def fetch_over_def parseLogLines_def)

text \<open>
  Answers are not matched with the target they were asked for: the logs of the pod that was chosen
  before appear under the name of the one that is chosen now when its answer comes last.
\<close>

theorem stale_fetch_shown:
  assumes "calls s = []" "\<not> isAllLoaded s" "\<not> nothing_to_show t" "\<not> nothing_to_show t'"
    and "\<not> same_view t (prevTarget s)" "\<not> same_view t' t" "parseLogLines old ''initial'' \<noteq> []"
    and s2: "s2 = change_target p t' (change_target p t s)"
  defines "c1 \<equiv> Fetching (logs s \<noteq> []) False (fetch_request t)" and "c2 \<equiv> Fetching False False (fetch_request t')"
  shows "calls s2 = [c1, c2] \<and>
    (let u = answer_fetch (Inr old) ((answer_fetch (Inr new) s2)\<lparr>calls := [c1]\<rparr>)
     in target u = t' \<and> logs u = parseLogLines old ''initial'' \<and> fetchError u = None)"
proof -
  note first = change_target_fetches [OF assms(2,3,5), of p]
  have "\<not> same_view t' (prevTarget (change_target p t s))" using assms(6) first(2) by simp
  note second = change_target_fetches [OF _ assms(4) this, of p]
  have "calls s2 = [c1, c2]" using first second assms(1) by (simp add: s2 c1_def c2_def)
  then show ?thesis using assms(7) first second
    by (auto simp: answer_fetch_def fetched_def fetch_over_def Let_def c1_def c2_def s2)
qed

text \<open>
  A start is not undone by a stop or a second start that comes while it is under way. Of two streams
  one is never stopped; and after a stop the stream that then starts goes on appending its lines.
\<close>

theorem stream_leaked:
  assumes "streamIdRef s = None" "calls s = []" "a \<noteq> b"
  defines "t \<equiv> stopStreaming (stream_started (Some b) (stream_started (Some a) ((startStreaming (startStreaming s))\<lparr>calls := []\<rparr>)))"
  shows "a \<in> set (openStreams t) \<and> streamIdRef t = None"
  using assms by (simp add: t_def stopStreaming_def startStreaming_def issue_def stream_started_def)

theorem stop_overtaken:
  assumes "streamIdRef s = None" "logs s = []" "parseLogLines l ''stream'' \<noteq> []"
  shows "logs (deliver_log a (OneLine l) (stream_started (Some a) (stopStreaming (startStreaming s)))) \<noteq> []"
  using assms
  by (auto simp: deliver_log_appends stream_started_def stopStreaming_def startStreaming_def issue_def later_entries_def
      getLastTimestamp_def getFirstTimestamp_def simp del: deliver_log.simps)

text \<open>
  The lines of several pods come interleaved: a line that is a little earlier than the last one shown
  is dropped although it was never shown. Of two lines with one timestamp, sent one by one, the second is
  dropped; sent in one batch both are shown.
\<close>

theorem interleaved_line_lost:
  assumes "streamIdRef s = Some i" "parseLogLines l ''stream'' = [e]" "timestamp e \<noteq> ''''"
    and "timestamp e \<le> getLastTimestamp (logs s)"
  shows "logs (deliver_log i (OneLine l) s) = logs s"
proof -
  from assms(3,4) have "getLastTimestamp (logs s) \<noteq> ''''" by (metis bot_list_def bot.extremum_uniqueI)
  with assms show ?thesis
    by (auto simp: deliver_log_appends later_entries_def Let_def simp del: deliver_log.simps)
qed

end
