(* ===== verification/LogSearch.thy ===== *)
theory LogSearch
  imports LogText "HOL-Library.Multiset"
begin

text \<open>
  Searching the log viewer (\<open>log-viewer/useLogSearch.ts\<close>): the lines shown for a search term, with
  their context and the marks of what is left out, and the choice of the pod and the containers whose
  logs are shown (\<open>log-viewer/logTarget.ts\<close>). \<open>mk_regex\<close> stands for \<open>new RegExp(pattern, 'gi')\<close>: an
  error text, or the test whether a text contains a match.
\<close>

section \<open>The search\<close>

definition special_chars :: "char set" where
  "special_chars = set ''.*+?^${}()|[]'' \<union> {CHR 0x5C}"

definition escape_regex :: "string \<Rightarrow> string" where
  "escape_regex s = concat (map (\<lambda>c. if c \<in> special_chars then [CHR 0x5C, c] else [c]) s)"

record search_state =
  showSearch :: bool
  searchTerm :: string
  searchInput :: string
  isRegex :: bool
  filterOnly :: bool
  searchOnEnter :: bool
  contextLinesBefore :: nat
  contextLinesAfter :: nat
  regexError :: string

definition search_regex :: "(string \<Rightarrow> string + (string \<Rightarrow> bool)) \<Rightarrow> search_state \<Rightarrow> (string \<Rightarrow> bool) option \<times> string" where
  "search_regex mk_regex s =
     (if searchTerm s = '''' then (None, '''')
      else case mk_regex (if isRegex s then searchTerm s else escape_regex (searchTerm s)) of
             Inr test \<Rightarrow> (Some test, '''')
           | Inl err \<Rightarrow> (None, err))"

definition handleSearchKeyDown :: "string \<Rightarrow> search_state \<Rightarrow> search_state" where
  "handleSearchKeyDown key s =
     (if key = ''Enter'' \<and> searchOnEnter s then s\<lparr>searchTerm := searchInput s\<rparr> else s)"

text \<open>The timer of the search as you type has run out.\<close>

definition debounced :: "search_state \<Rightarrow> search_state" where
  "debounced s = (if searchOnEnter s then s else s\<lparr>searchTerm := searchInput s\<rparr>)"

definition openSearch :: "search_state \<Rightarrow> search_state" where
  "openSearch s = s\<lparr>showSearch := True\<rparr>"

definition closeSearch :: "search_state \<Rightarrow> search_state" where
  "closeSearch s = s\<lparr>showSearch := False, searchTerm := '''', searchInput := '''', regexError := ''''\<rparr>"

definition clearSearchInput :: "search_state \<Rightarrow> search_state" where
  "clearSearchInput s = s\<lparr>searchInput := '''', searchTerm := ''''\<rparr>"

definition handleWindowKey :: "bool \<Rightarrow> string \<Rightarrow> search_state \<Rightarrow> search_state" where
  "handleWindowKey metaOrCtrl key s =
     (let s1 = (if metaOrCtrl \<and> key = ''f'' then openSearch s else s)
      in if key = ''Escape'' \<and> showSearch s then closeSearch s1 else s1)"

section \<open>The lines shown\<close>

datatype display_item =
    Line log_entry nat "bool option"
  | Skip nat string

definition match_indices :: "(string \<Rightarrow> bool) \<Rightarrow> log_entry list \<Rightarrow> nat set" where
  "match_indices test es = set (filter (\<lambda>i. test (stripAnsiCodes (content (es ! i)))) [0..<length es])"

text \<open>The indices added for one match.\<close>

definition match_window :: "nat \<Rightarrow> nat \<Rightarrow> nat \<Rightarrow> nat \<Rightarrow> nat set" where
  "match_window before after n m = set [m - before..<m] \<union> {m} \<union> set [Suc m..<min n (Suc (m + after))]"

definition included_indices :: "nat \<Rightarrow> nat \<Rightarrow> nat \<Rightarrow> nat set \<Rightarrow> nat set" where
  "included_indices before after n ms = \<Union> (match_window before after n ` ms)"

fun display :: "log_entry list \<Rightarrow> nat set \<Rightarrow> nat option \<Rightarrow> nat list \<Rightarrow> display_item list" where
  "display es ms lastIndex [] = []"
| "display es ms lastIndex (i # ixs) =
     (case lastIndex of
        Some l \<Rightarrow>
          if i > l + 1 then [Skip (i - l - 1) (''skip-'' @ show_nat l @ ''-'' @ show_nat i)] else []
      | None \<Rightarrow> []) @
     Line (es ! i) i (Some (i \<in> ms)) # display es ms (Some i) ixs"

definition all_lines :: "(nat \<Rightarrow> bool option) \<Rightarrow> log_entry list \<Rightarrow> display_item list" where
  "all_lines mark es = map (\<lambda>i. Line (es ! i) i (mark i)) [0..<length es]"

definition displayLogs ::
  "(string \<Rightarrow> string + (string \<Rightarrow> bool)) \<Rightarrow> search_state \<Rightarrow> log_entry list \<Rightarrow> display_item list \<times> nat set" where
  "displayLogs mk_regex s es =
     (case fst (search_regex mk_regex s) of
        None \<Rightarrow> (all_lines (\<lambda>_. None) es, {})
      | Some test \<Rightarrow>
          let ms = match_indices test es in
          if \<not> filterOnly s then (all_lines (\<lambda>i. Some (i \<in> ms)) es, ms)
          else (display es ms None
                  (sorted_list_of_set
                    (included_indices (contextLinesBefore s) (contextLinesAfter s) (length es) ms)), ms))"

section \<open>What is shown\<close>

fun line_index :: "display_item \<Rightarrow> nat option" where
  "line_index (Line _ i _) = Some i"
| "line_index (Skip _ _) = None"

fun skipped :: "display_item \<Rightarrow> nat" where
  "skipped (Line _ _ _) = 0"
| "skipped (Skip n _) = n"

text \<open>A display accounts for the lines: between two lines shown stands how many are left out, if any.\<close>

fun accounts :: "nat option \<Rightarrow> display_item list \<Rightarrow> bool" where
  "accounts l [] \<longleftrightarrow> True"
| "accounts l (Line e i b # ds) \<longleftrightarrow> (\<forall>k. l = Some k \<longrightarrow> i = Suc k) \<and> accounts (Some i) ds"
| "accounts l (Skip n s # Line e i b # ds) \<longleftrightarrow> n > 0 \<and> (\<exists>k. l = Some k \<and> i = k + n + 1) \<and> accounts (Some i) ds"
| "accounts l (Skip n s # _) \<longleftrightarrow> False"

lemma match_indices_iff: "i \<in> match_indices test es \<longleftrightarrow> i < length es \<and> test (stripAnsiCodes (content (es ! i)))"
  by (auto simp: match_indices_def)

lemma match_window_iff:
  "m < n \<Longrightarrow> i \<in> match_window before after n m \<longleftrightarrow> i < n \<and> m \<le> i + before \<and> i \<le> m + after"
  by (auto simp: match_window_def)

lemma display_lines:
  "List.map_filter line_index (display es ms l ixs) = ixs"
  "\<forall>d \<in> set (display es ms l ixs). \<forall>e i b. d = Line e i b \<longrightarrow> e = es ! i \<and> b = Some (i \<in> ms)"
  by (induction es ms l ixs rule: display.induct) (auto simp: map_filter_def split: option.splits)

lemma display_accounts: "sorted_wrt (<) (case l of Some k \<Rightarrow> k # ixs | None \<Rightarrow> ixs) \<Longrightarrow> accounts l (display es ms l ixs)"
  by (induction es ms l ixs rule: display.induct) (auto split: option.splits)

text \<open>
  C20: with a valid search term, the filtered view shows exactly the lines that
  match or lie within the context before or after a match, in order and each once, each with its own
  text and the mark that is its own; and between two lines shown stands exactly how many lines are
  left out there, or nothing when none is.
\<close>

theorem search_filter_exact:
  assumes "filterOnly s" "searchTerm s \<noteq> ''''"
    and "mk_regex (if isRegex s then searchTerm s else escape_regex (searchTerm s)) = Inr test"
    and "displayLogs mk_regex s es = (ds, ms)"
  shows "ms = {i. i < length es \<and> test (stripAnsiCodes (content (es ! i)))} \<and>
    List.map_filter line_index ds =
      filter (\<lambda>i. \<exists>m \<in> ms. m \<le> i + contextLinesBefore s \<and> i \<le> m + contextLinesAfter s) [0..<length es] \<and>
    (\<forall>e i b. Line e i b \<in> set ds \<longrightarrow> e = es ! i \<and> b = Some (i \<in> ms)) \<and>
    accounts None ds"
proof -
  let ?I = "included_indices (contextLinesBefore s) (contextLinesAfter s) (length es) ms"
  have ms: "ms = match_indices test es" and ds: "ds = display es ms None (sorted_list_of_set ?I)"
    using assms by (auto simp: displayLogs_def search_regex_def Let_def)
  have mem: "i \<in> ?I \<longleftrightarrow> i < length es \<and> (\<exists>m \<in> ms. m \<le> i + contextLinesBefore s \<and> i \<le> m + contextLinesAfter s)" for i
    by (auto simp: included_indices_def ms match_indices_iff match_window_iff)
  let ?F = "filter (\<lambda>i. \<exists>m \<in> ms. m \<le> i + contextLinesBefore s \<and> i \<le> m + contextLinesAfter s) [0..<length es]"
  have "?I = set ?F" using mem by auto
  moreover have "sorted_list_of_set (set ?F) = ?F"
    by (intro sorted_list_of_set.idem_if_sorted_distinct) (simp_all add: sorted_wrt_filter)
  ultimately have "sorted_list_of_set ?I = ?F" by simp
  moreover have "sorted_wrt (<) (sorted_list_of_set ?I)" by (rule strict_sorted_list_of_set)
  ultimately have idx: "List.map_filter line_index ds = ?F" and acc: "accounts None ds"
    using display_lines(1) display_accounts [where l = None and es = es and ms = ms and ixs = ?F] by (simp_all add: ds)
  have "\<forall>e i b. Line e i b \<in> set ds \<longrightarrow> e = es ! i \<and> b = Some (i \<in> ms)"
    using display_lines(2) [of es ms None "sorted_list_of_set ?I"] unfolding ds by blast
  moreover have "ms = {i. i < length es \<and> test (stripAnsiCodes (content (es ! i)))}"
    unfolding ms using match_indices_iff by blast
  ultimately show ?thesis using idx acc by blast
qed

definition letter_regex :: "string \<Rightarrow> string + (string \<Rightarrow> bool)" where
  "letter_regex p = Inr (\<lambda>s. str_includes s p)"

definition demo_search :: search_state where
  "demo_search = \<lparr>showSearch = True, searchTerm = ''x'', searchInput = ''x'', isRegex = False, filterOnly = True,
     searchOnEnter = True, contextLinesBefore = 1, contextLinesAfter = 0, regexError = ''''\<rparr>"

definition demo_lines :: "log_entry list" where
  "demo_lines = map (log_entry_of '''') [''x'', ''b'', ''c'', ''d'', ''x'']"

theorem search_filter_exact_witness:
  "List.map_filter line_index (fst (displayLogs letter_regex demo_search demo_lines)) = [0, 3, 4]"
proof -
  obtain ds ms where d: "displayLogs letter_regex demo_search demo_lines = (ds, ms)" by fastforce
  have e: "escape_regex ''x'' = ''x''" by (simp add: escape_regex_def special_chars_def)
  have "mk = letter_regex \<Longrightarrow> mk (if isRegex demo_search then searchTerm demo_search
      else escape_regex (searchTerm demo_search)) = Inr (\<lambda>s. str_includes s ''x'')" for mk
    by (simp add: demo_search_def e letter_regex_def)
  note ex = search_filter_exact [OF _ _ this [OF refl] d]
  have "filterOnly demo_search" "searchTerm demo_search \<noteq> ''''" by (simp_all add: demo_search_def)
  note ex = ex [OF this]
  have len: "length demo_lines = 5" and c: "contextLinesBefore demo_search = 1" "contextLinesAfter demo_search = 0"
    by (simp_all add: demo_lines_def demo_search_def)
  have "ms = set (filter (\<lambda>i. str_includes (stripAnsiCodes (content (demo_lines ! i))) ''x'') [0..<5])"
    using ex [THEN conjunct1] unfolding len by auto
  moreover have "filter (\<lambda>i. str_includes (stripAnsiCodes (content (demo_lines ! i))) ''x'') [0..<5] = [0, 4]" by code_simp
  ultimately have ms: "ms = {0, 4}" by simp
  have "List.map_filter line_index ds = filter (\<lambda>i. \<exists>m \<in> {0, 4}. m \<le> i + 1 \<and> i \<le> m + 0) [0..<5]"
    using ex [THEN conjunct2, THEN conjunct1] unfolding len c ms .
  also have "\<dots> = [0, 3, 4]" by code_simp
  finally show ?thesis by (simp add: d)
qed

section \<open>Whose logs\<close>

record log_pod =
  pod_name :: string
  deletionTimestamp :: bool
  pod_phase :: string
  initContainers :: "string list"
  regularContainers :: "string list"
  initStatuses :: "(string \<times> bool) list"  \<comment> \<open>name, and whether it is running\<close>
  regularStatuses :: "(string \<times> bool) list"

text \<open>In the map of statuses the last one of a name counts.\<close>

definition running_in :: "(string \<times> bool) list \<Rightarrow> string \<Rightarrow> bool" where
  "running_in statuses n = (map_of (rev statuses) n = Some True)"

definition getLogContainerNames :: "log_pod \<Rightarrow> string list" where
  "getLogContainerNames p =
     uniq (filter (\<lambda>n. n \<noteq> '''')
       (filter (running_in (regularStatuses p)) (regularContainers p) @
        filter (running_in (initStatuses p)) (initContainers p) @ regularContainers p @ initContainers p))"

definition podScore :: "log_pod \<Rightarrow> int" where
  "podScore p =
     (if deletionTimestamp p then -1
      else if \<exists>(n, r) \<in> set (regularStatuses p). r then 4
      else if \<exists>(n, r) \<in> set (initStatuses p). r then 3
      else if pod_phase p = ''Running'' then 2
      else if pod_phase p = ''Pending'' then 1
      else 0)"

record resolved_target =
  target_namespace :: string
  target_pod :: string
  target_containers :: "string list"
  target_siblings :: "string list"
  target_map :: "string \<rightharpoonup> string list"
  target_owner :: string

definition resolveLogTargetFromPods :: "string \<Rightarrow> log_pod list \<Rightarrow> string \<Rightarrow> resolved_target option" where
  "resolveLogTargetFromPods ns pods owner =
     (if pods = [] then None
      else let sortedPods = sort_key (\<lambda>p. - podScore p) pods;
               selected = hd sortedPods;
               m = map_of (rev (map (\<lambda>p. (pod_name p, getLogContainerNames p)) pods))
           in Some \<lparr>target_namespace = ns, target_pod = pod_name selected,
                    target_containers = (case m (pod_name selected) of Some cs \<Rightarrow> cs | None \<Rightarrow> []),
                    target_siblings = map pod_name sortedPods, target_map = m, target_owner = owner\<rparr>)"

lemma hd_uniq_filter: "xs \<noteq> [] \<Longrightarrow> hd (uniq (xs @ ys)) = hd xs"
  by (cases xs) (simp_all add: uniq_def)

text \<open>
  C29: the pod whose logs are shown is one of the pods, none scores higher, so that a pod
  that is being deleted is taken only when all are; every pod stays selectable, each as often as it
  is given; its containers are offered each once, all that have a name and no other; and when a
  regular container of it runs, such a container is offered first.
\<close>

theorem log_target_best:
  assumes "pods \<noteq> []" "distinct (map pod_name pods)"
  shows "\<exists>r p. resolveLogTargetFromPods ns pods owner = Some r \<and> p \<in> set pods \<and> target_pod r = pod_name p \<and>
    (\<forall>q \<in> set pods. podScore q \<le> podScore p) \<and>
    (deletionTimestamp p \<longrightarrow> (\<forall>q \<in> set pods. deletionTimestamp q)) \<and>
    mset (target_siblings r) = mset (map pod_name pods) \<and>
    distinct (target_containers r) \<and>
    set (target_containers r) = (set (regularContainers p) \<union> set (initContainers p)) - {''''} \<and>
    ((\<exists>n \<in> set (regularContainers p). n \<noteq> '''' \<and> running_in (regularStatuses p) n) \<longrightarrow>
      running_in (regularStatuses p) (hd (target_containers r)) \<and> hd (target_containers r) \<in> set (regularContainers p))"
proof -
  let ?s = "sort_key (\<lambda>p. - podScore p) pods" let ?p = "hd ?s"
  have ne: "?s \<noteq> []" using assms(1) by (metis length_0_conv length_sort)
  have p: "?p \<in> set pods" using hd_in_set [OF ne] by simp
  have best: "podScore q \<le> podScore ?p" if "q \<in> set pods" for q
  proof -
    have "sorted (map (\<lambda>p. - podScore p) ?s)" by simp
    moreover have "q \<in> set ?s" using that by simp
    ultimately show ?thesis using ne by (cases ?s) auto
  qed
  have del: "deletionTimestamp q" if "deletionTimestamp ?p" "q \<in> set pods" for q
    using best [OF that(2)] that(1) by (auto simp: podScore_def split: if_splits)
  have "map_of (rev (map (\<lambda>p. (pod_name p, getLogContainerNames p)) pods)) (pod_name ?p) = Some (getLogContainerNames ?p)"
    using p assms(2) by (intro map_of_is_SomeI) (auto simp: rev_map [symmetric] o_def)
  moreover have "running_in (regularStatuses ?p) (hd (getLogContainerNames ?p)) \<and> hd (getLogContainerNames ?p) \<in> set (regularContainers ?p)"
    if "\<exists>n \<in> set (regularContainers ?p). n \<noteq> '''' \<and> running_in (regularStatuses ?p) n"
  proof -
    let ?run = "filter (\<lambda>n. n \<noteq> '''') (filter (running_in (regularStatuses ?p)) (regularContainers ?p))"
    have "?run \<noteq> []" using that by (auto simp: filter_empty_conv)
    then show ?thesis using hd_in_set [of ?run] by (auto simp: getLogContainerNames_def hd_uniq_filter)
  qed
  ultimately show ?thesis using assms(1) p best del
    by (intro exI [of _ "the (resolveLogTargetFromPods ns pods owner)"] exI [of _ ?p])
      (auto simp: resolveLogTargetFromPods_def Let_def getLogContainerNames_def)
qed

definition demo_pod :: "string \<Rightarrow> bool \<Rightarrow> string \<Rightarrow> log_pod" where
  "demo_pod n d ph = \<lparr>pod_name = n, deletionTimestamp = d, pod_phase = ph, initContainers = [], regularContainers = [''c''],
     initStatuses = [], regularStatuses = []\<rparr>"

theorem log_target_best_witness:
  "\<exists>r p. resolveLogTargetFromPods ''ns'' [demo_pod ''a'' True ''Running'', demo_pod ''b'' False ''Pending''] '''' = Some r \<and>
     target_pod r = pod_name p \<and> podScore (demo_pod ''b'' False ''Pending'') \<le> podScore p"
  using log_target_best [of "[demo_pod ''a'' True ''Running'', demo_pod ''b'' False ''Pending'']" "''ns''" "''''"]
  by (auto simp: demo_pod_def)

end
