(* ===== verification/ResourceTable.thy ===== *)
theory ResourceTable
  imports Complex_Main FilterEngine "HOL-Library.Multiset"
begin

text \<open>
  The resource table (\<open>components/shared/ResourceList.tsx\<close>): its columns, the filters of a column,
  the rows shown and their order, and the settings a saved view keeps. Rows are objects; the getters
  of a column are data of the column. Parameters stand for what the code takes from the platform:
  \<open>to_number\<close> for \<open>Number(string)\<close>, \<open>hours_since\<close> for the hours since a timestamp, \<open>rx\<close> for compiling a
  case-insensitive expression (\<open>None\<close> when it throws), \<open>collate\<close> for the sort key of
  \<open>localeCompare\<close>. Keys named like a member of \<open>Object.prototype\<close> are outside the model.
\<close>

section \<open>Columns\<close>

record column =
  col_key :: string
  col_getValue :: "(jsv \<Rightarrow> jsv) option"
  col_getFilterValue :: "(jsv \<Rightarrow> jsv) option"
  col_getNumericValue :: "(jsv \<Rightarrow> rat option) option"
  filterable :: bool
  col_filterType :: "string option"
  defaultHidden :: bool
  isColumnSelector :: bool
  isSelectionColumn :: bool

definition meta :: "string \<Rightarrow> jsv \<Rightarrow> jsv" where  \<comment> \<open>\<open>item.metadata?.k\<close>\<close>
  "meta k item = jopt (js_member item ''metadata'') k"

definition getNumericValue :: "(jsv \<Rightarrow> rat option) \<Rightarrow> column \<Rightarrow> jsv \<Rightarrow> rat option" where
  "getNumericValue hours_since col item =
     (case col_getNumericValue col of
        Some f \<Rightarrow> f item
      | None \<Rightarrow>
          if col_key col = ''age'' then
            (let ts = meta ''creationTimestamp'' item in if \<not> truthy ts then None else hours_since ts)
          else case col_getValue col of
                 Some f \<Rightarrow> (case f item of JNum n \<Rightarrow> Some (of_int n) | _ \<Rightarrow> None)
               | None \<Rightarrow> None)"

definition getColumnValue :: "column \<Rightarrow> jsv \<Rightarrow> string" where
  "getColumnValue col item =
     (case col_getFilterValue col of
        Some f \<Rightarrow> jstring (jcoalesce (f item) (JStr ''''))
      | None \<Rightarrow>
          if col_key col = ''name'' then jstring (jor (meta ''name'' item) (JStr ''''))
          else if col_key col = ''namespace'' then jstring (jor (meta ''namespace'' item) (JStr ''''))
          else case col_getValue col of
                 Some f \<Rightarrow> (case f item of JStr s \<Rightarrow> s | _ \<Rightarrow> '''')
               | None \<Rightarrow> jstring (jcoalesce (js_member item (col_key col)) (JStr '''')))"

text \<open>The kind of filter of a column, \<open>None\<close> when it has none.\<close>

definition columnFilterType :: "column \<Rightarrow> string option" where
  "columnFilterType col =
     (if \<not> filterable col \<or> isColumnSelector col \<or> isSelectionColumn col then None
      else case col_filterType col of
             Some t \<Rightarrow> Some t
           | None \<Rightarrow>
               if col_key col \<in> {''name'', ''namespace''} then Some ''regex''
               else if col_key col = ''age'' then Some ''numeric''
               else Some ''select'')"

definition PREDEFINED_COLUMN_VALUES :: "string \<Rightarrow> string \<Rightarrow> string list" where
  "PREDEFINED_COLUMN_VALUES rt key =
     (if (rt, key) = (''pods'', ''status'') then
        [''Running'', ''Pending'', ''Failed'', ''Succeeded'', ''CrashLoopBackOff'', ''Terminating'',
         ''Unknown'', ''ErrImagePull'', ''ImagePullBackOff'', ''ContainerCreating'', ''PodInitializing'',
         ''Init:Error'', ''Init:CrashLoopBackOff'', ''Init:Running'']
      else if (rt, key) = (''deployments'', ''status'') then [''Available'', ''Progressing'', ''Unavailable'']
      else if (rt, key) = (''services'', ''type'') then [''ClusterIP'', ''NodePort'', ''LoadBalancer'', ''ExternalName'']
      else if (rt, key) = (''jobs'', ''status'') then [''Complete'', ''Failed'', ''Running'', ''Suspended'']
      else if (rt, key) = (''cronjobs'', ''suspend'') then [''true'', ''false'']
      else if (rt, key) = (''nodes'', ''status'') then [''Ready'', ''NotReady'', ''SchedulingDisabled'']
      else if (rt, key) = (''events'', ''type'') then [''Normal'', ''Warning'']
      else [])"

definition count_value :: "string \<Rightarrow> (string, nat) js_map \<Rightarrow> (string, nat) js_map" where
  "count_value val counts =
     (if val = '''' then counts
      else map_set val ((case map_get counts val of Some n \<Rightarrow> n | None \<Rightarrow> 0) + 1) counts)"

text \<open>The values offered by the filter of a column and how often each occurs, when there are not too many.\<close>

definition columnUniqueValues ::
  "(string \<Rightarrow> 'k::linorder) \<Rightarrow> string \<Rightarrow> column \<Rightarrow> jsv list \<Rightarrow> (string list \<times> (string, nat) js_map) option" where
  "columnUniqueValues collate rt col data =
     (let predefined = PREDEFINED_COLUMN_VALUES rt (col_key col);
          seeded = foldl (\<lambda>m v. map_set v 0 m) [] predefined;
          counts = foldl (\<lambda>m item. count_value (getColumnValue col item) m) seeded data;
          allValues = map_keys counts
      in if allValues \<noteq> [] \<and> length allValues \<le> 200
         then Some (predefined @ sort_key collate (filter (\<lambda>v. v \<notin> set predefined) allValues), counts)
         else None)"

section \<open>Filters of a column\<close>

text \<open>
  A set of values, in the order they were chosen; expressions; or comparisons. A filter that was saved
  by an older version has one pattern or comparison instead of a list.
\<close>

datatype col_filter =
    Select "string list" "string option"
  | Regex "string list option" string "string option"
  | Numeric "(string \<times> rat) list option" "string \<times> rat" "string option"

type_synonym col_filters = "(string, col_filter) js_map"

fun logic_of :: "col_filter \<Rightarrow> string option" where
  "logic_of (Select _ l) = l"
| "logic_of (Regex _ _ l) = l"
| "logic_of (Numeric _ _ l) = l"

definition default_logic :: "col_filter option \<Rightarrow> string option" where
  "default_logic existing =
     (case existing of
        Some f \<Rightarrow> (case logic_of f of Some l \<Rightarrow> if l = '''' then Some ''and'' else Some l | None \<Rightarrow> Some ''and'')
      | None \<Rightarrow> Some ''and'')"

definition toggleColumnFilter :: "string \<Rightarrow> string \<Rightarrow> col_filters \<Rightarrow> col_filters" where
  "toggleColumnFilter colKey val prev =
     (let current = (case map_get prev colKey of Some (Select vs _) \<Rightarrow> vs | _ \<Rightarrow> []);
          next = (if val \<in> set current then filter (\<lambda>v. v \<noteq> val) current else current @ [val])
      in if next = [] then map_delete colKey prev else map_set colKey (Select next None) prev)"

definition addRegexCondition :: "string \<Rightarrow> string \<Rightarrow> col_filters \<Rightarrow> col_filters" where
  "addRegexCondition colKey pattern prev =
     (if pattern = '''' then prev
      else let existing = map_get prev colKey;
               conditions = (case existing of Some (Regex (Some cs) _ _) \<Rightarrow> cs | _ \<Rightarrow> [])
           in map_set colKey (Regex (Some (conditions @ [pattern])) '''' (default_logic existing)) prev)"

definition drop_nth :: "nat \<Rightarrow> 'a list \<Rightarrow> 'a list" where
  "drop_nth i xs = take i xs @ drop (Suc i) xs"

definition removeRegexCondition :: "string \<Rightarrow> nat \<Rightarrow> col_filters \<Rightarrow> col_filters" where
  "removeRegexCondition colKey i prev =
     (case map_get prev colKey of
        Some (Regex cs p l) \<Rightarrow>
          let conditions = drop_nth i (case cs of Some xs \<Rightarrow> xs | None \<Rightarrow> [])
          in if conditions = [] then map_delete colKey prev else map_set colKey (Regex (Some conditions) p l) prev
      | _ \<Rightarrow> prev)"

definition addNumericCondition :: "(string \<Rightarrow> rat option) \<Rightarrow> string \<Rightarrow> string \<Rightarrow> string \<Rightarrow> col_filters \<Rightarrow> col_filters" where
  "addNumericCondition to_number colKey operator val prev =
     (if val = '''' then prev
      else case to_number val of
             None \<Rightarrow> prev
           | Some n \<Rightarrow>
               let existing = map_get prev colKey;
                   conditions = (case existing of Some (Numeric (Some cs) _ _) \<Rightarrow> cs | _ \<Rightarrow> [])
               in map_set colKey (Numeric (Some (conditions @ [(operator, n)])) ('''', 0) (default_logic existing)) prev)"

definition removeNumericCondition :: "string \<Rightarrow> nat \<Rightarrow> col_filters \<Rightarrow> col_filters" where
  "removeNumericCondition colKey i prev =
     (case map_get prev colKey of
        Some (Numeric cs p l) \<Rightarrow>
          let conditions = drop_nth i (case cs of Some xs \<Rightarrow> xs | None \<Rightarrow> [])
          in if conditions = [] then map_delete colKey prev else map_set colKey (Numeric (Some conditions) p l) prev
      | _ \<Rightarrow> prev)"

fun with_logic :: "string \<Rightarrow> col_filter \<Rightarrow> col_filter" where
  "with_logic l (Select vs _) = Select vs (Some l)"
| "with_logic l (Regex cs p _) = Regex cs p (Some l)"
| "with_logic l (Numeric cs p _) = Numeric cs p (Some l)"

definition toggleFilterLogic :: "string \<Rightarrow> col_filters \<Rightarrow> col_filters" where
  "toggleFilterLogic colKey prev =
     (case map_get prev colKey of
        None \<Rightarrow> prev
      | Some f \<Rightarrow> map_set colKey (with_logic (if logic_of f = Some ''and'' then ''or'' else ''and'') f) prev)"

definition clearColumnFilter :: "string \<Rightarrow> col_filters \<Rightarrow> col_filters" where
  "clearColumnFilter colKey prev = map_delete colKey prev"

section \<open>The rows shown\<close>

definition check_condition :: "rat \<Rightarrow> string \<times> rat \<Rightarrow> bool" where
  "check_condition n cond =
     (let (operator, target) = cond in
      if operator = ''>'' then n > target
      else if operator = ''>='' then n \<ge> target
      else if operator = ''<'' then n < target
      else if operator = ''<='' then n \<le> target
      else if operator = ''='' then n = target
      else if operator = ''!='' then n \<noteq> target
      else True)"

definition holds :: "string option \<Rightarrow> bool list \<Rightarrow> bool" where
  "holds logic results =
     (if logic \<noteq> Some ''or'' then \<not> (\<exists>r \<in> set results. \<not> r) else (\<exists>r \<in> set results. r))"

definition regex_condition :: "(string \<Rightarrow> (string \<Rightarrow> bool) option) \<Rightarrow> string \<Rightarrow> string \<Rightarrow> bool" where
  "regex_condition rx val pattern = (case rx pattern of Some test \<Rightarrow> test val | None \<Rightarrow> True)"

fun passes_filter ::
  "(string \<Rightarrow> (string \<Rightarrow> bool) option) \<Rightarrow> (jsv \<Rightarrow> rat option) \<Rightarrow> column \<Rightarrow> jsv \<Rightarrow> col_filter \<Rightarrow> bool" where
  "passes_filter rx hours_since col item (Select vs _) = (getColumnValue col item \<in> set vs)"
| "passes_filter rx hours_since col item (Regex cs p l) =
     holds l (map (regex_condition rx (getColumnValue col item)) (case cs of Some xs \<Rightarrow> xs | None \<Rightarrow> [p]))"
| "passes_filter rx hours_since col item (Numeric cs p l) =
     (case getNumericValue hours_since col item of
        None \<Rightarrow> False
      | Some n \<Rightarrow> holds l (map (check_condition n) (case cs of Some xs \<Rightarrow> xs | None \<Rightarrow> [p])))"

fun passes_filters ::
  "(string \<Rightarrow> (string \<Rightarrow> bool) option) \<Rightarrow> (jsv \<Rightarrow> rat option) \<Rightarrow> column list \<Rightarrow> col_filters \<Rightarrow> jsv \<Rightarrow> bool" where
  "passes_filters rx hours_since columns [] item = True"
| "passes_filters rx hours_since columns ((colKey, f) # fs) item =
     (case List.find (\<lambda>c. col_key c = colKey) columns of
        None \<Rightarrow> passes_filters rx hours_since columns fs item
      | Some col \<Rightarrow>
          if \<not> passes_filter rx hours_since col item f then False
          else passes_filters rx hours_since columns fs item)"

definition filteredData where
  "filteredData mk_regex rx_test rx hours_since resourceType columns searchTerm columnFilters data =
     map_option (\<lambda>rows. if columnFilters \<noteq> [] then filter (passes_filters rx hours_since columns columnFilters) rows else rows)
       (if searchTerm = '''' then Some data
        else jfilter (createFilter mk_regex rx_test resourceType searchTerm) data)"

section \<open>Order\<close>

text \<open>
  \<open>Array.prototype.sort\<close> with a comparison: elements move in front only of strictly greater ones. For
  comparisons that are no order the language leaves the result open.
\<close>

fun js_insert :: "('a \<Rightarrow> 'a \<Rightarrow> int) \<Rightarrow> 'a \<Rightarrow> 'a list \<Rightarrow> 'a list" where
  "js_insert cmp x [] = [x]"
| "js_insert cmp x (y # ys) = (if cmp x y \<le> 0 then x # y # ys else y # js_insert cmp x ys)"

definition js_sort :: "('a \<Rightarrow> 'a \<Rightarrow> int) \<Rightarrow> 'a list \<Rightarrow> 'a list" where
  "js_sort cmp xs = foldr (js_insert cmp) xs []"

text \<open>The operator \<open>a < b\<close>: on two strings their order, else numbers, \<open>NaN\<close> being less than nothing.\<close>

fun prim_string :: "jsv \<Rightarrow> string option" where
  "prim_string (JStr s) = Some s"
| "prim_string (JArr xs) = Some (jstring (JArr xs))"
| "prim_string (JObj kvs) = Some (jstring (JObj kvs))"
| "prim_string _ = None"

fun prim_number :: "(string \<Rightarrow> rat option) \<Rightarrow> jsv \<Rightarrow> rat option" where
  "prim_number to_number JUndef = None"
| "prim_number to_number JNull = Some 0"
| "prim_number to_number (JBool b) = Some (if b then 1 else 0)"
| "prim_number to_number (JNum n) = Some (of_int n)"
| "prim_number to_number v = to_number (jstring v)"

definition js_less :: "(string \<Rightarrow> rat option) \<Rightarrow> jsv \<Rightarrow> jsv \<Rightarrow> bool" where
  "js_less to_number a b =
     (case (prim_string a, prim_string b) of
        (Some s, Some t) \<Rightarrow> s < t
      | _ \<Rightarrow> (case (prim_number to_number a, prim_number to_number b) of
                (Some x, Some y) \<Rightarrow> x < y
              | _ \<Rightarrow> False))"

definition locale_compare :: "(string \<Rightarrow> 'k::linorder) \<Rightarrow> string \<Rightarrow> string \<Rightarrow> int" where
  "locale_compare collate a b = (if collate a < collate b then -1 else if collate a > collate b then 1 else 0)"

definition sort_value :: "column \<Rightarrow> jsv \<Rightarrow> jsv" where
  "sort_value col item = (case col_getValue col of Some f \<Rightarrow> f item | None \<Rightarrow> js_member item (col_key col))"

definition row_name :: "jsv \<Rightarrow> string" where
  "row_name item = jstring (jor (meta ''name'' item) (JStr ''''))"

definition tie_break :: "(string \<Rightarrow> rat option) \<Rightarrow> (string \<Rightarrow> 'k::linorder) \<Rightarrow> string \<Rightarrow> jsv \<Rightarrow> jsv \<Rightarrow> int" where
  "tie_break to_number collate key a b =
     (let aDate = meta ''creationTimestamp'' a; bDate = meta ''creationTimestamp'' b in
      if key \<noteq> ''age'' \<and> truthy aDate \<and> truthy bDate \<and> aDate \<noteq> bDate then
        (if js_less to_number bDate aDate then -1 else 1)
      else if key \<noteq> ''name'' then locale_compare collate (row_name a) (row_name b)
      else 0)"

definition compare_rows ::
  "(string \<Rightarrow> rat option) \<Rightarrow> (string \<Rightarrow> 'k::linorder) \<Rightarrow> column list \<Rightarrow> string \<Rightarrow> string \<Rightarrow> jsv \<Rightarrow> jsv \<Rightarrow> int" where
  "compare_rows to_number collate columns key direction a b =
     (case List.find (\<lambda>c. col_key c = key) columns of
        None \<Rightarrow> 0
      | Some col \<Rightarrow>
          let aValue = sort_value col a; bValue = sort_value col b in
          if js_less to_number aValue bValue then (if direction = ''asc'' then -1 else 1)
          else if js_less to_number bValue aValue then (if direction = ''asc'' then 1 else -1)
          else tie_break to_number collate key a b)"

definition sortedData ::
  "(string \<Rightarrow> rat option) \<Rightarrow> (string \<Rightarrow> 'k::linorder) \<Rightarrow> column list \<Rightarrow> string option \<Rightarrow> string \<Rightarrow> jsv list \<Rightarrow> jsv list" where
  "sortedData to_number collate columns key direction data =
     (case key of
        None \<Rightarrow> data
      | Some k \<Rightarrow> if k = '''' then data else js_sort (compare_rows to_number collate columns k direction) data)"

subsection \<open>Sorting by a comparison\<close>

lemma mset_js_insert: "mset (js_insert cmp x xs) = add_mset x (mset xs)"
  by (induction xs) auto

lemma mset_js_sort [simp]: "mset (js_sort cmp xs) = mset xs"
  by (induction xs) (auto simp: js_sort_def mset_js_insert)

lemma set_js_insert [simp]: "set (js_insert cmp x xs) = insert x (set xs)"
  by (metis mset_js_insert set_mset_add_mset_insert set_mset_mset)

lemma set_js_sort [simp]: "set (js_sort cmp xs) = set xs"
  by (metis mset_js_sort set_mset_mset)

lemma js_insert_sorted:
  assumes "\<And>x y. x \<in> A \<Longrightarrow> y \<in> A \<Longrightarrow> cmp x y \<le> 0 \<or> cmp y x \<le> 0"
    and "\<And>x y z. x \<in> A \<Longrightarrow> y \<in> A \<Longrightarrow> z \<in> A \<Longrightarrow> cmp x y \<le> 0 \<Longrightarrow> cmp y z \<le> 0 \<Longrightarrow> cmp x z \<le> 0"
    and "x \<in> A" "set ys \<subseteq> A" "sorted_wrt (\<lambda>a b. cmp a b \<le> 0) ys"
  shows "sorted_wrt (\<lambda>a b. cmp a b \<le> 0) (js_insert cmp x ys)"
  using assms(3-5)
proof (induction ys)
  case (Cons y ys)
  show ?case
  proof (cases "cmp x y \<le> 0")
    case True
    have "cmp x z \<le> 0" if "z \<in> set ys" for z
      using assms(2) [of x y z] that Cons.prems True by auto
    with True Cons.prems show ?thesis by auto
  next
    case False
    then have "cmp y x \<le> 0" using assms(1) [of x y] Cons.prems by auto
    with False Cons show ?thesis by auto
  qed
qed simp

lemma js_sort_sorted:
  assumes "\<And>x y. x \<in> set xs \<Longrightarrow> y \<in> set xs \<Longrightarrow> cmp x y \<le> 0 \<or> cmp y x \<le> 0"
    and "\<And>x y z. x \<in> set xs \<Longrightarrow> y \<in> set xs \<Longrightarrow> z \<in> set xs \<Longrightarrow> cmp x y \<le> 0 \<Longrightarrow> cmp y z \<le> 0 \<Longrightarrow> cmp x z \<le> 0"
  shows "sorted_wrt (\<lambda>a b. cmp a b \<le> 0) (js_sort cmp xs)"
proof -
  have "set ys \<subseteq> set xs \<Longrightarrow> sorted_wrt (\<lambda>a b. cmp a b \<le> 0) (js_sort cmp ys) \<and> set (js_sort cmp ys) \<subseteq> set xs" for ys
  proof (induction ys)
    case (Cons y ys)
    then have "sorted_wrt (\<lambda>a b. cmp a b \<le> 0) (js_insert cmp y (js_sort cmp ys))"
      by (intro js_insert_sorted [OF assms]) auto
    with Cons show ?case by (simp add: js_sort_def)
  qed (simp add: js_sort_def)
  then show ?thesis by simp
qed

text \<open>The order a table promises, for rows whose values in the column are ordered like \<open>f\<close>.\<close>

definition row_before :: "(jsv \<Rightarrow> 'v::linorder) \<Rightarrow> (string \<Rightarrow> 'k::linorder) \<Rightarrow> column \<Rightarrow> string \<Rightarrow> jsv \<Rightarrow> jsv \<Rightarrow> bool" where
  "row_before f collate col direction a b \<longleftrightarrow>
     (let x = f (sort_value col a); y = f (sort_value col b);
          s = jstring (meta ''creationTimestamp'' a); t = jstring (meta ''creationTimestamp'' b)
      in (if direction = ''asc'' then x < y else y < x) \<or>
         x = y \<and>
           (if col_key col \<noteq> ''age'' \<and> s \<noteq> t then t < s
            else if col_key col \<noteq> ''name'' then collate (row_name a) \<le> collate (row_name b)
            else True))"

lemma compare_rows_before:
  assumes col: "List.find (\<lambda>c. col_key c = key) columns = Some col"
    and less: "\<And>a b. a \<in> D \<Longrightarrow> b \<in> D \<Longrightarrow>
        js_less to_number (sort_value col a) (sort_value col b) \<longleftrightarrow> f (sort_value col a) < f (sort_value col b)"
    and dates: "\<And>a. a \<in> D \<Longrightarrow> \<exists>t. t \<noteq> '''' \<and> meta ''creationTimestamp'' a = JStr t"
    and ab: "a \<in> D" "b \<in> D"
  shows "compare_rows to_number collate columns key direction a b \<le> 0 \<longleftrightarrow> row_before f collate col direction a b"
proof -
  have key: "col_key col = key" using col by (auto simp: find_Some_iff)
  obtain s t where d: "meta ''creationTimestamp'' a = JStr s" "meta ''creationTimestamp'' b = JStr t" "s \<noteq> ''''" "t \<noteq> ''''"
    using dates ab by metis
  have sym: "js_less to_number (sort_value col b) (sort_value col a) \<longleftrightarrow> f (sort_value col b) < f (sort_value col a)"
    by (rule less [OF ab(2,1)])
  have tie: "tie_break to_number collate key a b \<le> 0 \<longleftrightarrow>
      (if key \<noteq> ''age'' \<and> s \<noteq> t then t < s else if key \<noteq> ''name'' then collate (row_name a) \<le> collate (row_name b) else True)"
    using d by (auto simp: tie_break_def Let_def js_less_def locale_compare_def)
  show ?thesis
    by (cases rule: linorder_cases [of "f (sort_value col a)" "f (sort_value col b)"])
      (simp_all add: compare_rows_def col row_before_def Let_def less [OF ab] sym tie key d less_not_sym
        less_imp_neq less_imp_neq [symmetric])
qed

lemma row_before_total: "row_before f collate col direction a b \<or> row_before f collate col direction b a"
  by (auto simp: row_before_def Let_def)

lemma lex_trans:
  fixes x y z :: "'a::linorder"
  shows "(if d then x < y else y < x) \<or> x = y \<and> P \<Longrightarrow> (if d then y < z else z < y) \<or> y = z \<and> Q \<Longrightarrow> (P \<Longrightarrow> Q \<Longrightarrow> R) \<Longrightarrow>
    (if d then x < z else z < x) \<or> x = z \<and> R"
  by (cases d) (auto intro: less_trans)

lemma tie_trans:
  fixes s t u :: "'b::linorder" and m n k :: "'c::linorder"
  assumes "if A \<and> s \<noteq> t then t < s else if B then m \<le> n else True" "if A \<and> t \<noteq> u then u < t else if B then n \<le> k else True"
  shows "if A \<and> s \<noteq> u then u < s else if B then m \<le> k else True"
  using assms by (cases A; cases B) (auto split: if_splits intro: less_trans)

lemma row_before_trans:
  "row_before f collate col direction a b \<Longrightarrow> row_before f collate col direction b c \<Longrightarrow> row_before f collate col direction a c"
  unfolding row_before_def Let_def by (erule lex_trans, assumption, erule tie_trans, assumption)


definition plain_column :: "string \<Rightarrow> column" where
  "plain_column k = \<lparr>col_key = k, col_getValue = None, col_getFilterValue = None, col_getNumericValue = None,
     filterable = True, col_filterType = None, defaultHidden = False, isColumnSelector = False, isSelectionColumn = False\<rparr>"

definition demo_row :: "string \<Rightarrow> jsv \<Rightarrow> jsv" where
  "demo_row n v = JObj [(''metadata'', JObj [(''name'', JStr n), (''creationTimestamp'', JStr ''2024'')]), (''restarts'', v)]"

fun num_of :: "jsv \<Rightarrow> int" where
  "num_of (JNum n) = n"
| "num_of _ = 0"


text \<open>
  Rows without a value in the column are equal to every row, so that the comparison is no order: of
  three rows each is in front of the next, and the last in front of the first.
\<close>

theorem missing_value_breaks_sort:
  fixes x y :: int
  assumes "x < y"
  defines "cmp \<equiv> compare_rows (\<lambda>_. None) (\<lambda>s. s) [plain_column ''restarts''] ''restarts'' ''asc''"
  shows "cmp (demo_row ''a'' (JNum y)) (demo_row ''b'' JUndef) < 0 \<and> cmp (demo_row ''b'' JUndef) (demo_row ''c'' (JNum x)) < 0 \<and>
    cmp (demo_row ''c'' (JNum x)) (demo_row ''a'' (JNum y)) < 0"
  using assms(1)
  by (simp add: cmp_def compare_rows_def plain_column_def demo_row_def sort_value_def js_less_def tie_break_def meta_def
      jopt_def Let_def locale_compare_def row_name_def jor_def)

section \<open>Columns shown\<close>

definition default_hidden :: "column list \<Rightarrow> string list" where
  "default_hidden columns = uniq (map col_key (filter defaultHidden columns))"

definition toggleColumn :: "string \<Rightarrow> string list \<Rightarrow> string list" where
  "toggleColumn key hidden = (if key \<in> set hidden then filter (\<lambda>k. k \<noteq> key) hidden else hidden @ [key])"

definition order_index :: "string list \<Rightarrow> string \<Rightarrow> nat option" where
  "order_index columnOrder key = map_of (rev (zip columnOrder [0..<length columnOrder])) key"

definition orderedVisibleColumns :: "string list \<Rightarrow> string list \<Rightarrow> column list \<Rightarrow> column list" where
  "orderedVisibleColumns hidden columnOrder columns =
     (let base = filter (\<lambda>c. col_key c \<notin> set hidden) columns in
      if columnOrder = [] then base
      else let dataCols = filter (\<lambda>c. \<not> isColumnSelector c) base;
               ordered = filter (\<lambda>c. order_index columnOrder (col_key c) \<noteq> None) dataCols;
               unordered = filter (\<lambda>c. order_index columnOrder (col_key c) = None) dataCols
           in sort_key (\<lambda>c. the (order_index columnOrder (col_key c))) ordered @ unordered @
              (case List.find isColumnSelector base of Some c \<Rightarrow> [c] | None \<Rightarrow> []))"

definition visibleColumns :: "bool \<Rightarrow> column list \<Rightarrow> column list" where
  "visibleColumns selectable ordered =
     (if selectable then (plain_column ''_selection'')\<lparr>isSelectionColumn := True\<rparr> # ordered else ordered)"

definition sortableColumnIds :: "column list \<Rightarrow> string list" where
  "sortableColumnIds cols = map col_key (filter (\<lambda>c. \<not> isSelectionColumn c \<and> \<not> isColumnSelector c) cols)"

text \<open>The order after a drag; \<open>arrayMove\<close> of the drag-and-drop library is a parameter.\<close>

definition handleColumnDragEnd ::
  "(string list \<Rightarrow> nat \<Rightarrow> nat \<Rightarrow> string list) \<Rightarrow> string list \<Rightarrow> string \<Rightarrow> string option \<Rightarrow> string list \<Rightarrow> string list" where
  "handleColumnDragEnd arrayMove ids active over columnOrder =
     (case over of
        None \<Rightarrow> columnOrder
      | Some o' \<Rightarrow>
          if active = o' then columnOrder
          else (case (find_index (\<lambda>k. k = active) ids, find_index (\<lambda>k. k = o') ids) of
                  (Some i, Some j) \<Rightarrow> arrayMove ids i j
                | _ \<Rightarrow> columnOrder))"

definition handleSort :: "string \<Rightarrow> string option \<times> string \<Rightarrow> string option \<times> string" where
  "handleSort key config =
     (Some key, if fst config = Some key \<and> snd config = ''asc'' then ''desc'' else ''asc'')"

lemma mset_partition: "mset (filter P xs) + mset (filter (\<lambda>x. \<not> P x) xs) = mset xs"
  by (simp add: multiset_partition [symmetric])

lemma sorted_wrt_all: "(\<And>x y. x \<in> set xs \<Longrightarrow> y \<in> set xs \<Longrightarrow> R x y) \<Longrightarrow> sorted_wrt R xs"
  by (induction xs) auto

lemma find_filter_hd: "List.find P xs = (case filter P xs of [] \<Rightarrow> None | x # _ \<Rightarrow> Some x)"
  by (induction xs) auto

text \<open>
  C38: whatever order is stored, from whatever version, every visible column is shown once
  and no hidden one, the column selector, of which there is one, stands last, and columns without a
  place in the order follow those that have one.
\<close>

theorem columns_kept:
  assumes "columnOrder \<noteq> []" "length (filter isColumnSelector columns) \<le> 1"
  shows "mset (orderedVisibleColumns hidden columnOrder columns) =
      mset (filter (\<lambda>c. col_key c \<notin> set hidden) columns) \<and>
    sorted_wrt (\<lambda>a b. isColumnSelector a \<longrightarrow> isColumnSelector b) (orderedVisibleColumns hidden columnOrder columns) \<and>
    sorted_wrt (\<lambda>a b. \<not> isColumnSelector b \<and> order_index columnOrder (col_key a) = None \<longrightarrow>
      order_index columnOrder (col_key b) = None) (orderedVisibleColumns hidden columnOrder columns)"
proof -
  let ?base = "filter (\<lambda>c. col_key c \<notin> set hidden) columns"
  let ?data = "filter (\<lambda>c. \<not> isColumnSelector c) ?base"
  let ?has = "\<lambda>c. order_index columnOrder (col_key c) \<noteq> None"
  let ?sel = "case List.find isColumnSelector ?base of Some c \<Rightarrow> [c] | None \<Rightarrow> []"
  let ?ord = "sort_key (\<lambda>c. the (order_index columnOrder (col_key c))) (filter ?has ?data)"
  let ?un = "filter (\<lambda>c. \<not> ?has c) ?data"
  have eq: "orderedVisibleColumns hidden columnOrder columns = ?ord @ ?un @ ?sel"
    using assms(1) by (simp add: orderedVisibleColumns_def Let_def)
  have "filter isColumnSelector ?base = filter (\<lambda>c. col_key c \<notin> set hidden) (filter isColumnSelector columns)"
    by (simp add: conj_commute)
  then have "length (filter isColumnSelector ?base) \<le> 1"
    using assms(2) length_filter_le [of "\<lambda>c. col_key c \<notin> set hidden" "filter isColumnSelector columns"] by simp
  then have sel: "?sel = filter isColumnSelector ?base"
    unfolding find_filter_hd by (cases "filter isColumnSelector ?base") auto
  have "mset (?ord @ ?un @ ?sel) = mset (filter ?has ?data) + mset ?un + mset (filter isColumnSelector ?base)"
    unfolding sel by simp
  also have "\<dots> = mset ?base"
    using mset_partition [of ?has ?data] mset_partition [of isColumnSelector ?base] by (simp add: union_commute)
  finally have m: "mset (?ord @ ?un @ ?sel) = mset ?base" .
  have "sorted_wrt (\<lambda>a b. isColumnSelector a \<longrightarrow> isColumnSelector b) (?ord @ ?un @ ?sel)"
    unfolding sel sorted_wrt_append by (intro conjI sorted_wrt_all ballI) auto
  moreover have "sorted_wrt (\<lambda>a b. \<not> isColumnSelector b \<and> order_index columnOrder (col_key a) = None \<longrightarrow>
      order_index columnOrder (col_key b) = None) (?ord @ ?un @ ?sel)"
    unfolding sel sorted_wrt_append by (intro conjI sorted_wrt_all ballI) auto
  ultimately show ?thesis using m by (simp only: eq)
qed

theorem columns_kept_witness:
  "mset (orderedVisibleColumns [''b''] [''c'', ''a''] (map plain_column [''a'', ''b'', ''c''])) =
     mset (filter (\<lambda>c. col_key c \<notin> set [''b'']) (map plain_column [''a'', ''b'', ''c'']))"
  using columns_kept [of "[''c'', ''a'']" "map plain_column [''a'', ''b'', ''c'']" "[''b'']"]
  by (simp add: plain_column_def)

section \<open>Filters stay well formed\<close>

datatype filter_op =
    ToggleValue string string
  | AddRegex string string
  | RemoveRegex string nat
  | AddNumeric string string string
  | RemoveNumeric string nat
  | ToggleLogic string
  | ClearColumn string
  | ClearAll

fun filter_step :: "(string \<Rightarrow> rat option) \<Rightarrow> col_filters \<Rightarrow> filter_op \<Rightarrow> col_filters" where
  "filter_step to_number fs (ToggleValue k v) = toggleColumnFilter k v fs"
| "filter_step to_number fs (AddRegex k p) = addRegexCondition k p fs"
| "filter_step to_number fs (RemoveRegex k i) = removeRegexCondition k i fs"
| "filter_step to_number fs (AddNumeric k p v) = addNumericCondition to_number k p v fs"
| "filter_step to_number fs (RemoveNumeric k i) = removeNumericCondition k i fs"
| "filter_step to_number fs (ToggleLogic k) = toggleFilterLogic k fs"
| "filter_step to_number fs (ClearColumn k) = clearColumnFilter k fs"
| "filter_step to_number fs ClearAll = []"

text \<open>A filter has something to test: values, each once, or conditions.\<close>

fun filter_ok :: "col_filter \<Rightarrow> bool" where
  "filter_ok (Select vs _) \<longleftrightarrow> vs \<noteq> [] \<and> distinct vs"
| "filter_ok (Regex cs _ _) \<longleftrightarrow> cs \<noteq> None \<and> cs \<noteq> Some []"
| "filter_ok (Numeric cs _ _) \<longleftrightarrow> cs \<noteq> None \<and> cs \<noteq> Some []"

definition filters_ok :: "col_filters \<Rightarrow> bool" where
  "filters_ok fs \<longleftrightarrow> map_wf fs \<and> (\<forall>k f. map_get fs k = Some f \<longrightarrow> filter_ok f)"

lemma filters_ok_set: "filters_ok fs \<Longrightarrow> filter_ok f \<Longrightarrow> filters_ok (map_set k f fs)"
  by (auto simp: filters_ok_def js.wf_put js.get_put)

lemma filters_ok_delete: "filters_ok fs \<Longrightarrow> filters_ok (map_delete k fs)"
  by (auto simp: filters_ok_def js.wf_del js.get_del)

lemma filters_ok_get: "filters_ok fs \<Longrightarrow> map_get fs k = Some f \<Longrightarrow> filter_ok f"
  by (simp add: filters_ok_def)

lemma filter_ok_logic [simp]: "filter_ok (with_logic l f) = filter_ok f"
  by (cases f) auto

lemma toggle_ok: "filters_ok fs \<Longrightarrow> filters_ok (toggleColumnFilter k v fs)"
proof -
  assume ok: "filters_ok fs"
  define current where "current = (case map_get fs k of Some (Select vs _) \<Rightarrow> vs | _ \<Rightarrow> [])"
  have "distinct current"
    using filters_ok_get [OF ok, of k] by (auto simp: current_def split: option.splits col_filter.splits)
  then show ?thesis
    using ok filters_ok_set filters_ok_delete
    by (auto simp: toggleColumnFilter_def Let_def current_def [symmetric])
qed

lemma filter_step_ok: "filters_ok fs \<Longrightarrow> filters_ok (filter_step to_number fs op)"
  by (cases op)
    (auto simp: toggle_ok addRegexCondition_def removeRegexCondition_def addNumericCondition_def
      removeNumericCondition_def toggleFilterLogic_def clearColumnFilter_def Let_def filters_ok_def [of "[]"]
      intro!: filters_ok_set filters_ok_delete dest: filters_ok_get split: option.splits col_filter.splits)

interpretation table_filters: machine "filter_step to_number" filters_ok for to_number
  by unfold_locales (rule filter_step_ok)

section \<open>Saved views of a table\<close>

text \<open>
  What a view keeps of a table. Its sets are stored as arrays, the filter objects otherwise unchanged;
  the namespace is the value it is.
\<close>

record table_view =
  v_query :: string
  v_namespace :: jsv
  v_hidden :: "string list"
  v_sort :: "(string option \<times> string) option"
  v_filters :: col_filters
  v_order :: "string list option"

record table_state =
  activeViewId :: "string option"
  searchInput :: string
  searchTerm :: string
  hidden :: "string list"
  sort_config :: "string option \<times> string"
  filters :: col_filters
  order :: "string list"
  currentNamespace :: jsv

fun filter_from_json :: "col_filter \<Rightarrow> col_filter" where
  "filter_from_json (Select vs l) = Select (uniq vs) l"  \<comment> \<open>\<open>new Set(f.values)\<close>\<close>
| "filter_from_json f = f"

definition getCurrentViewConfig :: "table_state \<Rightarrow> table_view" where
  "getCurrentViewConfig s =
     \<lparr>v_query = searchInput s, v_namespace = currentNamespace s, v_hidden = hidden s, v_sort = Some (sort_config s),
      v_filters = filters s, v_order = (if order s \<noteq> [] then Some (order s) else None)\<rparr>"

definition sort_or_default :: "(string option \<times> string) option \<Rightarrow> string option \<times> string" where
  "sort_or_default initialSort = (case initialSort of Some c \<Rightarrow> c | None \<Rightarrow> (None, ''asc''))"

text \<open>\<open>handleLoadView\<close> of an id and the view it names; the namespace change takes effect at once.\<close>

definition reset_view :: "column list \<Rightarrow> (string option \<times> string) option \<Rightarrow> table_state \<Rightarrow> table_state" where
  "reset_view columns initialSort s =
     s\<lparr>activeViewId := None, searchInput := '''', searchTerm := '''', hidden := default_hidden columns,
       sort_config := sort_or_default initialSort, filters := [], order := []\<rparr>"

definition handleLoadView :: "bool \<Rightarrow> string \<Rightarrow> table_view option \<Rightarrow> table_state \<Rightarrow> table_state" where
  "handleLoadView canChangeNamespace viewId found s =
     (case found of
        None \<Rightarrow> s
      | Some v \<Rightarrow>
          s\<lparr>activeViewId := Some viewId, searchInput := v_query v, searchTerm := v_query v, hidden := uniq (v_hidden v),
            sort_config := sort_or_default (v_sort v),
            filters := map (\<lambda>(k, f). (k, filter_from_json f)) (v_filters v),
            order := (case v_order v of Some ks \<Rightarrow> ks | None \<Rightarrow> []),
            currentNamespace := (if truthy (v_namespace v) \<and> canChangeNamespace then v_namespace v else currentNamespace s)\<rparr>)"

text \<open>Whether the table differs from the view that is loaded, or from the defaults when none is.\<close>

definition isViewDirty ::
  "column list \<Rightarrow> (string option \<times> string) option \<Rightarrow> (string \<Rightarrow> table_view option) \<Rightarrow> table_state \<Rightarrow> bool" where
  "isViewDirty columns initialSort loadView s =
     (case activeViewId s of
        Some i \<Rightarrow>
          (case loadView i of
             None \<Rightarrow> False
           | Some v \<Rightarrow>
               v_query v \<noteq> searchInput s \<or> v_namespace v \<noteq> currentNamespace s \<or>
               sort_or_default (v_sort v) \<noteq> sort_config s \<or> set (v_hidden v) \<noteq> set (hidden s) \<or>
               (case v_order v of Some ks \<Rightarrow> ks | None \<Rightarrow> []) \<noteq> order s \<or> v_filters v \<noteq> filters s)
      | None \<Rightarrow>
          searchInput s \<noteq> '''' \<or> sort_config s \<noteq> sort_or_default initialSort \<or> order s \<noteq> [] \<or> filters s \<noteq> [] \<or>
          set (hidden s) \<noteq> set (default_hidden columns))"

lemma filter_json_ok: "filter_ok f \<Longrightarrow> filter_from_json f = f"
  by (cases f) (auto simp: uniq_id)

lemma filters_json_ok:
  assumes "filters_ok fs"
  shows "map (\<lambda>(k, f). (k, filter_from_json f)) fs = fs"
proof (rule map_idI)
  fix kf assume "kf \<in> set fs"
  moreover obtain k f where kf: "kf = (k, f)" by (cases kf)
  ultimately have "map_get fs k = Some f" using assms by (auto simp: filters_ok_def)
  with assms show "(case kf of (k, f) \<Rightarrow> (k, filter_from_json f)) = kf"
    by (simp add: kf filter_json_ok filters_ok_def)
qed


definition demo_table :: table_state where
  "demo_table = \<lparr>activeViewId = None, searchInput = ''web'', searchTerm = ''web'', hidden = [''age''],
     sort_config = (Some ''name'', ''asc''), filters = [(''status'', Select [''Running''] None)], order = [],
     currentNamespace = JArr [JStr ''ns'']\<rparr>"


section \<open>What the filters show\<close>

lemma jfilter_eq: "jfilter p xs = Some ys \<Longrightarrow> ys = filter (\<lambda>x. p x = Some True) xs"
  by (induction xs arbitrary: ys) (auto split: bind_splits if_splits)

lemma passes_filters_iff:
  "passes_filters rx hours_since columns fs item \<longleftrightarrow>
   (\<forall>(k, f) \<in> set fs. \<forall>col. List.find (\<lambda>c. col_key c = k) columns = Some col \<longrightarrow> passes_filter rx hours_since col item f)"
  by (induction rx hours_since columns fs item rule: passes_filters.induct) (auto split: option.splits)

lemma filteredData_exact:
  "filteredData mk_regex rx_test rx hours_since rt columns q fs data = Some rows \<Longrightarrow>
   rows = filter (\<lambda>item. (q = '''' \<or> createFilter mk_regex rx_test rt q item = Some True) \<and>
      passes_filters rx hours_since columns fs item) data"
  by (auto simp: filteredData_def filter_filter conj_commute split: if_splits dest!: jfilter_eq)

definition count_of :: "(string, nat) js_map \<Rightarrow> string \<Rightarrow> nat" where
  "count_of m v = (case map_get m v of Some n \<Rightarrow> n | None \<Rightarrow> 0)"

lemma count_of_data:
  "map_wf m \<Longrightarrow> v \<noteq> '''' \<Longrightarrow>
   count_of (foldl (\<lambda>m item. count_value (getColumnValue col item) m) m data) v =
     count_of m v + length (filter (\<lambda>item. getColumnValue col item = v) data)"
proof (induction data arbitrary: m)
  case (Cons item data)
  have "map_wf (count_value (getColumnValue col item) m)"
    using Cons.prems by (simp add: count_value_def js.wf_put)
  with Cons show ?case by (simp add: count_value_def count_of_def js.get_put)
qed simp

lemma count_of_seeded: "map_wf m \<Longrightarrow> count_of m v = 0 \<Longrightarrow> count_of (foldl (\<lambda>m v. map_set v 0 m) m vs) v = 0"
  by (induction vs arbitrary: m) (auto simp: count_of_def js.get_put js.wf_put)

lemma seeded_wf: "map_wf m \<Longrightarrow> map_wf (foldl (\<lambda>m v. map_set v (0 :: nat) m) m vs)"
  by (induction vs arbitrary: m) (auto simp: js.wf_put)

lemma map_of_key: "v \<notin> set (map_keys m) \<Longrightarrow> count_of m v = 0"
  by (simp add: count_of_def map_of_eq_None_iff [THEN iffD2])



end
