(* ===== verification/ColumnWidths.thy ===== *)
theory ColumnWidths
  imports ResourceTable
begin

text \<open>
  The widths of table columns (\<open>components/shared/resourceListColumns.ts\<close> and the resizing of
  \<open>ResourceList.tsx\<close>). Widths are whole pixels; the factor 7.5 and the percentile are computed exactly.
\<close>

section \<open>Tables\<close>

definition MIN_COLUMN_WIDTHS :: "(string, nat) js_map" where
  "MIN_COLUMN_WIDTHS =
     [(''_selection'', 44), (''name'', 150), (''namespace'', 120), (''message'', 200), (''cpu'', 100),
      (''memory'', 100), (''containers'', 120), (''restarts'', 80), (''age'', 80),
      (''controlledBy'', 120), (''pods'', 100), (''ready'', 80), (''desired'', 80), (''current'', 80),
      (''available'', 80), (''condition'', 120), (''conditions'', 120), (''completions'', 80),
      (''lastRun'', 100), (''nextRun'', 100), (''suspend'', 80), (''schedule'', 100),
      (''taints'', 80), (''version'', 80), (''count'', 80), (''type'', 80), (''last'', 80),
      (''involvedObject'', 200), (''actions'', 50), (''status'', 100), (''cluster'', 100),
      (''clusterIP'', 120), (''externalIP'', 120), (''ports'', 150), (''selector'', 150),
      (''labels'', 150), (''node'', 120), (''ip'', 100), (''image'', 200), (''reason'', 120),
      (''source'', 100)]"

definition DEFAULT_COLUMN_WIDTHS :: "(string, nat) js_map" where
  "DEFAULT_COLUMN_WIDTHS =
     [(''cpu'', 100), (''memory'', 100), (''containers'', 150), (''restarts'', 140), (''age'', 100),
      (''controlledBy'', 150), (''pods'', 100), (''ready'', 100), (''desired'', 100),
      (''current'', 100), (''available'', 100), (''condition'', 150), (''conditions'', 150),
      (''completions'', 100), (''lastRun'', 125), (''nextRun'', 125), (''suspend'', 100),
      (''schedule'', 125), (''taints'', 85), (''version'', 85), (''count'', 85), (''type'', 100),
      (''last'', 85), (''involvedObject'', 250), (''actions'', 50)]"

section \<open>Calculation\<close>

text \<open>\<open>Math.ceil(length * 7.5) + 24\<close>, nothing for a falsy value.\<close>

definition calculateTextWidth :: "jsv \<Rightarrow> nat" where
  "calculateTextWidth txt = (if \<not> truthy txt then 0 else (15 * length (jstring txt) + 1) div 2 + 24)"

record width_column = column +
  col_label :: jsv
  has_render :: bool

definition cell_value :: "'a width_column_scheme \<Rightarrow> jsv \<Rightarrow> jsv" where
  "cell_value col item =
     (case col_getValue col of
        Some f \<Rightarrow> f item
      | None \<Rightarrow>
          if col_key col = ''name'' then meta ''name'' item
          else if col_key col = ''namespace'' then meta ''namespace'' item
          else js_member item (col_key col))"

definition cell_width :: "'a width_column_scheme \<Rightarrow> jsv \<Rightarrow> nat option" where
  "cell_width col item =
     (let value' = cell_value col item in
      if has_render col then
        (case value' of
           JStr s \<Rightarrow> Some (calculateTextWidth (JStr s))
         | _ \<Rightarrow> if col_key col = ''name'' \<and> truthy (meta ''name'' item)
                then Some (calculateTextWidth (meta ''name'' item)) else None)
      else if nullish value' then None
      else Some (calculateTextWidth value'))"

text \<open>The rows looked at: every \<open>step\<close>-th.\<close>

definition sample_step :: "nat \<Rightarrow> nat" where
  "sample_step n = max 1 (n div min n 500)"

definition sampled :: "'a list \<Rightarrow> 'a list" where
  "sampled xs = map (nth xs) (filter (\<lambda>i. i mod sample_step (length xs) = 0) [0..<length xs])"

definition contentWidths :: "'a width_column_scheme \<Rightarrow> jsv list \<Rightarrow> nat list" where
  "contentWidths col data = sort (List.map_filter (cell_width col) (sampled data))"

definition percentile_width :: "nat list \<Rightarrow> nat" where
  "percentile_width ws = (let w = ws ! (19 * length ws div 20) in if w \<noteq> 0 then w else List.last ws)"

definition max_width :: "string \<Rightarrow> nat" where
  "max_width key = (if key = ''message'' then 500 else 350)"

definition min_width :: "string \<Rightarrow> nat" where
  "min_width key = (case map_get MIN_COLUMN_WIDTHS key of Some w \<Rightarrow> w | None \<Rightarrow> 80)"

definition header_width :: "'a width_column_scheme \<Rightarrow> nat" where
  "header_width col = calculateTextWidth (col_label col) + 20"

definition skipped_column :: "(string, nat) js_map \<Rightarrow> 'a width_column_scheme \<Rightarrow> bool" where
  "skipped_column saved col \<longleftrightarrow>
     (case map_get saved (col_key col) of Some w \<Rightarrow> w \<noteq> 0 | None \<Rightarrow> False) \<or>
     isColumnSelector col \<or> isSelectionColumn col \<or> col_key col \<in> {''cpu'', ''memory'', ''pods''}"

definition column_width :: "jsv list \<Rightarrow> 'a width_column_scheme \<Rightarrow> nat" where
  "column_width data col =
     (let ws = contentWidths col data in
      if ws = [] then max (min_width (col_key col)) (header_width col)
      else min (max_width (col_key col))
             (max (max (min_width (col_key col)) (header_width col)) (percentile_width ws)))"

definition calculateColumnWidths ::
  "'a width_column_scheme list \<Rightarrow> jsv list \<Rightarrow> (string, nat) js_map \<Rightarrow> (string, nat) js_map" where
  "calculateColumnWidths columns data saved =
     (if data = [] then []
      else foldl (\<lambda>m col. if skipped_column saved col then m else map_set (col_key col) (column_width data col) m)
             [] columns)"

section \<open>The widths in use\<close>

record width_state =
  savedColumnWidths :: "(string, nat) js_map"
  calculatedWidthsRef :: "(string, nat) js_map"
  lastDataLengthRef :: nat

text \<open>Recalculated when the number of rows changes by more than a tenth, or the first rows arrive.\<close>

definition recalculate :: "'a width_column_scheme list \<Rightarrow> jsv list \<Rightarrow> width_state \<Rightarrow> width_state" where
  "recalculate columns data s =
     (let n = length data; l = lastDataLengthRef s;
          changed = 10 * (if n \<ge> l then n - l else l - n) > l;
          isNew = (l = 0 \<and> n > 0)
      in if isNew \<or> changed
         then s\<lparr>calculatedWidthsRef := calculateColumnWidths columns data (savedColumnWidths s), lastDataLengthRef := n\<rparr>
         else s)"

definition columnWidths :: "width_state \<Rightarrow> (string, nat) js_map" where
  "columnWidths s = spread (spread DEFAULT_COLUMN_WIDTHS (calculatedWidthsRef s)) (savedColumnWidths s)"

text \<open>A column is dragged from \<open>startWidth\<close> by \<open>diff\<close> pixels; a double click forgets its width.\<close>

definition resize_column :: "string \<Rightarrow> int \<Rightarrow> int \<Rightarrow> width_state \<Rightarrow> width_state" where
  "resize_column key startWidth diff s =
     s\<lparr>savedColumnWidths := map_set key (nat (max 50 (startWidth + diff))) (savedColumnWidths s)\<rparr>"

definition handleResizeDoubleClick :: "string \<Rightarrow> width_state \<Rightarrow> width_state" where
  "handleResizeDoubleClick key s = s\<lparr>savedColumnWidths := map_delete key (savedColumnWidths s)\<rparr>"

section \<open>What is promised\<close>

lemma find_in: "List.find P xs = Some x \<Longrightarrow> x \<in> set xs \<and> P x"
  by (induction xs) (auto split: if_splits)

lemma calculated_get:
  "map_wf m \<Longrightarrow>
   map_get (foldl (\<lambda>m col. if P col then m else map_set (col_key col) (f col) m) m cols) k =
     (case List.find (\<lambda>col. \<not> P col \<and> col_key col = k) (rev cols) of Some col \<Rightarrow> Some (f col) | None \<Rightarrow> map_get m k)"
proof (induction cols arbitrary: m rule: rev_induct)
  case (snoc col cols)
  have "map_wf (foldl (\<lambda>m col. if P col then m else map_set (col_key col) (f col) m) m cols)"
    using snoc.prems by (induction cols arbitrary: m) (auto simp: js.wf_put)
  with snoc show ?case by (auto simp: js.get_put)
qed simp

text \<open>
  Widths cover: every calculated width leaves a column between its minimum and its maximum, unless no
  row has a value in it; then it is as wide as its head. And unless the maximum cuts it off, at least
  nineteen of twenty of the values looked at fit.
\<close>

theorem widths_cover:
  assumes "map_get (calculateColumnWidths columns data saved) k = Some w"
  shows "\<exists>col \<in> set columns. col_key col = k \<and> \<not> skipped_column saved col \<and>
    (let ws = contentWidths col data in
     if ws = [] then w = max (min_width k) (header_width col)
     else min (min_width k) (max_width k) \<le> w \<and> w \<le> max_width k \<and>
       (w < max_width k \<longrightarrow> 19 * length ws \<le> 20 * length (filter (\<lambda>x. x \<le> w) ws)))"
proof -
  obtain col where col: "col \<in> set columns" "col_key col = k" "\<not> skipped_column saved col" "w = column_width data col"
  proof -
    have "map_get (calculateColumnWidths columns data saved) k =
        (case List.find (\<lambda>col. \<not> skipped_column saved col \<and> col_key col = k) (rev columns) of
           Some col \<Rightarrow> Some (column_width data col) | None \<Rightarrow> None)" if "data \<noteq> []"
      using that calculated_get [of "[]" "skipped_column saved" "column_width data" columns k]
      by (simp add: calculateColumnWidths_def split: option.splits)
    moreover have "data \<noteq> []" using assms by (auto simp: calculateColumnWidths_def)
    ultimately obtain col where f: "List.find (\<lambda>col. \<not> skipped_column saved col \<and> col_key col = k) (rev columns) = Some col"
      "column_width data col = w"
      using assms by (auto split: option.splits)
    from find_in [OF f(1)] f(2) that [of col] show ?thesis by simp
  qed
  let ?ws = "contentWidths col data" let ?n = "length ?ws" let ?i = "19 * ?n div 20"
  have "19 * ?n \<le> 20 * length (filter (\<lambda>x. x \<le> w) ?ws)" if ne: "?ws \<noteq> []" and lt: "w < max_width k"
  proof -
    have i: "?i < ?n" by (rule less_mult_imp_div_less) (simp add: ne)
    have "percentile_width ?ws \<le> w" using ne lt col by (simp add: column_width_def Let_def split: if_splits)
    then have "?ws ! ?i \<le> w" by (auto simp: percentile_width_def Let_def split: if_splits)
    moreover have s: "sorted ?ws" by (simp add: contentWidths_def)
    ultimately have below: "?ws ! j \<le> w" if "j \<le> ?i" for j
      using sorted_nth_mono [OF s that i] by linarith
    have "x \<le> w" if "x \<in> set (take (Suc ?i) ?ws)" for x
    proof -
      from that obtain j where "j < Suc ?i" "x = ?ws ! j" by (auto simp: in_set_conv_nth)
      with below show ?thesis by simp
    qed
    then have "\<forall>x \<in> set (take (Suc ?i) ?ws). x \<le> w" by blast
    then have "Suc ?i \<le> length (filter (\<lambda>x. x \<le> w) (take (Suc ?i) ?ws))" using i by (simp add: filter_True)
    also have "\<dots> \<le> length (filter (\<lambda>x. x \<le> w) ?ws)"
      by (metis append_take_drop_id filter_append le_add1 length_append)
    finally show ?thesis by linarith
  qed
  with col show ?thesis by (auto simp: column_width_def Let_def intro!: bexI [of _ col])
qed

definition name_column :: width_column where
  "name_column = \<lparr>col_key = ''ip'', col_getValue = None, col_getFilterValue = None, col_getNumericValue = None,
     filterable = True, col_filterType = None, defaultHidden = False, isColumnSelector = False, isSelectionColumn = False,
     col_label = JStr ''IP'', has_render = False\<rparr>"

theorem widths_cover_witness:
  "\<exists>col \<in> set [name_column]. col_key col = ''ip'' \<and> max (min_width ''ip'') (header_width col) = 100"
proof -
  have e: "contentWidths name_column [JObj []] = []"
    by (simp add: contentWidths_def sampled_def cell_width_def cell_value_def name_column_def map_filter_simps sample_step_def)
  have m: "max (min_width ''ip'') (header_width name_column) = 100"
    by (simp add: min_width_def MIN_COLUMN_WIDTHS_def header_width_def name_column_def calculateTextWidth_def)
  have k: "col_key name_column = ''ip''" by (simp add: name_column_def)
  have "map_get (calculateColumnWidths [name_column] [JObj []] []) ''ip'' = Some 100"
    using m k e by (simp add: calculateColumnWidths_def column_width_def skipped_column_def)
      (simp add: name_column_def)
  from widths_cover [OF this] m k show ?thesis by auto
qed

text \<open>The comment promises a sample of at most 500 rows; of 999 rows all are looked at.\<close>

theorem sample_too_large: "length xs = 999 \<Longrightarrow> length (sampled xs) = 999"
  by (simp add: sampled_def sample_step_def)

end
