(* ===== verification/PodNotifications.thy ===== *)
theory PodNotifications
  imports JsMap JsStrings
begin

text \<open>
  Notifications about pods (\<open>hooks/usePodNotifications.tsx\<close>): every run of the effect compares the list of
  pods with the one of the run before, and reports restarts and replaced pods; with the list of shown
  notifications (\<open>context/NotificationContext.tsx\<close>) and the set of visible rows the table hands over.
  The clock is read once per run. Container names are not names of \<open>Object.prototype\<close>. A notice keeps the
  parts its message is put together from.
\<close>

section \<open>Snapshots\<close>

record notif_container =
  cs_name :: string
  restartCount :: "nat option"

record notif_pod =
  pod_uid :: "string option"
  pod_name :: "string option"
  pod_namespace :: "string option"
  ownerReferences :: "(string \<times> string) list option"  \<comment> \<open>kind and name\<close>
  containerStatuses :: "notif_container list option"

record pod_snapshot =
  snap_total :: nat
  snap_statuses :: "notif_container list"
  snap_name :: string
  snap_namespace :: string
  ownerKey :: "string option"

definition text_or :: "string \<Rightarrow> string option \<Rightarrow> string" where  \<comment> \<open>\<open>s || d\<close>\<close>
  "text_or d s = (case s of Some (c # cs) \<Rightarrow> c # cs | _ \<Rightarrow> d)"

definition restarts :: "notif_container \<Rightarrow> nat" where
  "restarts cs = (case restartCount cs of Some n \<Rightarrow> n | None \<Rightarrow> 0)"

definition getOwnerKey :: "notif_pod \<Rightarrow> string option" where
  "getOwnerKey pod =
     (case ownerReferences pod of Some ((kind, name) # _) \<Rightarrow> Some (kind @ ''/'' @ name) | _ \<Rightarrow> None)"

definition getTotalRestarts :: "notif_pod \<Rightarrow> nat" where
  "getTotalRestarts pod =
     (case containerStatuses pod of None \<Rightarrow> 0 | Some ss \<Rightarrow> foldl (\<lambda>sum cs. sum + restarts cs) 0 ss)"

definition snapshot_of :: "notif_pod \<Rightarrow> pod_snapshot" where
  "snapshot_of pod =
     \<lparr>snap_total = getTotalRestarts pod, snap_statuses = (case containerStatuses pod of Some ss \<Rightarrow> ss | None \<Rightarrow> []),
      snap_name = text_or ''unknown'' (pod_name pod), snap_namespace = text_or '''' (pod_namespace pod),
      ownerKey = getOwnerKey pod\<rparr>"

type_synonym snapshots = "(string, pod_snapshot) js_map"

definition take_snapshot :: "notif_pod list \<Rightarrow> snapshots" where
  "take_snapshot pods =
     foldl (\<lambda>m pod. case pod_uid pod of
                      Some (c # cs) \<Rightarrow> map_set (c # cs) (snapshot_of pod) m
                    | _ \<Rightarrow> m) [] pods"

section \<open>Restarts\<close>

datatype notice =
    PodRestart string string string  \<comment> \<open>pod, namespace, which containers\<close>
  | PodRedeployed string string string string  \<comment> \<open>new pod, old pod, kind and name of the owner\<close>

definition old_restarts :: "notif_container list \<Rightarrow> (string, nat) js_map" where
  "old_restarts ss = foldl (\<lambda>m cs. map_set (cs_name cs) (restarts cs) m) [] ss"

definition restarted_containers :: "pod_snapshot \<Rightarrow> pod_snapshot \<Rightarrow> notif_container list" where
  "restarted_containers old cur =
     filter (\<lambda>cs. restarts cs > (case map_get (old_restarts (snap_statuses old)) (cs_name cs) of Some n \<Rightarrow> n | None \<Rightarrow> 0))
       (snap_statuses cur)"

definition containerInfo :: "pod_snapshot \<Rightarrow> pod_snapshot \<Rightarrow> string" where
  "containerInfo old cur =
     (let restarted = restarted_containers old cur in
      if restarted \<noteq> []
      then join '', '' (map (\<lambda>cs. cs_name cs @ '' ('' @ show_nat (restarts cs) @ '')'') restarted)
      else ''total: '' @ show_nat (snap_total cur))"

definition restart_notices :: "(string \<Rightarrow> bool) \<Rightarrow> snapshots \<Rightarrow> snapshots \<Rightarrow> notice list" where
  "restart_notices isVisible prev current =
     List.map_filter (\<lambda>(uid, cur).
       case map_get prev uid of
         None \<Rightarrow> None
       | Some old \<Rightarrow>
           if snap_total cur > snap_total old \<and> isVisible uid
           then Some (PodRestart (snap_name cur) (snap_namespace cur) (containerInfo old cur)) else None) current"

section \<open>Replaced pods\<close>

record deletion_entry =
  del_podName :: string
  del_namespace :: string
  del_timestamp :: int

type_synonym deletions = "(string, deletion_entry) js_map"

definition REDEPLOY_WINDOW_MS :: int where
  "REDEPLOY_WINDOW_MS = 30000"

definition record_deletion :: "int \<Rightarrow> (string \<Rightarrow> bool) \<Rightarrow> snapshots \<Rightarrow> deletions \<Rightarrow> string \<times> pod_snapshot \<Rightarrow> deletions" where
  "record_deletion now isVisible current d e =
     (case e of (uid, old) \<Rightarrow>
        if \<not> map_has current uid \<and> isVisible uid then
          (case ownerKey old of
             Some k \<Rightarrow> map_set k \<lparr>del_podName = snap_name old, del_namespace = snap_namespace old, del_timestamp = now\<rparr> d
           | None \<Rightarrow> d)
        else d)"

definition record_deletions :: "int \<Rightarrow> (string \<Rightarrow> bool) \<Rightarrow> snapshots \<Rightarrow> snapshots \<Rightarrow> deletions \<Rightarrow> deletions" where
  "record_deletions now isVisible prev current d = foldl (record_deletion now isVisible current) d prev"

definition redeploy_notice :: "string \<Rightarrow> pod_snapshot \<Rightarrow> deletion_entry \<Rightarrow> notice" where
  "redeploy_notice k cur deletion =
     (let ownerParts = split_on CHR ''/'' k
      in PodRedeployed (snap_name cur) (del_podName deletion) (hd ownerParts) (join ''/'' (tl ownerParts)))"

fun redeploy_notices :: "int \<Rightarrow> snapshots \<Rightarrow> snapshots \<Rightarrow> deletions \<Rightarrow> notice list \<times> deletions" where
  "redeploy_notices now prev [] d = ([], d)"
| "redeploy_notices now prev ((uid, cur) # rest) d =
     (if map_has prev uid then redeploy_notices now prev rest d
      else case ownerKey cur of
        None \<Rightarrow> redeploy_notices now prev rest d
      | Some k \<Rightarrow>
          (case map_get d k of
             None \<Rightarrow> redeploy_notices now prev rest d
           | Some deletion \<Rightarrow>
               if now - del_timestamp deletion < REDEPLOY_WINDOW_MS then
                 (let (ns, d') = redeploy_notices now prev rest (map_delete k d)
                  in (redeploy_notice k cur deletion # ns, d'))
               else redeploy_notices now prev rest d))"

definition clean_deletions :: "int \<Rightarrow> deletions \<Rightarrow> deletions" where
  "clean_deletions now d = filter (\<lambda>(k, entry). \<not> now - del_timestamp entry > REDEPLOY_WINDOW_MS * 2) d"

section \<open>The effect\<close>

record notifier =
  prevPods :: "snapshots option"
  recentDeletions :: deletions
  lastNotificationTime :: int

definition notifier_start :: notifier where
  "notifier_start = \<lparr>prevPods = None, recentDeletions = [], lastNotificationTime = 0\<rparr>"

record notif_input =
  in_pods :: "notif_pod list option"
  in_enabled :: bool
  in_filteredUids :: "string list option"
  in_soundKey :: string
  in_throttleSeconds :: int
  in_now :: int

text \<open>What a run hands to the timer: the notices, and the sound that is played after them.\<close>

record emission =
  notices :: "notice list"
  sound :: "string option"

definition uid_visible :: "string list option \<Rightarrow> string \<Rightarrow> bool" where
  "uid_visible filteredUids uid = (case filteredUids of None \<Rightarrow> True | Some uids \<Rightarrow> uid \<in> set uids)"

definition compare_pods :: "notif_input \<Rightarrow> snapshots \<Rightarrow> snapshots \<Rightarrow> deletions \<Rightarrow> notice list \<times> deletions" where
  "compare_pods i prev current d =
     (let visible = uid_visible (in_filteredUids i);
          (redeployed, d') = redeploy_notices (in_now i) prev current (record_deletions (in_now i) visible prev current d)
      in (restart_notices visible prev current @ redeployed, clean_deletions (in_now i) d'))"

text \<open>Within the throttle window the notices are shown without a sound.\<close>

definition fire :: "notif_input \<Rightarrow> notice list \<Rightarrow> notifier \<Rightarrow> notifier \<times> emission option" where
  "fire i pending s =
     (if pending = [] then (s, None)
      else if in_throttleSeconds i * 1000 > 0 \<and> in_now i - lastNotificationTime s < in_throttleSeconds i * 1000
      then (s, Some \<lparr>notices = pending, sound = None\<rparr>)
      else (s\<lparr>lastNotificationTime := in_now i\<rparr>,
            Some \<lparr>notices = pending, sound = (if in_soundKey i \<noteq> ''none'' then Some (in_soundKey i) else None)\<rparr>))"

definition notification_effect :: "notif_input \<Rightarrow> notifier \<Rightarrow> notifier \<times> emission option" where
  "notification_effect i s =
     (case in_pods i of
        None \<Rightarrow> (s, None)
      | Some [] \<Rightarrow> (s\<lparr>prevPods := (case prevPods s of Some (p # ps) \<Rightarrow> Some [] | q \<Rightarrow> q)\<rparr>, None)
      | Some pods \<Rightarrow>
          (let current = take_snapshot pods in
           case prevPods s of
             None \<Rightarrow> (s\<lparr>prevPods := Some current\<rparr>, None)
           | Some prev \<Rightarrow>
               if \<not> in_enabled i then (s\<lparr>prevPods := Some current\<rparr>, None)
               else (let (pending, d) = compare_pods i prev current (recentDeletions s)
                     in fire i pending (s\<lparr>prevPods := Some current, recentDeletions := d\<rparr>))))"

text \<open>The runs of the effect, with the time of each that shows something.\<close>

fun notification_run :: "notif_input list \<Rightarrow> notifier \<Rightarrow> (int \<times> emission) list" where
  "notification_run [] s = []"
| "notification_run (i # is) s =
     (case notification_effect i s of
        (s', None) \<Rightarrow> notification_run is s'
      | (s', Some e) \<Rightarrow> (in_now i, e) # notification_run is s')"

section \<open>The visible rows\<close>

text \<open>The table reports the ids of its rows when they differ from the ones reported last.\<close>

definition report_uids :: "string list \<Rightarrow> string list option \<Rightarrow> string list option \<times> string list option" where
  "report_uids uidArray prev =
     (case prev of
        Some p \<Rightarrow> if length p = length uidArray \<and> (\<forall>uid \<in> set uidArray. uid \<in> set p) then (prev, None)
                  else (Some (uniq uidArray), Some (uniq uidArray))
      | None \<Rightarrow> (Some (uniq uidArray), Some (uniq uidArray)))"

section \<open>The notifications shown\<close>

record toast =
  toast_id :: nat
  toast_notice :: notice
  createdAt :: int

record toasts =
  notificationId :: nat
  shown :: "toast list"
  timers :: "(int \<times> nat) list"  \<comment> \<open>when which notification is taken away\<close>

definition addNotification :: "notice \<Rightarrow> int \<Rightarrow> int \<Rightarrow> toasts \<Rightarrow> toasts" where
  "addNotification n duration now s =
     (let nid = Suc (notificationId s) in
      s\<lparr>notificationId := nid, shown := shown s @ [\<lparr>toast_id = nid, toast_notice = n, createdAt = now\<rparr>],
        timers := (if duration > 0 then timers s @ [(now + duration, nid)] else timers s)\<rparr>)"

definition removeNotification :: "nat \<Rightarrow> toasts \<Rightarrow> toasts" where
  "removeNotification nid s = s\<lparr>shown := filter (\<lambda>n. toast_id n \<noteq> nid) (shown s)\<rparr>"

section \<open>Snapshots, again\<close>

lemma take_snapshot_ok:
  "map_wf (take_snapshot pods) \<and>
   (\<forall>uid snap. (uid, snap) \<in> set (take_snapshot pods) \<longrightarrow> (\<exists>pod \<in> set pods. pod_uid pod = Some uid \<and> snap = snapshot_of pod))"
proof (induction pods rule: rev_induct)
  case Nil
  then show ?case by (simp add: take_snapshot_def)
next
  case (snoc pod pods)
  have step: "take_snapshot (pods @ [pod]) =
      (case pod_uid pod of Some (c # cs) \<Rightarrow> map_set (c # cs) (snapshot_of pod) (take_snapshot pods) | _ \<Rightarrow> take_snapshot pods)"
    by (simp add: take_snapshot_def split: option.split list.split)
  have upd: "(uid, snap) \<in> set (map_set k v m) \<Longrightarrow> (uid, snap) = (k, v) \<or> (uid, snap) \<in> set m" for uid snap k v
    and m :: snapshots by (induction m) (auto split: if_splits)
  show ?case using snoc
    by (auto simp: step js.wf_put split: option.splits list.splits dest!: upd)
qed

lemmas take_snapshot_wf = take_snapshot_ok [THEN conjunct1]

text \<open>An owner key holds a slash, and can be taken apart.\<close>

lemma owner_key_slash: "getOwnerKey pod = Some k \<Longrightarrow> CHR ''/'' \<in> set k"
  by (auto simp: getOwnerKey_def split: option.splits list.splits prod.splits)

lemma snapshot_owner_slash:
  "(uid, snap) \<in> set (take_snapshot pods) \<Longrightarrow> ownerKey snap = Some k \<Longrightarrow> CHR ''/'' \<in> set k"
  using take_snapshot_ok [of pods] owner_key_slash by (fastforce simp: snapshot_of_def)

lemma owner_parts:
  assumes "CHR ''/'' \<in> set k"
  shows "hd (split_on CHR ''/'' k) @ ''/'' @ join ''/'' (tl (split_on CHR ''/'' k)) = k"
proof -
  obtain p ps where ps: "split_on CHR ''/'' k = p # ps" by (cases "split_on CHR ''/'' k") auto
  have "ps \<noteq> []"
  proof
    assume "ps = []"
    with ps have "k = p" using join_split_on [of "CHR ''/''" k] by simp
    moreover have "CHR ''/'' \<notin> set p" using split_on_no_sep [of p "CHR ''/''" k] ps by simp
    ultimately show False using assms by simp
  qed
  with ps show ?thesis using join_split_on [of "CHR ''/''" k] by (simp add: join_Cons)
qed

definition of_owner :: "string \<Rightarrow> notice \<Rightarrow> bool" where
  "of_owner k n = (case n of PodRedeployed _ _ kind name \<Rightarrow> kind @ ''/'' @ name = k | _ \<Rightarrow> False)"

lemma redeploy_notice_owner: "CHR ''/'' \<in> set k' \<Longrightarrow> of_owner k (redeploy_notice k' cur e) \<longleftrightarrow> k = k'"
  using owner_parts [of k'] by (auto simp: of_owner_def redeploy_notice_def Let_def)

section \<open>Which notices a run gives\<close>

lemma map_filter_none: "\<forall>x \<in> set xs. f x = None \<Longrightarrow> List.map_filter f xs = []"
  by (induction xs) (auto simp: List.map_filter_simps)

lemma restart_notices_same:
  assumes "map_wf m"
  shows "restart_notices v m m = []"
  unfolding restart_notices_def
proof (rule map_filter_none, safe)
  fix uid cur
  assume "(uid, cur) \<in> set m"
  with assms have "map_get m uid = Some cur" by simp
  then show "(case map_get m uid of None \<Rightarrow> None
     | Some old \<Rightarrow> if snap_total cur > snap_total old \<and> v uid
         then Some (PodRestart (snap_name cur) (snap_namespace cur) (containerInfo old cur)) else None) = None" by simp
qed

lemma redeploys_none: "\<forall>(uid, snap) \<in> set xs. map_has prev uid \<Longrightarrow> redeploy_notices now prev xs d = ([], d)"
  by (induction xs) auto

lemma map_has_self: "(uid, snap) \<in> set m \<Longrightarrow> map_has m uid"
  by (force simp: map_has_iff)

lemma record_same: "\<forall>(uid, snap) \<in> set xs. map_has m uid \<Longrightarrow> foldl (record_deletion now v m) d xs = d"
  by (induction xs) (auto simp: record_deletion_def)

lemma compare_same:
  "compare_pods i (take_snapshot pods) (take_snapshot pods) d = ([], clean_deletions (in_now i) d)"
proof -
  let ?m = "take_snapshot pods"
  have has: "\<forall>(uid, snap) \<in> set ?m. map_has ?m uid" by (auto intro: map_has_self)
  show ?thesis
    by (simp add: compare_pods_def Let_def record_deletions_def restart_notices_same take_snapshot_wf
        record_same [OF has] redeploys_none [OF has])
qed

lemma in_restart_notices: "n \<in> set (restart_notices v prev current) \<Longrightarrow> \<not> of_owner k n"
  by (auto simp: restart_notices_def List.map_filter_def of_owner_def split: option.splits if_splits)

lemma filter_restart_notices [simp]: "filter (of_owner k) (restart_notices v prev current) = []"
  using in_restart_notices by (auto simp: filter_empty_conv)

text \<open>A notice uses up the deletion it reports.\<close>

lemma redeploy_notices_uses:
  assumes "map_wf d" "\<forall>(uid, snap) \<in> set xs. \<forall>k. ownerKey snap = Some k \<longrightarrow> CHR ''/'' \<in> set k"
    "redeploy_notices now prev xs d = (ns, d')"
  shows "map_wf d' \<and> map_get d' \<subseteq>\<^sub>m map_get d \<and>
    length (filter (of_owner k) ns) + of_bool (map_get d' k \<noteq> None) \<le> of_bool (map_get d k \<noteq> None) \<and>
    (filter (of_owner k) ns \<noteq> [] \<longrightarrow>
       (\<exists>e. map_get d k = Some e \<and> now - del_timestamp e < REDEPLOY_WINDOW_MS))"
  using assms
proof (induction xs arbitrary: d ns d')
  case (Cons x rest)
  obtain uid cur where x: "x = (uid, cur)" by (cases x)
  show ?case
  proof (cases "\<exists>k' e. \<not> map_has prev uid \<and> ownerKey cur = Some k' \<and> map_get d k' = Some e \<and>
      now - del_timestamp e < REDEPLOY_WINDOW_MS")
    case True
    then obtain k' e where c: "\<not> map_has prev uid" "ownerKey cur = Some k'" "map_get d k' = Some e"
      "now - del_timestamp e < REDEPLOY_WINDOW_MS" by blast
    obtain ns1 d1 where r1: "redeploy_notices now prev rest (map_delete k' d) = (ns1, d1)" by fastforce
    then have r: "d1 = d'" "ns = redeploy_notice k' cur e # ns1"
      using Cons.prems(3) c x by auto
    have k': "CHR ''/'' \<in> set k'" using Cons.prems(2) c x by auto
    have g: "map_get (map_delete k' d) = (map_get d)(k' := None)" using Cons.prems(1) by (rule js.get_del)
    have w: "map_wf (map_delete k' d)" using Cons.prems(1) by (rule js.wf_del)
    have le: "m \<subseteq>\<^sub>m map_get d" if "m \<subseteq>\<^sub>m (\<lambda>a. if a = k' then None else map_get d a)" for m
      using that unfolding map_le_def by (metis domIff)
    have "\<forall>(uid, snap) \<in> set rest. \<forall>k. ownerKey snap = Some k \<longrightarrow> CHR ''/'' \<in> set k" using Cons.prems(2) by simp
    from Cons.IH [OF w this r1] r c k' le show ?thesis
      by (cases "k = k'") (auto simp: g redeploy_notice_owner)
  next
    case False
    then have r: "redeploy_notices now prev rest d = (ns, d')"
      using Cons.prems(3) x by (auto split: option.splits if_splits)
    have "\<forall>(uid, snap) \<in> set rest. \<forall>k. ownerKey snap = Some k \<longrightarrow> CHR ''/'' \<in> set k" using Cons.prems(2) by simp
    from Cons.IH [OF Cons.prems(1) this r] show ?thesis .
  qed
qed simp

section \<open>Deletions that were seen\<close>

text \<open>The times at which a pod of an owner was seen to be gone, in one run and in several.\<close>

definition gone :: "notif_input \<Rightarrow> snapshots \<Rightarrow> snapshots \<Rightarrow> string \<Rightarrow> int list" where
  "gone i prev current k =
     map (\<lambda>_. in_now i)
       (filter (\<lambda>(uid, old). \<not> map_has current uid \<and> uid_visible (in_filteredUids i) uid \<and> ownerKey old = Some k) prev)"

definition gone_seen :: "notif_input \<Rightarrow> notifier \<Rightarrow> string \<Rightarrow> int list" where
  "gone_seen i s k =
     (case (in_pods i, prevPods s) of
        (Some (p # ps), Some prev) \<Rightarrow> if in_enabled i then gone i prev (take_snapshot (p # ps)) k else []
      | _ \<Rightarrow> [])"

fun disappearances :: "notif_input list \<Rightarrow> notifier \<Rightarrow> string \<Rightarrow> int list" where
  "disappearances [] s k = []"
| "disappearances (i # is) s k = gone_seen i s k @ disappearances is (fst (notification_effect i s)) k"

lemma record_deletion_get:
  "map_wf d \<Longrightarrow> map_get (record_deletion now v cur d (uid, old)) =
     (if \<not> map_has cur uid \<and> v uid \<and> ownerKey old \<noteq> None
      then (map_get d)(the (ownerKey old) \<mapsto> \<lparr>del_podName = snap_name old, del_namespace = snap_namespace old, del_timestamp = now\<rparr>)
      else map_get d)"
  by (auto simp: record_deletion_def js.get_put split: option.splits)

lemma record_deletion_wf: "map_wf d \<Longrightarrow> map_wf (record_deletion now v cur d e)"
  by (auto simp: record_deletion_def js.wf_put split: option.splits prod.splits)

lemma record_deletions_spec:
  assumes "map_wf d" "d' = foldl (record_deletion (in_now i) (uid_visible (in_filteredUids i)) current) d prev"
  shows "map_wf d' \<and>
    of_bool (map_get d' k \<noteq> None) \<le> of_bool (map_get d k \<noteq> None) + length (gone i prev current k) \<and>
    (\<forall>e. map_get d' k = Some e \<longrightarrow> map_get d k = Some e \<or> del_timestamp e \<in> set (gone i prev current k))"
  using assms(1) unfolding assms(2)
proof (induction prev arbitrary: d)
  case (Cons x prev)
  obtain uid old where x: "x = (uid, old)" by (cases x)
  let ?d = "record_deletion (in_now i) (uid_visible (in_filteredUids i)) current d x"
  define D where "D = foldl (record_deletion (in_now i) (uid_visible (in_filteredUids i)) current) ?d prev"
  have g: "gone i (x # prev) current k =
      (if \<not> map_has current uid \<and> uid_visible (in_filteredUids i) uid \<and> ownerKey old = Some k then [in_now i] else []) @
      gone i prev current k" by (simp add: gone_def x)
  have m: "map_get ?d k =
      (if \<not> map_has current uid \<and> uid_visible (in_filteredUids i) uid \<and> ownerKey old = Some k
       then Some \<lparr>del_podName = snap_name old, del_namespace = snap_namespace old, del_timestamp = in_now i\<rparr>
       else map_get d k)"
    unfolding x record_deletion_get [OF Cons.prems] by auto
  note IH = Cons.IH [OF record_deletion_wf [OF Cons.prems, of "in_now i" "uid_visible (in_filteredUids i)" current x],
      folded D_def]
  have "foldl (record_deletion (in_now i) (uid_visible (in_filteredUids i)) current) d (x # prev) = D"
    by (simp add: D_def)
  moreover have "map_get D k = Some e \<longrightarrow> map_get d k = Some e \<or> del_timestamp e \<in> set (gone i (x # prev) current k)" for e
    using IH m g by (cases "map_get D k = Some e") (auto split: if_splits simp del: map_of_eq_Some_iff)
  moreover have "of_bool (map_get D k \<noteq> None) \<le> of_bool (map_get d k \<noteq> None) + length (gone i (x # prev) current k)"
    using IH [THEN conjunct2, THEN conjunct1] unfolding m g by (cases "map_get d k = None") (auto split: if_splits)
  ultimately show ?case using IH by simp
qed simp

lemma clean_deletions_get: "map_wf d \<Longrightarrow> map_get (clean_deletions now d) k = Some e \<Longrightarrow> map_get d k = Some e"
  by (auto simp: clean_deletions_def dest: map_of_SomeD)

lemma clean_deletions_wf: "map_wf d \<Longrightarrow> map_wf (clean_deletions now d)"
  unfolding clean_deletions_def by (rule distinct_map_filter)

definition emitted :: "emission option \<Rightarrow> notice list" where
  "emitted out = (case out of None \<Rightarrow> [] | Some e \<Rightarrow> notices e)"

lemma fire_spec:
  "fire i pending s = (s', out) \<Longrightarrow> emitted out = pending \<and> recentDeletions s' = recentDeletions s \<and> prevPods s' = prevPods s"
  by (auto simp: fire_def emitted_def split: if_splits)

lemma compare_spec:
  assumes "map_wf d" "compare_pods i prev (take_snapshot pods) d = (pending, d')"
  shows "map_wf d' \<and>
    length (filter (of_owner k) pending) + of_bool (map_get d' k \<noteq> None)
      \<le> of_bool (map_get d k \<noteq> None) + length (gone i prev (take_snapshot pods) k) \<and>
    (\<forall>e. map_get d' k = Some e \<longrightarrow> map_get d k = Some e \<or> del_timestamp e \<in> set (gone i prev (take_snapshot pods) k)) \<and>
    (filter (of_owner k) pending \<noteq> [] \<longrightarrow>
       (\<exists>t0. ((\<exists>e. map_get d k = Some e \<and> t0 = del_timestamp e) \<or> t0 \<in> set (gone i prev (take_snapshot pods) k)) \<and>
         in_now i - t0 < REDEPLOY_WINDOW_MS))"
proof -
  let ?cur = "take_snapshot pods"
  define d1 where "d1 = record_deletions (in_now i) (uid_visible (in_filteredUids i)) prev ?cur d"
  obtain ns d2 where r: "redeploy_notices (in_now i) prev ?cur d1 = (ns, d2)" by fastforce
  have p: "pending = restart_notices (uid_visible (in_filteredUids i)) prev ?cur @ ns" "d' = clean_deletions (in_now i) d2"
    using assms(2) r by (auto simp: compare_pods_def Let_def d1_def)
  note one = record_deletions_spec [OF assms(1) d1_def [unfolded record_deletions_def], of k]
  have "\<forall>(uid, snap) \<in> set ?cur. \<forall>k. ownerKey snap = Some k \<longrightarrow> CHR ''/'' \<in> set k"
    using snapshot_owner_slash by fast
  note two = redeploy_notices_uses [OF one [THEN conjunct1] this r, of k]
  have three: "map_get d' k = Some e \<Longrightarrow> map_get d1 k = Some e" for e
    using clean_deletions_get [of d2 "in_now i" k e] two p(2) unfolding map_le_def by (metis domI)
  have wf: "map_wf d'" unfolding p(2) using two by (intro clean_deletions_wf) simp
  have "(of_bool (map_get d' k \<noteq> None) :: nat) \<le> of_bool (map_get d2 k \<noteq> None)"
    using clean_deletions_get [of d2 "in_now i" k] two p(2) by (cases "map_get d' k") auto
  then have "length (filter (of_owner k) pending) + of_bool (map_get d' k \<noteq> None)
      \<le> of_bool (map_get d k \<noteq> None) + length (gone i prev ?cur k)"
    using one [THEN conjunct2, THEN conjunct1] two [THEN conjunct2, THEN conjunct2, THEN conjunct1]
    unfolding p(1) filter_append filter_restart_notices append_Nil by linarith
  moreover have "\<exists>t0. ((\<exists>e. map_get d k = Some e \<and> t0 = del_timestamp e) \<or> t0 \<in> set (gone i prev ?cur k)) \<and>
         in_now i - t0 < REDEPLOY_WINDOW_MS" if "filter (of_owner k) pending \<noteq> []"
  proof -
    from that two obtain e where "map_get d1 k = Some e" "in_now i - del_timestamp e < REDEPLOY_WINDOW_MS"
      unfolding p(1) by auto
    with one show ?thesis by blast
  qed
  ultimately show ?thesis using wf one three by blast
qed

lemma effect_spec:
  assumes "map_wf (recentDeletions s)" "notification_effect i s = (s', out)"
  shows "map_wf (recentDeletions s') \<and>
    length (filter (of_owner k) (emitted out)) + of_bool (map_get (recentDeletions s') k \<noteq> None)
      \<le> of_bool (map_get (recentDeletions s) k \<noteq> None) + length (gone_seen i s k) \<and>
    (\<forall>e. map_get (recentDeletions s') k = Some e \<longrightarrow>
       map_get (recentDeletions s) k = Some e \<or> del_timestamp e \<in> set (gone_seen i s k)) \<and>
    (filter (of_owner k) (emitted out) \<noteq> [] \<longrightarrow>
       (\<exists>t0. ((\<exists>e. map_get (recentDeletions s) k = Some e \<and> t0 = del_timestamp e) \<or> t0 \<in> set (gone_seen i s k)) \<and>
         in_now i - t0 < REDEPLOY_WINDOW_MS))"
proof (cases "\<exists>p ps prev. in_pods i = Some (p # ps) \<and> prevPods s = Some prev \<and> in_enabled i")
  case True
  then obtain p ps prev where c: "in_pods i = Some (p # ps)" "prevPods s = Some prev" "in_enabled i" by blast
  obtain pending d where r: "compare_pods i prev (take_snapshot (p # ps)) (recentDeletions s) = (pending, d)" by fastforce
  have f: "fire i pending (s\<lparr>prevPods := Some (take_snapshot (p # ps)), recentDeletions := d\<rparr>) = (s', out)"
    using assms(2) c r by (simp add: notification_effect_def)
  have g: "gone_seen i s k = gone i prev (take_snapshot (p # ps)) k" using c by (simp add: gone_seen_def)
  have e: "emitted out = pending" "recentDeletions s' = d" using fire_spec [OF f] by simp_all
  show ?thesis unfolding g e by (rule compare_spec [OF assms(1) r])
next
  case False
  then have "out = None \<and> recentDeletions s' = recentDeletions s"
    using assms(2) by (auto simp: notification_effect_def Let_def split: option.splits list.splits if_splits)
  with assms(1) show ?thesis by (auto simp: emitted_def)
qed

definition run_state :: "notif_input list \<Rightarrow> notifier \<Rightarrow> notifier" where
  "run_state is s = foldl (\<lambda>s i. fst (notification_effect i s)) s is"

interpretation notifier: machine "\<lambda>s i. fst (notification_effect i s)" "\<lambda>s. map_wf (recentDeletions s)"
  by unfold_locales (metis effect_spec prod.collapse)

definition all_notices :: "(int \<times> emission) list \<Rightarrow> notice list" where
  "all_notices es = concat (map (\<lambda>(t, e). notices e) es)"

lemma run_counts:
  "map_wf (recentDeletions s) \<Longrightarrow>
   length (filter (of_owner k) (all_notices (notification_run is s)))
     \<le> of_bool (map_get (recentDeletions s) k \<noteq> None) + length (disappearances is s k)"
proof (induction "is" arbitrary: s)
  case Nil
  then show ?case by (simp add: all_notices_def)
next
  case (Cons i "is")
  obtain s' out where r: "notification_effect i s = (s', out)" by fastforce
  note e = effect_spec [OF Cons.prems r, of k]
  have "filter (of_owner k) (all_notices (notification_run (i # is) s)) =
      filter (of_owner k) (emitted out) @ filter (of_owner k) (all_notices (notification_run is s'))"
    by (auto simp: r all_notices_def emitted_def split: option.splits)
  with e Cons.IH [of s'] r show ?case by auto
qed

lemma disappearances_append:
  "disappearances (is @ js) s k = disappearances is s k @ disappearances js (run_state is s) k"
  by (induction "is" arbitrary: s) (auto simp: run_state_def)

lemma recent_seen:
  "map_wf (recentDeletions s) \<Longrightarrow> map_get (recentDeletions (run_state is s)) k = Some e \<Longrightarrow>
   map_get (recentDeletions s) k = Some e \<or> del_timestamp e \<in> set (disappearances is s k)"
proof (induction "is" arbitrary: s)
  case (Cons i "is")
  obtain s' out where r: "notification_effect i s = (s', out)" by fastforce
  note e = effect_spec [OF Cons.prems(1) r, of k]
  have "map_get (recentDeletions (run_state is s')) k = Some e" using Cons.prems(2) r by (simp add: run_state_def)
  from Cons.IH [OF e [THEN conjunct1] this] e r show ?case by auto
qed (simp add: run_state_def)

text \<open>
  Replaced once: a pod is reported as replaced only if a pod of the same owner was seen to be gone less than
  thirty seconds before, and over any run no more replacements of an owner are reported than pods of it were
  seen to be gone.
\<close>

theorem replaced_once:
  assumes "notification_effect i (run_state is notifier_start) = (s', out)" "n \<in> set (emitted out)" "of_owner k n"
  shows "(\<exists>t0 \<in> set (disappearances (is @ [i]) notifier_start k). in_now i - t0 < REDEPLOY_WINDOW_MS) \<and>
    length (filter (of_owner k) (all_notices (notification_run (is @ [i]) notifier_start)))
      \<le> length (disappearances (is @ [i]) notifier_start k)"
proof
  have wf: "map_wf (recentDeletions notifier_start)" by (simp add: notifier_start_def)
  have "map_wf (recentDeletions (run_state is notifier_start))"
    unfolding run_state_def by (rule notifier.run_good) (rule wf)
  from effect_spec [OF this assms(1), of k] assms(2,3) obtain t0 where
    t0: "(\<exists>e. map_get (recentDeletions (run_state is notifier_start)) k = Some e \<and> t0 = del_timestamp e) \<or>
      t0 \<in> set (gone_seen i (run_state is notifier_start) k)" "in_now i - t0 < REDEPLOY_WINDOW_MS"
    by (auto simp: filter_empty_conv)
  have "t0 \<in> set (disappearances (is @ [i]) notifier_start k)"
    using t0(1) recent_seen [OF wf, of "is" k] by (auto simp: disappearances_append notifier_start_def)
  with t0(2) show "\<exists>t0 \<in> set (disappearances (is @ [i]) notifier_start k). in_now i - t0 < REDEPLOY_WINDOW_MS" by blast
  show "length (filter (of_owner k) (all_notices (notification_run (is @ [i]) notifier_start)))
      \<le> length (disappearances (is @ [i]) notifier_start k)"
    using run_counts [OF wf, of k "is @ [i]"] by (simp add: notifier_start_def)
qed

text \<open>A pod of a replica set of the namespace, and a run over it.\<close>

definition owned_pod :: "string \<Rightarrow> string \<Rightarrow> string \<Rightarrow> notif_pod" where
  "owned_pod uid ns owner =
     \<lparr>pod_uid = Some uid, pod_name = Some (owner @ ''-'' @ uid), pod_namespace = Some ns,
      ownerReferences = Some [(''StatefulSet'', owner)], containerStatuses = None\<rparr>"

definition plain_input :: "notif_pod list \<Rightarrow> int \<Rightarrow> notif_input" where
  "plain_input pods now =
     \<lparr>in_pods = Some pods, in_enabled = True, in_filteredUids = None, in_soundKey = ''alert'',
      in_throttleSeconds = 10, in_now = now\<rparr>"

lemmas notify_defs = owned_pod_def plain_input_def notification_effect_def compare_pods_def fire_def take_snapshot_def
  snapshot_of_def text_or_def getOwnerKey_def getTotalRestarts_def record_deletions_def record_deletion_def
  restart_notices_def redeploy_notice_def uid_visible_def REDEPLOY_WINDOW_MS_def clean_deletions_def map_has_def
  notifier_start_def List.map_filter_def

lemma replaced_pod_reported:
  "emitted (snd (notification_effect (plain_input [owned_pod ''c'' ''prod'' ''db'', owned_pod ''b'' ''prod'' ''db''] 5000)
      (run_state [plain_input [owned_pod ''a'' ''prod'' ''db'', owned_pod ''b'' ''prod'' ''db''] 1000] notifier_start))) =
    [PodRedeployed ''db-c'' ''db-a'' ''StatefulSet'' ''db'']"
  by code_simp

theorem replaced_once_witness:
  "\<exists>t0 \<in> set (disappearances
       [plain_input [owned_pod ''a'' ''prod'' ''db'', owned_pod ''b'' ''prod'' ''db''] 1000,
        plain_input [owned_pod ''c'' ''prod'' ''db'', owned_pod ''b'' ''prod'' ''db''] 5000] notifier_start ''StatefulSet/db'').
     5000 - t0 < REDEPLOY_WINDOW_MS"
proof -
  let ?i = "plain_input [owned_pod ''a'' ''prod'' ''db'', owned_pod ''b'' ''prod'' ''db''] 1000"
  let ?j = "plain_input [owned_pod ''c'' ''prod'' ''db'', owned_pod ''b'' ''prod'' ''db''] 5000"
  obtain s' out where r: "notification_effect ?j (run_state [?i] notifier_start) = (s', out)" by fastforce
  then have "PodRedeployed ''db-c'' ''db-a'' ''StatefulSet'' ''db'' \<in> set (emitted out)"
    using replaced_pod_reported by simp
  from replaced_once [OF r this, of "''StatefulSet/db''"] show ?thesis
    by (simp add: of_owner_def) (simp add: plain_input_def)
qed

text \<open>
  The owner key does not name the namespace: a pod of the database in production that comes up while one in
  development is deleted is reported as its replacement.
\<close>

theorem replaced_across_namespaces:
  "emitted (snd (notification_effect (plain_input [owned_pod ''x'' ''prod'' ''db''] 5000)
      (run_state [plain_input [owned_pod ''a'' ''dev'' ''db''] 1000] notifier_start))) =
    [PodRedeployed ''db-x'' ''db-a'' ''StatefulSet'' ''db'']"
  by (simp add: run_state_def notify_defs emitted_def)

text \<open>Of two pods of an owner that are replaced together only one is reported.\<close>

theorem second_replacement_missed:
  "emitted (snd (notification_effect (plain_input [owned_pod ''c'' ''prod'' ''db'', owned_pod ''d'' ''prod'' ''db''] 5000)
      (run_state [plain_input [owned_pod ''a'' ''prod'' ''db'', owned_pod ''b'' ''prod'' ''db''] 1000] notifier_start))) =
    [PodRedeployed ''db-c'' ''db-b'' ''StatefulSet'' ''db'']"
  by (simp add: run_state_def notify_defs emitted_def)

section \<open>Repeated runs and sounds\<close>

text \<open>
  Rerun silent: when the effect runs again with the pods it has just seen, because a filter or a setting
  changed, nothing is reported a second time.
\<close>

theorem rerun_silent:
  assumes "in_pods j = in_pods i"
  shows "snd (notification_effect j (fst (notification_effect i s))) = None"
proof (cases "in_pods i")
  case None
  with assms show ?thesis by (simp add: notification_effect_def)
next
  case (Some pods)
  show ?thesis
  proof (cases pods)
    case Nil
    with Some assms show ?thesis by (simp add: notification_effect_def)
  next
    case (Cons p ps)
    have "prevPods (fst (notification_effect i s)) = Some (take_snapshot (p # ps))"
      using Some Cons by (auto simp: notification_effect_def fire_def Let_def split: option.splits prod.splits)
    with Some Cons assms show ?thesis
      by (simp add: notification_effect_def Let_def compare_same fire_def)
  qed
qed

theorem rerun_silent_witness:
  "snd (notification_effect (plain_input [owned_pod ''c'' ''prod'' ''db''] 6000)
      (fst (notification_effect (plain_input [owned_pod ''c'' ''prod'' ''db''] 5000)
        (run_state [plain_input [owned_pod ''a'' ''prod'' ''db''] 1000] notifier_start)))) = None"
  by (rule rerun_silent) (simp add: plain_input_def)

definition sounding :: "(int \<times> emission) list \<Rightarrow> int list" where
  "sounding es = map fst (filter (\<lambda>(t, e). sound e \<noteq> None) es)"

lemma effect_sound:
  assumes "notification_effect i s = (s', out)" "in_throttleSeconds i = \<tau>" "\<tau> > 0"
  shows "case out of
      Some e \<Rightarrow> if sound e \<noteq> None then in_now i \<ge> lastNotificationTime s + 1000 * \<tau> \<and> lastNotificationTime s' = in_now i
                else lastNotificationTime s' \<ge> lastNotificationTime s
    | None \<Rightarrow> lastNotificationTime s' = lastNotificationTime s"
proof (cases out)
  case None
  with assms show ?thesis
    by (auto simp: notification_effect_def fire_def Let_def split: option.splits list.splits if_splits prod.splits)
next
  case (Some e)
  then obtain p ps prev pending d where c: "in_pods i = Some (p # ps)" "prevPods s = Some prev" "in_enabled i"
    "compare_pods i prev (take_snapshot (p # ps)) (recentDeletions s) = (pending, d)"
    using assms(1) by (auto simp: notification_effect_def Let_def split: option.splits list.splits if_splits prod.splits)
  then have "fire i pending (s\<lparr>prevPods := Some (take_snapshot (p # ps)), recentDeletions := d\<rparr>) = (s', Some e)"
    using assms(1) Some by (simp add: notification_effect_def)
  with assms(2,3) Some show ?thesis by (auto simp: fire_def split: if_splits)
qed

text \<open>
  Sounds throttled: with a throttle of \<open>\<tau>\<close> seconds at least \<open>\<tau>\<close> seconds lie between any two sounds of
  a run.
\<close>

theorem sounds_throttled:
  assumes "\<forall>i \<in> set is. in_throttleSeconds i = \<tau>" "\<tau> > 0"
  shows "sorted_wrt (\<lambda>a b. a + 1000 * \<tau> \<le> b) (sounding (notification_run is s))"
proof -
  have "(\<forall>t \<in> set (sounding (notification_run is s)). lastNotificationTime s + 1000 * \<tau> \<le> t) \<and>
    sorted_wrt (\<lambda>a b. a + 1000 * \<tau> \<le> b) (sounding (notification_run is s))"
    using assms(1)
  proof (induction "is" arbitrary: s)
    case Nil
    then show ?case by (simp add: sounding_def)
  next
    case (Cons i "is")
    obtain s' out where r: "notification_effect i s = (s', out)" by fastforce
    have "in_throttleSeconds i = \<tau>" using Cons.prems by simp
    note e = effect_sound [OF r this assms(2)]
    have IH: "(\<forall>t \<in> set (sounding (notification_run is s')). lastNotificationTime s' + 1000 * \<tau> \<le> t) \<and>
      sorted_wrt (\<lambda>a b. a + 1000 * \<tau> \<le> b) (sounding (notification_run is s'))" using Cons by simp
    show ?case
    proof (cases out)
      case None
      with e IH r show ?thesis by simp
    next
      case (Some em)
      have "sounding (notification_run (i # is) s) =
          (if sound em \<noteq> None then [in_now i] else []) @ sounding (notification_run is s')"
        using r Some by (simp add: sounding_def)
      with e IH Some assms(2) show ?thesis by (force split: if_splits)
    qed
  qed
  then show ?thesis ..
qed

theorem sounds_throttled_witness:
  "sorted_wrt (\<lambda>a b. a + 10000 \<le> b) (sounding (notification_run
     [plain_input [owned_pod ''a'' ''prod'' ''db''] 1000, plain_input [owned_pod ''b'' ''prod'' ''db''] 20000,
      plain_input [owned_pod ''c'' ''prod'' ''db''] 22000, plain_input [owned_pod ''d'' ''prod'' ''db''] 40000] notifier_start))"
  using sounds_throttled [of
    "[plain_input [owned_pod ''a'' ''prod'' ''db''] 1000, plain_input [owned_pod ''b'' ''prod'' ''db''] 20000,
      plain_input [owned_pod ''c'' ''prod'' ''db''] 22000, plain_input [owned_pod ''d'' ''prod'' ''db''] 40000]" 10 notifier_start]
  by (simp add: plain_input_def)

section \<open>Visible rows and shown notifications\<close>

text \<open>After every report the known set is the one of the rows shown, if their ids differ.\<close>

lemma report_uids_exact:
  assumes "distinct uids" "\<forall>p. prev = Some p \<longrightarrow> distinct p"
  shows "\<exists>p. fst (report_uids uids prev) = Some p \<and> set p = set uids \<and> distinct p"
proof (cases "\<exists>p. prev = Some p \<and> length p = length uids \<and> set uids \<subseteq> set p")
  case True
  then obtain p where p: "prev = Some p" "length p = length uids" "set uids \<subseteq> set p" by blast
  with assms have "set uids = set p" by (metis card_subset_eq distinct_card finite_set)
  with p assms show ?thesis by (auto simp: report_uids_def)
next
  case False
  then show ?thesis by (auto simp: report_uids_def split: option.splits)
qed

text \<open>Every notification that is shown has an id of its own, and a timer unless it stays.\<close>

definition toasts_ok :: "toasts \<Rightarrow> bool" where
  "toasts_ok s \<longleftrightarrow> distinct (map toast_id (shown s)) \<and> (\<forall>n \<in> set (shown s). toast_id n \<le> notificationId s)"

datatype toast_op = Add notice int int | Remove nat

fun toast_step :: "toasts \<Rightarrow> toast_op \<Rightarrow> toasts" where
  "toast_step s (Add n duration now) = addNotification n duration now s"
| "toast_step s (Remove nid) = removeNotification nid s"

interpretation toasts: machine toast_step toasts_ok
proof
  fix s e assume "toasts_ok s"
  then show "toasts_ok (toast_step s e)"
    by (cases e) (force simp: toasts_ok_def addNotification_def removeNotification_def Let_def intro: distinct_map_filter)+
qed

end
