(* ===== verification/Topology.thy ===== *)
theory Topology
  imports PodStatus Quantities ResourceTable "HOL-Library.Word"
begin

text \<open>
  The node topology view (\<open>features/cluster/topology/topologyUtils.ts\<close>): the colour of a namespace, the
  places of the cards and of the pods on them, the heat map of committed resources, and the order of pods.
  The hash is computed on 32-bit words; ratios and zoom values are exact rationals. A result \<open>None\<close> is a
  thrown \<open>TypeError\<close>; the collation of the locale is a parameter.
\<close>

section \<open>Colours of namespaces\<close>

definition NAMESPACE_COLORS :: "string list" where
  "NAMESPACE_COLORS =
     [''#3b82f6'', ''#22c55e'', ''#f59e0b'', ''#ef4444'', ''#8b5cf6'',
      ''#06b6d4'', ''#ec4899'', ''#14b8a6'', ''#f97316'', ''#84cc16'',
      ''#a855f7'', ''#6366f1'', ''#d946ef'', ''#0ea5e9'', ''#10b981'',
      ''#e11d48'', ''#7c3aed'', ''#0891b2'', ''#ca8a04'', ''#dc2626'']"

text \<open>\<open>((hash << 5) - hash + charCode) | 0\<close>: the operators and the sum agree modulo \<open>2^32\<close>.\<close>

definition hash_step :: "32 word \<Rightarrow> char \<Rightarrow> 32 word" where
  "hash_step hash c = push_bit 5 hash - hash + of_nat (of_char c)"

definition namespace_hash :: "string \<Rightarrow> 32 word" where
  "namespace_hash ns = foldl hash_step 0 ns"

definition color_index :: "string \<Rightarrow> nat" where
  "color_index ns = nat \<bar>sint (namespace_hash ns)\<bar> mod length NAMESPACE_COLORS"

definition getNamespaceColor :: "string \<Rightarrow> string" where
  "getNamespaceColor ns = NAMESPACE_COLORS ! color_index ns"

section \<open>Places\<close>

datatype zoom_level = Far | Medium | Close

definition getZoomLevel :: "rat \<Rightarrow> zoom_level" where
  "getZoomLevel zoom = (if zoom < 2/5 then Far else if zoom < 4/5 then Medium else Close)"

definition ceil_sqrt :: "nat \<Rightarrow> nat" where  \<comment> \<open>\<open>Math.ceil(Math.sqrt(n))\<close>\<close>
  "ceil_sqrt n = length (takeWhile (\<lambda>k. k * k < n) [0..<n])"

definition grid_cols :: "nat \<Rightarrow> nat" where
  "grid_cols nodeCount = max 1 (ceil_sqrt nodeCount)"

definition grid_position :: "nat \<Rightarrow> nat \<Rightarrow> nat \<Rightarrow> nat \<Rightarrow> nat \<times> nat" where
  "grid_position cols hSpacing vSpacing i = ((i mod cols) * hSpacing, (i div cols) * vSpacing)"

definition computeGridPositions :: "nat \<Rightarrow> nat \<Rightarrow> nat \<Rightarrow> (nat \<times> nat) list" where
  "computeGridPositions nodeCount hSpacing vSpacing =
     map (grid_position (grid_cols nodeCount) hSpacing vSpacing) [0..<nodeCount]"

definition NODE_WIDTH :: nat where "NODE_WIDTH = 280"
definition NODE_PADDING :: nat where "NODE_PADDING = 24"
definition GRID_GAP :: nat where "GRID_GAP = 4"
definition POD_SQUARE_SIZE :: nat where "POD_SQUARE_SIZE = 16"
definition MAX_POD_ROWS_MEDIUM :: nat where "MAX_POD_ROWS_MEDIUM = 8"
definition MAX_POD_ROWS_CLOSE :: nat where "MAX_POD_ROWS_CLOSE = 6"

lemmas card_consts = NODE_WIDTH_def NODE_PADDING_def GRID_GAP_def POD_SQUARE_SIZE_def MAX_POD_ROWS_MEDIUM_def
  MAX_POD_ROWS_CLOSE_def

definition getPodGridCols :: nat where
  "getPodGridCols = (NODE_WIDTH - NODE_PADDING + GRID_GAP) div (POD_SQUARE_SIZE + GRID_GAP)"

definition max_rows :: "zoom_level \<Rightarrow> nat" where
  "max_rows z = (if z = Close then MAX_POD_ROWS_CLOSE else MAX_POD_ROWS_MEDIUM)"

definition getMaxVisiblePods :: "zoom_level \<Rightarrow> nat" where
  "getMaxVisiblePods z = getPodGridCols * max_rows z"

definition ceil_div :: "nat \<Rightarrow> nat \<Rightarrow> nat" where
  "ceil_div a b = (a + b - 1) div b"

definition computePodGridHeight :: "nat \<Rightarrow> zoom_level \<Rightarrow> nat" where
  "computePodGridHeight podCount z =
     (if z = Far \<or> podCount = 0 then 0
      else let rows = ceil_div (min podCount (getPodGridCols * max_rows z)) getPodGridCols
           in rows * (POD_SQUARE_SIZE + GRID_GAP) + 16)"

section \<open>Colours of pods\<close>

definition getPodStatusBgColor :: "string \<Rightarrow> string" where
  "getPodStatusBgColor status =
     (if status = ''Running'' then ''#22c55e''
      else if status \<in> {''Pending'', ''ContainerCreating'', ''Init:Running'', ''Init:Waiting'', ''PodInitializing''}
      then ''#f59e0b''
      else if status = ''Terminating'' then ''#6b7280''
      else if status \<in> {''CrashLoopBackOff'', ''ImagePullBackOff'', ''ErrImagePull'', ''Init:CrashLoopBackOff'',
          ''Init:ImagePullBackOff'', ''Init:ErrImagePull'', ''Unknown''}
      then ''#f97316''
      else if status \<in> {''Failed'', ''Init:Error''} then ''#ef4444''
      else ''#6b7280'')"

type_synonym pod_metrics = "(string, requests) js_map"

definition metrics_key :: "jsv \<Rightarrow> string option" where
  "metrics_key pod =
     do { ns \<leftarrow> path_str pod [''metadata'', ''namespace''] '''';
          name \<leftarrow> path_str pod [''metadata'', ''name''] '''';
          Some (jstring ns @ ''/'' @ jstring name) }"

definition getPodCommitted :: "pod_metrics option \<Rightarrow> jsv \<Rightarrow> requests option" where
  "getPodCommitted podMetrics pod =
     (case podMetrics of
        None \<Rightarrow> getPodResourceRequests pod
      | Some pm \<Rightarrow>
          do { key \<leftarrow> metrics_key pod;
               case map_get pm key of
                 Some m \<Rightarrow> Some m
               | None \<Rightarrow> getPodResourceRequests pod })"

definition raise_maxes :: "requests \<Rightarrow> requests \<Rightarrow> requests" where
  "raise_maxes m r =
     \<lparr>cpuMillis = (if cpuMillis r > cpuMillis m then cpuMillis r else cpuMillis m),
      memBytes = (if memBytes r > memBytes m then memBytes r else memBytes m)\<rparr>"

definition computeResourceMaxes :: "pod_metrics option \<Rightarrow> jsv list \<Rightarrow> requests option" where
  "computeResourceMaxes podMetrics pods =
     map_option (foldl raise_maxes \<lparr>cpuMillis = 0, memBytes = 0\<rparr>) (those (map (getPodCommitted podMetrics) pods))"

definition ratio :: "rat \<Rightarrow> rat \<Rightarrow> rat" where
  "ratio x m = (if m > 0 then x / m else 0)"

definition intensity :: "requests \<Rightarrow> requests \<Rightarrow> rat" where
  "intensity maxes r = max (ratio (cpuMillis r) (cpuMillis maxes)) (ratio (memBytes r) (memBytes maxes))"

definition heat_color :: "requests \<Rightarrow> requests \<Rightarrow> string" where
  "heat_color maxes r =
     (if cpuMillis r = 0 \<and> memBytes r = 0 then ''#6b7280''
      else let i = intensity maxes r in
        if i > 3/4 then ''#ef4444'' else if i > 1/2 then ''#f59e0b'' else if i > 1/4 then ''#22c55e'' else ''#3b82f6'')"

definition getPodResourceColor :: "pod_metrics option \<Rightarrow> requests \<Rightarrow> jsv \<Rightarrow> string option" where
  "getPodResourceColor podMetrics maxes pod = map_option (heat_color maxes) (getPodCommitted podMetrics pod)"

datatype color_mode = StatusMode | ResourceMode

definition getPodSquareColor :: "color_mode \<Rightarrow> requests option \<Rightarrow> pod_metrics option \<Rightarrow> jsv \<Rightarrow> string option" where
  "getPodSquareColor mode maxes podMetrics pod =
     (case mode of
        ResourceMode \<Rightarrow>
          getPodResourceColor podMetrics (case maxes of Some m \<Rightarrow> m | None \<Rightarrow> \<lparr>cpuMillis = 0, memBytes = 0\<rparr>) pod
      | StatusMode \<Rightarrow> map_option (\<lambda>s. getPodStatusBgColor (jstring s)) (getPodStatus pod))"

section \<open>Order of pods\<close>

definition heat_score :: "requests \<Rightarrow> requests \<Rightarrow> rat" where
  "heat_score maxes r = (if cpuMillis r = 0 \<and> memBytes r = 0 then -1 else intensity maxes r)"

definition getPodResourceIntensity :: "pod_metrics option \<Rightarrow> requests \<Rightarrow> jsv \<Rightarrow> rat option" where
  "getPodResourceIntensity podMetrics maxes pod = map_option (heat_score maxes) (getPodCommitted podMetrics pod)"

definition STATUS_SORT_PRIORITY :: "(string, rat) js_map" where
  "STATUS_SORT_PRIORITY =
     [(''Failed'', 0), (''Init:Error'', 0), (''CrashLoopBackOff'', 1), (''Init:CrashLoopBackOff'', 1),
      (''ImagePullBackOff'', 1), (''ErrImagePull'', 1), (''Init:ImagePullBackOff'', 1), (''Init:ErrImagePull'', 1),
      (''Unknown'', 1), (''Pending'', 2), (''ContainerCreating'', 2), (''Init:Running'', 2), (''Init:Waiting'', 2),
      (''PodInitializing'', 2), (''Terminating'', 3), (''Running'', 4)]"

definition status_priority :: "string \<Rightarrow> rat" where
  "status_priority s = (case map_get STATUS_SORT_PRIORITY s of Some p \<Rightarrow> p | None \<Rightarrow> 3)"

definition secondaryCompare :: "(string \<Rightarrow> 'k::linorder) \<Rightarrow> jsv \<Rightarrow> jsv \<Rightarrow> int" where
  "secondaryCompare collate a b =
     (let nsA = jstring (jor (meta ''namespace'' a) (JStr '''')); nsB = jstring (jor (meta ''namespace'' b) (JStr ''''))
      in if nsA \<noteq> nsB then locale_compare collate nsA nsB
         else locale_compare collate (row_name a) (row_name b))"

text \<open>The rank of a pod: small ranks come first.\<close>

definition pod_rank :: "color_mode \<Rightarrow> requests \<Rightarrow> pod_metrics option \<Rightarrow> jsv \<Rightarrow> rat option" where
  "pod_rank mode maxes podMetrics pod =
     (case mode of
        ResourceMode \<Rightarrow> map_option uminus (getPodResourceIntensity podMetrics maxes pod)
      | StatusMode \<Rightarrow> map_option (\<lambda>s. status_priority (jstring s)) (getPodStatus pod))"

definition compare_ranked :: "(string \<Rightarrow> 'k::linorder) \<Rightarrow> rat \<times> jsv \<Rightarrow> rat \<times> jsv \<Rightarrow> int" where
  "compare_ranked collate x y =
     (if fst x < fst y then -1 else if fst x > fst y then 1 else secondaryCompare collate (snd x) (snd y))"

text \<open>A comparison that throws ends the sort; a list of one is not compared.\<close>

definition sortPods ::
  "(string \<Rightarrow> 'k::linorder) \<Rightarrow> color_mode \<Rightarrow> requests \<Rightarrow> pod_metrics option \<Rightarrow> jsv list \<Rightarrow> jsv list option" where
  "sortPods collate mode maxes podMetrics pods =
     (if length pods \<le> 1 then Some pods
      else map_option (\<lambda>ranks. map snd (js_sort (compare_ranked collate) (zip ranks pods)))
             (those (map (pod_rank mode maxes podMetrics) pods)))"

section \<open>Numbers shown\<close>

definition to_fixed :: "nat \<Rightarrow> rat \<Rightarrow> string" where  \<comment> \<open>\<open>x.toFixed(d)\<close> for \<open>x \<ge> 0\<close>\<close>
  "to_fixed d x =
     (let n = nat \<lfloor>x * 10 ^ d + 1/2\<rfloor> in
      if d = 0 then show_nat n
      else show_nat (n div 10 ^ d) @ ''.'' @ (let f = show_nat (n mod 10 ^ d) in replicate (d - length f) CHR ''0'' @ f))"

definition formatCpuMillis :: "rat \<Rightarrow> string" where
  "formatCpuMillis m =
     (if m = 0 then ''-''
      else if m \<ge> 1000 then to_fixed 1 (m / 1000)
      else show_int \<lfloor>m + 1/2\<rfloor> @ ''m'')"

definition formatMemBytes :: "nat \<Rightarrow> string" where
  "formatMemBytes b =
     (if b = 0 then ''-''
      else if b \<ge> 1024 ^ 3 then to_fixed 1 (of_nat b / 1024 ^ 3) @ ''Gi''
      else if b \<ge> 1024 ^ 2 then to_fixed 0 (of_nat b / 1024 ^ 2) @ ''Mi''
      else if b \<ge> 1024 then to_fixed 0 (of_nat b / 1024) @ ''Ki''
      else show_nat b @ ''B'')"

section \<open>The hash\<close>

definition hash_number :: "string \<Rightarrow> nat" where
  "hash_number ns = foldl (\<lambda>h c. 31 * h + of_char c) 0 ns"

lemma hash_step_31: "hash_step (of_nat h) c = of_nat (31 * h + of_char c)"
  by (simp add: hash_step_def push_bit_eq_mult algebra_simps)

lemma namespace_hash_number: "namespace_hash ns = of_nat (hash_number ns)"
proof -
  have "foldl hash_step (of_nat h) ns = of_nat (foldl (\<lambda>h c. 31 * h + of_char c) h ns)" for h
    by (induction ns arbitrary: h) (simp_all only: foldl_Nil foldl_Cons hash_step_31)
  from this [of 0] show ?thesis by (simp add: namespace_hash_def hash_number_def)
qed

text \<open>
  Namespace color hash: the hash of a namespace is the number \<open>s[0]*31^(n-1) + ... + s[n-1]\<close> cut to a
  signed word of 32 bits, whatever overflows on the way; its absolute value, that of the least word
  included, chooses one of the twenty colours.
\<close>

theorem namespace_color_hash:
  "sint (namespace_hash ns) = signed_take_bit 31 (int (hash_number ns)) \<and>
   getNamespaceColor ns = NAMESPACE_COLORS ! (nat \<bar>signed_take_bit 31 (int (hash_number ns))\<bar> mod 20) \<and>
   getNamespaceColor ns \<in> set NAMESPACE_COLORS"
proof -
  have s: "sint (namespace_hash ns) = signed_take_bit 31 (int (hash_number ns))"
    by (simp add: namespace_hash_number sint_uint unsigned_of_nat signed_take_bit_take_bit of_nat_take_bit)
  have l: "length NAMESPACE_COLORS = 20" by (simp add: NAMESPACE_COLORS_def)
  have "getNamespaceColor ns \<in> set NAMESPACE_COLORS"
    unfolding getNamespaceColor_def color_index_def by (rule nth_mem) (simp add: l)
  with s l show ?thesis by (simp add: getNamespaceColor_def color_index_def)
qed

section \<open>Cards and squares do not overlap\<close>

lemma ceil_sqrt_square: "n \<le> ceil_sqrt n * ceil_sqrt n \<or> n = 0"
proof -
  let ?t = "takeWhile (\<lambda>k. k * k < n) [0..<n]"
  show ?thesis
  proof (cases "length ?t < n")
    case True
    then have "\<not> ([0..<n] ! length ?t) * ([0..<n] ! length ?t) < n"
      using nth_length_takeWhile [of "\<lambda>k. k * k < n" "[0..<n]"] by simp
    with True show ?thesis by (simp add: ceil_sqrt_def)
  next
    case False
    moreover have "length ?t \<le> n" using length_takeWhile_le [of "\<lambda>k. k * k < n" "[0..<n]"] by simp
    ultimately have "length ?t = n" by simp
    then show ?thesis by (simp add: ceil_sqrt_def)
  qed
qed

lemma grid_cols_square: "n \<le> grid_cols n * grid_cols n"
proof -
  have "ceil_sqrt n * ceil_sqrt n \<le> grid_cols n * grid_cols n"
    unfolding grid_cols_def by (rule mult_le_mono) simp_all
  with ceil_sqrt_square [of n] show ?thesis by linarith
qed

lemma grid_cols_pos: "0 < grid_cols n"
  by (simp add: grid_cols_def)

text \<open>
  Cards apart: any two cards of the topology are a full column or a full row apart, and the cards fill a
  square: no card lies outside of as many rows as there are columns.
\<close>

theorem cards_apart:
  fixes h v :: nat
  assumes "i < j" "j < nodeCount"
  defines "ps \<equiv> computeGridPositions nodeCount h v"
  shows "(fst (ps ! i) + h \<le> fst (ps ! j) \<or> fst (ps ! j) + h \<le> fst (ps ! i) \<or> snd (ps ! i) + v \<le> snd (ps ! j)) \<and>
    fst (ps ! j) + h \<le> grid_cols nodeCount * h \<and> snd (ps ! j) + v \<le> grid_cols nodeCount * v"
proof -
  let ?c = "grid_cols nodeCount"
  have p: "ps ! k = ((k mod ?c) * h, (k div ?c) * v)" if "k < nodeCount" for k
    using that by (simp add: ps_def computeGridPositions_def grid_position_def)
  have mul: "a < b \<Longrightarrow> a * d + d \<le> b * d" for a b d :: nat
    using mult_le_mono1 [of "Suc a" b d] by simp
  have "i div ?c \<le> j div ?c" using assms(1) by (intro div_le_mono) simp
  moreover have "i mod ?c < j mod ?c \<or> j mod ?c < i mod ?c" if "i div ?c = j div ?c"
    using that assms(1) by (metis div_mult_mod_eq less_irrefl linorder_neqE_nat)
  ultimately have "i mod ?c < j mod ?c \<or> j mod ?c < i mod ?c \<or> i div ?c < j div ?c" by linarith
  moreover have "j mod ?c < ?c" using grid_cols_pos by simp
  moreover have "j div ?c < ?c"
    using assms(2) grid_cols_square [of nodeCount] by (intro less_mult_imp_div_less) simp
  ultimately show ?thesis
    using p [of i] p [of j] assms(1,2) mul [of "i mod ?c" "j mod ?c" h] mul [of "j mod ?c" "i mod ?c" h]
      mul [of "i div ?c" "j div ?c" v] mul [of "j mod ?c" ?c h] mul [of "j div ?c" ?c v] by auto
qed

theorem cards_apart_witness:
  "computeGridPositions 5 400 350 = [(0, 0), (400, 0), (800, 0), (0, 350), (400, 350)] \<and>
   fst (computeGridPositions 5 400 350 ! 4) + 400 \<le> grid_cols 5 * 400"
  using cards_apart [of 1 4 5 400 350]
  by (simp add: computeGridPositions_def grid_position_def grid_cols_def ceil_sqrt_def upt_rec)

lemma ceil_div_covers: "0 < b \<Longrightarrow> i < a \<Longrightarrow> Suc (i div b) \<le> ceil_div a b"
proof -
  assume "0 < b" "i < a"
  then have "(i + b) div b \<le> (a + b - 1) div b" by (intro div_le_mono) simp
  with \<open>0 < b\<close> show ?thesis by (simp add: ceil_div_def)
qed

text \<open>
  Squares fit: the height reserved on a card holds the row of every pod that is drawn, and no card grows
  beyond the rows of its zoom level, however many pods run on the node.
\<close>

theorem squares_fit:
  assumes "z \<noteq> Far" "i < podCount" "i < getMaxVisiblePods z"
  shows "(i div getPodGridCols) * (POD_SQUARE_SIZE + GRID_GAP) + POD_SQUARE_SIZE + 16 \<le> computePodGridHeight podCount z \<and>
    computePodGridHeight podCount z \<le> max_rows z * (POD_SQUARE_SIZE + GRID_GAP) + 16"
proof -
  have c: "getPodGridCols = 13" by (simp add: getPodGridCols_def card_consts)
  let ?rows = "ceil_div (min podCount (13 * max_rows z)) 13"
  have h: "computePodGridHeight podCount z = ?rows * 20 + 16"
    using assms by (simp add: computePodGridHeight_def c card_consts)
  have "Suc (i div 13) \<le> ?rows"
    by (rule ceil_div_covers) (use assms in \<open>simp_all add: getMaxVisiblePods_def c\<close>)
  moreover have "?rows \<le> max_rows z"
  proof -
    have "?rows \<le> (13 * max_rows z + 13 - 1) div 13" unfolding ceil_div_def by (intro div_le_mono) simp
    then show ?thesis by simp
  qed
  ultimately show ?thesis by (simp add: h c card_consts)
qed

theorem squares_fit_witness:
  "1 * (POD_SQUARE_SIZE + GRID_GAP) + POD_SQUARE_SIZE + 16 \<le> computePodGridHeight 500 Close"
  using squares_fit [of Close 20 500] by (simp add: getMaxVisiblePods_def max_rows_def getPodGridCols_def card_consts)

section \<open>The heat map\<close>

definition heat_rank :: "string \<Rightarrow> nat" where
  "heat_rank color = the (map_get [(''#6b7280'', 0), (''#3b82f6'', 1), (''#22c55e'', 2), (''#f59e0b'', 3), (''#ef4444'', 4)] color)"

lemma heat_rank_color:
  "heat_rank (heat_color maxes r) =
     (if cpuMillis r = 0 \<and> memBytes r = 0 then 0
      else if intensity maxes r > 3/4 then 4 else if intensity maxes r > 1/2 then 3
      else if intensity maxes r > 1/4 then 2 else 1)"
  by (simp add: heat_rank_def heat_color_def Let_def)

definition committed_ok :: "requests \<Rightarrow> bool" where
  "committed_ok r \<longleftrightarrow> 0 \<le> cpuMillis r \<and> 0 \<le> memBytes r"

lemma ratio_nonneg: "0 \<le> x \<Longrightarrow> 0 \<le> ratio x m"
  by (simp add: ratio_def)

lemma intensity_nonneg: "committed_ok r \<Longrightarrow> 0 \<le> intensity maxes r"
  by (simp add: intensity_def committed_ok_def ratio_nonneg le_max_iff_disj)

lemma heat_mono:
  assumes "committed_ok q" "heat_score maxes q \<le> heat_score maxes r"
  shows "heat_rank (heat_color maxes q) \<le> heat_rank (heat_color maxes r)"
  using assms intensity_nonneg [OF assms(1), of maxes]
  by (auto simp: heat_rank_color heat_score_def split: if_splits)

lemma those_Some: "those xs = Some ys \<longleftrightarrow> xs = map Some ys"
proof (induction xs arbitrary: ys)
  case Nil
  then show ?case by auto
next
  case (Cons x xs)
  then show ?case by (cases x; cases ys) (auto split: option.splits)
qed

lemma those_all: "\<forall>x \<in> set xs. f x \<noteq> None \<Longrightarrow> those (map f xs) = Some (map (\<lambda>x. the (f x)) xs)"
  by (induction xs) auto

text \<open>
  Maxes exact: the maxima the colours are relative to are those of the pods shown: no pod is hotter than the
  whole scale, and when anything is committed at all, some pod is at its top and coloured red.
\<close>

theorem maxes_exact:
  assumes "those (map (getPodCommitted podMetrics) pods) = Some rs" "\<forall>r \<in> set rs. committed_ok r"
    and "computeResourceMaxes podMetrics pods = Some maxes"
  shows "(\<forall>r \<in> set rs. cpuMillis r \<le> cpuMillis maxes \<and> memBytes r \<le> memBytes maxes \<and> intensity maxes r \<le> 1) \<and>
    ((\<exists>r \<in> set rs. cpuMillis r \<noteq> 0) \<longrightarrow>
       (\<exists>pod \<in> set pods. getPodResourceColor podMetrics maxes pod = Some ''#ef4444''))"
proof -
  have m: "maxes = foldl raise_maxes \<lparr>cpuMillis = 0, memBytes = 0\<rparr> rs" using assms(1,3) by (simp add: computeResourceMaxes_def)
  have fold: "(\<forall>r \<in> set rs. cpuMillis r \<le> cpuMillis (foldl raise_maxes m rs) \<and> memBytes r \<le> memBytes (foldl raise_maxes m rs)) \<and>
      cpuMillis m \<le> cpuMillis (foldl raise_maxes m rs) \<and> memBytes m \<le> memBytes (foldl raise_maxes m rs) \<and>
      (cpuMillis (foldl raise_maxes m rs) = cpuMillis m \<or> (\<exists>r \<in> set rs. cpuMillis (foldl raise_maxes m rs) = cpuMillis r))"
    for m :: requests and rs
  proof (induction rs arbitrary: m)
    case (Cons r rs)
    from Cons [of "raise_maxes m r"] show ?case by (auto simp: raise_maxes_def split: if_splits)
  qed simp
  have le: "cpuMillis r \<le> cpuMillis maxes" "memBytes r \<le> memBytes maxes" if "r \<in> set rs" for r
    using fold [of rs] that unfolding m by auto
  have one: "ratio x y \<le> 1" if "x \<le> y" for x y using that by (simp add: ratio_def)
  have red: "\<exists>pod \<in> set pods. getPodResourceColor podMetrics maxes pod = Some ''#ef4444''"
    if r: "r \<in> set rs" "cpuMillis r \<noteq> 0" for r
  proof -
    have pos: "0 < cpuMillis maxes" using le(1) [OF r(1)] assms(2) r by (force simp: committed_ok_def)
    with fold [of rs "\<lparr>cpuMillis = 0, memBytes = 0\<rparr>"] obtain q where q: "q \<in> set rs" "cpuMillis q = cpuMillis maxes"
      unfolding m by auto
    have "getPodCommitted podMetrics ` set pods = Some ` set rs"
      using assms(1) by (metis list.set_map those_Some)
    with q(1) have "Some q \<in> getPodCommitted podMetrics ` set pods" by simp
    then obtain pod where pod: "pod \<in> set pods" "getPodCommitted podMetrics pod = Some q" by force
    have "intensity maxes q \<ge> 1" using q pos by (simp add: intensity_def ratio_def le_max_iff_disj)
    then have "getPodResourceColor podMetrics maxes pod = Some ''#ef4444''"
      using pod q pos by (simp add: getPodResourceColor_def heat_color_def Let_def)
    with pod show ?thesis by blast
  qed
  show ?thesis using le one red by (auto simp: intensity_def)
qed

section \<open>Sorted pods\<close>

definition pod_ns :: "jsv \<Rightarrow> string" where
  "pod_ns pod = jstring (jor (meta ''namespace'' pod) (JStr ''''))"

definition name_before :: "(string \<Rightarrow> 'k::linorder) \<Rightarrow> jsv \<Rightarrow> jsv \<Rightarrow> bool" where
  "name_before collate a b \<longleftrightarrow>
     collate (pod_ns a) < collate (pod_ns b) \<or> pod_ns a = pod_ns b \<and> collate (row_name a) \<le> collate (row_name b)"

definition ranked_before :: "(string \<Rightarrow> 'k::linorder) \<Rightarrow> rat \<times> jsv \<Rightarrow> rat \<times> jsv \<Rightarrow> bool" where
  "ranked_before collate x y \<longleftrightarrow> fst x < fst y \<or> fst x = fst y \<and> name_before collate (snd x) (snd y)"

lemma compare_ranked_before:
  assumes "inj collate"
  shows "compare_ranked collate x y \<le> 0 \<longleftrightarrow> ranked_before collate x y"
  using injD [OF assms, of "pod_ns (snd x)" "pod_ns (snd y)"]
  by (auto simp: compare_ranked_def ranked_before_def secondaryCompare_def Let_def name_before_def locale_compare_def
      pod_ns_def [symmetric])

lemma ranked_total:
  assumes "inj collate"
  shows "ranked_before collate x y \<or> ranked_before collate y x"
proof -
  have "name_before collate a b \<or> name_before collate b a" for a b
    using injD [OF assms, of "pod_ns a" "pod_ns b"] by (auto simp: name_before_def)
  then show ?thesis by (auto simp: ranked_before_def)
qed

lemma ranked_trans: "ranked_before collate x y \<Longrightarrow> ranked_before collate y z \<Longrightarrow> ranked_before collate x z"
  by (auto simp: ranked_before_def name_before_def)

lemma sorted_ranks:
  assumes "inj collate"
  shows "sorted_wrt (ranked_before collate) (js_sort (compare_ranked collate) xs)"
proof -
  have "sorted_wrt (\<lambda>a b. compare_ranked collate a b \<le> 0) (js_sort (compare_ranked collate) xs)"
    by (rule js_sort_sorted) (auto simp: compare_ranked_before [OF assms] intro: ranked_trans, use ranked_total [OF assms] in blast)
  then show ?thesis by (simp add: compare_ranked_before [OF assms])
qed

text \<open>
  Heat sorted: in the resource mode the pods of a card are drawn from hot to cold: none is lost or shown twice,
  and no square comes before one of a hotter colour; pods of one intensity come by namespace and name.
\<close>

theorem heat_sorted:
  assumes "inj collate" "sortPods collate ResourceMode maxes podMetrics pods = Some qs"
    and "\<forall>pod \<in> set pods. \<forall>r. getPodCommitted podMetrics pod = Some r \<longrightarrow> committed_ok r"
  shows "mset qs = mset pods \<and>
    sorted_wrt (\<lambda>a b. \<forall>ca cb. getPodResourceColor podMetrics maxes a = Some ca \<and> getPodResourceColor podMetrics maxes b = Some cb \<longrightarrow>
      heat_rank cb \<le> heat_rank ca \<and>
      (getPodResourceIntensity podMetrics maxes a = getPodResourceIntensity podMetrics maxes b \<longrightarrow> name_before collate a b)) qs"
proof (cases "length pods \<le> 1")
  case True
  then have "pods = [] \<or> (\<exists>x. pods = [x])" by (cases pods) auto
  with assms(2) show ?thesis by (auto simp: sortPods_def)
next
  case False
  let ?rank = "pod_rank ResourceMode maxes podMetrics"
  obtain ranks where r: "those (map ?rank pods) = Some ranks"
    "qs = map snd (js_sort (compare_ranked collate) (zip ranks pods))"
    using assms(2) False by (auto simp: sortPods_def)
  let ?zs = "js_sort (compare_ranked collate) (zip ranks pods)"
  have len: "length ranks = length pods" using r(1) by (metis length_map those_Some)
  have "mset qs = image_mset snd (mset ?zs)" using r(2) by simp
  then have m: "mset qs = mset pods" using len by (simp add: mset_map [symmetric])
  have in_z: "?rank (snd z) = Some (fst z) \<and> snd z \<in> set pods" if "z \<in> set ?zs" for z
  proof -
    from that obtain i where i: "i < length ranks" "z = (ranks ! i, pods ! i)" by (auto simp: set_zip)
    have "?rank (pods ! i) = Some (ranks ! i)" using r(1) i len by (metis nth_map those_Some)
    with i len show ?thesis by simp
  qed
  have "sorted_wrt (\<lambda>x y. \<forall>ca cb. getPodResourceColor podMetrics maxes (snd x) = Some ca \<and> getPodResourceColor podMetrics maxes (snd y) = Some cb \<longrightarrow>
      heat_rank cb \<le> heat_rank ca \<and>
      (getPodResourceIntensity podMetrics maxes (snd x) = getPodResourceIntensity podMetrics maxes (snd y) \<longrightarrow> name_before collate (snd x) (snd y))) ?zs"
  proof (rule sorted_wrt_mono_rel [OF _ sorted_ranks [OF assms(1)]])
    fix x y assume xy: "x \<in> set ?zs" "y \<in> set ?zs" "ranked_before collate x y"
    note X = in_z [OF xy(1)] and Y = in_z [OF xy(2)]
    show "\<forall>ca cb. getPodResourceColor podMetrics maxes (snd x) = Some ca \<and> getPodResourceColor podMetrics maxes (snd y) = Some cb \<longrightarrow>
      heat_rank cb \<le> heat_rank ca \<and>
      (getPodResourceIntensity podMetrics maxes (snd x) = getPodResourceIntensity podMetrics maxes (snd y) \<longrightarrow> name_before collate (snd x) (snd y))"
      using X Y xy(3) assms(3)
      by (auto simp: pod_rank_def getPodResourceIntensity_def getPodResourceColor_def ranked_before_def intro!: heat_mono)
  qed
  then have "sorted_wrt (\<lambda>a b. \<forall>ca cb. getPodResourceColor podMetrics maxes a = Some ca \<and> getPodResourceColor podMetrics maxes b = Some cb \<longrightarrow>
      heat_rank cb \<le> heat_rank ca \<and>
      (getPodResourceIntensity podMetrics maxes a = getPodResourceIntensity podMetrics maxes b \<longrightarrow> name_before collate a b)) qs"
    by (simp add: r(2) sorted_wrt_map)
  with m show ?thesis by simp
qed

definition topo_pod :: "string \<Rightarrow> jsv" where
  "topo_pod n = JObj [(''metadata'', JObj [(''namespace'', JStr ''ns''), (''name'', JStr n)])]"

definition topo_metrics :: pod_metrics where
  "topo_metrics = [(''ns/a'', \<lparr>cpuMillis = 100, memBytes = 0\<rparr>), (''ns/b'', \<lparr>cpuMillis = 400, memBytes = 10\<rparr>)]"

lemma topo_committed:
  "getPodCommitted (Some topo_metrics) (topo_pod ''a'') = Some \<lparr>cpuMillis = 100, memBytes = 0\<rparr>"
  "getPodCommitted (Some topo_metrics) (topo_pod ''b'') = Some \<lparr>cpuMillis = 400, memBytes = 10\<rparr>"
  by (simp_all add: getPodCommitted_def metrics_key_def topo_pod_def topo_metrics_def path_or_def jpath_def jget_def jopt_def jor_def)

theorem maxes_exact_witness:
  "\<exists>pod \<in> set [topo_pod ''a'', topo_pod ''b''].
     getPodResourceColor (Some topo_metrics) \<lparr>cpuMillis = 400, memBytes = 10\<rparr> pod = Some ''#ef4444''"
  by (rule maxes_exact [THEN conjunct2, rule_format, where rs = "[\<lparr>cpuMillis = 100, memBytes = 0\<rparr>, \<lparr>cpuMillis = 400, memBytes = 10\<rparr>]"])
    (auto simp: topo_committed committed_ok_def computeResourceMaxes_def raise_maxes_def)

lemma topo_sorted:
  "sortPods (\<lambda>s. s) ResourceMode \<lparr>cpuMillis = 400, memBytes = 10\<rparr> (Some topo_metrics) [topo_pod ''a'', topo_pod ''b''] =
     Some [topo_pod ''b'', topo_pod ''a'']"
  by (simp add: sortPods_def pod_rank_def getPodResourceIntensity_def topo_committed heat_score_def intensity_def ratio_def
      js_sort_def compare_ranked_def)

theorem heat_sorted_witness:
  "heat_rank (heat_color \<lparr>cpuMillis = 400, memBytes = 10\<rparr> \<lparr>cpuMillis = 100, memBytes = 0\<rparr>)
     \<le> heat_rank (heat_color \<lparr>cpuMillis = 400, memBytes = 10\<rparr> \<lparr>cpuMillis = 400, memBytes = 10\<rparr>)"
proof -
  have "inj (\<lambda>s :: string. s)" by (simp add: inj_on_def)
  from heat_sorted [OF this topo_sorted] show ?thesis
    by (simp add: topo_committed committed_ok_def getPodResourceColor_def)
qed

end
