(* ===== verification/EventBridge.thy ===== *)
theory EventBridge
  imports JsValue "HOL-Library.Multiset"
begin

text \<open>
  The adapter between the frontend and the backend in server mode (\<open>lib/wailsjs-adapter\<close>): calls over HTTP,
  the event_registry of event listeners, and the socket that events come in on with its reconnection. Callbacks are
  numbers; which of them throw is a parameter, and a callback does not subscribe or unsubscribe while an event
  is being delivered. The states of a socket are those of the browser: between the closing handshake and the
  \<open>close\<close> event a socket is \<open>Closing\<close>.
\<close>

section \<open>Calls\<close>

datatype fetch_outcome =
    FetchAborted  \<comment> \<open>after sixty seconds\<close>
  | FetchFailed string
  | FetchAnswer bool string "jsv option"  \<comment> \<open>\<open>ok\<close>, the text, and the document it parses to\<close>

datatype api_error = ApiError string | UnreadableAnswer

definition callAPI :: "string \<Rightarrow> fetch_outcome \<Rightarrow> api_error + jsv" where
  "callAPI method out =
     (case out of
        FetchAborted \<Rightarrow> Inl (ApiError (''API call timed out: '' @ method))
      | FetchFailed e \<Rightarrow> Inl (ApiError e)
      | FetchAnswer ok body doc \<Rightarrow>
          if \<not> ok then Inl (ApiError (if body \<noteq> '''' then body else ''API call failed: '' @ method))
          else (case doc of
                  None \<Rightarrow> Inl UnreadableAnswer
                | Some result \<Rightarrow>
                    (case jget result ''error'' of
                       None \<Rightarrow> Inl UnreadableAnswer
                     | Some e \<Rightarrow> if truthy e then Inl (ApiError (jstring e)) else Inr (js_member result ''data''))))"

datatype call_route = OverHttp string | Binding string | NoBinding string

definition route_call :: "bool \<Rightarrow> string list \<Rightarrow> string \<Rightarrow> call_route" where
  "route_call serverMode bindings prop =
     (if serverMode then OverHttp prop else if prop \<in> set bindings then Binding prop else NoBinding prop)"

section \<open>Listeners\<close>

text \<open>A callback as it was given, or the closure around it that counts its calls.\<close>

datatype listener = Direct nat | Counted nat nat  \<comment> \<open>which closure, around which callback\<close>

record event_registry =
  eventListeners :: "(string, listener list) js_map"
  remaining :: "(nat, nat) js_map"
  closures :: nat

definition registry_start :: event_registry where
  "registry_start = \<lparr>eventListeners = [], remaining = [], closures = 0\<rparr>"

definition add_listener :: "'a \<Rightarrow> 'a list \<Rightarrow> 'a list" where
  "add_listener x xs = (if x \<in> set xs then xs else xs @ [x])"

definition listeners_of :: "event_registry \<Rightarrow> string \<Rightarrow> listener list" where
  "listeners_of s name = (case map_get (eventListeners s) name of Some ls \<Rightarrow> ls | None \<Rightarrow> [])"

text \<open>The second result is what the returned cleanup function removes.\<close>

definition EventsOnMultiple :: "string \<Rightarrow> nat \<Rightarrow> int \<Rightarrow> event_registry \<Rightarrow> event_registry \<times> (string \<times> listener)" where
  "EventsOnMultiple name callback maxCallbacks s =
     (if maxCallbacks > 0 then
        (let l = Counted (closures s) callback in
         (s\<lparr>eventListeners := map_set name (add_listener l (listeners_of s name)) (eventListeners s),
            remaining := map_set (closures s) (nat maxCallbacks) (remaining s), closures := Suc (closures s)\<rparr>, (name, l)))
      else
        (let l = Direct callback in
         (s\<lparr>eventListeners := map_set name (add_listener l (listeners_of s name)) (eventListeners s)\<rparr>, (name, l))))"

definition EventsOn :: "string \<Rightarrow> nat \<Rightarrow> event_registry \<Rightarrow> event_registry \<times> (string \<times> listener)" where
  "EventsOn name callback = EventsOnMultiple name callback (-1)"

definition EventsOnce :: "string \<Rightarrow> nat \<Rightarrow> event_registry \<Rightarrow> event_registry \<times> (string \<times> listener)" where
  "EventsOnce name callback = EventsOnMultiple name callback 1"

definition drop_listener :: "string \<times> listener \<Rightarrow> event_registry \<Rightarrow> event_registry" where
  "drop_listener c s =
     (case c of (name, l) \<Rightarrow>
        (case map_get (eventListeners s) name of
           None \<Rightarrow> s
         | Some ls \<Rightarrow> s\<lparr>eventListeners := map_set name (filter (\<lambda>k. k \<noteq> l) ls) (eventListeners s)\<rparr>))"

definition EventsOff :: "string list \<Rightarrow> event_registry \<Rightarrow> event_registry" where
  "EventsOff names s = s\<lparr>eventListeners := foldl (\<lambda>m name. map_delete name m) (eventListeners s) names\<rparr>"

definition EventsOffAll :: "event_registry \<Rightarrow> event_registry" where
  "EventsOffAll s = s\<lparr>eventListeners := []\<rparr>"

text \<open>
  Delivering an event: the callbacks called, in order. A counting closure that has used up its calls returns
  at once; after its last call it removes itself, unless the callback threw.
\<close>

definition call_listener :: "(nat \<Rightarrow> bool) \<Rightarrow> string \<Rightarrow> listener \<Rightarrow> event_registry \<Rightarrow> listener list \<times> event_registry" where
  "call_listener throws name l s =
     (case l of
        Direct c \<Rightarrow> ([l], s)
      | Counted w c \<Rightarrow>
          (let r = (case map_get (remaining s) w of Some r \<Rightarrow> r | None \<Rightarrow> 0) in
           if r = 0 then ([], s)
           else (let s' = s\<lparr>remaining := map_set w (r - 1) (remaining s)\<rparr> in
                 ([l], if r - 1 = 0 \<and> \<not> throws c then drop_listener (name, l) s' else s'))))"

fun call_listeners :: "(nat \<Rightarrow> bool) \<Rightarrow> string \<Rightarrow> listener list \<Rightarrow> event_registry \<Rightarrow> listener list \<times> event_registry" where
  "call_listeners throws name [] s = ([], s)"
| "call_listeners throws name (l # ls) s =
     (let (cs, s') = call_listener throws name l s; (cs', s'') = call_listeners throws name ls s' in (cs @ cs', s''))"

definition dispatch :: "(nat \<Rightarrow> bool) \<Rightarrow> string \<Rightarrow> event_registry \<Rightarrow> listener list \<times> event_registry" where
  "dispatch throws name s = call_listeners throws name (listeners_of s name) s"

datatype registry_op =
    Subscribe string nat int
  | Cleanup string listener
  | Off "string list"
  | OffAll
  | Event string

definition registry_step :: "(nat \<Rightarrow> bool) \<Rightarrow> event_registry \<Rightarrow> registry_op \<Rightarrow> event_registry \<times> listener list" where
  "registry_step throws s e =
     (case e of
        Subscribe name c n \<Rightarrow> (fst (EventsOnMultiple name c n s), [])
      | Cleanup name l \<Rightarrow> (drop_listener (name, l) s, [])
      | Off names \<Rightarrow> (EventsOff names s, [])
      | OffAll \<Rightarrow> (EventsOffAll s, [])
      | Event name \<Rightarrow> (case dispatch throws name s of (cs, s') \<Rightarrow> (s', cs)))"

fun registry_run :: "(nat \<Rightarrow> bool) \<Rightarrow> event_registry \<Rightarrow> registry_op list \<Rightarrow> listener list" where
  "registry_run throws s [] = []"
| "registry_run throws s (e # es) = (case registry_step throws s e of (s', cs) \<Rightarrow> cs @ registry_run throws s' es)"

section \<open>The socket\<close>

datatype phase = Connecting | Open | Closing | Closed

record socket_state =
  ws :: "nat option"
  wsConnecting :: bool
  wsReconnectTimer :: "nat option"
  timers :: "nat list"  \<comment> \<open>pending, each of which will call \<open>connectWebSocket\<close>\<close>
  sockets :: "phase list"  \<comment> \<open>every socket ever opened, by its number\<close>
  timer_count :: nat

definition socket_start :: socket_state where
  "socket_start =
     \<lparr>ws = None, wsConnecting = False, wsReconnectTimer = None, timers = [], sockets = [], timer_count = 0\<rparr>"

definition set_timer :: "socket_state \<Rightarrow> socket_state" where
  "set_timer s =
     s\<lparr>wsReconnectTimer := Some (timer_count s), timers := timers s @ [timer_count s], timer_count := Suc (timer_count s)\<rparr>"

text \<open>\<open>refused\<close>: the constructor of the socket throws.\<close>

definition connectWebSocket :: "bool \<Rightarrow> socket_state \<Rightarrow> socket_state" where
  "connectWebSocket refused s =
     (if (case ws s of Some i \<Rightarrow> sockets s ! i = Open \<or> sockets s ! i = Connecting | None \<Rightarrow> False) \<or> wsConnecting s then s
      else if refused then set_timer (s\<lparr>wsConnecting := False\<rparr>)
      else s\<lparr>wsConnecting := True, ws := Some (length (sockets s)), sockets := sockets s @ [Connecting]\<rparr>)"

definition onopen :: "nat \<Rightarrow> socket_state \<Rightarrow> socket_state" where
  "onopen i s =
     (let s' = s\<lparr>sockets := (sockets s)[i := Open], wsConnecting := False\<rparr> in
      case wsReconnectTimer s' of
        Some t \<Rightarrow> s'\<lparr>timers := filter (\<lambda>u. u \<noteq> t) (timers s'), wsReconnectTimer := None\<rparr>
      | None \<Rightarrow> s')"

definition onclose :: "nat \<Rightarrow> socket_state \<Rightarrow> socket_state" where
  "onclose i s = set_timer (s\<lparr>sockets := (sockets s)[i := Closed], ws := None, wsConnecting := False\<rparr>)"

definition onerror :: "socket_state \<Rightarrow> socket_state" where
  "onerror s = s\<lparr>wsConnecting := False\<rparr>"

text \<open>With \<open>linger\<close> code of the page may run while a socket is closing.\<close>

inductive socket_step :: "bool \<Rightarrow> socket_state \<Rightarrow> socket_state \<Rightarrow> bool" for linger where
  subscribe: "socket_step linger s (connectWebSocket refused s)"
| timer: "t \<in> set (timers s) \<Longrightarrow>
    socket_step linger s (connectWebSocket refused (s\<lparr>timers := filter (\<lambda>u. u \<noteq> t) (timers s)\<rparr>))"
| opens: "i < length (sockets s) \<Longrightarrow> sockets s ! i = Connecting \<Longrightarrow> socket_step linger s (onopen i s)"
| closing: "linger \<Longrightarrow> i < length (sockets s) \<Longrightarrow> sockets s ! i = Open \<Longrightarrow>
    socket_step linger s (s\<lparr>sockets := (sockets s)[i := Closing]\<rparr>)"
| closes: "i < length (sockets s) \<Longrightarrow> sockets s ! i \<noteq> Closed \<Longrightarrow> socket_step linger s (onclose i s)"
| failed: "i < length (sockets s) \<Longrightarrow> sockets s ! i = Connecting \<or> sockets s ! i = Open \<Longrightarrow> socket_step linger s (onclose i (onerror s))"

inductive_cases socket_stepE: "socket_step linger s t"

text \<open>The sockets an event can come in on; every one of them hands it to all listeners.\<close>

definition live_sockets :: "socket_state \<Rightarrow> nat list" where
  "live_sockets s = filter (\<lambda>i. sockets s ! i = Open) [0..<length (sockets s)]"

section \<open>Delivery\<close>

definition calls_left :: "event_registry \<Rightarrow> listener \<Rightarrow> nat" where
  "calls_left s l =
     (case l of Direct _ \<Rightarrow> 1 | Counted w _ \<Rightarrow> (case map_get (remaining s) w of Some r \<Rightarrow> r | None \<Rightarrow> 0))"

fun closure_of :: "listener \<Rightarrow> nat option" where
  "closure_of (Direct c) = None"
| "closure_of (Counted w c) = Some w"

lemma drop_listener_fields [simp]:
  "remaining (drop_listener c s) = remaining s" "closures (drop_listener c s) = closures s"
  by (auto simp: drop_listener_def split: prod.splits option.splits)

lemma call_listener_fields:
  assumes "map_wf (remaining s)" "call_listener throws name l s = (cs, s')"
  shows "cs = (if calls_left s l > 0 then [l] else []) \<and> map_wf (remaining s') \<and> closures s' = closures s \<and>
    (\<forall>k. closure_of k \<noteq> closure_of l \<or> closure_of k = None \<longrightarrow> calls_left s' k = calls_left s k) \<and>
    (\<forall>k. closure_of k = closure_of l \<and> closure_of k \<noteq> None \<longrightarrow> calls_left s' k = calls_left s k - length cs)"
  using assms
  by (cases l) (auto simp: call_listener_def Let_def calls_left_def js.get_put js.wf_put
      split: if_splits option.splits listener.splits)

lemma call_listeners_exact:
  assumes "map_wf (remaining s)" "distinct ls"
    and "\<forall>k \<in> set ls. \<forall>l \<in> set ls. closure_of k = closure_of l \<and> closure_of k \<noteq> None \<longrightarrow> k = l"
  shows "fst (call_listeners throws name ls s) = filter (\<lambda>l. calls_left s l > 0) ls"
  using assms
proof (induction ls arbitrary: s)
  case (Cons l ls)
  obtain cs s' where c: "call_listener throws name l s = (cs, s')" by fastforce
  note f = call_listener_fields [OF Cons.prems(1) c]
  have "calls_left s' k = calls_left s k" if "k \<in> set ls" for k
    using f Cons.prems(2,3) that by (metis distinct.simps(2) list.set_intros(1,2))
  then have "filter (\<lambda>l. calls_left s' l > 0) ls = filter (\<lambda>l. calls_left s l > 0) ls"
    by (intro filter_cong) simp_all
  moreover have "fst (call_listeners throws name ls s') = filter (\<lambda>l. calls_left s' l > 0) ls"
  proof (rule Cons.IH)
    show "map_wf (remaining s')" using f by simp
    show "distinct ls" using Cons.prems(2) by simp
    show "\<forall>k \<in> set ls. \<forall>l \<in> set ls. closure_of k = closure_of l \<and> closure_of k \<noteq> None \<longrightarrow> k = l"
      using Cons.prems(3) by (meson list.set_intros(2))
  qed
  ultimately show ?case using f c by (simp add: case_prod_beta)
qed simp

definition listeners_ok :: "nat \<Rightarrow> listener list \<Rightarrow> bool" where
  "listeners_ok n ls \<longleftrightarrow>
     distinct ls \<and> (\<forall>l \<in> set ls. \<forall>w. closure_of l = Some w \<longrightarrow> w < n \<and> (\<forall>k \<in> set ls. closure_of k = Some w \<longrightarrow> k = l))"

definition registry_ok :: "event_registry \<Rightarrow> bool" where
  "registry_ok s \<longleftrightarrow>
     map_wf (eventListeners s) \<and> map_wf (remaining s) \<and>
     (\<forall>name ls. map_get (eventListeners s) name = Some ls \<longrightarrow> listeners_ok (closures s) ls)"

lemma listeners_ok_Nil: "listeners_ok n []"
  by (simp add: listeners_ok_def)

lemma listeners_ok_filter: "listeners_ok n ls \<Longrightarrow> listeners_ok n (filter P ls)"
  by (auto simp: listeners_ok_def)

lemma listeners_ok_Suc: "listeners_ok n ls \<Longrightarrow> listeners_ok (Suc n) ls"
  by (fastforce simp: listeners_ok_def)

lemma listeners_ok_direct: "listeners_ok n ls \<Longrightarrow> listeners_ok n (add_listener (Direct c) ls)"
  by (auto simp: listeners_ok_def add_listener_def)

lemma listeners_ok_counted: "listeners_ok n ls \<Longrightarrow> listeners_ok (Suc n) (add_listener (Counted n c) ls)"
  by (fastforce simp: listeners_ok_def add_listener_def)

lemma registry_ok_listeners: "registry_ok s \<Longrightarrow> listeners_ok (closures s) (listeners_of s name)"
  by (auto simp: registry_ok_def listeners_of_def listeners_ok_Nil simp del: map_of_eq_Some_iff split: option.split)

lemma subscribe_ok: "registry_ok s \<Longrightarrow> registry_ok (fst (EventsOnMultiple name c n s))"
  using registry_ok_listeners [of s name]
  by (auto simp: EventsOnMultiple_def Let_def registry_ok_def js.get_put js.wf_put listeners_ok_direct listeners_ok_counted
      listeners_ok_Suc simp del: map_of_eq_Some_iff split: if_splits)

lemma drop_ok: "registry_ok s \<Longrightarrow> registry_ok (drop_listener c s)"
  by (auto simp: drop_listener_def registry_ok_def js.get_put js.wf_put listeners_ok_filter simp del: map_of_eq_Some_iff
      split: prod.split option.split if_splits)

lemma off_ok: "registry_ok s \<Longrightarrow> registry_ok (EventsOff names s)"
proof -
  assume ok: "registry_ok s"
  have "map_wf m \<Longrightarrow> map_wf (foldl (\<lambda>m name. map_delete name m) m names)" for m :: "(string, listener list) js_map"
    by (induction names arbitrary: m) (simp_all add: js.wf_del)
  with ok show ?thesis
    by (auto simp: EventsOff_def registry_ok_def js.get_dels simp del: map_of_eq_Some_iff split: if_splits)
qed

lemma call_listener_ok:
  assumes "registry_ok s" "call_listener throws name l s = (cs, s')"
  shows "registry_ok s'"
proof -
  have "registry_ok (s\<lparr>remaining := map_set w r (remaining s)\<rparr>)" for w r
    using assms(1) by (simp add: registry_ok_def js.wf_put)
  with assms show ?thesis
    by (auto simp: call_listener_def Let_def drop_ok split: listener.splits if_splits)
qed

lemma call_listeners_ok: "registry_ok s \<Longrightarrow> registry_ok (snd (call_listeners throws name ls s))"
proof (induction ls arbitrary: s)
  case (Cons l ls)
  then show ?case using call_listener_ok [OF Cons.prems] by (auto simp: case_prod_beta) (metis prod.collapse)
qed simp

lemma off_all_ok: "registry_ok s \<Longrightarrow> registry_ok (EventsOffAll s)"
  by (simp add: registry_ok_def EventsOffAll_def)

interpretation event_registry: machine "\<lambda>s e. fst (registry_step throws s e)" registry_ok for throws
proof
  fix s e assume "registry_ok s"
  then show "registry_ok (fst (registry_step throws s e))"
    by (cases e) (auto simp: registry_step_def subscribe_ok drop_ok off_ok off_all_ok dispatch_def case_prod_beta
        call_listeners_ok)
qed

lemma registry_start_ok: "registry_ok registry_start"
  by (simp add: registry_ok_def registry_start_def)

text \<open>
  Event delivered: whatever was subscribed and unsubscribed before, an event calls each listener of its name
  once, in the order they were added, but for the counting ones that have had all their calls.
\<close>

theorem event_delivered:
  assumes "s = foldl (\<lambda>s e. fst (registry_step throws s e)) registry_start es"
  shows "fst (dispatch throws name s) = filter (\<lambda>l. calls_left s l > 0) (listeners_of s name) \<and>
    distinct (listeners_of s name)"
proof -
  have ok: "registry_ok s" unfolding assms by (rule event_registry.run_good [OF registry_start_ok])
  note l = registry_ok_listeners [OF ok, of name]
  have "\<forall>k \<in> set (listeners_of s name). \<forall>l \<in> set (listeners_of s name).
      closure_of k = closure_of l \<and> closure_of k \<noteq> None \<longrightarrow> k = l"
    using l unfolding listeners_ok_def by (metis option.exhaust)
  then show ?thesis using ok l
    by (simp add: dispatch_def call_listeners_exact registry_ok_def listeners_ok_def)
qed

theorem event_delivered_witness:
  "fst (dispatch (\<lambda>_. False) ''a'' (foldl (\<lambda>s e. fst (registry_step (\<lambda>_. False) s e)) registry_start
      [Subscribe ''a'' 1 (-1), Subscribe ''a'' 2 1, Event ''a'', Subscribe ''a'' 3 1])) = [Direct 1, Counted 1 3]"
proof -
  let ?s = "foldl (\<lambda>s e. fst (registry_step (\<lambda>_. False) s e)) registry_start
      [Subscribe ''a'' 1 (-1), Subscribe ''a'' 2 1, Event ''a'', Subscribe ''a'' 3 1]"
  have e: "filter (\<lambda>l. calls_left ?s l > 0) (listeners_of ?s ''a'') = [Direct 1, Counted 1 3]" by code_simp
  show ?thesis by (rule trans [OF event_delivered [OF refl, THEN conjunct1] e])
qed

lemma drop_calls_left [simp]: "calls_left (drop_listener c s) l = calls_left s l"
  by (simp add: calls_left_def split: listener.split)

lemma call_listeners_count:
  "map_wf (remaining s) \<Longrightarrow> w < closures s \<Longrightarrow> call_listeners throws name ls s = (cs, s') \<Longrightarrow>
   map_wf (remaining s') \<and> closures s' = closures s \<and>
   length (filter (\<lambda>k. k = Counted w c) cs) + calls_left s' (Counted w c) \<le> calls_left s (Counted w c)"
proof (induction ls arbitrary: s cs)
  case (Cons l ls)
  obtain cs1 s1 cs2 where r: "call_listener throws name l s = (cs1, s1)" "call_listeners throws name ls s1 = (cs2, s')"
    "cs = cs1 @ cs2" using Cons.prems(3) by (auto simp: case_prod_beta) (metis prod.collapse)
  note f = call_listener_fields [OF Cons.prems(1) r(1)]
  have "length (filter (\<lambda>k. k = Counted w c) cs1) + calls_left s1 (Counted w c) \<le> calls_left s (Counted w c)"
  proof (cases "closure_of l = Some w")
    case True
    then have "calls_left s l = calls_left s (Counted w c)" by (cases l) (simp_all add: calls_left_def)
    with f True show ?thesis by (auto split: if_splits)
  next
    case False
    with f show ?thesis by auto
  qed
  moreover have "map_wf (remaining s1) \<and> closures s1 = closures s" using f by simp
  ultimately show ?case using Cons.IH [of s1 cs2] Cons.prems(2) r by auto
qed simp

lemma step_count:
  assumes "map_wf (remaining s)" "w < closures s" "registry_step throws s e = (s', cs)"
  shows "map_wf (remaining s') \<and> w < closures s' \<and>
    length (filter (\<lambda>k. k = Counted w c) cs) + calls_left s' (Counted w c) \<le> calls_left s (Counted w c)"
proof (cases e)
  case (Event name)
  obtain cs' t where r: "call_listeners throws name (listeners_of s name) s = (cs', t)" by fastforce
  with assms Event have "cs = cs'" "s' = t" by (simp_all add: registry_step_def dispatch_def)
  with call_listeners_count [OF assms(1,2) r, of c] assms(2) show ?thesis by simp
qed (use assms in \<open>auto simp: registry_step_def EventsOnMultiple_def EventsOff_def EventsOffAll_def Let_def
      calls_left_def js.get_put js.wf_put split: if_splits\<close>)

lemma run_count:
  "map_wf (remaining s) \<Longrightarrow> w < closures s \<Longrightarrow>
   length (filter (\<lambda>k. k = Counted w c) (registry_run throws s es)) \<le> calls_left s (Counted w c)"
proof (induction es arbitrary: s)
  case (Cons e es)
  obtain s' cs where r: "registry_step throws s e = (s', cs)" by fastforce
  with step_count [OF Cons.prems r, of c] Cons.IH [of s'] show ?case by auto
qed simp

text \<open>
  Calls bounded: a callback subscribed for \<open>n\<close> calls, as \<open>EventsOnce\<close> subscribes one for one call, is called
  at most \<open>n\<close> times, whatever is subscribed, removed and delivered afterwards and whether it throws or not.
\<close>

theorem calls_bounded:
  assumes "registry_ok s" "n > 0" "EventsOnMultiple name c n s = (s', (name, l))"
  shows "length (filter (\<lambda>k. k = l) (registry_run throws s' es)) \<le> nat n"
proof -
  have l: "l = Counted (closures s) c" and s': "closures s' = Suc (closures s)"
    "remaining s' = map_set (closures s) (nat n) (remaining s)"
    using assms(2,3) by (auto simp: EventsOnMultiple_def Let_def)
  have wf: "map_wf (remaining s)" using assms(1) by (simp add: registry_ok_def)
  have "map_wf (remaining s')" unfolding s' using wf by (rule js.wf_put)
  from run_count [OF this, of "closures s" c throws es] show ?thesis
    using wf by (simp add: l s' calls_left_def js.get_put)
qed

theorem calls_bounded_witness:
  "length (filter (\<lambda>k. k = Counted 0 7) (registry_run (\<lambda>c. c = 7) (fst (EventsOnce ''a'' 7 registry_start))
      [Event ''a'', Event ''a'', Subscribe ''a'' 8 1, Event ''a''])) \<le> 1"
proof -
  have "EventsOnMultiple ''a'' 7 1 registry_start = (fst (EventsOnce ''a'' 7 registry_start), (''a'', Counted 0 7))"
    by (simp add: EventsOnce_def EventsOnMultiple_def registry_start_def Let_def)
  from calls_bounded [OF registry_start_ok _ this, of "\<lambda>c. c = 7"
      "[Event ''a'', Event ''a'', Subscribe ''a'' 8 1, Event ''a'']"] show ?thesis by simp
qed

section \<open>One socket\<close>

definition socket_ok :: "socket_state \<Rightarrow> bool" where
  "socket_ok s \<longleftrightarrow>
     (\<forall>i < length (sockets s). sockets s ! i \<noteq> Closing \<and> (sockets s ! i \<noteq> Closed \<longrightarrow> ws s = Some i)) \<and>
     (\<forall>i. ws s = Some i \<longrightarrow> i < length (sockets s) \<and> sockets s ! i \<noteq> Closed) \<and>
     (wsConnecting s \<longrightarrow> ws s \<noteq> None) \<and>
     (ws s = None \<longrightarrow> timers s \<noteq> [] \<or> sockets s = [] \<and> timer_count s = 0)"

lemma socket_ok_phase: "socket_ok s \<Longrightarrow> ws s = Some i \<Longrightarrow> sockets s ! i = Open \<or> sockets s ! i = Connecting"
  by (cases "sockets s ! i") (auto simp: socket_ok_def)

text \<open>Connecting again, with timers taken away: either there is a socket, or one is opened or a timer set.\<close>

lemma connect_ok:
  assumes "socket_ok s"
  shows "socket_ok (connectWebSocket refused (s\<lparr>timers := ts\<rparr>))"
proof (cases "ws s")
  case (Some i)
  with assms socket_ok_phase [OF assms Some] show ?thesis by (auto simp: connectWebSocket_def socket_ok_def)
next
  case None
  with assms show ?thesis by (auto simp: connectWebSocket_def socket_ok_def set_timer_def nth_append less_Suc_eq)
qed

interpretation one_socket: transition_system "\<lambda>s. s = socket_start" "socket_step False" socket_ok
proof
  fix s assume "s = socket_start"
  then show "socket_ok s" by (simp add: socket_ok_def socket_start_def)
next
  fix s t assume s: "socket_ok s" and step: "socket_step False s t"
  have connect: "socket_ok (connectWebSocket refused s)" for refused
    using connect_ok [OF s, of refused "timers s"] by simp
  have own: "ws s = Some i" if "i < length (sockets s)" "sockets s ! i \<noteq> Closed" for i
    using s that unfolding socket_ok_def by blast
  have close: "socket_ok (onclose i (s\<lparr>wsConnecting := b\<rparr>))" if "i < length (sockets s)" "sockets s ! i \<noteq> Closed" for i b
  proof -
    have "sockets s ! j = Closed" if "j < length (sockets s)" "j \<noteq> i" for j
      using own [OF that(1)] own [of i] that(2) \<open>i < length (sockets s)\<close> \<open>sockets s ! i \<noteq> Closed\<close> by fastforce
    then have "(sockets s)[i := Closed] ! j = Closed" if "j < length (sockets s)" for j
      using that \<open>i < length (sockets s)\<close> by (cases "j = i") simp_all
    then show ?thesis by (simp add: socket_ok_def onclose_def set_timer_def)
  qed
  from step show "socket_ok t"
  proof cases
    case (opens i)
    then have w: "ws s = Some i" using own [of i] by simp
    have "(sockets s)[i := Open] ! j \<noteq> Closing \<and> ((sockets s)[i := Open] ! j \<noteq> Closed \<longrightarrow> j = i)"
      if "j < length (sockets s)" for j
      using that s own [of j] w unfolding socket_ok_def by (cases "j = i") auto
    then show ?thesis using opens w by (auto simp: socket_ok_def onopen_def Let_def split: option.split)
  next
    case (closes i)
    then show ?thesis using close [of i "wsConnecting s"] by simp
  next
    case (failed i)
    then show ?thesis using close [of i False] by (auto simp: onerror_def)
  qed (simp_all add: connect connect_ok [OF s])
qed

text \<open>
  One live socket: as long as no code of the page runs while a socket is closing, events come in on at most
  one socket, so that each is delivered once, and whenever there is no socket after the first attempt to open
  one, a timer is pending that will try again.
\<close>

theorem one_live_socket:
  assumes "(socket_step False)\<^sup>*\<^sup>* socket_start s"
  shows "length (live_sockets s) \<le> 1 \<and> (\<forall>i \<in> set (live_sockets s). ws s = Some i) \<and>
    (ws s = None \<and> (timer_count s > 0 \<or> sockets s \<noteq> []) \<longrightarrow> timers s \<noteq> [])"
proof -
  have ok: "socket_ok s" by (rule one_socket.reachable_inv [OF refl assms])
  have own: "\<forall>i \<in> set (live_sockets s). ws s = Some i"
  proof
    fix i assume "i \<in> set (live_sockets s)"
    then have "i < length (sockets s)" "sockets s ! i \<noteq> Closed" by (simp_all add: live_sockets_def)
    with ok show "ws s = Some i" unfolding socket_ok_def by blast
  qed
  then have "set (live_sockets s) \<subseteq> set_option (ws s)" by auto
  then have "card (set (live_sockets s)) \<le> card (set_option (ws s))" by (intro card_mono) (cases "ws s", simp_all)
  also have "\<dots> \<le> 1" by (cases "ws s") simp_all
  finally have "length (live_sockets s) \<le> 1"
    using distinct_card [of "live_sockets s"] by (simp add: live_sockets_def)
  moreover have "ws s = None \<and> (timer_count s > 0 \<or> sockets s \<noteq> []) \<longrightarrow> timers s \<noteq> []"
    using ok [unfolded socket_ok_def, THEN conjunct2, THEN conjunct2, THEN conjunct2] by auto
  ultimately show ?thesis using own by simp
qed

text \<open>A connection is made, lost, and made again by the timer.\<close>

lemma reconnected:
  "(socket_step False)\<^sup>*\<^sup>* socket_start
     (connectWebSocket False ((onclose 0 (onopen 0 (connectWebSocket False socket_start)))\<lparr>timers := []\<rparr>))"
proof -
  let ?a = "connectWebSocket False socket_start"
  let ?b = "onopen 0 ?a" let ?c = "onclose 0 ?b"
  note d = connectWebSocket_def onopen_def onclose_def socket_start_def set_timer_def
  have "socket_step False socket_start ?a" by (rule socket_step.subscribe)
  moreover have "socket_step False ?a ?b" by (rule socket_step.opens) (simp_all add: d)
  moreover have "socket_step False ?b ?c" by (rule socket_step.closes) (simp_all add: d)
  moreover have "socket_step False ?c (connectWebSocket False (?c\<lparr>timers := []\<rparr>))"
    using socket_step.timer [of 0 ?c False False] by (simp add: d)
  ultimately show ?thesis by (meson rtranclp.rtrancl_into_rtrancl rtranclp.rtrancl_refl)
qed

theorem one_live_socket_witness:
  "length (live_sockets (connectWebSocket False ((onclose 0 (onopen 0 (connectWebSocket False socket_start)))\<lparr>timers := []\<rparr>))) \<le> 1"
  using one_live_socket [OF reconnected] by simp

text \<open>
  A listener added while a socket is closing opens the next one; the \<open>close\<close> event of the old one then forgets
  the new one, and the next listener opens a third: from then on every event is delivered twice.
\<close>

theorem late_close_duplicates: "\<exists>s. (socket_step True)\<^sup>*\<^sup>* socket_start s \<and> length (live_sockets s) = 2 \<and> timers s = []"
proof -
  define a where "a = onopen 0 (connectWebSocket False socket_start)"
  define b where "b = connectWebSocket False (a\<lparr>sockets := (sockets a)[0 := Closing]\<rparr>)"
  define c where "c = onopen 1 (onclose 0 b)"
  define d where "d = onopen 2 (connectWebSocket False c)"
  note defs = connectWebSocket_def onopen_def onclose_def socket_start_def set_timer_def a_def b_def c_def d_def
  have "(socket_step True)\<^sup>*\<^sup>* socket_start a"
  proof -
    have "socket_step True socket_start (connectWebSocket False socket_start)" by (rule socket_step.subscribe)
    moreover have "socket_step True (connectWebSocket False socket_start) a"
      unfolding a_def by (rule socket_step.opens) (simp_all add: defs)
    ultimately show ?thesis by simp
  qed
  moreover have "socket_step True a (a\<lparr>sockets := (sockets a)[0 := Closing]\<rparr>)"
    by (rule socket_step.closing) (simp_all add: defs)
  moreover have "socket_step True (a\<lparr>sockets := (sockets a)[0 := Closing]\<rparr>) b"
    unfolding b_def by (rule socket_step.subscribe)
  moreover have "socket_step True b (onclose 0 b)" by (rule socket_step.closes) (simp_all add: defs)
  moreover have "socket_step True (onclose 0 b) c" unfolding c_def by (rule socket_step.opens) (simp_all add: defs)
  moreover have "socket_step True c (connectWebSocket False c)" by (rule socket_step.subscribe)
  moreover have "socket_step True (connectWebSocket False c) d" unfolding d_def by (rule socket_step.opens) (simp_all add: defs)
  ultimately have "(socket_step True)\<^sup>*\<^sup>* socket_start d" by (meson rtranclp.rtrancl_into_rtrancl)
  moreover have "live_sockets d = [1, 2]" by (simp add: live_sockets_def defs upt_rec)
  moreover have "timers d = []" by (simp add: defs)
  ultimately show ?thesis by auto
qed

end
