(* ===== verification/PortForwards.thy ===== *)
theory PortForwards
  imports EventBridge
begin

text \<open>
  Port forwards and the forward of an ingress controller (\<open>hooks/usePortForwards.tsx\<close>,
  \<open>hooks/useIngressForward.tsx\<close>): the one listener their views share, how a view follows the events of the
  backend, and the actions on the ingress forward. The updates that React runs later are an explicit queue.
\<close>

section \<open>One listener for all views\<close>

record 'r hub =
  subscribers :: "nat list"
  globalEventHandler :: "nat option"
  handlers_made :: nat
  events :: 'r

definition hub_start :: "'r \<Rightarrow> 'r hub" where
  "hub_start r = \<lparr>subscribers = [], globalEventHandler = None, handlers_made = 0, events = r\<rparr>"

definition hub_mount :: "(string \<Rightarrow> nat \<Rightarrow> 'r \<Rightarrow> 'r) \<Rightarrow> string \<Rightarrow> nat \<Rightarrow> 'r hub \<Rightarrow> 'r hub" where
  "hub_mount on name sub s =
     (let s' = s\<lparr>subscribers := add_listener sub (subscribers s)\<rparr> in
      case globalEventHandler s' of
        Some _ \<Rightarrow> s'
      | None \<Rightarrow> s'\<lparr>globalEventHandler := Some (handlers_made s'), handlers_made := Suc (handlers_made s'),
                   events := on name (handlers_made s') (events s')\<rparr>)"

definition hub_unmount :: "(string \<Rightarrow> 'r \<Rightarrow> 'r) \<Rightarrow> string \<Rightarrow> nat \<Rightarrow> 'r hub \<Rightarrow> 'r hub" where
  "hub_unmount off name sub s =
     (let s' = s\<lparr>subscribers := filter (\<lambda>k. k \<noteq> sub) (subscribers s)\<rparr> in
      if subscribers s' = [] \<and> globalEventHandler s' \<noteq> None
      then s'\<lparr>events := off name (events s'), globalEventHandler := None\<rparr> else s')"

text \<open>The effect of a view: without the runtime object of the desktop, or out of sight, it does not subscribe.\<close>

definition hub_effect ::
  "bool \<Rightarrow> bool \<Rightarrow> (string \<Rightarrow> nat \<Rightarrow> 'r \<Rightarrow> 'r) \<Rightarrow> string \<Rightarrow> nat \<Rightarrow> 'r hub \<Rightarrow> 'r hub" where
  "hub_effect runtime isVisible on name sub s = (if \<not> runtime \<or> \<not> isVisible then s else hub_mount on name sub s)"

text \<open>Which subscribers an event reaches: each handler it calls goes through all of them.\<close>

definition hub_deliver :: "('r \<Rightarrow> string \<Rightarrow> nat list) \<Rightarrow> string \<Rightarrow> 'r hub \<Rightarrow> nat list" where
  "hub_deliver handlers name s = concat (map (\<lambda>_. subscribers s) (handlers (events s) name))"

datatype hub_op = Mount nat | Unmount nat

fun hub_step ::
  "(string \<Rightarrow> nat \<Rightarrow> 'r \<Rightarrow> 'r) \<Rightarrow> (string \<Rightarrow> 'r \<Rightarrow> 'r) \<Rightarrow> string \<Rightarrow> 'r hub \<Rightarrow> hub_op \<Rightarrow> 'r hub" where
  "hub_step on off name s (Mount sub) = hub_mount on name sub s"
| "hub_step on off name s (Unmount sub) = hub_unmount off name sub s"

section \<open>The events of port forwards\<close>

record pf_config =
  pf_id :: string
  pf_context :: string
  pf_ports :: "nat \<times> nat"

record active_forward =
  af_config :: "pf_config option"
  af_status :: string
  af_error :: string

datatype pf_kind = ConfigAdded | ConfigUpdated | ConfigRemoved | Started | Errored | Stopped | Unknown string

record pf_event =
  ev_type :: pf_kind
  ev_configId :: "string option"
  ev_config :: "pf_config option"
  ev_status :: "string option"
  ev_error :: "string option"

definition given_or :: "string \<Rightarrow> string option \<Rightarrow> string" where  \<comment> \<open>\<open>s || d\<close>\<close>
  "given_or d s = (case s of Some (c # cs) \<Rightarrow> c # cs | _ \<Rightarrow> d)"

definition for_id :: "string option \<Rightarrow> active_forward \<Rightarrow> bool" where  \<comment> \<open>\<open>af.config?.id === event.configId\<close>\<close>
  "for_id i af \<longleftrightarrow> map_option pf_id (af_config af) = i"

text \<open>The updater functions of the two states; \<open>Peek\<close> reads the configurations for an update of the other.\<close>

datatype cfg_update = AddConfig pf_config | ReplaceConfig pf_config | DropConfig "string option" | Peek pf_event
datatype act_update = DropForward "string option" | SetForward pf_event "pf_config list"

definition add_config :: "string \<Rightarrow> pf_config \<Rightarrow> pf_config list \<Rightarrow> pf_config list" where
  "add_config contextFilter c prev =
     (if List.find (\<lambda>k. pf_id k = pf_id c) prev \<noteq> None then prev
      else if contextFilter \<noteq> '''' \<and> pf_context c \<noteq> contextFilter then prev
      else prev @ [c])"

definition replace_config :: "pf_config \<Rightarrow> pf_config list \<Rightarrow> pf_config list" where
  "replace_config c prev = map (\<lambda>k. if pf_id k = pf_id c then c else k) prev"

definition drop_config :: "string option \<Rightarrow> pf_config list \<Rightarrow> pf_config list" where
  "drop_config i prev = filter (\<lambda>k. Some (pf_id k) \<noteq> i) prev"

fun run_cfg :: "string \<Rightarrow> cfg_update \<Rightarrow> pf_config list \<Rightarrow> pf_config list" where
  "run_cfg ctx (AddConfig c) prev = add_config ctx c prev"
| "run_cfg ctx (ReplaceConfig c) prev = replace_config c prev"
| "run_cfg ctx (DropConfig i) prev = drop_config i prev"
| "run_cfg ctx (Peek e) prev = prev"

definition set_forward :: "pf_event \<Rightarrow> pf_config list \<Rightarrow> active_forward list \<Rightarrow> active_forward list" where
  "set_forward e currentConfigs prev =
     (if List.find (for_id (ev_configId e)) prev \<noteq> None then
        map (\<lambda>af. if for_id (ev_configId e) af
                  then af\<lparr>af_status := given_or (af_status af) (ev_status e), af_error := given_or '''' (ev_error e)\<rparr>
                  else af) prev
      else (case List.find (\<lambda>k. Some (pf_id k) = ev_configId e) currentConfigs of
              Some cfg \<Rightarrow>
                if given_or '''' (ev_status e) \<noteq> ''''
                then prev @ [\<lparr>af_config = Some cfg, af_status = given_or '''' (ev_status e), af_error = given_or '''' (ev_error e)\<rparr>]
                else prev
            | None \<Rightarrow> prev))"

fun run_act :: "act_update \<Rightarrow> active_forward list \<Rightarrow> active_forward list" where
  "run_act (DropForward i) prev = filter (\<lambda>af. \<not> for_id i af) prev"
| "run_act (SetForward e cfgs) prev = set_forward e cfgs prev"

record pf_view =
  configs :: "pf_config list"
  activeForwards :: "active_forward list"
  cfg_queue :: "cfg_update list"
  act_queue :: "act_update list"

text \<open>
  The subscriber. React runs the updater of the configurations at once when \<open>eager\<close>, else with the next
  rendering.
\<close>

definition queue_peek :: "bool \<Rightarrow> pf_event \<Rightarrow> pf_view \<Rightarrow> pf_view" where
  "queue_peek eager e v =
     (if eager \<and> cfg_queue v = [] then v\<lparr>act_queue := act_queue v @ [SetForward e (configs v)]\<rparr>
      else v\<lparr>cfg_queue := cfg_queue v @ [Peek e]\<rparr>)"

definition subscriber :: "bool \<Rightarrow> pf_event \<Rightarrow> pf_view \<Rightarrow> pf_view" where
  "subscriber eager e v =
     (case ev_type e of
        ConfigAdded \<Rightarrow>
          (case ev_config e of Some c \<Rightarrow> v\<lparr>cfg_queue := cfg_queue v @ [AddConfig c]\<rparr> | None \<Rightarrow> v)
      | ConfigUpdated \<Rightarrow>
          (case ev_config e of Some c \<Rightarrow> v\<lparr>cfg_queue := cfg_queue v @ [ReplaceConfig c]\<rparr> | None \<Rightarrow> v)
      | ConfigRemoved \<Rightarrow>
          v\<lparr>cfg_queue := cfg_queue v @ [DropConfig (ev_configId e)],
            act_queue := act_queue v @ [DropForward (ev_configId e)]\<rparr>
      | Started \<Rightarrow> queue_peek eager e v
      | Errored \<Rightarrow> queue_peek eager e v
      | Stopped \<Rightarrow> v\<lparr>act_queue := act_queue v @ [DropForward (ev_configId e)]\<rparr>
      | Unknown _ \<Rightarrow> v)"

text \<open>A rendering runs the updates of the configurations, then those of the forwards.\<close>

fun run_cfgs :: "string \<Rightarrow> cfg_update list \<Rightarrow> pf_config list \<Rightarrow> pf_config list \<times> act_update list" where
  "run_cfgs ctx [] cfgs = (cfgs, [])"
| "run_cfgs ctx (u # us) cfgs =
     (let (cfgs', as) = run_cfgs ctx us (run_cfg ctx u cfgs)
      in (cfgs', (case u of Peek e \<Rightarrow> [SetForward e cfgs] | _ \<Rightarrow> []) @ as))"

definition render :: "string \<Rightarrow> pf_view \<Rightarrow> pf_view" where
  "render ctx v =
     (let (cfgs, as) = run_cfgs ctx (cfg_queue v) (configs v)
      in \<lparr>configs = cfgs, activeForwards = foldl (\<lambda>fs u. run_act u fs) (activeForwards v) (act_queue v @ as),
          cfg_queue = [], act_queue = []\<rparr>)"

text \<open>The first data, fetched from the backend.\<close>

definition fetchData :: "(string + pf_config list \<times> active_forward list) \<Rightarrow> pf_view \<Rightarrow> pf_view" where
  "fetchData answer v =
     (case answer of
        Inl _ \<Rightarrow> v
      | Inr (cfgs, active) \<Rightarrow> v\<lparr>configs := cfgs, activeForwards := active\<rparr>)"

definition isActive :: "string \<Rightarrow> pf_view \<Rightarrow> bool" where
  "isActive i v = list_ex (\<lambda>af. for_id (Some i) af \<and> af_status af = ''running'') (activeForwards v)"

definition getStatus :: "string \<Rightarrow> pf_view \<Rightarrow> string" where
  "getStatus i v =
     (case List.find (for_id (Some i)) (activeForwards v) of
        Some af \<Rightarrow> if af_status af \<noteq> '''' then af_status af else ''stopped'' | None \<Rightarrow> ''stopped'')"

definition getError :: "string \<Rightarrow> pf_view \<Rightarrow> string" where
  "getError i v = (case List.find (for_id (Some i)) (activeForwards v) of Some af \<Rightarrow> af_error af | None \<Rightarrow> '''')"

section \<open>The ingress forward\<close>

record ingress_state =
  ing_active :: bool
  ing_status :: string
  ing_error :: string
  ing_hostnames :: "string list"

definition no_ingress :: ingress_state where
  "no_ingress = \<lparr>ing_active = False, ing_status = ''stopped'', ing_error = '''', ing_hostnames = []\<rparr>"

record ingress_view =
  ing_state :: ingress_state
  detectedController :: "string option"
  detectionAttempted :: bool
  previewHostnames :: "string list"
  ing_loading :: bool
  detecting :: bool
  error :: "string option"

type_synonym 'a answer = "string + 'a"

definition fetchState :: "ingress_state option answer \<Rightarrow> ingress_view \<Rightarrow> ingress_view" where
  "fetchState a v =
     (case a of
        Inl e \<Rightarrow> v\<lparr>error := Some e\<rparr>
      | Inr s \<Rightarrow> v\<lparr>ing_state := (case s of Some s \<Rightarrow> s | None \<Rightarrow> no_ingress)\<rparr>)"

definition ingress_event :: "string \<Rightarrow> ingress_state option \<Rightarrow> ingress_view \<Rightarrow> ingress_view" where
  "ingress_event type' st v =
     (case st of
        None \<Rightarrow> v
      | Some s \<Rightarrow>
          (let v' = v\<lparr>ing_state := s\<rparr> in
           if type' = ''error'' \<and> ing_error s \<noteq> '''' then v'\<lparr>error := Some (ing_error s)\<rparr> else v'))"

definition detectController :: "string option answer \<Rightarrow> ingress_view \<Rightarrow> ingress_view" where
  "detectController a v =
     (let v' = v\<lparr>detecting := True, error := None\<rparr> in
      (case a of
         Inr c \<Rightarrow> v'\<lparr>detectedController := c, detectionAttempted := True\<rparr>
       | Inl e \<Rightarrow> v'\<lparr>error := Some e, detectedController := None, detectionAttempted := True\<rparr>)\<lparr>detecting := False\<rparr>)"

definition previewHosts :: "string list answer \<Rightarrow> ingress_view \<Rightarrow> ingress_view" where
  "previewHosts a v = (case a of Inr hs \<Rightarrow> v\<lparr>previewHostnames := hs\<rparr> | Inl e \<Rightarrow> v\<lparr>error := Some e\<rparr>)"

text \<open>Starting, stopping and refreshing: a call, and on its success the state is fetched again.\<close>

definition ingress_call ::
  "(ingress_view \<Rightarrow> ingress_view) \<Rightarrow> unit answer \<Rightarrow> ingress_state option answer \<Rightarrow> ingress_view \<Rightarrow> ingress_view \<times> string option" where
  "ingress_call andthen a fetched v =
     (let v' = v\<lparr>ing_loading := True, error := None\<rparr> in
      case a of
        Inl e \<Rightarrow> (v'\<lparr>error := Some e, ing_loading := False\<rparr>, Some e)
      | Inr _ \<Rightarrow> ((andthen (fetchState fetched v'))\<lparr>ing_loading := False\<rparr>, None))"

definition start_ingress :: "unit answer \<Rightarrow> ingress_state option answer \<Rightarrow> ingress_view \<Rightarrow> ingress_view \<times> string option" where
  "start_ingress = ingress_call (\<lambda>v. v)"

definition stop_ingress :: "unit answer \<Rightarrow> ingress_state option answer \<Rightarrow> ingress_view \<Rightarrow> ingress_view \<times> string option" where
  "stop_ingress = ingress_call (\<lambda>v. v\<lparr>previewHostnames := []\<rparr>)"

definition refreshHostnames :: "unit answer \<Rightarrow> ingress_state option answer \<Rightarrow> ingress_view \<Rightarrow> ingress_view \<times> string option" where
  "refreshHostnames = ingress_call (\<lambda>v. v)"

definition resetDetection :: "ingress_view \<Rightarrow> ingress_view" where
  "resetDetection v = v\<lparr>detectedController := None, detectionAttempted := False, previewHostnames := [], error := None\<rparr>"

section \<open>Every view hears of an event once\<close>

text \<open>
  What the hooks rely on from the runtime, that of the desktop application or the adapter: a handler added where
  there is none is the one called, and \<open>EventsOff\<close> removes all.
\<close>

locale event_source =
  fixes on :: "string \<Rightarrow> nat \<Rightarrow> 'r \<Rightarrow> 'r"
    and off :: "string \<Rightarrow> 'r \<Rightarrow> 'r"
    and handlers :: "'r \<Rightarrow> string \<Rightarrow> nat list"
    and good :: "'r \<Rightarrow> bool"
  assumes handlers_on: "good r \<Longrightarrow> handlers r name = [] \<Longrightarrow> handlers (on name h r) name = [h]"
    and handlers_off: "good r \<Longrightarrow> handlers (off name r) name = []"
    and good_on: "good r \<Longrightarrow> good (on name h r)"
    and good_off: "good r \<Longrightarrow> good (off name r)"
begin

definition hub_ok :: "string \<Rightarrow> 'r hub \<Rightarrow> bool" where
  "hub_ok name s \<longleftrightarrow>
     good (events s) \<and> distinct (subscribers s) \<and> (globalEventHandler s = None \<longleftrightarrow> subscribers s = []) \<and>
     handlers (events s) name = (case globalEventHandler s of None \<Rightarrow> [] | Some h \<Rightarrow> [h])"

lemma hub_step_ok: "hub_ok name s \<Longrightarrow> hub_ok name (hub_step on off name s e)"
proof (cases e)
  case (Mount sub)
  assume "hub_ok name s"
  with Mount show ?thesis
    by (auto simp: hub_ok_def hub_mount_def Let_def add_listener_def handlers_on good_on split: option.splits)
next
  case (Unmount sub)
  assume "hub_ok name s"
  with Unmount show ?thesis
    by (auto simp: hub_ok_def hub_unmount_def Let_def handlers_off good_off split: option.splits)
qed

lemma hub_run_ok: "hub_ok name s \<Longrightarrow> hub_ok name (foldl (hub_step on off name) s ops)"
  by (induction ops arbitrary: s) (auto intro: hub_step_ok)

lemma hub_delivers:
  assumes "good r" "handlers r name = []"
  shows "let s = foldl (hub_step on off name) (hub_start r) ops in
    hub_deliver handlers name s = subscribers s \<and> distinct (subscribers s) \<and>
    (subscribers s = [] \<longleftrightarrow> handlers (events s) name = [])"
proof -
  have "hub_ok name (hub_start r)" using assms by (simp add: hub_ok_def hub_start_def)
  then have "hub_ok name (foldl (hub_step on off name) (hub_start r) ops)" by (rule hub_run_ok)
  then show ?thesis by (auto simp: hub_ok_def hub_deliver_def Let_def split: option.splits)
qed

end

definition adapter_on :: "string \<Rightarrow> nat \<Rightarrow> event_registry \<Rightarrow> event_registry" where
  "adapter_on name h r = fst (EventsOn name h r)"

definition adapter_off :: "string \<Rightarrow> event_registry \<Rightarrow> event_registry" where
  "adapter_off name r = EventsOff [name] r"

fun callback_of :: "listener \<Rightarrow> nat" where
  "callback_of (Direct c) = c"
| "callback_of (Counted w c) = c"

definition adapter_handlers :: "event_registry \<Rightarrow> string \<Rightarrow> nat list" where
  "adapter_handlers r name = map callback_of (fst (dispatch (\<lambda>_. False) name r))"

lemma dispatch_exact:
  assumes "registry_ok r"
  shows "fst (dispatch throws name r) = filter (\<lambda>l. calls_left r l > 0) (listeners_of r name)"
proof -
  note l = registry_ok_listeners [OF assms, of name]
  have "\<forall>k \<in> set (listeners_of r name). \<forall>l \<in> set (listeners_of r name).
      closure_of k = closure_of l \<and> closure_of k \<noteq> None \<longrightarrow> k = l"
    using l unfolding listeners_ok_def by (metis option.exhaust)
  then show ?thesis using assms l by (simp add: dispatch_def call_listeners_exact registry_ok_def listeners_ok_def)
qed

interpretation adapter: event_source adapter_on adapter_off adapter_handlers registry_ok
proof
  fix r :: event_registry and name h assume r: "registry_ok r"
  show ok: "registry_ok (adapter_on name h r)" unfolding adapter_on_def EventsOn_def by (rule subscribe_ok [OF r])
  show "registry_ok (adapter_off name r)" unfolding adapter_off_def by (rule off_ok [OF r])
  then show "adapter_handlers (adapter_off name r) name = []"
    using r by (simp add: adapter_handlers_def dispatch_exact adapter_off_def EventsOff_def listeners_of_def registry_ok_def js.get_del)
  assume "adapter_handlers r name = []"
  then have none: "filter (\<lambda>l. calls_left r l > 0) (listeners_of r name) = []"
    using r by (simp add: adapter_handlers_def dispatch_exact)
  then have "Direct h \<notin> set (listeners_of r name)" by (auto simp: filter_empty_conv calls_left_def)
  then have "listeners_of (adapter_on name h r) name = listeners_of r name @ [Direct h]"
    using r by (simp add: adapter_on_def EventsOn_def EventsOnMultiple_def listeners_of_def registry_ok_def js.get_put Let_def add_listener_def)
  moreover have "calls_left (adapter_on name h r) l = calls_left r l" for l
    by (simp add: adapter_on_def EventsOn_def EventsOnMultiple_def Let_def calls_left_def split: listener.split)
  ultimately show "adapter_handlers (adapter_on name h r) name = [h]"
    using ok none by (simp add: adapter_handlers_def dispatch_exact) (simp add: calls_left_def)
qed

text \<open>In the browser there is no such object, and no view hears of any event.\<close>

theorem deaf_in_browser:
  "hub_deliver adapter_handlers name
     (foldl (\<lambda>s (sub, visible). hub_effect False visible adapter_on name sub s) (hub_start registry_start) views) = []"
proof -
  have "foldl (\<lambda>s (sub, visible). hub_effect False visible adapter_on name sub s) s views = s" for s
    by (induction views) (auto simp: hub_effect_def)
  then show ?thesis by (simp add: hub_deliver_def hub_start_def)
qed

text \<open>
  Hub delivers once: however the views come and go, an event of the backend reaches exactly the mounted ones,
  each of them once, through the one listener they share; when the last view goes, the listener goes with it.
\<close>

theorem hub_delivers_once:
  "let s = foldl (hub_step adapter_on adapter_off name) (hub_start registry_start) ops in
   hub_deliver adapter_handlers name s = subscribers s \<and> distinct (subscribers s) \<and>
   (subscribers s = [] \<longleftrightarrow> adapter_handlers (events s) name = [])"
  by (rule adapter.hub_delivers [OF registry_start_ok])
    (simp add: adapter_handlers_def dispatch_exact [OF registry_start_ok], simp add: listeners_of_def registry_start_def)

section \<open>A view follows the backend\<close>

text \<open>What the backend holds, and what each of its events does to it.\<close>

record backend =
  be_configs :: "string \<Rightarrow> pf_config option"
  be_active :: "string \<Rightarrow> (string \<times> string) option"  \<comment> \<open>status and error\<close>

datatype backend_op =
    Added pf_config
  | Updated pf_config
  | Removed string
  | SetStatus string string string
  | Ended string

fun legal :: "backend \<Rightarrow> backend_op \<Rightarrow> bool" where
  "legal b (Added c) \<longleftrightarrow> be_configs b (pf_id c) = None"
| "legal b (Updated c) \<longleftrightarrow> (\<exists>d. be_configs b (pf_id c) = Some d \<and> pf_context d = pf_context c)"
| "legal b (Removed i) \<longleftrightarrow> be_configs b i \<noteq> None"
| "legal b (SetStatus i st err) \<longleftrightarrow> be_configs b i \<noteq> None \<and> st \<noteq> ''''"
| "legal b (Ended i) \<longleftrightarrow> True"

fun backend_apply :: "backend \<Rightarrow> backend_op \<Rightarrow> backend" where
  "backend_apply b (Added c) = b\<lparr>be_configs := (be_configs b)(pf_id c \<mapsto> c)\<rparr>"
| "backend_apply b (Updated c) = b\<lparr>be_configs := (be_configs b)(pf_id c \<mapsto> c)\<rparr>"
| "backend_apply b (Removed i) = b\<lparr>be_configs := (be_configs b)(i := None), be_active := (be_active b)(i := None)\<rparr>"
| "backend_apply b (SetStatus i st err) = b\<lparr>be_active := (be_active b)(i \<mapsto> (st, err))\<rparr>"
| "backend_apply b (Ended i) = b\<lparr>be_active := (be_active b)(i := None)\<rparr>"

definition blank_event :: "pf_kind \<Rightarrow> string \<Rightarrow> pf_event" where
  "blank_event k i = \<lparr>ev_type = k, ev_configId = Some i, ev_config = None, ev_status = None, ev_error = None\<rparr>"

fun event_of :: "backend_op \<Rightarrow> pf_event" where
  "event_of (Added c) = (blank_event ConfigAdded (pf_id c))\<lparr>ev_config := Some c\<rparr>"
| "event_of (Updated c) = (blank_event ConfigUpdated (pf_id c))\<lparr>ev_config := Some c\<rparr>"
| "event_of (Removed i) = blank_event ConfigRemoved i"
| "event_of (SetStatus i st err) =
     (blank_event (if st = ''error'' then Errored else Started) i)\<lparr>ev_status := Some st, ev_error := Some err\<rparr>"
| "event_of (Ended i) = (blank_event Stopped i)\<lparr>ev_status := Some ''stopped''\<rparr>"

definition wanted :: "string \<Rightarrow> pf_config \<Rightarrow> bool" where
  "wanted ctx c \<longleftrightarrow> ctx = '''' \<or> pf_context c = ctx"

definition status_of :: "active_forward option \<Rightarrow> (string \<times> string) option" where
  "status_of = map_option (\<lambda>af. (af_status af, af_error af))"

definition find_config :: "string \<Rightarrow> pf_config list \<Rightarrow> pf_config option" where
  "find_config i = List.find (\<lambda>k. pf_id k = i)"

definition find_forward :: "string \<Rightarrow> active_forward list \<Rightarrow> active_forward option" where
  "find_forward i = List.find (for_id (Some i))"

text \<open>
  The view shows the configurations of its context, and the status of each of these; of configurations it does
  not show it may hold an old status, of those that are gone it holds none.
\<close>

definition view_of :: "string \<Rightarrow> backend \<Rightarrow> pf_view \<Rightarrow> bool" where
  "view_of ctx b v \<longleftrightarrow>
     cfg_queue v = [] \<and> act_queue v = [] \<and>
     (\<forall>i c. be_configs b i = Some c \<longrightarrow> pf_id c = i) \<and>
     (\<forall>i. find_config i (configs v) = (case be_configs b i of Some c \<Rightarrow> if wanted ctx c then Some c else None | None \<Rightarrow> None)) \<and>
     (\<forall>i. find_config i (configs v) \<noteq> None \<longrightarrow> status_of (find_forward i (activeForwards v)) = be_active b i) \<and>
     (\<forall>i. be_configs b i = None \<longrightarrow> find_forward i (activeForwards v) = None \<and> be_active b i = None)"

lemma find_append: "List.find P (xs @ ys) = (case List.find P xs of Some x \<Rightarrow> Some x | None \<Rightarrow> List.find P ys)"
  by (induction xs) auto

lemma find_config_add:
  "find_config (pf_id c) cs = None \<Longrightarrow>
   find_config i (add_config ctx c cs) = (if i = pf_id c \<and> wanted ctx c then Some c else find_config i cs)"
  by (auto simp: find_config_def add_config_def wanted_def find_append split: option.splits)

lemma find_config_replace:
  "find_config i (replace_config c cs) =
     (if i = pf_id c then map_option (\<lambda>_. c) (find_config i cs) else find_config i cs)"
  by (induction cs) (auto simp: find_config_def replace_config_def)

lemma find_config_drop: "find_config i (drop_config (Some j) cs) = (if i = j then None else find_config i cs)"
  by (induction cs) (auto simp: find_config_def drop_config_def)

lemma find_forward_drop:
  "find_forward i (filter (\<lambda>af. \<not> for_id (Some j) af) fs) = (if i = j then None else find_forward i fs)"
proof (induction fs)
  case (Cons a fs)
  have "for_id (Some i) a \<Longrightarrow> for_id (Some j) a \<Longrightarrow> i = j" by (auto simp: for_id_def)
  with Cons show ?case by (cases "for_id (Some i) a"; cases "for_id (Some j) a") (auto simp: find_forward_def)
qed (simp add: find_forward_def)

lemma find_forward_map:
  "(\<And>af. for_id (Some i) (f af) = for_id (Some i) af) \<Longrightarrow> find_forward i (map f fs) = map_option f (find_forward i fs)"
  by (induction fs) (auto simp: find_forward_def)

lemma find_config_id: "find_config i cs = Some c \<Longrightarrow> pf_id c = i"
  by (induction cs) (auto simp: find_config_def split: if_splits)

lemma find_forward_id: "find_forward i fs = Some a \<Longrightarrow> for_id (Some i) a"
  by (induction fs) (auto simp: find_forward_def split: if_splits)

lemma find_forward_set:
  assumes "ev_configId e = Some j" "ev_status e = Some st" "ev_error e = Some err" "st \<noteq> ''''"
  shows "status_of (find_forward i (set_forward e cs fs)) =
      (if i = j \<and> (find_forward j fs \<noteq> None \<or> find_config j cs \<noteq> None) then Some (st, err) else status_of (find_forward i fs)) \<and>
    (find_forward i (set_forward e cs fs) = None \<longleftrightarrow>
       find_forward i fs = None \<and> \<not> (i = j \<and> find_config j cs \<noteq> None))"
proof -
  have st: "given_or d (Some st) = st" for d using assms(4) by (cases st) (simp_all add: given_or_def)
  have err: "given_or '''' (Some err) = err" by (cases err) (simp_all add: given_or_def)
  show ?thesis
  proof (cases "find_forward j fs")
    case (Some af)
    define f where "f = (\<lambda>af. if for_id (Some j) af then af\<lparr>af_status := st, af_error := err\<rparr> else af)"
    have eq: "set_forward e cs fs = map f fs"
      using Some assms(1-3) by (simp add: set_forward_def find_forward_def f_def st err cong: if_cong)
    have m: "find_forward i (map f fs) = map_option f (find_forward i fs)"
      by (rule find_forward_map) (simp add: f_def for_id_def)
    show ?thesis
    proof (cases "find_forward i fs")
      case None
      then show ?thesis using Some by (auto simp: eq m status_of_def)
    next
      case (Some a)
      then have "for_id (Some i) a" by (rule find_forward_id)
      then have "for_id (Some j) a \<longleftrightarrow> i = j" by (auto simp: for_id_def)
      then have "f a = (if i = j then a\<lparr>af_status := st, af_error := err\<rparr> else a)" by (simp add: f_def)
      with Some \<open>find_forward j fs = Some af\<close> show ?thesis by (simp add: eq m status_of_def)
    qed
  next
    case None
    show ?thesis
    proof (cases "find_config j cs")
      case None
      then have "set_forward e cs fs = fs"
        using \<open>find_forward j fs = None\<close> assms(1) by (simp add: set_forward_def find_forward_def find_config_def)
      with None \<open>find_forward j fs = None\<close> show ?thesis by simp
    next
      case (Some c)
      then have "set_forward e cs fs = fs @ [\<lparr>af_config = Some c, af_status = st, af_error = err\<rparr>]"
        using \<open>find_forward j fs = None\<close> assms by (simp add: set_forward_def find_forward_def find_config_def st err)
      with Some \<open>find_forward j fs = None\<close> find_config_id [OF Some] show ?thesis
        by (auto simp: find_forward_def find_append status_of_def for_id_def split: option.split)
    qed
  qed
qed

definition follow :: "string \<Rightarrow> bool \<Rightarrow> pf_view \<Rightarrow> backend_op \<Rightarrow> pf_view" where
  "follow ctx eager v op = render ctx (subscriber eager (event_of op) v)"

lemma follow_simps:
  assumes "cfg_queue v = []" "act_queue v = []"
  shows "follow ctx eager v op =
    v\<lparr>configs := (case op of Added c \<Rightarrow> add_config ctx c (configs v) | Updated c \<Rightarrow> replace_config c (configs v)
                  | Removed i \<Rightarrow> drop_config (Some i) (configs v) | _ \<Rightarrow> configs v),
      activeForwards := (case op of
          SetStatus i st err \<Rightarrow> set_forward (event_of op) (configs v) (activeForwards v)
        | Removed i \<Rightarrow> filter (\<lambda>af. \<not> for_id (Some i) af) (activeForwards v)
        | Ended i \<Rightarrow> filter (\<lambda>af. \<not> for_id (Some i) af) (activeForwards v)
        | _ \<Rightarrow> activeForwards v)\<rparr>"
  using assms
  by (cases op) (simp_all add: follow_def render_def subscriber_def blank_event_def queue_peek_def)

lemma follow_view:
  assumes v: "view_of ctx b v" and l: "legal b op"
  shows "view_of ctx (backend_apply b op) (follow ctx eager v op)"
proof -
  have q: "cfg_queue v = []" "act_queue v = []"
    and ids: "\<And>i c. be_configs b i = Some c \<Longrightarrow> pf_id c = i"
    and cfg: "\<And>i. find_config i (configs v) = (case be_configs b i of Some c \<Rightarrow> if wanted ctx c then Some c else None | None \<Rightarrow> None)"
    and act: "\<And>i. find_config i (configs v) \<noteq> None \<Longrightarrow> status_of (find_forward i (activeForwards v)) = be_active b i"
    and gone: "\<And>i. be_configs b i = None \<Longrightarrow> find_forward i (activeForwards v) = None \<and> be_active b i = None"
    using v unfolding view_of_def by blast+
  note F = follow_simps [OF q, of ctx eager op]
  show ?thesis
  proof (cases op)
    case (Added c)
    with l have new: "be_configs b (pf_id c) = None" by simp
    then have "find_config (pf_id c) (configs v) = None" using cfg [of "pf_id c"] by simp
    note add = find_config_add [OF this]
    have "status_of (find_forward (pf_id c) (activeForwards v)) = be_active b (pf_id c)"
      using gone [OF new] by (simp add: status_of_def)
    with Added show ?thesis unfolding F view_of_def
      using q ids cfg act gone new by (auto simp: add split: if_splits)
  next
    case (Updated c)
    then obtain d where d: "be_configs b (pf_id c) = Some d" "pf_context d = pf_context c" using l by auto
    then have w: "wanted ctx d = wanted ctx c" by (simp add: wanted_def)
    with d cfg [of "pf_id c"] have "find_config (pf_id c) (configs v) = (if wanted ctx c then Some d else None)" by simp
    with Updated show ?thesis unfolding F view_of_def
      using q ids cfg act gone d w by (auto simp: find_config_replace split: if_splits)
  next
    case (Removed i)
    with ids cfg act gone q show ?thesis unfolding F view_of_def
      by (auto simp: find_config_drop find_forward_drop status_of_def)
  next
    case (SetStatus i st err)
    with l have i: "be_configs b i \<noteq> None" "st \<noteq> ''''" by simp_all
    have ev: "ev_configId (event_of op) = Some i" "ev_status (event_of op) = Some st" "ev_error (event_of op) = Some err"
      using SetStatus by (simp_all add: blank_event_def)
    note set = find_forward_set [OF ev i(2), of _ "configs v" "activeForwards v"]
    have "status_of (find_forward j (set_forward (event_of op) (configs v) (activeForwards v))) =
        ((be_active b)(i \<mapsto> (st, err))) j" if "find_config j (configs v) \<noteq> None" for j
      using set [of j] act [OF that] that by auto
    moreover have "find_forward j (set_forward (event_of op) (configs v) (activeForwards v)) = None"
      if "be_configs b j = None" for j
      using set [of j] gone [OF that] that i(1) by auto
    ultimately show ?thesis unfolding F view_of_def using SetStatus q ids cfg gone i by auto
  next
    case (Ended i)
    with ids cfg act gone q show ?thesis unfolding F view_of_def
      by (auto simp: find_forward_drop status_of_def)
  qed
qed

fun legal_run :: "backend \<Rightarrow> backend_op list \<Rightarrow> bool" where
  "legal_run b [] \<longleftrightarrow> True"
| "legal_run b (op # ops) \<longleftrightarrow> legal b op \<and> legal_run (backend_apply b op) ops"

lemma follow_run:
  "view_of ctx b v \<Longrightarrow> legal_run b ops \<Longrightarrow>
   view_of ctx (foldl backend_apply b ops) (foldl (follow ctx eager) v ops)"
  by (induction ops arbitrary: b v) (auto intro: follow_view)

definition shown_status :: "(string \<times> string) option \<Rightarrow> string" where
  "shown_status a = (case a of Some (st, _) \<Rightarrow> if st \<noteq> '''' then st else ''stopped'' | None \<Rightarrow> ''stopped'')"

text \<open>
  Forwards refined: a view that rendered each event before the next one came shows exactly the configurations
  of its context, and for each of them the status and the error the backend holds for it.
\<close>

theorem forwards_refined:
  assumes "view_of ctx b v" "legal_run b ops"
    and "b' = foldl backend_apply b ops" "v' = foldl (follow ctx eager) v ops"
  shows "find_config i (configs v') = (case be_configs b' i of Some c \<Rightarrow> if wanted ctx c then Some c else None | None \<Rightarrow> None) \<and>
    (find_config i (configs v') \<noteq> None \<longrightarrow>
       getStatus i v' = shown_status (be_active b' i) \<and>
       getError i v' = (case be_active b' i of Some (_, err) \<Rightarrow> err | None \<Rightarrow> ''''))"
proof -
  have v: "view_of ctx b' v'" unfolding assms(3,4) using assms(1,2) by (rule follow_run)
  then have "find_config i (configs v') \<noteq> None \<Longrightarrow> status_of (find_forward i (activeForwards v')) = be_active b' i"
    unfolding view_of_def by blast
  then have "find_config i (configs v') \<noteq> None \<Longrightarrow>
      getStatus i v' = shown_status (be_active b' i) \<and> getError i v' = (case be_active b' i of Some (_, err) \<Rightarrow> err | None \<Rightarrow> '''')"
    by (cases "find_forward i (activeForwards v')")
      (auto simp: status_of_def getStatus_def getError_def shown_status_def find_forward_def dest: sym)
  with v show ?thesis unfolding view_of_def by blast
qed

definition empty_backend :: backend where
  "empty_backend = \<lparr>be_configs = Map.empty, be_active = Map.empty\<rparr>"

definition empty_view :: pf_view where
  "empty_view = \<lparr>configs = [], activeForwards = [], cfg_queue = [], act_queue = []\<rparr>"

definition demo_config :: pf_config where
  "demo_config = \<lparr>pf_id = ''1'', pf_context = ''kind'', pf_ports = (8080, 80)\<rparr>"

lemma empty_view_of: "view_of ctx empty_backend empty_view"
  by (simp add: view_of_def empty_backend_def empty_view_def find_config_def find_forward_def)

theorem forwards_refined_witness:
  "getStatus ''1'' (foldl (follow ''kind'' True) empty_view
     [Added demo_config, SetStatus ''1'' ''starting'' '''', SetStatus ''1'' ''running'' '''']) = ''running''"
proof -
  let ?ops = "[Added demo_config, SetStatus ''1'' ''starting'' '''', SetStatus ''1'' ''running'' '''']"
  have "legal_run empty_backend ?ops" by (simp add: empty_backend_def demo_config_def)
  from forwards_refined [OF empty_view_of this refl refl, where ctx = "''kind''" and eager = True and i = "''1''"] show ?thesis
    by (simp add: empty_backend_def demo_config_def wanted_def shown_status_def)
qed

text \<open>
  Of a start and a stop that come before the next rendering, while another update waits, the stop is run
  first: the forward stays on the screen as running.
\<close>

theorem stop_overtaken_by_start:
  "activeForwards (render '''' (subscriber False (event_of (Ended ''1''))
     (subscriber False (event_of (SetStatus ''1'' ''running'' '''')) (empty_view\<lparr>configs := [demo_config]\<rparr>)))) =
   [\<lparr>af_config = Some demo_config, af_status = ''running'', af_error = ''''\<rparr>]"
  by (simp add: render_def subscriber_def blank_event_def queue_peek_def empty_view_def demo_config_def set_forward_def
      for_id_def given_or_def)

text \<open>
  While a forward reconnects the backend sends events of type \<open>reconnecting\<close>; the view ignores them and shows
  the forward as running.
\<close>

theorem reconnecting_not_shown:
  "ev_type e = Unknown ''reconnecting'' \<Longrightarrow> subscriber eager e v = v"
  by (simp add: subscriber_def)

text \<open>An action on the ingress forward always takes back its loading flag, and an error is kept for the user.\<close>

lemma ingress_call_settles:
  assumes "\<And>v. error (andthen v) = error v"
  shows "\<not> ing_loading (fst (ingress_call andthen a fetched v)) \<and>
    (case a of Inl e \<Rightarrow> error (fst (ingress_call andthen a fetched v)) = Some e \<and> snd (ingress_call andthen a fetched v) = Some e
     | Inr _ \<Rightarrow> snd (ingress_call andthen a fetched v) = None \<and>
         error (fst (ingress_call andthen a fetched v)) = (case fetched of Inl e \<Rightarrow> Some e | Inr _ \<Rightarrow> None))"
  by (cases a; cases fetched) (simp_all add: ingress_call_def fetchState_def assms)

end
