(* ===== verification/ClusterContexts.thy ===== *)
theory ClusterContexts
  imports NamespaceOptions PollingBudget ResourceTable
begin

text \<open>
  The provider of the cluster contexts (\<open>context/K8sContext.tsx\<close>): the list of contexts and the one to start
  with, the namespaces that are saved and restored per context with the effects that do it, and the cache of
  custom resource definitions. A stored text is an object the application wrote, or no JSON at all (\<open>None\<close>).
  Updates queued by one piece of code are rendered together; then the effects run in the order they are written.
\<close>

section \<open>The list of contexts\<close>

definition compare_contexts :: "(string \<Rightarrow> 'k::linorder) \<Rightarrow> (string, nat) js_map \<Rightarrow> string \<Rightarrow> string \<Rightarrow> int" where
  "compare_contexts collate accessed a b =
     (let timeA = (case map_get accessed a of Some t \<Rightarrow> t | None \<Rightarrow> 0);
          timeB = (case map_get accessed b of Some t \<Rightarrow> t | None \<Rightarrow> 0)
      in if timeA \<noteq> timeB then int timeB - int timeA else locale_compare collate a b)"

definition sortedContexts :: "(string \<Rightarrow> 'k::linorder) \<Rightarrow> (string, nat) js_map \<Rightarrow> string list \<Rightarrow> string list" where
  "sortedContexts collate accessed contexts = js_sort (compare_contexts collate accessed) contexts"

definition updateContextAccessTime :: "string \<Rightarrow> nat \<Rightarrow> (string, nat) js_map \<Rightarrow> (string, nat) js_map" where
  "updateContextAccessTime ctx now accessed = (if ctx = '''' then accessed else map_set ctx now accessed)"

text \<open>\<open>switched\<close>: whether the backend accepts the context used last.\<close>

definition context_to_use :: "string option \<Rightarrow> string list \<Rightarrow> string \<Rightarrow> bool \<Rightarrow> string" where
  "context_to_use savedContext sortedList kubectl switched =
     (case savedContext of
        Some c \<Rightarrow> if c \<noteq> '''' \<and> c \<in> set sortedList \<and> c \<noteq> kubectl \<and> switched then c else kubectl
      | None \<Rightarrow> kubectl)"

definition refreshContextsIfChanged :: "string list \<Rightarrow> string list \<Rightarrow> string list" where
  "refreshContextsIfChanged sortedList prev =
     (if length prev \<noteq> length sortedList \<or> list_ex (\<lambda>(i, ctx). prev ! i \<noteq> ctx) (enumerate 0 sortedList)
      then sortedList else prev)"

section \<open>Saved namespaces\<close>

type_synonym saved_states = "(string, (string, jsv) js_map option) js_map"

definition texts :: "jsv list \<Rightarrow> string list" where
  "texts xs = List.map_filter (\<lambda>x. case x of JStr s \<Rightarrow> Some s | _ \<Rightarrow> None) xs"

definition loadContextState :: "saved_states \<Rightarrow> string \<Rightarrow> string list" where
  "loadContextState st ctx =
     (case map_get st ctx of
        Some (Some parsed) \<Rightarrow>
          (case map_get parsed ''namespace'' of
             Some (JStr (c # cs)) \<Rightarrow> [c # cs]
           | _ \<Rightarrow> (case map_get parsed ''namespaces'' of Some (JArr xs) \<Rightarrow> texts xs | _ \<Rightarrow> [''*'']))
      | _ \<Rightarrow> [''*''])"

definition saveContextState :: "string \<Rightarrow> string list \<Rightarrow> saved_states \<Rightarrow> saved_states" where
  "saveContextState ctx ns st =
     (if ctx = '''' then st
      else let existing = (case map_get st ctx of Some (Some doc) \<Rightarrow> doc | _ \<Rightarrow> []) in
        map_set ctx (Some (map_delete ''namespace'' (map_set ''namespaces'' (JArr (map JStr ns)) existing))) st)"

section \<open>Rendering and effects\<close>

record cluster_state = namespace_state +
  current :: string
  isLoadingNamespaces :: bool
  isConnecting :: bool
  saved :: saved_states

text \<open>
  The effects after a rendering: the one that loads the namespaces of a new context raises the loading flag,
  which the next rendering shows; the one that saves the selection sees the flag of this rendering.
\<close>

definition run_effects :: "cluster_state \<Rightarrow> cluster_state \<Rightarrow> cluster_state" where
  "run_effects p s =
     (let s' = (if (current s \<noteq> current p \<or> chosen s \<noteq> chosen p \<or> isLoadingNamespaces s \<noteq> isLoadingNamespaces p) \<and>
                   current s \<noteq> '''' \<and> \<not> isLoadingNamespaces s
                then s\<lparr>saved := saveContextState (current s) (chosen s) (saved s)\<rparr> else s)
      in if current s \<noteq> current p \<and> current s \<noteq> '''' then s'\<lparr>isLoadingNamespaces := True\<rparr> else s')"

definition with_namespaces :: "(namespace_state \<Rightarrow> namespace_state) \<Rightarrow> cluster_state \<Rightarrow> cluster_state" where
  "with_namespaces f s =
     (let n = f \<lparr>options = options s, chosen = chosen s\<rparr> in s\<lparr>options := options n, chosen := chosen n\<rparr>)"

text \<open>The first context, with the selection saved for it.\<close>

definition start_context :: "string \<Rightarrow> cluster_state \<Rightarrow> cluster_state" where
  "start_context ctx s =
     (let ns = loadContextState (saved s) ctx; s' = s\<lparr>current := ctx\<rparr> in
      run_effects s (if ns \<noteq> [] then with_namespaces (setSelectedNamespaces ns) s' else s'))"

fun apply_switch :: "string \<Rightarrow> cluster_state \<Rightarrow> switch_effect \<Rightarrow> cluster_state" where
  "apply_switch new s (SetPending b) = s\<lparr>isConnecting := b, isLoadingNamespaces := b\<rparr>"
| "apply_switch new s (SwitchBackend c) = s"
| "apply_switch new s Commit = (with_namespaces reset_namespaces s)\<lparr>current := new\<rparr>"

text \<open>One rendering while the backend is asked, one after its answer.\<close>

definition switchContext :: "string \<Rightarrow> string option \<Rightarrow> cluster_state \<Rightarrow> cluster_state" where
  "switchContext new backend s =
     (let effs = fst (runContextSwitchTransaction (current s) new backend);
          before = takeWhile (\<lambda>e. e \<noteq> SwitchBackend new) effs;
          after = dropWhile (\<lambda>e. e \<noteq> SwitchBackend new) effs;
          s1 = run_effects s (foldl (apply_switch new) s before)
      in run_effects s1 (foldl (apply_switch new) s1 after))"

text \<open>The namespaces of the current context have come.\<close>

definition namespaces_loaded :: "(string \<Rightarrow> 'k::linorder) \<Rightarrow> jsv list \<Rightarrow> cluster_state \<Rightarrow> cluster_state" where
  "namespaces_loaded collate list s =
     (let ns = loadContextState (saved s) (current s);
          s1 = with_namespaces (applyNamespaceOptions (normalizeNamespaceNames collate list)) s;
          s2 = with_namespaces (restore_selection ns) s1
      in run_effects s (s2\<lparr>isLoadingNamespaces := False, isConnecting := False\<rparr>))"

text \<open>They have not: the error stays on the screen.\<close>

definition namespaces_failed :: "cluster_state \<Rightarrow> cluster_state" where
  "namespaces_failed s = run_effects s (s\<lparr>isLoadingNamespaces := False, isConnecting := False\<rparr>)"

definition select_namespaces :: "string list \<Rightarrow> cluster_state \<Rightarrow> cluster_state" where
  "select_namespaces ns s = run_effects s (with_namespaces (setSelectedNamespaces ns) s)"

section \<open>Custom resource definitions\<close>

record crd_cache =
  crd_context :: string
  crds :: "string list"
  crdsLoadedForContext :: "string option"
  crdsFetch :: "(string \<times> nat) option"  \<comment> \<open>the context and the number of the call under way\<close>
  crd_calls :: "(nat \<times> string) list"  \<comment> \<open>every call that has no answer yet\<close>
  crd_count :: nat

definition crd_start :: "string \<Rightarrow> crd_cache" where
  "crd_start ctx =
     \<lparr>crd_context = ctx, crds = [], crdsLoadedForContext = None, crdsFetch = None, crd_calls = [], crd_count = 0\<rparr>"

definition ensureCRDsLoaded :: "crd_cache \<Rightarrow> crd_cache" where
  "ensureCRDsLoaded s =
     (if crd_context s = '''' then s
      else if crdsLoadedForContext s = Some (crd_context s) \<and> crds s \<noteq> [] then s
      else if map_option fst (crdsFetch s) = Some (crd_context s) then s
      else s\<lparr>crdsFetch := Some (crd_context s, crd_count s), crd_calls := crd_calls s @ [(crd_count s, crd_context s)],
             crd_count := Suc (crd_count s)\<rparr>)"

definition crds_answered :: "nat \<times> string \<Rightarrow> string list option \<Rightarrow> crd_cache \<Rightarrow> crd_cache" where
  "crds_answered call answer s =
     (let s' = s\<lparr>crdsFetch := None, crd_calls := filter (\<lambda>c. c \<noteq> call) (crd_calls s)\<rparr> in
      case answer of
        Some list \<Rightarrow> s'\<lparr>crds := list, crdsLoadedForContext := Some (snd call)\<rparr>
      | None \<Rightarrow> s')"

definition crd_switch :: "string \<Rightarrow> crd_cache \<Rightarrow> crd_cache" where
  "crd_switch ctx s =
     (if ctx = crd_context s then s else s\<lparr>crd_context := ctx, crds := [], crdsLoadedForContext := None\<rparr>)"

text \<open>\<open>late\<close>: the context may be switched while a call is under way. \<open>cluster\<close> is what each cluster defines.\<close>

inductive crd_step :: "bool \<Rightarrow> (string \<Rightarrow> string list) \<Rightarrow> crd_cache \<Rightarrow> crd_cache \<Rightarrow> bool" for late cluster where
  need: "crd_step late cluster s (ensureCRDsLoaded s)"
| answer: "(i, ctx) \<in> set (crd_calls s) \<Longrightarrow> crd_step late cluster s (crds_answered (i, ctx) (Some (cluster ctx)) s)"
| failure: "c \<in> set (crd_calls s) \<Longrightarrow> crd_step late cluster s (crds_answered c None s)"
| switch: "late \<or> crd_calls s = [] \<Longrightarrow> crd_step late cluster s (crd_switch ctx s)"

section \<open>What is kept\<close>

lemma texts_strings [simp]: "texts (map JStr ns) = ns"
  by (induction ns) (simp_all add: texts_def List.map_filter_simps)

definition saved_ok :: "saved_states \<Rightarrow> bool" where
  "saved_ok st \<longleftrightarrow> map_wf st \<and> (\<forall>ctx doc. map_get st ctx = Some (Some doc) \<longrightarrow> map_wf doc)"

text \<open>Saving keeps the other contexts and the other fields, and drops the field of old versions.\<close>

lemma save_load:
  assumes "saved_ok st" "ctx \<noteq> ''''"
  shows "loadContextState (saveContextState ctx ns st) c = (if c = ctx then ns else loadContextState st c)"
proof -
  define doc where "doc = (case map_get st ctx of Some (Some doc) \<Rightarrow> doc | _ \<Rightarrow> [])"
  have wf: "map_wf doc" using assms(1) by (auto simp: doc_def saved_ok_def simp del: map_of_eq_Some_iff split: option.split)
  then have "map_get (map_delete ''namespace'' (map_set ''namespaces'' (JArr (map JStr ns)) doc)) =
      ((map_get doc)(''namespaces'' \<mapsto> JArr (map JStr ns)))(''namespace'' := None)"
    by (simp add: js.get_del js.get_put js.wf_put)
  moreover have "map_get (saveContextState ctx ns st) =
      (map_get st)(ctx \<mapsto> Some (map_delete ''namespace'' (map_set ''namespaces'' (JArr (map JStr ns)) doc)))"
    using assms unfolding saveContextState_def doc_def [symmetric] saved_ok_def by (simp add: js.get_put)
  ultimately show ?thesis by (simp add: loadContextState_def)
qed

lemma save_ok: "saved_ok st \<Longrightarrow> saved_ok (saveContextState ctx ns st)"
proof -
  assume ok: "saved_ok st"
  have "map_wf (case map_get st ctx of Some (Some doc) \<Rightarrow> doc | _ \<Rightarrow> [])"
    using ok by (auto simp: saved_ok_def simp del: map_of_eq_Some_iff split: option.split)
  with ok show ?thesis
    by (auto simp: saveContextState_def saved_ok_def Let_def js.get_put js.wf_put js.wf_del simp del: map_of_eq_Some_iff
        split: if_splits)
qed

definition cluster_start :: "saved_states \<Rightarrow> cluster_state" where
  "cluster_start st =
     \<lparr>options = [], chosen = [''*''], current = '''', isLoadingNamespaces = False, isConnecting = True, saved = st\<rparr>"

lemma namespace_eta [simp]: "\<lparr>options = options x, chosen = chosen x\<rparr> = (x :: namespace_state)"
  by simp

lemma loaded_fields:
  assumes "isLoadingNamespaces s" "current s \<noteq> ''''"
  shows "chosen (namespaces_loaded collate list s) =
      chosen (restore_selection (loadContextState (saved s) (current s))
        (applyNamespaceOptions (normalizeNamespaceNames collate list) \<lparr>options = options s, chosen = chosen s\<rparr>)) \<and>
    saved (namespaces_loaded collate list s) = saveContextState (current s) (chosen (namespaces_loaded collate list s)) (saved s) \<and>
    current (namespaces_loaded collate list s) = current s"
  using assms by (simp add: namespaces_loaded_def Let_def run_effects_def with_namespaces_def)

text \<open>
  Selection restored: when the application starts, the namespaces saved for the context are selected again as
  far as they still exist, and what is saved stays so.
\<close>

theorem selection_restored:
  fixes collate :: "string \<Rightarrow> 'k::linorder"
  assumes "saved_ok st" "ctx \<noteq> ''''" "loadContextState st ctx = ns" "ns \<noteq> []"
    and "\<forall>n \<in> set ns. n = ''*'' \<or> n = '''' \<or> n \<in> namespace_name ` set list"
    and "s = namespaces_loaded collate list (start_context ctx (cluster_start st))"
  shows "chosen s = ns \<and> loadContextState (saved s) ctx = ns \<and> \<not> isLoadingNamespaces s \<and>
    (\<forall>c. c \<noteq> ctx \<longrightarrow> loadContextState (saved s) c = loadContextState st c)"
proof -
  let ?s1 = "start_context ctx (cluster_start st)"
  let ?st = "saveContextState ctx ns st"
  have s1: "current ?s1 = ctx" "isLoadingNamespaces ?s1" "chosen ?s1 = ns" "saved ?s1 = ?st"
    using assms(2-4) by (simp_all add: start_context_def cluster_start_def run_effects_def with_namespaces_def setSelectedNamespaces_def Let_def)
  have l: "loadContextState ?st ctx = ns" using assms(1,2) by (simp add: save_load)
  have avail: "pruneSelectedNamespaces ns (normalizeNamespaceNames collate list) = ns"
    unfolding pruneSelectedNamespaces_def
    by (rule filter_True) (use assms(5) in \<open>force simp: normalizeNamespaceNames_def\<close>)
  have f: "chosen s = chosen (restore_selection ns (applyNamespaceOptions (normalizeNamespaceNames collate list)
        \<lparr>options = options ?s1, chosen = chosen ?s1\<rparr>)) \<and> saved s = saveContextState ctx (chosen s) ?st"
    using loaded_fields [OF s1(2), of collate list] assms(2) unfolding s1 l assms(6) by simp
  have ch: "chosen s = ns"
    using f assms(4) by (simp add: restore_selection_def applyNamespaceOptions_def setSelectedNamespaces_def Let_def avail)
  have sv: "saved s = saveContextState ctx ns ?st" using f ch by simp
  show ?thesis
    using ch sv assms(1,2) save_ok [OF assms(1), of ctx ns]
    by (simp add: save_load) (simp add: assms(6) namespaces_loaded_def Let_def run_effects_def with_namespaces_def s1(1))
qed

text \<open>A start that fails forgets nothing.\<close>

lemma failed_start_keeps:
  assumes "saved_ok st" "ctx \<noteq> ''''" "loadContextState st ctx \<noteq> []"
  shows "loadContextState (saved (namespaces_failed (start_context ctx (cluster_start st)))) c = loadContextState st c"
  using assms save_ok [OF assms(1), of ctx "loadContextState st ctx"]
  by (simp add: namespaces_failed_def start_context_def cluster_start_def run_effects_def with_namespaces_def
      setSelectedNamespaces_def Let_def save_load)

definition demo_saved :: saved_states where
  "demo_saved = [(''kind'', Some [(''namespaces'', JArr [JStr ''dev'', JStr ''test''])])]"

theorem selection_restored_witness:
  "chosen (namespaces_loaded (\<lambda>s. s) [JStr ''dev'', JStr ''prod'', JStr ''test'']
      (start_context ''kind'' (cluster_start demo_saved))) = [''dev'', ''test'']"
proof -
  have ok: "saved_ok demo_saved" by (simp add: saved_ok_def demo_saved_def)
  have ns: "loadContextState demo_saved ''kind'' = [''dev'', ''test'']"
    by (simp add: loadContextState_def demo_saved_def texts_def List.map_filter_simps)
  show ?thesis
    by (rule selection_restored [OF ok _ ns, THEN conjunct1]) simp_all
qed

text \<open>
  A switch of the context renders the new context, the reset selection and the lowered loading flag together:
  the effect that saves runs at once and overwrites what was saved for the new context, so that there is nothing
  to restore when its namespaces have come.
\<close>

theorem switch_forgets_selection:
  assumes "saved_ok (saved s)" "current s \<noteq> new" "new \<noteq> ''''"
  shows "loadContextState (saved (switchContext new None s)) new = [''*''] \<and>
    chosen (namespaces_loaded collate list (switchContext new None s)) = [''*'']"
proof -
  let ?t = "switchContext new None s"
  have t: "chosen ?t = [''*'']" "current ?t = new" "isLoadingNamespaces ?t" "saved ?t = saveContextState new [''*''] (saved s)"
    using assms(2,3)
    by (simp_all add: switchContext_def runContextSwitchTransaction_def run_effects_def with_namespaces_def reset_namespaces_def
        setSelectedNamespaces_def Let_def)
  have l: "loadContextState (saveContextState new [''*''] (saved s)) new = [''*'']"
    using assms(1,3) by (simp add: save_load)
  have p: "pruneSelectedNamespaces [''*''] av = [''*'']" for av by (simp add: pruneSelectedNamespaces_def)
  have "chosen (namespaces_loaded collate list ?t) =
      chosen (restore_selection [''*''] (applyNamespaceOptions (normalizeNamespaceNames collate list)
        \<lparr>options = options ?t, chosen = chosen ?t\<rparr>))"
    using loaded_fields [OF t(3), of collate list] assms(3) unfolding t l by simp
  then show ?thesis by (simp add: t l restore_selection_def setSelectedNamespaces_def p)
qed

text \<open>What is saved for a context the application is not in is never touched.\<close>

lemma run_effects_other:
  assumes "saved_ok (saved s)" "c \<noteq> current s"
  shows "loadContextState (saved (run_effects p s)) c = loadContextState (saved s) c"
  using assms by (simp add: run_effects_def Let_def save_load)

section \<open>The contexts in their order\<close>

definition access_time :: "(string, nat) js_map \<Rightarrow> string \<Rightarrow> nat" where
  "access_time accessed c = (case map_get accessed c of Some t \<Rightarrow> t | None \<Rightarrow> 0)"

text \<open>
  Contexts sorted: the list of contexts holds each of them, the one used last in front, and those never used
  at the end by name.
\<close>

theorem contexts_sorted:
  assumes "inj collate"
  shows "mset (sortedContexts collate accessed contexts) = mset contexts \<and>
    sorted_wrt (\<lambda>a b. access_time accessed b < access_time accessed a \<or>
        access_time accessed a = access_time accessed b \<and> collate a \<le> collate b)
      (sortedContexts collate accessed contexts)"
proof -
  have iff: "compare_contexts collate accessed a b \<le> 0 \<longleftrightarrow>
      access_time accessed b < access_time accessed a \<or>
      access_time accessed a = access_time accessed b \<and> collate a \<le> collate b" for a b
    by (auto simp: compare_contexts_def access_time_def [symmetric] locale_compare_def Let_def)
  have "sorted_wrt (\<lambda>a b. compare_contexts collate accessed a b \<le> 0) (sortedContexts collate accessed contexts)"
    unfolding sortedContexts_def by (rule js_sort_sorted) (auto simp: iff)
  then show ?thesis by (simp add: iff sortedContexts_def)
qed

lemma refresh_is_list: "refreshContextsIfChanged ctxs prev = ctxs"
proof -
  have "prev = ctxs" if "length prev = length ctxs" "\<forall>(i, ctx) \<in> set (enumerate 0 ctxs). prev ! i = ctx"
  proof (rule nth_equalityI [OF that(1)])
    fix i assume "i < length prev"
    with that(1) have i: "i < length (enumerate 0 ctxs)" "enumerate 0 ctxs ! i = (i, ctxs ! i)"
      by (simp_all add: nth_enumerate_eq)
    have m: "(i, ctxs ! i) \<in> set (enumerate 0 ctxs)" using nth_mem [OF i(1)] unfolding i(2) .
    show "prev ! i = ctxs ! i" using bspec [OF that(2) m] by simp
  qed
  then show ?thesis by (auto simp: refreshContextsIfChanged_def list_ex_iff)
qed

theorem contexts_sorted_witness:
  "sorted_wrt (\<lambda>a b. access_time [(''dev'', 5)] b < access_time [(''dev'', 5)] a \<or>
        access_time [(''dev'', 5)] a = access_time [(''dev'', 5)] b \<and> a \<le> b)
      (sortedContexts (\<lambda>s. s) [(''dev'', 5)] [''prod'', ''dev'', ''kind''])"
proof -
  have "inj (\<lambda>s :: string. s)" by (simp add: inj_on_def)
  from contexts_sorted [OF this, of "[(''dev'', 5)]" "[''prod'', ''dev'', ''kind'']"] show ?thesis by simp
qed

section \<open>Definitions of the right cluster\<close>

definition crd_ok :: "(string \<Rightarrow> string list) \<Rightarrow> crd_cache \<Rightarrow> bool" where
  "crd_ok cluster s \<longleftrightarrow>
     (crds s = [] \<or> crds s = cluster (crd_context s)) \<and>
     (\<forall>c. crdsLoadedForContext s = Some c \<longrightarrow> c = crd_context s) \<and>
     crd_calls s = (case crdsFetch s of None \<Rightarrow> [] | Some (ctx, i) \<Rightarrow> [(i, ctx)]) \<and>
     (\<forall>ctx i. crdsFetch s = Some (ctx, i) \<longrightarrow> ctx = crd_context s)"

interpretation crds: transition_system "\<lambda>s. \<exists>ctx. s = crd_start ctx" "crd_step False cluster" "crd_ok cluster" for cluster
proof
  fix s :: crd_cache assume "\<exists>ctx. s = crd_start ctx"
  then show "crd_ok cluster s" by (auto simp: crd_ok_def crd_start_def)
next
  fix s t assume s: "crd_ok cluster s" and step: "crd_step False cluster s t"
  from step show "crd_ok cluster t"
  proof cases
    case need
    show ?thesis
    proof (cases "crdsFetch s")
      case None
      then have c: "crd_calls s = []" using s unfolding crd_ok_def by simp
      have "crd_ok cluster (s\<lparr>crdsFetch := Some (crd_context s, crd_count s),
          crd_calls := crd_calls s @ [(crd_count s, crd_context s)], crd_count := Suc (crd_count s)\<rparr>)"
        using s c unfolding crd_ok_def by simp
      with need s show ?thesis unfolding ensureCRDsLoaded_def by (simp split: if_split)
    next
      case (Some f)
      then have "map_option fst (crdsFetch s) = Some (crd_context s)" using s by (cases f) (auto simp: crd_ok_def)
      with need s show ?thesis by (simp add: ensureCRDsLoaded_def)
    qed
  next
    case (answer i ctx)
    then have "crdsFetch s = Some (ctx, i)" "ctx = crd_context s" "crd_calls s = [(i, ctx)]"
      using s by (auto simp: crd_ok_def split: option.splits)
    with answer show ?thesis using s by (auto simp: crd_ok_def crds_answered_def)
  next
    case (failure c)
    then have "crd_calls s = [c]" using s by (auto simp: crd_ok_def split: option.splits)
    with failure show ?thesis using s by (auto simp: crd_ok_def crds_answered_def)
  next
    case (switch ctx)
    then show ?thesis using s by (auto simp: crd_ok_def crd_switch_def split: option.splits)
  qed
qed

text \<open>
  Crds current: as long as the context is not switched while they are being fetched, the custom resource
  definitions in use are none or those of the current cluster, and they are fetched by one call at a time.
\<close>

theorem crds_current:
  assumes "(crd_step False cluster)\<^sup>*\<^sup>* (crd_start ctx) s"
  shows "(crds s = [] \<or> crds s = cluster (crd_context s)) \<and> length (crd_calls s) \<le> 1"
proof -
  have "crd_ok cluster s" by (rule crds.reachable_inv [OF _ assms]) blast
  then show ?thesis by (auto simp: crd_ok_def split: option.splits)
qed

lemma crd_demo:
  "(crd_step False (\<lambda>c. [c @ ''-crd''])) \<^sup>*\<^sup>* (crd_start ''a'')
     (crds_answered (0, ''a'') (Some [''a-crd'']) (ensureCRDsLoaded (crd_start ''a'')))"
proof -
  have "crd_step False (\<lambda>c. [c @ ''-crd'']) (crd_start ''a'') (ensureCRDsLoaded (crd_start ''a''))" by (rule crd_step.need)
  moreover have "crd_step False (\<lambda>c. [c @ ''-crd'']) (ensureCRDsLoaded (crd_start ''a''))
      (crds_answered (0, ''a'') (Some [''a-crd'']) (ensureCRDsLoaded (crd_start ''a'')))"
    using crd_step.answer [of 0 "''a''" "ensureCRDsLoaded (crd_start ''a'')" False "\<lambda>c. [c @ ''-crd'']"]
    by (simp add: ensureCRDsLoaded_def crd_start_def)
  ultimately show ?thesis by (meson rtranclp.rtrancl_into_rtrancl rtranclp.rtrancl_refl)
qed

theorem crds_current_witness:
  "length (crd_calls (crds_answered (0, ''a'') (Some [''a-crd'']) (ensureCRDsLoaded (crd_start ''a'')))) \<le> 1"
  using crds_current [OF crd_demo] by simp

text \<open>The answer for the context before the switch is stored over that of the current one.\<close>

theorem old_crds_shown:
  "\<exists>s. (crd_step True (\<lambda>c. [c @ ''-crd'']))\<^sup>*\<^sup>* (crd_start ''a'') s \<and> crd_context s = ''b'' \<and>
     crds s = [''a-crd''] \<and> crd_calls s = []"
proof -
  define s1 where "s1 = ensureCRDsLoaded (crd_start ''a'')"
  define s2 where "s2 = ensureCRDsLoaded (crd_switch ''b'' s1)"
  define s3 where "s3 = crds_answered (1, ''b'') (Some [''b-crd'']) s2"
  define s4 where "s4 = crds_answered (0, ''a'') (Some [''a-crd'']) s3"
  note defs = s1_def s2_def s3_def s4_def ensureCRDsLoaded_def crd_switch_def crd_start_def crds_answered_def
  let ?step = "crd_step True (\<lambda>c. [c @ ''-crd''])"
  have "?step (crd_start ''a'') s1" unfolding s1_def by (rule crd_step.need)
  moreover have "?step s1 (crd_switch ''b'' s1)" by (rule crd_step.switch) simp
  moreover have "?step (crd_switch ''b'' s1) s2" unfolding s2_def by (rule crd_step.need)
  moreover have "?step s2 s3"
    using crd_step.answer [of 1 "''b''" s2 True "\<lambda>c. [c @ ''-crd'']"] by (simp add: defs)
  moreover have "?step s3 s4"
    using crd_step.answer [of 0 "''a''" s3 True "\<lambda>c. [c @ ''-crd'']"] by (simp add: defs)
  ultimately have "?step\<^sup>*\<^sup>* (crd_start ''a'') s4" by (meson rtranclp.rtrancl_into_rtrancl rtranclp.rtrancl_refl)
  moreover have "crd_context s4 = ''b'' \<and> crds s4 = [''a-crd''] \<and> crd_calls s4 = []" by (simp add: defs)
  ultimately show ?thesis by blast
qed

end
