(* ===== verification/ConnectionErrors.thy ===== *)
theory ConnectionErrors
  imports JsStrings "HOL-Library.Sublist"
begin

text \<open>
  The advice shown for a failed connection (\<open>parseConnectionError\<close> and \<open>checkConnectionError\<close> of
  \<open>context/K8sContext.tsx\<close>).
\<close>

datatype cloud_provider = Aws | Azure | Gcloud | Network | Unknown

record advice =
  title :: string
  message :: string
  suggestion :: string
  provider :: cloud_provider

definition aws_cli_missing :: "advice" where
  "aws_cli_missing =
     \<lparr>title = ''AWS CLI Not Found'',
      message = ''Your kubeconfig requires AWS CLI for authentication, but it was not found in PATH.'',
      suggestion = ''Install AWS CLI: brew install awscli (macOS) or visit https://aws.amazon.com/cli/'',
      provider = Aws\<rparr>"

definition aws_role_denied :: "string \<Rightarrow> string \<Rightarrow> advice" where
  "aws_role_denied user role =
     \<lparr>title = ''AWS Role Assumption Denied'',
      message = user @ '' is not authorized to assume '' @ role @ ''. The IAM user/role does not have permission to call sts:AssumeRole on this EKS cluster's role.'',
      suggestion = ''Verify the IAM trust policy on the target role allows your user/role to assume it. Check that your AWS credentials are correct and not expired.'',
      provider = Aws\<rparr>"

definition aws_auth_failed :: "advice" where
  "aws_auth_failed =
     \<lparr>title = ''AWS Authentication Failed'',
      message = ''The AWS CLI credential plugin returned an error. This usually means AWS authentication failed.'',
      suggestion = ''Check your AWS credentials (aws sts get-caller-identity), verify your AWS profile configuration, and ensure your session/token is not expired.'',
      provider = Aws\<rparr>"

definition azure_cli_missing :: "advice" where
  "azure_cli_missing =
     \<lparr>title = ''Azure CLI Not Found'',
      message = ''Your kubeconfig requires Azure CLI for authentication, but it was not found in PATH.'',
      suggestion = ''Install Azure CLI: brew install azure-cli (macOS) or visit https://docs.microsoft.com/cli/azure/install-azure-cli'',
      provider = Azure\<rparr>"

definition azure_auth_failed :: "advice" where
  "azure_auth_failed =
     \<lparr>title = ''Azure Authentication Failed'',
      message = ''The Azure credential plugin returned an error. This usually means your Azure session has expired.'',
      suggestion = ''Run \"az login\" to re-authenticate, or check your Azure subscription access.'',
      provider = Azure\<rparr>"

definition gcloud_cli_missing :: "advice" where
  "gcloud_cli_missing =
     \<lparr>title = ''Google Cloud CLI Not Found'',
      message = ''Your kubeconfig requires gcloud CLI for authentication, but it was not found in PATH.'',
      suggestion = ''Install gcloud: https://cloud.google.com/sdk/docs/install'',
      provider = Gcloud\<rparr>"

definition gcloud_auth_failed :: "advice" where
  "gcloud_auth_failed =
     \<lparr>title = ''Google Cloud Authentication Failed'',
      message = ''The GKE credential plugin returned an error. This usually means your Google Cloud session has expired.'',
      suggestion = ''Run \"gcloud auth login\" to re-authenticate, and ensure the gke-gcloud-auth-plugin is installed.'',
      provider = Gcloud\<rparr>"

definition client_failed :: "advice" where
  "client_failed =
     \<lparr>title = ''Kubernetes Client Failed'',
      message = ''Failed to initialize the Kubernetes client. This may be due to an invalid kubeconfig or authentication issue.'',
      suggestion = ''Check your kubeconfig file (~/.kube/config) and ensure your credentials are valid.'',
      provider = Unknown\<rparr>"

definition connection_failed :: "advice" where
  "connection_failed =
     \<lparr>title = ''Connection Failed'',
      message = ''Could not connect to the Kubernetes cluster.'',
      suggestion = ''Verify the cluster is running and accessible from your network.'',
      provider = Network\<rparr>"

definition certificate_error :: "advice" where
  "certificate_error =
     \<lparr>title = ''Certificate Error'',
      message = ''There was a problem with the cluster certificate.'',
      suggestion = ''Check that your kubeconfig has the correct certificate authority, or the cluster certificate is valid.'',
      provider = Unknown\<rparr>"

definition authentication_failed :: "advice" where
  "authentication_failed =
     \<lparr>title = ''Authentication Failed'',
      message = ''Your credentials were rejected by the cluster.'',
      suggestion = ''Your token may have expired. Try refreshing your credentials or re-authenticating.'',
      provider = Unknown\<rparr>"

definition plugin_failed :: "string \<Rightarrow> advice" where
  "plugin_failed execName =
     \<lparr>title = ''Credential Plugin Failed'',
      message = ''The kubeconfig exec-based credential plugin \"'' @ execName @ ''\" returned an error. Authentication could not be completed.'',
      suggestion = ''Verify that \"'' @ execName @ ''\" is properly configured, your credentials are valid, and you have the required permissions.'',
      provider = Unknown\<rparr>"

definition connection_error :: "string \<Rightarrow> advice" where
  "connection_error errorStr =
     \<lparr>title = ''Connection Error'',
      message = errorStr,
      suggestion = ''Check your kubeconfig and cluster connectivity.'',
      provider = Unknown\<rparr>"

section \<open>Names in an error text\<close>

text \<open>\<open>/<label>(arn:aws:iam::\S+)/\<close>: the first place where something follows.\<close>

definition word_at :: "string \<Rightarrow> string" where
  "word_at s = takeWhile (\<lambda>c. \<not> is_space c) s"

fun match_arn :: "string \<Rightarrow> string \<Rightarrow> string option" where
  "match_arn label [] = None"
| "match_arn label (c # cs) =
     (let rest = drop (length label) (c # cs) in
      if prefix (label @ ''arn:aws:iam::'') (c # cs) \<and> word_at (drop (length ''arn:aws:iam::'') rest) \<noteq> ''''
      then Some (word_at rest) else match_arn label cs)"

text \<open>\<open>/executable (\S+) failed with exit code (\d+)/\<close>\<close>

definition exec_name :: "string \<Rightarrow> string option" where
  "exec_name s =
     (let rest = drop (length ''executable '') s; name = word_at rest; tail' = drop (length name) rest in
      if prefix ''executable '' s \<and> name \<noteq> '''' \<and> prefix '' failed with exit code '' tail' \<and>
         (case drop (length '' failed with exit code '') tail' of d # _ \<Rightarrow> is_digit d | [] \<Rightarrow> False)
      then Some name else None)"

fun match_exec :: "string \<Rightarrow> string option" where
  "match_exec [] = None"
| "match_exec (c # cs) = (case exec_name (c # cs) of Some name \<Rightarrow> Some name | None \<Rightarrow> match_exec cs)"

section \<open>Choosing the advice\<close>

definition parseConnectionError :: "string \<Rightarrow> advice" where
  "parseConnectionError errorStr =
     (if str_includes errorStr ''executable aws not found'' \<or> str_includes errorStr ''aws: executable file not found''
      then aws_cli_missing
      else if str_includes errorStr ''AssumeRole'' \<and> str_includes errorStr ''AccessDenied''
      then aws_role_denied
        (case match_arn ''User: '' errorStr of Some user \<Rightarrow> user | None \<Rightarrow> ''your IAM identity'')
        (case match_arn ''resource: '' errorStr of Some role \<Rightarrow> role | None \<Rightarrow> ''the target role'')
      else if str_includes errorStr ''executable aws failed with exit code''
      then aws_auth_failed
      else if str_includes errorStr ''executable az not found'' \<or> str_includes errorStr ''az: executable file not found''
      then azure_cli_missing
      else if str_includes errorStr ''executable az failed with exit code'' \<or> str_includes errorStr ''executable kubelogin failed with exit code''
      then azure_auth_failed
      else if str_includes errorStr ''executable gcloud not found'' \<or> str_includes errorStr ''gcloud: executable file not found''
      then gcloud_cli_missing
      else if str_includes errorStr ''executable gke-gcloud-auth-plugin failed with exit code'' \<or> str_includes errorStr ''executable gcloud failed with exit code''
      then gcloud_auth_failed
      else if str_includes errorStr ''k8s client not initialized''
      then client_failed
      else if str_includes errorStr ''connection refused'' \<or> str_includes errorStr ''no such host''
      then connection_failed
      else if str_includes errorStr ''x509'' \<or> str_includes errorStr ''certificate''
      then certificate_error
      else if str_includes errorStr ''Unauthorized'' \<or> str_includes errorStr ''forbidden''
      then authentication_failed
      else if match_exec errorStr \<noteq> None \<or> str_includes errorStr ''getting credentials: exec:''
      then plugin_failed (case match_exec errorStr of Some name \<Rightarrow> name | None \<Rightarrow> ''credential plugin'')
      else connection_error errorStr)"

definition auth_marks :: "string list" where
  "auth_marks =
     [''executable aws not found'', ''executable az not found'', ''executable gcloud not found'',
      ''aws: executable file not found'', ''az: executable file not found'', ''gcloud: executable file not found'',
      ''credential plugin'', ''getting credentials'', ''Unauthorized'', ''forbidden'', ''certificate'', ''x509'']"

text \<open>The error of the application after a failed call, and whether the call's error became one.\<close>

definition checkConnectionError :: "string \<Rightarrow> (advice \<times> string) option \<Rightarrow> (advice \<times> string) option \<times> bool" where
  "checkConnectionError errorStr connectionError =
     (if list_ex (str_includes errorStr) auth_marks
      then (Some (parseConnectionError errorStr, errorStr), True) else (connectionError, False))"

section \<open>What it says\<close>

text \<open>A plugin that failed is named exactly as in the error, up to the blank after it.\<close>

lemma word_at_exact:
  "\<forall>c \<in> set name. \<not> is_space c \<Longrightarrow> word_at (name @ CHR '' '' # rest) = name"
  by (induction name) (auto simp: word_at_def is_space_def)

lemma exec_named:
  assumes "name \<noteq> ''''" "\<forall>c \<in> set name. \<not> is_space c" "is_digit d"
  shows "match_exec (''executable '' @ name @ '' failed with exit code '' @ d # rest) = Some name"
proof -
  have "word_at (name @ '' failed with exit code '' @ d # rest) = name" using word_at_exact [OF assms(2)] by simp
  then have "exec_name (''executable '' @ name @ '' failed with exit code '' @ d # rest) = Some name"
    using assms by (simp add: exec_name_def)
  then show ?thesis by simp
qed

text \<open>
  An answer that forbids one kind of object to a user who is logged in is reported as a failed login, for the
  whole cluster.
\<close>

theorem forbidden_read_as_login:
  "checkConnectionError ''secrets is forbidden: User jane cannot list resource secrets'' None =
     (Some (authentication_failed, ''secrets is forbidden: User jane cannot list resource secrets''), True)"
proof -
  have "list_ex (str_includes ''secrets is forbidden: User jane cannot list resource secrets'') auth_marks"
    by code_simp
  moreover have "parseConnectionError ''secrets is forbidden: User jane cannot list resource secrets'' = authentication_failed"
    unfolding parseConnectionError_def by (simp add: str_includes.simps)
  ultimately show ?thesis by (simp add: checkConnectionError_def)
qed

end
