(* ===== verification/CompletionPolling.thy ===== *)
theory CompletionPolling
  imports Complex_Main Prelude
begin

text \<open>
  The clock of background polls (\<open>utils/completionPolling.ts\<close>, the subscribers of \<open>context/K8sContext.tsx\<close>, and
  \<open>hooks/useCompletionPolling.ts\<close>): a round starts only after all polls of the one before have settled, and a
  hook never polls twice at the same time. How a poll settles does not matter: errors are only logged.
\<close>

section \<open>The interval\<close>

text \<open>\<open>Math.round(base * (0.9 + random * 0.2))\<close>\<close>

definition nextPollingDelay :: "rat \<Rightarrow> rat \<Rightarrow> int" where
  "nextPollingDelay base random = \<lfloor>base * (9/10 + random * 2/10) + 1/2\<rfloor>"

section \<open>The clock\<close>

record polling_clock =
  cancelled :: bool
  timer :: bool  \<comment> \<open>a timer is pending\<close>
  round :: "nat list option"  \<comment> \<open>the polls of the round under way that have not settled\<close>
  pollingSubscribers :: "nat list"
  rounds :: nat

definition startCompletionPolling :: "nat list \<Rightarrow> polling_clock" where
  "startCompletionPolling subs =
     \<lparr>cancelled = False, timer = True, round = None, pollingSubscribers = subs, rounds = 0\<rparr>"

definition registerPolling :: "nat \<Rightarrow> polling_clock \<Rightarrow> polling_clock" where
  "registerPolling poll s =
     s\<lparr>pollingSubscribers := (if poll \<in> set (pollingSubscribers s) then pollingSubscribers s else pollingSubscribers s @ [poll])\<rparr>"

definition unregisterPolling :: "nat \<Rightarrow> polling_clock \<Rightarrow> polling_clock" where
  "unregisterPolling poll s = s\<lparr>pollingSubscribers := filter (\<lambda>p. p \<noteq> poll) (pollingSubscribers s)\<rparr>"

definition start_round :: "polling_clock \<Rightarrow> polling_clock" where
  "start_round s = s\<lparr>timer := False, round := Some (pollingSubscribers s), rounds := Suc (rounds s)\<rparr>"

definition poll_settled :: "nat \<Rightarrow> polling_clock \<Rightarrow> polling_clock" where
  "poll_settled poll s = s\<lparr>round := map_option (filter (\<lambda>p. p \<noteq> poll)) (round s)\<rparr>"

definition end_round :: "polling_clock \<Rightarrow> polling_clock" where
  "end_round s = s\<lparr>round := None, timer := \<not> cancelled s\<rparr>"

definition stop_polling :: "polling_clock \<Rightarrow> polling_clock" where
  "stop_polling s = s\<lparr>cancelled := True, timer := False\<rparr>"

inductive clock_step :: "polling_clock \<Rightarrow> polling_clock \<Rightarrow> bool" where
  fires: "timer s \<Longrightarrow> clock_step s (start_round s)"
| settles: "round s = Some ps \<Longrightarrow> p \<in> set ps \<Longrightarrow> clock_step s (poll_settled p s)"
| ends: "round s = Some [] \<Longrightarrow> clock_step s (end_round s)"
| register: "clock_step s (registerPolling p s)"
| unregister: "clock_step s (unregisterPolling p s)"
| stop: "clock_step s (stop_polling s)"

inductive_cases clock_stepE: "clock_step s t"

section \<open>A hook that polls\<close>

record polling_task =
  task_cancelled :: bool
  task_running :: bool
  under_way :: nat  \<comment> \<open>calls of the poll that have not settled\<close>

definition task_run :: "polling_task \<Rightarrow> polling_task" where
  "task_run s =
     (if task_running s \<or> task_cancelled s then s else s\<lparr>task_running := True, under_way := Suc (under_way s)\<rparr>)"

definition task_settled :: "polling_task \<Rightarrow> polling_task" where
  "task_settled s = s\<lparr>task_running := False, under_way := under_way s - 1\<rparr>"

definition task_stop :: "polling_task \<Rightarrow> polling_task" where
  "task_stop s = s\<lparr>task_cancelled := True\<rparr>"

text \<open>The first run of the effect polls at once after a refresh by hand.\<close>

definition task_start :: "bool \<Rightarrow> bool \<Rightarrow> bool \<Rightarrow> polling_task" where
  "task_start enabled manualRefresh refreshOnDemand =
     (let s = \<lparr>task_cancelled = False, task_running = False, under_way = 0\<rparr>
      in if enabled \<and> manualRefresh \<and> refreshOnDemand then task_run s else s)"

inductive task_step :: "polling_task \<Rightarrow> polling_task \<Rightarrow> bool" where
  run: "task_step s (task_run s)"
| settled: "under_way s > 0 \<Longrightarrow> task_step s (task_settled s)"
| unmount: "task_step s (task_stop s)"

section \<open>What is promised\<close>

text \<open>
  Delay bounds: the delay of a poll differs from the interval by at most a tenth of it, and half a
  millisecond of rounding.
\<close>

theorem delay_bounds:
  assumes "0 \<le> base" "0 \<le> random" "random < 1"
  shows "base * 9/10 - 1/2 \<le> of_int (nextPollingDelay base random) \<and>
    of_int (nextPollingDelay base random) \<le> base * 11/10 + 1/2"
proof -
  let ?x = "base * (9/10 + random * 2/10)"
  have r: "0 \<le> base * random" "base * random \<le> base"
    using assms mult_left_mono [of random 1 base] by auto
  have "?x = base * 9/10 + base * random * 2/10" by (simp add: algebra_simps)
  then have x: "base * 9/10 \<le> ?x" "?x \<le> base * 11/10" using r by linarith+
  have "of_int \<lfloor>?x + 1/2\<rfloor> \<le> ?x + 1/2" "?x + 1/2 < of_int \<lfloor>?x + 1/2\<rfloor> + 1" by linarith+
  with x show ?thesis unfolding nextPollingDelay_def by linarith
qed

theorem delay_bounds_witness: "of_int (nextPollingDelay 10000 (1/2)) \<le> (10000 * 11/10 + 1/2 :: rat)"
  by (rule delay_bounds [THEN conjunct2]) simp_all

definition clock_ok :: "polling_clock \<Rightarrow> bool" where
  "clock_ok s \<longleftrightarrow> (timer s \<longleftrightarrow> round s = None \<and> \<not> cancelled s)"

interpretation clock: transition_system "\<lambda>s. \<exists>subs. s = startCompletionPolling subs" clock_step clock_ok
proof
  fix s assume "\<exists>subs. s = startCompletionPolling subs"
  then show "clock_ok s" by (auto simp: clock_ok_def startCompletionPolling_def)
next
  fix s t assume "clock_ok s" "clock_step s t"
  then show "clock_ok t"
    by (auto elim!: clock_stepE simp: clock_ok_def start_round_def poll_settled_def end_round_def registerPolling_def
        unregisterPolling_def stop_polling_def)
qed

text \<open>
  Rounds in turn: at any time either a timer is pending or a round is under way, never both and, until the
  clock is stopped, never neither; a round asks everyone who is registered, and after the stop none starts.
\<close>

theorem rounds_in_turn:
  assumes "clock_step\<^sup>*\<^sup>* (startCompletionPolling subs) s"
  shows "\<not> (timer s \<and> round s \<noteq> None) \<and> (\<not> cancelled s \<longrightarrow> timer s \<or> round s \<noteq> None) \<and>
    (\<forall>t. clock_step s t \<longrightarrow> rounds t \<noteq> rounds s \<longrightarrow>
       \<not> cancelled s \<and> round s = None \<and> round t = Some (pollingSubscribers s))"
proof -
  have ok: "clock_ok s" by (rule clock.reachable_inv [OF _ assms]) blast
  moreover have "\<not> cancelled s \<and> round s = None \<and> round t = Some (pollingSubscribers s)"
    if "clock_step s t" "rounds t \<noteq> rounds s" for t
    using that ok
    by (auto elim!: clock_stepE simp: clock_ok_def start_round_def poll_settled_def end_round_def registerPolling_def
        unregisterPolling_def stop_polling_def)
  ultimately show ?thesis by (auto simp: clock_ok_def)
qed

theorem rounds_in_turn_witness: "\<not> (timer (start_round (startCompletionPolling [1, 2])) \<and> round (start_round (startCompletionPolling [1, 2])) \<noteq> None)"
proof -
  have "clock_step (startCompletionPolling [1, 2]) (start_round (startCompletionPolling [1, 2]))"
    by (rule clock_step.fires) (simp add: startCompletionPolling_def)
  then show ?thesis using rounds_in_turn [of "[1, 2]"] by (metis r_into_rtranclp)
qed

definition task_ok :: "polling_task \<Rightarrow> bool" where
  "task_ok s \<longleftrightarrow> under_way s = (if task_running s then 1 else 0)"

interpretation task: transition_system "\<lambda>s. \<exists>e m r. s = task_start e m r" task_step task_ok
proof
  fix s assume "\<exists>e m r. s = task_start e m r"
  then obtain e m r where "s = task_start e m r" by blast
  then show "task_ok s" by (cases "e \<and> m \<and> r") (simp_all add: task_ok_def task_start_def task_run_def Let_def)
next
  fix s t assume ok: "task_ok s" and step: "task_step s t"
  from step show "task_ok t"
    by cases (use ok in \<open>auto simp: task_ok_def task_run_def task_settled_def task_stop_def split: if_splits\<close>)
qed

text \<open>A hook has at most one poll under way.\<close>

lemma one_poll_under_way:
  assumes "task_step\<^sup>*\<^sup>* (task_start e m r) s"
  shows "under_way s \<le> 1"
proof -
  have "task_ok s" by (rule task.reachable_inv [OF _ assms]) blast
  then show ?thesis by (simp add: task_ok_def)
qed

end
