(* ===== verification/IssueScan.thy ===== *)
theory IssueScan
  imports Prelude
begin

text \<open>
  The scan for issues (\<open>context/IssueDetectorContext.tsx\<close>): runs of a scan with their progress and answers, the
  rules, and the switch of the context in between. A result is a list of findings; every call that has no answer
  yet is remembered with the context it was made in.
\<close>

record scan_progress =
  scan_phase :: string
  percent :: nat

record issue_state =
  scan_context :: string
  scanning :: bool
  progress :: "scan_progress option"
  scan_result :: "string list option"
  scan_rules :: "string list"
  rulesDir :: string
  scan_error :: "string option"
  rulesLoaded :: bool
  searchFilter :: string
  scan_namespaces :: "string list"
  expandedFindings :: "string list"
  expandedGroups :: "string list"
  expandedRules :: "string list"
  expandedSubGroups :: "string list"
  scan_calls :: "(nat \<times> string) list"
  scan_count :: nat

definition issue_start :: "string \<Rightarrow> issue_state" where
  "issue_start ctx =
     \<lparr>scan_context = ctx, scanning = False, progress = None, scan_result = None, scan_rules = [], rulesDir = '''',
      scan_error = None, rulesLoaded = False, searchFilter = '''', scan_namespaces = [], expandedFindings = [],
      expandedGroups = [], expandedRules = [], expandedSubGroups = [], scan_calls = [], scan_count = 0\<rparr>"

definition runScan :: "issue_state \<Rightarrow> issue_state" where
  "runScan s =
     s\<lparr>scanning := True, scan_error := None, progress := Some \<lparr>scan_phase = ''starting'', percent = 0\<rparr>,
       scan_calls := scan_calls s @ [(scan_count s, scan_context s)], scan_count := Suc (scan_count s)\<rparr>"

definition scan_answered :: "nat \<times> string \<Rightarrow> string + string list \<Rightarrow> issue_state \<Rightarrow> issue_state" where
  "scan_answered call answer s =
     (let s' = (case answer of
                  Inr r \<Rightarrow> s\<lparr>scan_result := Some r\<rparr>
                | Inl e \<Rightarrow> s\<lparr>scan_error := Some e, scan_result := None\<rparr>)
      in s'\<lparr>scanning := False, progress := None, scan_calls := filter (\<lambda>c. c \<noteq> call) (scan_calls s)\<rparr>)"

definition scan_progressed :: "scan_progress \<Rightarrow> issue_state \<Rightarrow> issue_state" where
  "scan_progressed p s = s\<lparr>progress := Some p\<rparr>"

definition loadRules :: "(string list \<times> string) option \<Rightarrow> issue_state \<Rightarrow> issue_state" where
  "loadRules answer s = (case answer of Some (rs, dir) \<Rightarrow> s\<lparr>scan_rules := rs, rulesDir := dir\<rparr> | None \<Rightarrow> s)"

definition reloadRules :: "string list option \<Rightarrow> issue_state \<Rightarrow> issue_state" where
  "reloadRules answer s = (case answer of Some rs \<Rightarrow> s\<lparr>scan_rules := rs\<rparr> | None \<Rightarrow> s)"

definition scan_switch :: "string \<Rightarrow> issue_state \<Rightarrow> issue_state" where
  "scan_switch ctx s =
     (if scan_context s = ctx then s
      else s\<lparr>scan_context := ctx, scan_result := None, scan_error := None, progress := None, scanning := False,
             expandedFindings := [], expandedGroups := [], expandedRules := [], expandedSubGroups := [], searchFilter := '''', scan_namespaces := [], rulesLoaded := False\<rparr>)"

text \<open>\<open>late\<close>: the context may be switched while a scan runs. \<open>issues\<close> is what each cluster has.\<close>

inductive issue_step :: "bool \<Rightarrow> (string \<Rightarrow> string list) \<Rightarrow> issue_state \<Rightarrow> issue_state \<Rightarrow> bool" for late issues where
  scan: "\<not> scanning s \<Longrightarrow> issue_step late issues s (runScan s)"
| answer: "(i, ctx) \<in> set (scan_calls s) \<Longrightarrow> issue_step late issues s (scan_answered (i, ctx) (Inr (issues ctx)) s)"
| failure: "c \<in> set (scan_calls s) \<Longrightarrow> issue_step late issues s (scan_answered c (Inl e) s)"
| progress: "issue_step late issues s (scan_progressed p s)"
| rules: "issue_step late issues s (loadRules r s)"
| reload: "issue_step late issues s (reloadRules rs s)"
| switch: "late \<or> scan_calls s = [] \<Longrightarrow> issue_step late issues s (scan_switch ctx s)"

definition issues_ok :: "(string \<Rightarrow> string list) \<Rightarrow> issue_state \<Rightarrow> bool" where
  "issues_ok issues s \<longleftrightarrow>
     (\<forall>r. scan_result s = Some r \<longrightarrow> r = issues (scan_context s)) \<and>
     (\<forall>c \<in> set (scan_calls s). snd c = scan_context s) \<and>
     length (scan_calls s) = (if scanning s then 1 else 0)"

lemma length_one: "length xs = 1 \<Longrightarrow> x \<in> set xs \<Longrightarrow> xs = [x]"
  by (cases xs) auto

interpretation issues: transition_system "\<lambda>s. \<exists>ctx. s = issue_start ctx" "issue_step False issues" "issues_ok issues" for issues
proof
  fix s :: issue_state assume "\<exists>ctx. s = issue_start ctx"
  then show "issues_ok issues s" by (auto simp: issues_ok_def issue_start_def)
next
  fix s t assume ok: "issues_ok issues s" and step: "issue_step False issues s t"
  have one: "scan_calls s = [c]" if "c \<in> set (scan_calls s)" for c
    using ok that by (cases "scanning s") (auto simp: issues_ok_def intro: length_one)
  from step show "issues_ok issues t"
  proof cases
    case (answer i ctx)
    then show ?thesis using ok one [of "(i, ctx)"] by (simp add: issues_ok_def scan_answered_def)
  next
    case (failure c e)
    then show ?thesis using one [of c] by (simp add: issues_ok_def scan_answered_def)
  next
    case (switch ctx)
    then show ?thesis using ok by (cases "scan_context s = ctx") (simp_all add: issues_ok_def scan_switch_def)
  qed (use ok in \<open>auto simp: issues_ok_def runScan_def scan_progressed_def loadRules_def reloadRules_def split: option.split\<close>)
qed

text \<open>
  Issues current: as long as the context is not switched during a scan, the issues shown are those of the
  current cluster, and the scan is shown as running exactly while one is.
\<close>

theorem issues_current:
  assumes "(issue_step False issues)\<^sup>*\<^sup>* (issue_start ctx) s"
  shows "(\<forall>r. scan_result s = Some r \<longrightarrow> r = issues (scan_context s)) \<and> (scanning s \<longleftrightarrow> scan_calls s \<noteq> [])"
proof -
  have "issues_ok issues s" by (rule issues.reachable_inv [OF _ assms]) blast
  then show ?thesis by (auto simp: issues_ok_def split: if_splits)
qed

theorem issues_current_witness: "scanning (runScan (issue_start ''a'')) \<longleftrightarrow> scan_calls (runScan (issue_start ''a'')) \<noteq> []"
proof -
  have "issue_step False (\<lambda>_. []) (issue_start ''a'') (runScan (issue_start ''a''))"
    by (rule issue_step.scan) (simp add: issue_start_def)
  then show ?thesis using issues_current [of "\<lambda>_. []" "''a''"] by blast
qed

text \<open>The answer of a scan that was started before a switch shows the issues of the cluster left behind.\<close>

theorem old_issues_shown:
  "\<exists>s. (issue_step True (\<lambda>c. [c @ '': no limits'']))\<^sup>*\<^sup>* (issue_start ''a'') s \<and> scan_context s = ''b'' \<and>
     scan_result s = Some [''a: no limits'']"
proof -
  let ?step = "issue_step True (\<lambda>c. [c @ '': no limits''])"
  define s1 where "s1 = runScan (issue_start ''a'')"
  define s2 where "s2 = scan_switch ''b'' s1"
  define s3 where "s3 = scan_answered (0, ''a'') (Inr [''a: no limits'']) s2"
  note defs = s1_def s2_def s3_def runScan_def issue_start_def scan_switch_def scan_answered_def
  have "?step (issue_start ''a'') s1" unfolding s1_def by (rule issue_step.scan) (simp add: issue_start_def)
  moreover have "?step s1 s2" unfolding s2_def by (rule issue_step.switch) simp
  moreover have "?step s2 s3"
    using issue_step.answer [of 0 "''a''" s2 True "\<lambda>c. [c @ '': no limits'']"] by (simp add: defs)
  ultimately have "?step\<^sup>*\<^sup>* (issue_start ''a'') s3" by (meson rtranclp.rtrancl_into_rtrancl rtranclp.rtrancl_refl)
  moreover have "scan_context s3 = ''b'' \<and> scan_result s3 = Some [''a: no limits'']" by (simp add: defs)
  ultimately show ?thesis by blast
qed

end
