(* ===== verification/FormState.thy ===== *)
theory FormState
  imports JsMap
begin

text \<open>
  The forms of the dialogs (\<open>lib/validation/hooks/useForm.ts\<close>). The schema is a library object: a function from
  the values to its complaints, each with the field it is about, or to the values it accepts. Every handler is
  rendered before the next one runs; the check that setting several values puts off keeps the values it was made
  with.
\<close>

type_synonym issue = "string option \<times> string"

type_synonym 'v form_values = "(string, 'v) js_map"

type_synonym 'v schema = "'v form_values \<Rightarrow> issue list + 'v form_values"

record 'v form =
  form_values :: "'v form_values"
  form_errors :: "(string, string option) js_map"
  touched :: "(string, bool) js_map"
  isSubmitting :: bool
  submitError :: "string option"
  put_off :: "'v form_values list"
  submitted :: "'v form_values list"  \<comment> \<open>what \<open>onSubmit\<close> was called with\<close>

definition useForm :: "'v form_values \<Rightarrow> 'v form" where
  "useForm initialValues =
     \<lparr>form_values = initialValues, form_errors = [], touched = [], isSubmitting = False, submitError = None,
      put_off = [], submitted = []\<rparr>"

section \<open>Complaints\<close>

definition getZodErrors :: "issue list \<Rightarrow> (string, string option) js_map" where
  "getZodErrors issues =
     foldl (\<lambda>errors (path, message).
         case path of
           Some p \<Rightarrow> if p \<noteq> '''' \<and> (case map_get errors p of Some (Some m) \<Rightarrow> m = '''' | _ \<Rightarrow> True)
                     then map_set p (Some message) errors else errors
         | None \<Rightarrow> errors) [] issues"

definition first_issue :: "string \<Rightarrow> issue list \<Rightarrow> string option" where
  "first_issue field issues = map_option snd (find (\<lambda>i. fst i = Some field) issues)"

definition isValid :: "'v schema \<Rightarrow> 'v form_values \<Rightarrow> bool" where
  "isValid safeParse vals = (case safeParse vals of Inr _ \<Rightarrow> True | Inl _ \<Rightarrow> False)"

section \<open>Operations\<close>

definition validate :: "'v schema \<Rightarrow> 'v form_values \<Rightarrow> 'v form \<Rightarrow> bool \<times> 'v form" where
  "validate safeParse vals s =
     (case safeParse vals of
        Inl issues \<Rightarrow> (False, s\<lparr>form_errors := getZodErrors issues\<rparr>)
      | Inr _ \<Rightarrow> (True, s\<lparr>form_errors := []\<rparr>))"

definition validateField :: "'v schema \<Rightarrow> 'v form_values \<Rightarrow> string \<Rightarrow> string option" where
  "validateField safeParse vals field =
     (case safeParse vals of Inl issues \<Rightarrow> first_issue field issues | Inr _ \<Rightarrow> None)"

definition setValue :: "'v schema \<Rightarrow> bool \<Rightarrow> string \<Rightarrow> 'v \<Rightarrow> 'v form \<Rightarrow> 'v form" where
  "setValue safeParse validateOnChange field v s =
     (let newValues = map_set field v (form_values s);
          errors = (if validateOnChange
                    then (case safeParse newValues of
                            Inl issues \<Rightarrow> map_set field (first_issue field issues) (form_errors s)
                          | Inr _ \<Rightarrow> map_delete field (form_errors s))
                    else form_errors s)
      in s\<lparr>form_values := newValues, form_errors := errors, submitError := None\<rparr>)"

definition setValues :: "bool \<Rightarrow> 'v form_values \<Rightarrow> 'v form \<Rightarrow> 'v form" where
  "setValues validateOnChange newValues s =
     s\<lparr>form_values := spread (form_values s) newValues,
       put_off := (if validateOnChange then put_off s @ [form_values s] else put_off s), submitError := None\<rparr>"

definition run_put_off :: "'v schema \<Rightarrow> 'v form \<Rightarrow> 'v form" where
  "run_put_off safeParse s =
     (case put_off s of [] \<Rightarrow> s | vals # rest \<Rightarrow> snd (validate safeParse vals (s\<lparr>put_off := rest\<rparr>)))"

definition setFieldTouched :: "'v schema \<Rightarrow> bool \<Rightarrow> string \<Rightarrow> bool \<Rightarrow> 'v form \<Rightarrow> 'v form" where
  "setFieldTouched safeParse validateOnBlur field isTouched s =
     s\<lparr>touched := map_set field isTouched (touched s),
       form_errors := (if validateOnBlur \<and> isTouched
                       then map_set field (validateField safeParse (form_values s) field) (form_errors s) else form_errors s)\<rparr>"

definition setFieldError :: "string \<Rightarrow> string option \<Rightarrow> 'v form \<Rightarrow> 'v form" where
  "setFieldError field error s = s\<lparr>form_errors := map_set field error (form_errors s)\<rparr>"

text \<open>Up to the call of \<open>onSubmit\<close>, and after its answer.\<close>

definition handleSubmit :: "'v schema \<Rightarrow> 'v form \<Rightarrow> 'v form" where
  "handleSubmit safeParse s =
     (let s' = s\<lparr>touched := map (\<lambda>k. (k, True)) (map_keys (form_values s))\<rparr> in
      case safeParse (form_values s) of
        Inl issues \<Rightarrow> s'\<lparr>form_errors := getZodErrors issues\<rparr>
      | Inr parsed \<Rightarrow> s'\<lparr>form_errors := [], isSubmitting := True, submitError := None, submitted := submitted s @ [parsed]\<rparr>)"

definition submit_settled :: "string option \<Rightarrow> 'v form \<Rightarrow> 'v form" where
  "submit_settled failure s =
     s\<lparr>submitError := (case failure of Some message \<Rightarrow> Some message | None \<Rightarrow> submitError s), isSubmitting := False\<rparr>"

definition reset_form :: "'v form_values \<Rightarrow> 'v form_values option \<Rightarrow> 'v form \<Rightarrow> 'v form" where
  "reset_form initialValues newValues s =
     s\<lparr>form_values := (case newValues of Some vals \<Rightarrow> vals | None \<Rightarrow> initialValues), form_errors := [], touched := [],
       submitError := None\<rparr>"

definition clearErrors :: "'v form \<Rightarrow> 'v form" where
  "clearErrors s = s\<lparr>form_errors := [], submitError := None\<rparr>"

text \<open>
  The steps of a dialog that checks on every change and sets one value at a time, as all but the one that adds a
  Helm repository do.
\<close>

inductive form_step :: "'v schema \<Rightarrow> 'v form \<Rightarrow> 'v form \<Rightarrow> bool" for safeParse where
  change: "form_step safeParse s (setValue safeParse True field v s)"
| blur: "form_step safeParse s (setFieldTouched safeParse True field t s)"
| check: "form_step safeParse s (snd (validate safeParse (form_values s) s))"
| submit: "form_step safeParse s (handleSubmit safeParse s)"
| settled: "form_step safeParse s (submit_settled failure s)"
| reset: "map_wf newValues \<Longrightarrow> form_step safeParse s (reset_form initialValues (Some newValues) s)"
| clear: "form_step safeParse s (clearErrors s)"

inductive_cases form_stepE: "form_step safeParse s t"

section \<open>Errors\<close>

definition issues_of :: "'v schema \<Rightarrow> 'v form_values \<Rightarrow> issue list" where
  "issues_of safeParse vals = (case safeParse vals of Inl issues \<Rightarrow> issues | Inr _ \<Rightarrow> [])"

text \<open>A schema that looks at one field at a time, and whose messages say something.\<close>

definition fieldwise :: "'v schema \<Rightarrow> bool" where
  "fieldwise safeParse \<longleftrightarrow>
     (\<forall>v w f. map_get v f = map_get w f \<longrightarrow> first_issue f (issues_of safeParse v) = first_issue f (issues_of safeParse w)) \<and>
     (\<forall>v. \<forall>i \<in> set (issues_of safeParse v). snd i \<noteq> '''')"

lemma first_issue_Nil [simp]: "first_issue f [] = None"
  by (simp add: first_issue_def)

lemma first_issue_Cons: "first_issue f ((p, m) # is) = (if p = Some f then Some m else first_issue f is)"
  by (simp add: first_issue_def)

lemma validateField_eq: "validateField safeParse vals f = first_issue f (issues_of safeParse vals)"
  by (simp add: validateField_def issues_of_def split: sum.split)

lemma errors_fold:
  assumes "\<forall>i \<in> set issues. snd i \<noteq> ''''" "map_wf errs" "\<forall>f m. map_get errs f = Some m \<longrightarrow> m \<noteq> None \<and> m \<noteq> Some ''''"
  shows "let res = foldl (\<lambda>errors (path, message).
         case path of
           Some p \<Rightarrow> if p \<noteq> '''' \<and> (case map_get errors p of Some (Some m) \<Rightarrow> m = '''' | _ \<Rightarrow> True)
                     then map_set p (Some message) errors else errors
         | None \<Rightarrow> errors) errs issues in
    map_wf res \<and> map_get res f = (case map_get errs f of Some m \<Rightarrow> Some m
      | None \<Rightarrow> if f = '''' then None else map_option Some (first_issue f issues))"
  using assms
proof (induction issues arbitrary: errs)
  case Nil
  then show ?case by (auto simp: Let_def split: option.split)
next
  case (Cons i issues)
  obtain p m where i: "i = (p, m)" by (cases i)
  define errs' where "errs' = (case p of
           Some p \<Rightarrow> if p \<noteq> '''' \<and> (case map_get errs p of Some (Some m) \<Rightarrow> m = '''' | _ \<Rightarrow> True)
                     then map_set p (Some m) errs else errs
         | None \<Rightarrow> errs)"
  have m: "m \<noteq> ''''" using Cons.prems(1) i by simp
  have skip: "(case map_get errs q of Some (Some m) \<Rightarrow> m = '''' | _ \<Rightarrow> True) \<longleftrightarrow> map_get errs q = None" for q
    using Cons.prems(3) by (auto split: option.split)
  have get: "map_get errs' = (case p of Some q \<Rightarrow> if q \<noteq> '''' \<and> map_get errs q = None then (map_get errs)(q \<mapsto> Some m) else map_get errs
      | None \<Rightarrow> map_get errs)"
  proof (cases p)
    case None
    then show ?thesis by (simp add: errs'_def)
  next
    case (Some q)
    then have "errs' = (if q \<noteq> '''' \<and> map_get errs q = None then map_set q (Some m) errs else errs)"
      unfolding errs'_def skip by (simp only: option.case)
    then show ?thesis
      using js.get_put [OF Cons.prems(2), of q "Some m"] unfolding Some by (simp only: option.case split: if_split) blast
  qed
  have wf: "map_wf errs'" using Cons.prems(2) by (simp add: errs'_def js.wf_put split: option.split)
  have ok: "\<forall>f m. map_get errs' f = Some m \<longrightarrow> m \<noteq> None \<and> m \<noteq> Some ''''"
    using Cons.prems(3) m unfolding get by (simp split: option.split)
  note IH = Cons.IH [OF _ wf ok]
  have "\<forall>i \<in> set issues. snd i \<noteq> ''''" using Cons.prems(1) by simp
  from IH [OF this] show ?case
    unfolding i by (simp add: errs'_def [symmetric] Let_def) (auto simp: get first_issue_Cons split: option.split)
qed

lemma getZodErrors_get:
  assumes "\<forall>i \<in> set issues. snd i \<noteq> ''''"
  shows "map_wf (getZodErrors issues)"
    "map_get (getZodErrors issues) f = (if f = '''' then None else map_option Some (first_issue f issues))"
  using errors_fold [OF assms, of "[]" f] by (simp_all add: getZodErrors_def Let_def)

text \<open>
  Submit exact: submitting marks every field as touched; it calls the handler exactly once with what the schema
  made of the values and clears the errors, or calls nothing and shows for each field the first complaint about it.
\<close>

theorem submit_exact:
  assumes "\<forall>i \<in> set (issues_of safeParse (form_values s)). snd i \<noteq> ''''" "t = handleSubmit safeParse s"
  shows "touched t = map (\<lambda>k. (k, True)) (map_keys (form_values s)) \<and> form_values t = form_values s \<and>
    (case safeParse (form_values s) of
       Inr parsed \<Rightarrow> submitted t = submitted s @ [parsed] \<and> form_errors t = [] \<and> isSubmitting t
     | Inl issues \<Rightarrow> submitted t = submitted s \<and> isSubmitting t = isSubmitting s \<and>
         (\<forall>f. f \<noteq> '''' \<longrightarrow> map_get (form_errors t) f = map_option Some (first_issue f issues)))"
proof (cases "safeParse (form_values s)")
  case (Inl issues)
  then have "\<forall>i \<in> set issues. snd i \<noteq> ''''" using assms(1) by (simp add: issues_of_def)
  from getZodErrors_get(2) [OF this] show ?thesis
    unfolding assms(2) using Inl by (simp add: handleSubmit_def)
next
  case (Inr parsed)
  then show ?thesis unfolding assms(2) by (simp add: handleSubmit_def)
qed

definition errors_ok :: "'v schema \<Rightarrow> 'v form \<Rightarrow> bool" where
  "errors_ok safeParse s \<longleftrightarrow> map_wf (form_values s) \<and> map_wf (form_errors s) \<and>
     (\<forall>f m. map_get (form_errors s) f = Some (Some m) \<longrightarrow> first_issue f (issues_of safeParse (form_values s)) = Some m)"

lemma errors_ok_put:
  assumes "errors_ok safeParse s" "first_issue f (issues_of safeParse (form_values s)) = e"
  shows "errors_ok safeParse (s\<lparr>form_errors := map_set f e (form_errors s)\<rparr>)"
  using assms by (simp add: errors_ok_def js.get_put js.wf_put)

lemma errors_ok_all:
  assumes "fieldwise safeParse" "map_wf (form_values s)" "form_errors s = getZodErrors (issues_of safeParse (form_values s))"
  shows "errors_ok safeParse s"
proof -
  have ne: "\<forall>i \<in> set (issues_of safeParse (form_values s)). snd i \<noteq> ''''" using assms(1) unfolding fieldwise_def by blast
  show ?thesis
    using assms(2) unfolding errors_ok_def assms(3) by (simp add: getZodErrors_get [OF ne])
qed

lemma change_ok:
  assumes "fieldwise safeParse" "errors_ok safeParse s"
  shows "errors_ok safeParse (setValue safeParse True field v s)"
proof -
  let ?new = "map_set field v (form_values s)"
  have wf: "map_wf (form_values s)" "map_wf (form_errors s)" using assms(2) by (simp_all add: errors_ok_def)
  have same: "first_issue g (issues_of safeParse ?new) = first_issue g (issues_of safeParse (form_values s))" if "g \<noteq> field" for g
  proof -
    have "map_get ?new g = map_get (form_values s) g" using wf that by (simp add: js.get_put)
    then show ?thesis using assms(1) unfolding fieldwise_def by blast
  qed
  have old: "first_issue g (issues_of safeParse (form_values s)) = Some m" if "map_get (form_errors s) g = Some (Some m)" for g m
    using assms(2) that unfolding errors_ok_def by blast
  show ?thesis
  proof (cases "safeParse ?new")
    case (Inl issues)
    then have "issues_of safeParse ?new = issues" by (simp add: issues_of_def)
    with Inl same old wf show ?thesis
      by (simp add: errors_ok_def setValue_def js.get_put js.wf_put)
  next
    case (Inr parsed)
    with same old wf show ?thesis
      by (simp add: errors_ok_def setValue_def js.get_del js.wf_put js.wf_del)
  qed
qed

lemma errors_ok_touched: "errors_ok safeParse (s\<lparr>touched := ts\<rparr>) = errors_ok safeParse s"
  by (simp add: errors_ok_def)

interpretation form: transition_system
  "\<lambda>s. fieldwise safeParse \<and> (\<exists>vals. map_wf vals \<and> s = useForm vals)" "form_step safeParse"
  "\<lambda>s. fieldwise safeParse \<and> errors_ok safeParse s" for safeParse
proof
  fix s :: "'a form" assume "fieldwise safeParse \<and> (\<exists>vals. map_wf vals \<and> s = useForm vals)"
  then show "fieldwise safeParse \<and> errors_ok safeParse s" by (auto simp: errors_ok_def useForm_def)
next
  fix s t :: "'a form" assume s: "fieldwise safeParse \<and> errors_ok safeParse s" and step: "form_step safeParse s t"
  then have wf: "map_wf (form_values s)" by (simp add: errors_ok_def)
  have z: "getZodErrors [] = []" by (simp add: getZodErrors_def)
  from step have "errors_ok safeParse t"
  proof cases
    case (change field v)
    then show ?thesis using s by (simp add: change_ok)
  next
    case (blur field t')
    show ?thesis
    proof (cases t')
      case True
      then have "t = (s\<lparr>form_errors := map_set field (first_issue field (issues_of safeParse (form_values s))) (form_errors s)\<rparr>)
          \<lparr>touched := map_set field t' (touched s)\<rparr>"
        using blur by (simp add: setFieldTouched_def validateField_eq)
      then show ?thesis using errors_ok_put [of safeParse s field, OF _ refl] s by (simp only: errors_ok_touched)
    next
      case False
      then have "t = s\<lparr>touched := map_set field t' (touched s)\<rparr>" using blur by (simp add: setFieldTouched_def)
      then show ?thesis using s by (simp only: errors_ok_touched)
    qed
  next
    case check
    then have "form_values t = form_values s" "form_errors t = getZodErrors (issues_of safeParse (form_values s))"
      by (simp_all add: validate_def issues_of_def z split: sum.split)
    with s wf show ?thesis by (intro errors_ok_all) simp_all
  next
    case submit
    then have "form_values t = form_values s" "form_errors t = getZodErrors (issues_of safeParse (form_values s))"
      by (simp_all add: handleSubmit_def issues_of_def z Let_def split: sum.split)
    with s wf show ?thesis by (intro errors_ok_all) simp_all
  qed (use s in \<open>simp_all add: errors_ok_def submit_settled_def reset_form_def clearErrors_def\<close>)
  with s show "fieldwise safeParse \<and> errors_ok safeParse t" by blast
qed

text \<open>
  Errors current: whatever is changed, left, submitted and reset, an error a form shows is the first complaint
  about the value the field has now; none is left over from an earlier value.
\<close>

theorem errors_current:
  assumes "fieldwise safeParse" "map_wf vals" "(form_step safeParse)\<^sup>*\<^sup>* (useForm vals) s"
    and "map_get (form_errors s) f = Some (Some m)"
  shows "first_issue f (issues_of safeParse (form_values s)) = Some m"
proof -
  have "fieldwise safeParse \<and> errors_ok safeParse s"
    by (rule form.reachable_inv [OF _ assms(3)]) (use assms(1,2) in blast)
  then show ?thesis using assms(4) unfolding errors_ok_def by blast
qed

text \<open>A schema for the examples: a name is required.\<close>

definition demo_schema :: "string schema" where
  "demo_schema vals =
     (case map_get vals ''name'' of
        Some (c # cs) \<Rightarrow> Inr vals
      | _ \<Rightarrow> Inl [(Some ''name'', ''This field is required'')])"

lemma demo_fieldwise: "fieldwise demo_schema"
proof -
  have issues: "issues_of demo_schema v =
      (case map_get v ''name'' of Some (c # cs) \<Rightarrow> [] | _ \<Rightarrow> [(Some ''name'', ''This field is required'')])" for v
    by (simp add: issues_of_def demo_schema_def split: option.split list.split)
  have "first_issue f (issues_of demo_schema v) =
      (if f = ''name'' then case map_get v f of Some (c # cs) \<Rightarrow> None | _ \<Rightarrow> Some ''This field is required'' else None)" for f v
    unfolding issues by (simp add: first_issue_def split: option.split list.split)
  moreover have "\<forall>i \<in> set (issues_of demo_schema v). snd i \<noteq> ''''" for v
    unfolding issues by (simp split: option.split list.split)
  ultimately show ?thesis unfolding fieldwise_def by presburger
qed

theorem submit_exact_witness: "submitted (handleSubmit demo_schema (useForm [(''name'', '''')])) = []"
proof -
  have "\<forall>i \<in> set (issues_of demo_schema (form_values (useForm [(''name'', '''')]))). snd i \<noteq> ''''"
    using demo_fieldwise unfolding fieldwise_def by blast
  from submit_exact [OF this refl] show ?thesis by (simp add: demo_schema_def useForm_def)
qed

theorem errors_current_witness:
  "first_issue ''name'' (issues_of demo_schema [(''name'', '''')]) = Some ''This field is required''"
proof -
  let ?s = "handleSubmit demo_schema (useForm [(''name'', '''')])"
  have "(form_step demo_schema)\<^sup>*\<^sup>* (useForm [(''name'', '''')]) ?s" by (rule r_into_rtranclp, rule form_step.submit)
  moreover have "map_get (form_errors ?s) ''name'' = Some (Some ''This field is required'')"
    by (simp add: handleSubmit_def useForm_def demo_schema_def getZodErrors_def)
  ultimately have "first_issue ''name'' (issues_of demo_schema (form_values ?s)) = Some ''This field is required''"
    using errors_current [OF demo_fieldwise, of "[(''name'', '''')]"] by simp
  then show ?thesis by (simp add: handleSubmit_def useForm_def demo_schema_def)
qed

text \<open>
  Choosing a well-known repository after the empty name has been complained about: the check that was put off
  looks at the values before the choice and complains about them again, next to a name that is there.
\<close>

theorem old_values_checked:
  "let s0 = setFieldTouched demo_schema True ''name'' True (useForm [(''name'', '''')]);
       s = run_put_off demo_schema (setValues True [(''name'', ''bitnami'')] s0)
   in isValid demo_schema (form_values s) \<and> map_get (touched s) ''name'' = Some True \<and>
      map_get (form_errors s) ''name'' = Some (Some ''This field is required'') \<and> put_off s = []"
  by (simp add: setFieldTouched_def useForm_def validateField_def demo_schema_def setValues_def spread_def
      run_put_off_def validate_def getZodErrors_def isValid_def first_issue_def)

end
