(* ===== verification/NodeMemory.thy ===== *)
theory NodeMemory
  imports ResourceTable
begin

text \<open>
  The diagnosis of a node's memory (\<open>components/shared/nodeMemoryDiagnostics.ts\<close>): series of samples, the gaps in
  them, episodes of pressure, the timeline with its tooltip, and the pods that use most. A time or a value is a
  rational number, and \<open>None\<close> where JavaScript has an infinite number or none.
\<close>

record sample =
  taken :: rat
  level :: rat

type_synonym raw_sample = "rat option \<times> rat option"

type_synonym series = "raw_sample list option"

definition points :: "series \<Rightarrow> sample list" where
  "points series =
     List.map_filter (\<lambda>(t, v). case (t, v) of (Some t, Some v) \<Rightarrow> Some \<lparr>taken = t, level = v\<rparr> | _ \<Rightarrow> None)
       (case series of Some xs \<Rightarrow> xs | None \<Rightarrow> [])"

section \<open>One series\<close>

definition latestPoint :: "series \<Rightarrow> sample option" where
  "latestPoint series =
     (let values = sort_key taken (points series) in if values = [] then None else Some (last values))"

fun better :: "(sample \<Rightarrow> sample \<Rightarrow> bool) \<Rightarrow> sample option \<Rightarrow> sample \<Rightarrow> sample option" where
  "better lt None p = Some p"
| "better lt (Some b) p = (if lt p b then Some p else Some b)"

definition minimumPoint :: "series \<Rightarrow> sample option" where
  "minimumPoint series = foldl (better (\<lambda>p b. level p < level b)) None (points series)"

definition peakPoint :: "series \<Rightarrow> sample option" where
  "peakPoint series = foldl (better (\<lambda>p b. level p > level b)) None (points series)"

definition closest :: "rat \<Rightarrow> series \<Rightarrow> sample option" where
  "closest t series = foldl (better (\<lambda>p b. \<bar>taken p - t\<bar> < \<bar>taken b - t\<bar>)) None (points series)"

definition alignedValue :: "series \<Rightarrow> rat \<Rightarrow> rat \<Rightarrow> rat option" where
  "alignedValue series t stepMs =
     (case closest t series of
        Some m \<Rightarrow> if \<bar>taken m - t\<bar> \<le> max (stepMs / 2) 1 then Some (level m) else None
      | None \<Rightarrow> None)"

definition pressureEpisodes :: "series \<Rightarrow> nat" where
  "pressureEpisodes series =
     fst (foldl (\<lambda>(episodes, wasPressure) p.
         let pressure = level p > 0 in (if pressure \<and> \<not> wasPressure then Suc episodes else episodes, pressure))
       (0, False) (sort_key taken (points series)))"

datatype freshness_kind = Unavailable | Fresh | Stale

definition freshness :: "sample option \<Rightarrow> rat \<Rightarrow> rat \<Rightarrow> freshness_kind" where
  "freshness lastSample rangeEndMs stepMs =
     (case lastSample of
        None \<Rightarrow> Unavailable
      | Some p \<Rightarrow> if rangeEndMs - taken p > stepMs * 2 then Stale else Fresh)"

text \<open>A gap of more than two steps starts a new segment.\<close>

definition add_sample :: "rat \<Rightarrow> sample list list \<Rightarrow> sample \<Rightarrow> sample list list" where
  "add_sample stepMs result point =
     (if result = [] \<or> taken point - taken (last (last result)) > stepMs * 2 then result @ [[point]]
      else butlast result @ [last result @ [point]])"

definition segmentSeries :: "series \<Rightarrow> rat \<Rightarrow> sample list list" where
  "segmentSeries series stepMs = foldl (add_sample stepMs) [] (sort_key taken (points series))"

section \<open>The timeline\<close>

record tick =
  tick_value :: rat
  tick_ratio :: rat

definition timelineTimeTicks :: "rat \<Rightarrow> rat \<Rightarrow> nat \<Rightarrow> tick list" where
  "timelineTimeTicks startMs endMs cnt =
     (let safeCount = max 2 cnt; range = max (endMs - startMs) 1 in
      map (\<lambda>i. \<lparr>tick_value = startMs + range * of_nat i / (of_nat safeCount - 1),
                tick_ratio = of_nat i / (of_nat safeCount - 1)\<rparr>) [0..<safeCount])"

definition integerTimeRange :: "rat \<Rightarrow> rat \<Rightarrow> int \<times> int" where
  "integerTimeRange startMs endMs = (\<lfloor>min startMs endMs\<rfloor>, \<lceil>max startMs endMs\<rceil>)"

definition timelineValueTicks :: "rat \<Rightarrow> nat \<Rightarrow> tick list" where
  "timelineValueTicks maxValue cnt =
     (let safeCount = max 2 cnt; mx = max maxValue 1 in
      map (\<lambda>i. \<lparr>tick_value = mx - mx * of_nat i / (of_nat safeCount - 1),
                tick_ratio = of_nat i / (of_nat safeCount - 1)\<rparr>) [0..<safeCount])"

record timeline_line =
  line_label :: string
  line_data :: series
  line_condition :: "bool option"

record tooltip_value =
  tip_label :: string
  tip_value :: rat
  tip_condition :: "bool option"

record marker =
  marker_at :: rat
  reason :: string
  severity :: string

record tooltip =
  tip_at :: rat
  tip_values :: "tooltip_value list"
  tip_markers :: "(string \<times> string) list"

definition visibleTimelineLines :: "timeline_line list \<Rightarrow> string set \<Rightarrow> timeline_line list" where
  "visibleTimelineLines lines hiddenLabels = filter (\<lambda>l. line_label l \<notin> hiddenLabels) lines"

definition timelineDomainMax :: "timeline_line list \<Rightarrow> rat" where
  "timelineDomainMax lines =
     fold max (map level (filter (\<lambda>p. level p \<ge> 0) (concat (map (\<lambda>l. points (line_data l)) lines)))) 1 * (21/20)"

definition timelineTooltip :: "timeline_line list \<Rightarrow> rat \<Rightarrow> rat \<Rightarrow> marker list \<Rightarrow> tooltip" where
  "timelineTooltip lines t stepMs markers =
     \<lparr>tip_at = t,
      tip_values = take 8 (concat (map (\<lambda>l. case alignedValue (line_data l) t stepMs of
          None \<Rightarrow> [] | Some v \<Rightarrow> [\<lparr>tip_label = line_label l, tip_value = v, tip_condition = line_condition l\<rparr>]) lines)),
      tip_markers = take 3 (map (\<lambda>m. (reason m, severity m))
          (filter (\<lambda>m. \<bar>marker_at m - t\<bar> \<le> max (stepMs / 2) 1) markers))\<rparr>"

section \<open>The pods that use most\<close>

record contributor =
  contributor_namespace :: string
  contributor_pod :: string
  workingSet :: series

record contributor_summary = contributor +
  peak :: "sample option"
  newest :: "sample option"

definition peak_level :: "contributor_summary \<Rightarrow> rat" where
  "peak_level c = (case peak c of Some p \<Rightarrow> level p | None \<Rightarrow> 0)"

definition compare_contributors :: "(string \<Rightarrow> 'k::linorder) \<Rightarrow> contributor_summary \<Rightarrow> contributor_summary \<Rightarrow> int" where
  "compare_contributors collate a b =
     (if peak_level a \<noteq> peak_level b then (if peak_level b > peak_level a then 1 else -1)
      else let n = locale_compare collate (contributor_namespace a) (contributor_namespace b) in
           if n \<noteq> 0 then n else locale_compare collate (contributor_pod a) (contributor_pod b))"

definition contributorSummaries :: "(string \<Rightarrow> 'k::linorder) \<Rightarrow> contributor list option \<Rightarrow> contributor_summary list" where
  "contributorSummaries collate contributors =
     js_sort (compare_contributors collate)
       (map (\<lambda>c. \<lparr>contributor_namespace = contributor_namespace c, contributor_pod = contributor_pod c,
              workingSet = workingSet c, peak = peakPoint (workingSet c), newest = latestPoint (workingSet c)\<rparr>)
         (case contributors of Some cs \<Rightarrow> cs | None \<Rightarrow> []))"

definition nonNegative :: "rat option \<Rightarrow> rat option" where
  "nonNegative value' = map_option (\<lambda>v. max 0 v) value'"

section \<open>What is computed\<close>

lemma better_fold:
  assumes "\<And>p b. lt p b \<longleftrightarrow> (key p :: rat) < key b"
  shows "case foldl (better lt) b0 ps of
      None \<Rightarrow> b0 = None \<and> ps = []
    | Some m \<Rightarrow> m \<in> set_option b0 \<union> set ps \<and> (\<forall>q \<in> set_option b0 \<union> set ps. key m \<le> key q)"
proof (induction ps arbitrary: b0)
  case Nil
  then show ?case by (simp split: option.split)
next
  case (Cons p ps)
  show ?case
  proof (cases b0)
    case None
    then show ?thesis using Cons [of "Some p"] by (simp split: option.splits)
  next
    case (Some b)
    have "better lt b0 p = Some (if key p < key b then p else b)" using Some by (simp add: assms)
    then show ?thesis
      using Cons [of "Some (if key p < key b then p else b)"] Some by (auto split: option.splits if_splits)
  qed
qed

lemma peak_exact:
  "case peakPoint series of None \<Rightarrow> points series = []
   | Some m \<Rightarrow> m \<in> set (points series) \<and> (\<forall>q \<in> set (points series). level q \<le> level m)"
  using better_fold [of "\<lambda>p b. level p > level b" "\<lambda>p. - level p" None "points series"]
  by (simp add: peakPoint_def split: option.splits)

lemma minimum_exact:
  "case minimumPoint series of None \<Rightarrow> points series = []
   | Some m \<Rightarrow> m \<in> set (points series) \<and> (\<forall>q \<in> set (points series). level m \<le> level q)"
  using better_fold [of "\<lambda>p b. level p < level b" level None "points series"]
  by (simp add: minimumPoint_def split: option.splits)

lemma latest_exact:
  "case latestPoint series of None \<Rightarrow> points series = []
   | Some m \<Rightarrow> m \<in> set (points series) \<and> (\<forall>q \<in> set (points series). taken q \<le> taken m)"
proof -
  let ?xs = "sort_key taken (points series)"
  have sorted: "sorted (map taken ?xs)" by simp
  have "taken q \<le> taken (last ?xs)" if "q \<in> set ?xs" for q
  proof -
    obtain i where i: "i < length ?xs" "q = ?xs ! i" using \<open>q \<in> set ?xs\<close> by (metis in_set_conv_nth)
    then have "taken (?xs ! i) \<le> taken (?xs ! (length ?xs - 1))"
      using sorted_nth_mono [OF sorted, of i "length ?xs - 1"] by simp
    then show ?thesis using i by (metis last_conv_nth length_0_conv not_less_zero)
  qed
  moreover have "?xs \<noteq> [] \<Longrightarrow> last ?xs \<in> set ?xs" by (rule last_in_set)
  moreover have "set ?xs = set (points series)" "?xs = [] \<longleftrightarrow> points series = []"
    by (simp, metis set_empty set_sort)
  ultimately show ?thesis unfolding latestPoint_def Let_def by (simp del: set_sort set_empty split: if_split)
qed

text \<open>
  Aligned exact: the value shown for a time is that of a sample nearest to it, and there is none exactly when
  no sample lies within half a step.
\<close>

theorem aligned_exact:
  "case alignedValue series t stepMs of
     Some v \<Rightarrow> \<exists>p \<in> set (points series). level p = v \<and> \<bar>taken p - t\<bar> \<le> max (stepMs / 2) 1 \<and>
       (\<forall>q \<in> set (points series). \<bar>taken p - t\<bar> \<le> \<bar>taken q - t\<bar>)
   | None \<Rightarrow> \<forall>p \<in> set (points series). \<bar>taken p - t\<bar> > max (stepMs / 2) 1"
proof -
  have c: "case closest t series of None \<Rightarrow> points series = []
     | Some m \<Rightarrow> m \<in> set (points series) \<and> (\<forall>q \<in> set (points series). \<bar>taken m - t\<bar> \<le> \<bar>taken q - t\<bar>)"
    using better_fold [of "\<lambda>p b. \<bar>taken p - t\<bar> < \<bar>taken b - t\<bar>" "\<lambda>p. \<bar>taken p - t\<bar>" None "points series"]
    by (simp add: closest_def split: option.splits)
  show ?thesis
  proof (cases "closest t series")
    case None
    then show ?thesis using c by (simp add: alignedValue_def)
  next
    case (Some m)
    then have m: "m \<in> set (points series)" "\<forall>q \<in> set (points series). \<bar>taken m - t\<bar> \<le> \<bar>taken q - t\<bar>" using c by simp_all
    show ?thesis
    proof (cases "\<bar>taken m - t\<bar> \<le> max (stepMs / 2) 1")
      case True
      then have "alignedValue series t stepMs = Some (level m)" using Some by (simp add: alignedValue_def)
      then show ?thesis using m True by auto
    next
      case False
      then have "alignedValue series t stepMs = None" using Some by (simp add: alignedValue_def)
      then show ?thesis using m(2) False by (simp only: option.case) (meson not_le order_trans)
    qed
  qed
qed

lemma add_sample_segments:
  assumes "concat segs = xs" "[] \<notin> set segs"
    "\<forall>s \<in> set segs. successively (\<lambda>p q. taken q - taken p \<le> stepMs * 2) s"
    "successively (\<lambda>s t. taken (hd t) - taken (last s) > stepMs * 2) segs"
  shows "concat (add_sample stepMs segs p) = xs @ [p]" "[] \<notin> set (add_sample stepMs segs p)"
    "\<forall>s \<in> set (add_sample stepMs segs p). successively (\<lambda>p q. taken q - taken p \<le> stepMs * 2) s"
    "successively (\<lambda>s t. taken (hd t) - taken (last s) > stepMs * 2) (add_sample stepMs segs p)"
proof -
  consider "segs = []" | ss s where "segs = ss @ [s]" "s \<noteq> []" by (metis append_butlast_last_id assms(2) last_in_set)
  then have "concat (add_sample stepMs segs p) = xs @ [p] \<and> [] \<notin> set (add_sample stepMs segs p) \<and>
    (\<forall>s \<in> set (add_sample stepMs segs p). successively (\<lambda>p q. taken q - taken p \<le> stepMs * 2) s) \<and>
    successively (\<lambda>s t. taken (hd t) - taken (last s) > stepMs * 2) (add_sample stepMs segs p)"
  proof cases
    case 1
    then show ?thesis using assms(1) by (simp add: add_sample_def)
  next
    case 2
    then show ?thesis
      using assms by (auto simp: add_sample_def successively_append_iff)
  qed
  then show "concat (add_sample stepMs segs p) = xs @ [p]" "[] \<notin> set (add_sample stepMs segs p)"
    "\<forall>s \<in> set (add_sample stepMs segs p). successively (\<lambda>p q. taken q - taken p \<le> stepMs * 2) s"
    "successively (\<lambda>s t. taken (hd t) - taken (last s) > stepMs * 2) (add_sample stepMs segs p)"
    by blast+
qed

text \<open>
  Segments exact: the segments of a series are its samples in the order of time, cut exactly where two
  neighbours are more than two steps apart.
\<close>

theorem segments_exact:
  "concat (segmentSeries series stepMs) = sort_key taken (points series) \<and> [] \<notin> set (segmentSeries series stepMs) \<and>
   (\<forall>s \<in> set (segmentSeries series stepMs). successively (\<lambda>p q. taken q - taken p \<le> stepMs * 2) s) \<and>
   successively (\<lambda>s t. taken (hd t) - taken (last s) > stepMs * 2) (segmentSeries series stepMs)"
proof -
  have "concat (foldl (add_sample stepMs) [] xs) = xs \<and> [] \<notin> set (foldl (add_sample stepMs) [] xs) \<and>
     (\<forall>s \<in> set (foldl (add_sample stepMs) [] xs). successively (\<lambda>p q. taken q - taken p \<le> stepMs * 2) s) \<and>
     successively (\<lambda>s t. taken (hd t) - taken (last s) > stepMs * 2) (foldl (add_sample stepMs) [] xs)" for xs
  proof (induction xs rule: rev_induct)
    case (snoc p xs)
    then show ?case using add_sample_segments [of "foldl (add_sample stepMs) [] xs" xs stepMs p] by simp
  qed simp
  then show ?thesis unfolding segmentSeries_def by blast
qed

text \<open>
  Episodes exact: an episode of pressure is counted for every sample above zero that is the first or follows
  one that is not.
\<close>

theorem episodes_exact:
  fixes series
  defines "xs \<equiv> sort_key taken (points series)"
  shows "pressureEpisodes series = card {i. i < length xs \<and> level (xs ! i) > 0 \<and> (i = 0 \<or> level (xs ! (i - 1)) \<le> 0)}"
proof -
  define tally where "tally = foldl (\<lambda>(episodes, wasPressure) (p :: sample).
      let pressure = level p > 0 in (if pressure \<and> \<not> wasPressure then Suc episodes else episodes, pressure)) (0 :: nat, False)"
  define rise where "rise ys = {i. i < length ys \<and> level (ys ! i) > 0 \<and> (i = 0 \<or> level (ys ! (i - 1)) \<le> 0)}" for ys :: "sample list"
  have "tally ys = (card (rise ys), ys \<noteq> [] \<and> level (last ys) > 0)" for ys :: "sample list"
  proof (induction ys rule: rev_induct)
    case Nil
    then show ?case by (simp add: tally_def rise_def)
  next
    case (snoc p ys)
    have last: "ys \<noteq> [] \<Longrightarrow> ys ! (length ys - 1) = last ys" by (simp add: last_conv_nth)
    have step: "tally (ys @ [p]) = (if level p > 0 \<and> \<not> snd (tally ys) then Suc (fst (tally ys)) else fst (tally ys), level p > 0)"
      unfolding tally_def by (simp add: Let_def case_prod_beta)
    have old: "rise (ys @ [p]) \<inter> {..< length ys} = rise ys" by (auto simp: rise_def nth_append split: if_splits)
    have split: "rise (ys @ [p]) = rise ys \<union> (if level p > 0 \<and> (ys = [] \<or> level (last ys) \<le> 0) then {length ys} else {})"
    proof (rule set_eqI)
      fix i
      show "i \<in> rise (ys @ [p]) \<longleftrightarrow> i \<in> rise ys \<union> (if level p > 0 \<and> (ys = [] \<or> level (last ys) \<le> 0) then {length ys} else {})"
      proof (cases "i < length ys")
        case True
        then show ?thesis by (auto simp: rise_def nth_append)
      next
        case False
        then consider "i = length ys" | "i > length ys" by linarith
        then show ?thesis
        proof cases
          case 1
          then show ?thesis using last by (cases "ys = []") (simp_all add: rise_def nth_append)
        next
          case 2
          then show ?thesis by (simp add: rise_def)
        qed
      qed
    qed
    have fin: "finite (rise ys)" "length ys \<notin> rise ys" by (simp_all add: rise_def)
    show ?case using snoc fin by (auto simp: step split not_less)
  qed
  then show ?thesis by (simp add: pressureEpisodes_def tally_def rise_def xs_def)
qed

text \<open>
  Ticks span: the marks of the time axis begin with the start of the range and end with its end, at even
  distances.
\<close>

theorem ticks_span:
  assumes "startMs + 1 \<le> endMs"
  shows "length (timelineTimeTicks startMs endMs cnt) = max 2 cnt \<and>
    hd (timelineTimeTicks startMs endMs cnt) = \<lparr>tick_value = startMs, tick_ratio = 0\<rparr> \<and>
    last (timelineTimeTicks startMs endMs cnt) = \<lparr>tick_value = endMs, tick_ratio = 1\<rparr> \<and>
    (\<forall>tk \<in> set (timelineTimeTicks startMs endMs cnt). tick_value tk = startMs + (endMs - startMs) * tick_ratio tk)"
proof -
  have n: "(of_nat (max 2 cnt) :: rat) - 1 \<noteq> 0" "of_nat (max 2 cnt - 1) = (of_nat (max 2 cnt) - 1 :: rat)"
    by (simp_all add: of_nat_diff max_def)
  have r: "max (endMs - startMs) 1 = endMs - startMs" using assms by simp
  have up: "[0..<max 2 cnt] = 0 # [1..<max 2 cnt]" "[0..<max 2 cnt] \<noteq> []" "last [0..<max 2 cnt] = max 2 cnt - 1"
  proof -
    show "[0..<max 2 cnt] = 0 # [1..<max 2 cnt]" using upt_conv_Cons [of 0 "max 2 cnt"] by simp
    show "[0..<max 2 cnt] \<noteq> []" by (simp only: upt_eq_Nil_conv) simp
    show "last [0..<max 2 cnt] = max 2 cnt - 1" by (rule last_upt) simp
  qed
  have hd: "hd (timelineTimeTicks startMs endMs cnt) = \<lparr>tick_value = startMs, tick_ratio = 0\<rparr>"
    unfolding timelineTimeTicks_def Let_def up(1) list.map list.sel by simp
  have last: "last (timelineTimeTicks startMs endMs cnt) = \<lparr>tick_value = endMs, tick_ratio = 1\<rparr>"
    unfolding timelineTimeTicks_def Let_def last_map [OF up(2)] up(3) r n(2) using n(1) by simp
  have "length (timelineTimeTicks startMs endMs cnt) = max 2 cnt"
    unfolding timelineTimeTicks_def Let_def by (simp only: length_map length_upt diff_zero)
  moreover have "tick_value tk = startMs + (endMs - startMs) * tick_ratio tk"
    if "tk \<in> set (timelineTimeTicks startMs endMs cnt)" for tk
    using that unfolding timelineTimeTicks_def Let_def r by (simp only: set_map) fastforce
  ultimately show ?thesis using hd last by blast
qed

theorem ticks_span_witness: "length (timelineTimeTicks 0 100 5) = 5"
  using ticks_span [of 0 100 5, THEN conjunct1] by simp

text \<open>
  Contributors ranked: the summary lists every pod once, those with the highest peak first and equal ones by
  namespace and name.
\<close>

theorem contributors_ranked:
  fixes collate :: "string \<Rightarrow> 'k::linorder"
  assumes "inj collate"
  shows "mset (map (\<lambda>c. (contributor_namespace c, contributor_pod c)) (contributorSummaries collate (Some cs))) =
      mset (map (\<lambda>c. (contributor_namespace c, contributor_pod c)) cs) \<and>
    sorted_wrt (\<lambda>a b. peak_level a > peak_level b \<or> peak_level a = peak_level b \<and>
        (collate (contributor_namespace a) < collate (contributor_namespace b) \<or>
         contributor_namespace a = contributor_namespace b \<and> collate (contributor_pod a) \<le> collate (contributor_pod b)))
      (contributorSummaries collate (Some cs))"
proof -
  have eq: "collate x = collate y \<longleftrightarrow> x = y" for x y using assms by (auto dest: injD)
  have iff: "compare_contributors collate a b \<le> 0 \<longleftrightarrow>
      peak_level a > peak_level b \<or> peak_level a = peak_level b \<and>
        (collate (contributor_namespace a) < collate (contributor_namespace b) \<or>
         contributor_namespace a = contributor_namespace b \<and> collate (contributor_pod a) \<le> collate (contributor_pod b))" for a b
    by (auto simp: compare_contributors_def locale_compare_def Let_def eq)
  have "sorted_wrt (\<lambda>a b. compare_contributors collate a b \<le> 0) (contributorSummaries collate (Some cs))"
    unfolding contributorSummaries_def by (rule js_sort_sorted) (unfold iff, auto simp: eq)
  moreover have "mset (map (\<lambda>c. (contributor_namespace c, contributor_pod c)) (contributorSummaries collate (Some cs))) =
      mset (map (\<lambda>c. (contributor_namespace c, contributor_pod c)) cs)"
    by (simp add: contributorSummaries_def image_mset.compositionality comp_def)
  ultimately show ?thesis by (simp only: iff)
qed

theorem contributors_ranked_witness:
  "mset (map (\<lambda>c. (contributor_namespace c, contributor_pod c)) (contributorSummaries (\<lambda>s. s) (Some
      [\<lparr>contributor_namespace = ''dev'', contributor_pod = ''web'', workingSet = None\<rparr>]))) = {#(''dev'', ''web'')#}"
proof -
  have "inj (\<lambda>s :: string. s)" by (simp add: inj_on_def)
  from contributors_ranked [OF this, of "[\<lparr>contributor_namespace = ''dev'', contributor_pod = ''web'', workingSet = None\<rparr>]"]
  show ?thesis by simp
qed

end
