(* ===== verification/TimePicker.thy ===== *)
theory TimePicker
  imports LogText
begin

text \<open>
  Jumping to a time in the logs (\<open>log-viewer/TimePickerModal.tsx\<close>, \<open>lib/validation/schemas/log.ts\<close>): which texts the
  dialog accepts, what it starts with, and the time it applies (\<open>toRFC3339\<close> of \<open>LogText\<close>).
\<close>

section \<open>The dialog\<close>

definition full :: "string \<Rightarrow> string \<Rightarrow> bool" where
  "full shape s \<longleftrightarrow> match_shape shape s \<and> length s = length shape"

definition dateTimePatterns :: "(string \<Rightarrow> bool) list" where
  "dateTimePatterns =
     [\<lambda>s. full ''dddd-dd-ddTdd:dd:dd'' s \<or> full ''dddd-dd-ddTdd:dd:ddZ'' s,
      full ''dddd-dd-dd dd:dd:dd'',
      full ''dddd-dd-ddTdd:dd'',
      full ''dddd-dd-dd dd:dd'']"

definition time_complaints :: "string \<Rightarrow> string list" where
  "time_complaints val =
     (if length val < 1 then [''Please enter a date/time''] else []) @
     (if list_ex (\<lambda>p. p val) dateTimePatterns then [] else [''Invalid format. Use: YYYY-MM-DD HH:MM:SS''])"

definition replace_first :: "char \<Rightarrow> string \<Rightarrow> string \<Rightarrow> string" where
  "replace_first c r s =
     (case dropWhile (\<lambda>x. x \<noteq> c) s of [] \<Rightarrow> s | _ # t \<Rightarrow> takeWhile (\<lambda>x. x \<noteq> c) s @ r @ t)"

text \<open>\<open>/\.\d+Z$/\<close>; only the last dot can be followed by digits and the end.\<close>

definition drop_fraction :: "string \<Rightarrow> string" where
  "drop_fraction s =
     (let r = rev s in
      if r \<noteq> [] \<and> hd r = CHR ''Z''
      then let ds = takeWhile is_digit (tl r); rest = dropWhile is_digit (tl r)
           in if ds \<noteq> [] \<and> rest \<noteq> [] \<and> hd rest = CHR ''.'' then rev (tl rest) else s
      else s)"

definition prefill :: "string \<Rightarrow> string \<Rightarrow> string \<Rightarrow> string" where
  "prefill sinceTime firstTs podCreationTime =
     (if sinceTime \<noteq> '''' then replace_first CHR ''Z'' '''' (replace_first CHR ''T'' '' '' sinceTime)
      else if firstTs \<noteq> '''' then drop_fraction (replace_first CHR ''T'' '' '' firstTs)
      else if podCreationTime \<noteq> '''' then take 19 (replace_first CHR ''Z'' '''' (replace_first CHR ''T'' '' '' podCreationTime))
      else '''')"

text \<open>The time the viewer filters by after the dialog, or \<open>None\<close> when it refuses.\<close>

definition apply_time :: "string \<Rightarrow> string option" where
  "apply_time inputTime = (if time_complaints inputTime = [] then Some (toRFC3339 inputTime) else None)"

section \<open>Shapes\<close>

lemma full_Cons: "full (p # ps) (c # cs) \<longleftrightarrow> (if p = CHR ''d'' then is_digit c else c = p) \<and> full ps cs"
  by (auto simp: full_def)

lemma full_Nil [simp]: "full [] s \<longleftrightarrow> s = []" "full (p # ps) [] \<longleftrightarrow> False"
  by (auto simp: full_def)

lemma full_append: "full (ps @ qs) s \<longleftrightarrow> (\<exists>a b. s = a @ b \<and> full ps a \<and> full qs b)"
proof (induction ps arbitrary: s)
  case (Cons p ps)
  show ?case
  proof (cases s)
    case (Cons c cs)
    have "full (p # ps @ qs) (c # cs) \<longleftrightarrow> (\<exists>a b. c # cs = (c # a) @ b \<and> full (p # ps) (c # a) \<and> full qs b)"
      unfolding full_Cons Cons.IH by (cases "if p = CHR ''d'' then is_digit c else c = p") simp_all
    moreover have "(\<exists>a b. c # cs = a @ b \<and> full (p # ps) a \<and> full qs b) \<longleftrightarrow>
        (\<exists>a b. c # cs = (c # a) @ b \<and> full (p # ps) (c # a) \<and> full qs b)"
      by (metis Cons_eq_append_conv full_Nil(2))
    ultimately show ?thesis unfolding Cons by (simp only: append.simps)
  qed simp
qed simp

lemma full_char: "p \<noteq> CHR ''d'' \<Longrightarrow> full (p # ps) s \<longleftrightarrow> (\<exists>t. s = p # t \<and> full ps t)"
  by (cases s) (auto simp: full_Cons)

lemma full_set: "full ps s \<Longrightarrow> c \<in> set s \<Longrightarrow> is_digit c \<or> c \<in> set ps"
proof (induction ps arbitrary: s)
  case (Cons p ps)
  then show ?case by (cases s) (auto simp: full_Cons split: if_splits)
qed simp

lemma not_digits [simp]:
  "\<not> is_digit CHR ''T''" "\<not> is_digit CHR ''Z''" "\<not> is_digit CHR '' ''" "\<not> is_digit CHR '':''" "\<not> is_digit CHR ''-''" "\<not> is_digit CHR ''.''"
  by (simp_all add: is_digit_def)

definition date_shape :: string where "date_shape = ''dddd-dd-dd''"
definition clock_shape :: string where "clock_shape = ''dd:dd:dd''"
definition short_clock :: string where "short_clock = ''dd:dd''"

lemmas shape_defs = date_shape_def clock_shape_def short_clock_def

definition is_time :: "string \<Rightarrow> bool" where
  "is_time t \<longleftrightarrow> full ''dddd-dd-ddTdd:dd:ddZ'' t"

lemma full_joined:
  assumes "sep \<noteq> CHR ''d''"
  shows "full (date_shape @ sep # clock) s \<longleftrightarrow> (\<exists>a b. s = a @ sep # b \<and> full date_shape a \<and> full clock b)"
  unfolding full_append full_char [OF assms] by blast

lemma full_z: "full (clock @ ''Z'') s \<longleftrightarrow> (\<exists>b. s = b @ ''Z'' \<and> full clock b)"
  unfolding full_append by (simp add: full_char)

lemma is_time_iff: "is_time t \<longleftrightarrow> (\<exists>a b. t = a @ ''T'' @ b @ ''Z'' \<and> full date_shape a \<and> full clock_shape b)"
proof -
  have "''dddd-dd-ddTdd:dd:ddZ'' = date_shape @ CHR ''T'' # (clock_shape @ ''Z'')" by (simp add: shape_defs)
  then have "is_time t \<longleftrightarrow> full (date_shape @ CHR ''T'' # (clock_shape @ ''Z'')) t" by (simp only: is_time_def)
  also have "\<dots> \<longleftrightarrow> (\<exists>a b. t = a @ ''T'' @ b @ ''Z'' \<and> full date_shape a \<and> full clock_shape b)"
    by (subst full_joined) (simp, unfold full_z, fastforce)
  finally show ?thesis .
qed

lemma accepted_iff:
  "list_ex (\<lambda>p. p s) dateTimePatterns \<longleftrightarrow>
     (\<exists>a b. full date_shape a \<and>
       (full clock_shape b \<and> (s = a @ ''T'' @ b \<or> s = a @ ''T'' @ b @ ''Z'' \<or> s = a @ '' '' @ b) \<or>
        full short_clock b \<and> (s = a @ ''T'' @ b \<or> s = a @ '' '' @ b)))"
proof -
  have shapes: "''dddd-dd-ddTdd:dd:dd'' = date_shape @ CHR ''T'' # clock_shape" "''dddd-dd-dd dd:dd:dd'' = date_shape @ CHR '' '' # clock_shape"
    "''dddd-dd-ddTdd:dd'' = date_shape @ CHR ''T'' # short_clock" "''dddd-dd-dd dd:dd'' = date_shape @ CHR '' '' # short_clock"
    by (simp_all add: shape_defs)
  have n: "CHR ''T'' \<noteq> CHR ''d''" "CHR '' '' \<noteq> CHR ''d''" by simp_all
  have "list_ex (\<lambda>p. p s) dateTimePatterns \<longleftrightarrow>
      full ''dddd-dd-ddTdd:dd:dd'' s \<or> is_time s \<or> full ''dddd-dd-dd dd:dd:dd'' s \<or>
      full ''dddd-dd-ddTdd:dd'' s \<or> full ''dddd-dd-dd dd:dd'' s"
    unfolding dateTimePatterns_def is_time_def by simp
  then show ?thesis
    unfolding shapes full_joined [OF n(1)] full_joined [OF n(2)] is_time_iff append.simps by blast
qed

lemma shape_free:
  assumes "full ps s" "c \<notin> set ps" "\<not> is_digit c"
  shows "c \<notin> set s"
  using full_set [OF assms(1)] assms(2,3) by blast

lemma date_free:
  assumes "full date_shape a"
  shows "CHR ''T'' \<notin> set a" "CHR ''Z'' \<notin> set a" "CHR '' '' \<notin> set a" "length a = 10"
  by (rule shape_free [OF assms]; simp add: date_shape_def)+ (use assms in \<open>simp add: full_def date_shape_def\<close>)

lemma clock_free:
  assumes "full clock_shape b \<or> full short_clock b"
  shows "CHR ''T'' \<notin> set b" "CHR ''Z'' \<notin> set b" "CHR '' '' \<notin> set b"
proof -
  have "c \<notin> set b" if "c \<notin> {CHR ''d'', CHR '':''}" "\<not> is_digit c" for c
    using assms shape_free [of clock_shape b c] shape_free [of short_clock b c] that by (auto simp: shape_defs)
  then show "CHR ''T'' \<notin> set b" "CHR ''Z'' \<notin> set b" "CHR '' '' \<notin> set b" by simp_all
qed

lemma rfc_no_z:
  assumes "CHR ''Z'' \<notin> set s"
  shows "\<not> str_includes s '':00Z''" "\<not> ends_with s ''Z''"
  using assms by (auto simp: str_includes_iff sublist_def suffix_def)

lemma cut_at:
  "c \<notin> set a \<Longrightarrow> takeWhile (\<lambda>x. x \<noteq> c) (a @ c # b) = a"
  "c \<notin> set a \<Longrightarrow> dropWhile (\<lambda>x. x \<noteq> c) (a @ c # b) = c # b"
  by (induction a) auto

lemma replace_first_at: "c \<notin> set a \<Longrightarrow> replace_first c r (a @ c # b) = a @ r @ b"
  by (simp add: replace_first_def cut_at)

lemma toRFC3339_short:
  assumes "full date_shape a" "full short_clock b" "sep = CHR ''T'' \<or> sep = CHR '' ''"
  shows "toRFC3339 (a @ sep # b) = a @ ''T'' @ b @ '':00Z''"
proof -
  have n: "(if CHR '' '' \<in> set (a @ sep # b) then takeWhile (\<lambda>c. c \<noteq> CHR '' '') (a @ sep # b) @ ''T'' @ tl (dropWhile (\<lambda>c. c \<noteq> CHR '' '') (a @ sep # b))
      else a @ sep # b) = a @ ''T'' @ b"
    using assms(3) date_free [OF assms(1)] clock_free [of b] assms(2) by (auto simp: cut_at)
  have z: "CHR ''Z'' \<notin> set (a @ ''T'' @ b)" using date_free [OF assms(1)] clock_free [of b] assms(2) by simp
  have l: "length (a @ ''T'' @ b) = 16" using assms by (simp add: full_def shape_defs)
  show ?thesis unfolding toRFC3339_def n Let_def using rfc_no_z [OF z] l by simp
qed

lemma toRFC3339_long:
  assumes "full date_shape a" "full clock_shape b" "sep = CHR ''T'' \<or> sep = CHR '' ''"
  shows "toRFC3339 (a @ sep # b) = a @ ''T'' @ b @ ''Z''"
proof -
  have n: "(if CHR '' '' \<in> set (a @ sep # b) then takeWhile (\<lambda>c. c \<noteq> CHR '' '') (a @ sep # b) @ ''T'' @ tl (dropWhile (\<lambda>c. c \<noteq> CHR '' '') (a @ sep # b))
      else a @ sep # b) = a @ ''T'' @ b"
    using assms(3) date_free [OF assms(1)] clock_free [of b] assms(2) by (auto simp: cut_at)
  have z: "CHR ''Z'' \<notin> set (a @ ''T'' @ b)" using date_free [OF assms(1)] clock_free [of b] assms(2) by simp
  have l: "length (a @ ''T'' @ b) = 19" using assms by (simp add: full_def shape_defs)
  show ?thesis unfolding toRFC3339_def n Let_def using rfc_no_z [OF z] l by simp
qed

lemma toRFC3339_time: "is_time t \<Longrightarrow> toRFC3339 t = t"
proof -
  assume "is_time t"
  then obtain a b where t: "t = a @ ''T'' @ b @ ''Z''" and ab: "full date_shape a" "full clock_shape b"
    unfolding is_time_iff by blast
  have "CHR '' '' \<notin> set t" using date_free [OF ab(1)] clock_free [of b] ab(2) by (simp add: t)
  moreover have "ends_with t ''Z''" by (simp add: t suffix_def)
  moreover have "t \<noteq> ''''" by (simp add: t)
  ultimately show ?thesis by (simp add: toRFC3339_def)
qed

section \<open>What the dialog promises\<close>

text \<open>
  Time reopened: every text the dialog accepts becomes a time in the form the backend expects, and the dialog
  opened again on that time shows a text that is accepted and stands for the same time.
\<close>

theorem time_reopened:
  assumes "apply_time s = Some t"
  shows "is_time t \<and> apply_time (prefill t firstTs podCreationTime) = Some t"
proof -
  have s: "list_ex (\<lambda>p. p s) dateTimePatterns" and t: "t = toRFC3339 s"
    using assms by (simp_all add: apply_time_def time_complaints_def split: if_splits)
  obtain a b where ab: "full date_shape a" "full clock_shape b" "t = a @ ''T'' @ b @ ''Z''"
  proof -
    from s obtain a b where a: "full date_shape a" and
      b: "full clock_shape b \<and> (s = a @ ''T'' @ b \<or> s = a @ ''T'' @ b @ ''Z'' \<or> s = a @ '' '' @ b) \<or>
        full short_clock b \<and> (s = a @ ''T'' @ b \<or> s = a @ '' '' @ b)"
      unfolding accepted_iff by blast
    show thesis
    proof (cases "full clock_shape b")
      case True
      have "full short_clock b \<longleftrightarrow> False" using True by (simp add: full_def shape_defs)
      moreover have "toRFC3339 (a @ ''T'' @ b @ ''Z'') = a @ ''T'' @ b @ ''Z''"
        by (rule toRFC3339_time) (use a True in \<open>auto simp: is_time_iff\<close>)
      ultimately have "t = a @ ''T'' @ b @ ''Z''"
        using b t toRFC3339_long [OF a True, of "CHR ''T''"] toRFC3339_long [OF a True, of "CHR '' ''"] by auto
      then show thesis using that a True by blast
    next
      case False
      then have sb: "full short_clock b" using b by blast
      have "full '':dd'' '':00''" by code_simp
      then have "full (short_clock @ '':dd'') (b @ '':00'')" unfolding full_append using sb by blast
      then have c: "full clock_shape (b @ '':00'')" by (simp add: shape_defs)
      have "t = a @ ''T'' @ (b @ '':00'') @ ''Z''"
        using b False t toRFC3339_short [OF a sb, of "CHR ''T''"] toRFC3339_short [OF a sb, of "CHR '' ''"] by auto
      then show thesis using that a c by blast
    qed
  qed
  have p: "prefill t firstTs podCreationTime = a @ '' '' @ b"
    using date_free [OF ab(1)] clock_free [of b] ab(2)
      replace_first_at [of "CHR ''T''" a "'' ''" "b @ ''Z''"] replace_first_at [of "CHR ''Z''" "a @ '' '' @ b" "''''" "''''"]
    by (simp add: prefill_def ab(3))
  have "list_ex (\<lambda>p. p (a @ '' '' @ b)) dateTimePatterns" unfolding accepted_iff using ab by blast
  then have "apply_time (a @ '' '' @ b) = Some (toRFC3339 (a @ '' '' @ b))" by (simp add: apply_time_def time_complaints_def)
  moreover have "toRFC3339 (a @ '' '' @ b) = t" using toRFC3339_long [OF ab(1,2), of "CHR '' ''"] ab(3) by simp
  moreover have "is_time t" using ab unfolding is_time_iff by blast
  ultimately show ?thesis by (simp only: p)
qed

theorem time_reopened_witness: "is_time ''2024-11-26T14:30:00Z''"
proof -
  have "apply_time ''2024-11-26 14:30'' = Some ''2024-11-26T14:30:00Z''" by code_simp
  then show ?thesis using time_reopened by blast
qed

end
