(* ===== verification/Formatting.thy ===== *)
theory Formatting
  imports Complex_Main JsStrings
begin

text \<open>
  Ages and sizes as texts (\<open>utils/formatting.ts\<close>, \<open>components/shared/PodFileBrowser.tsx\<close>). Times are whole
  milliseconds, \<open>None\<close> for a text that is no date; logarithms and quotients are exact.
\<close>

section \<open>Ages\<close>

definition two_units :: "int \<Rightarrow> char \<Rightarrow> int \<Rightarrow> char \<Rightarrow> string" where
  "two_units a u b v = (if b > 0 then show_int a @ [u] @ '' '' @ show_int b @ [v] else show_int a @ [u])"

definition age_text :: "int \<Rightarrow> string" where
  "age_text diff =
     (if diff < 60 then show_int diff @ ''s''
      else let minutes = diff div 60 in
      if minutes < 60 then show_int minutes @ ''m''
      else let hours = minutes div 60; remainingMinutes = minutes mod 60 in
      if hours < 24 then two_units hours CHR ''h'' remainingMinutes CHR ''m''
      else let days = hours div 24; remainingHours = hours mod 24 in
      if days < 365 then two_units days CHR ''d'' remainingHours CHR ''h''
      else let years = days div 365; remainingDays = days mod 365 in
        two_units years CHR ''y'' remainingDays CHR ''d'')"

definition formatAge :: "(string \<Rightarrow> int option) \<Rightarrow> int \<Rightarrow> string \<Rightarrow> string" where
  "formatAge parse_date now t =
     (if t = '''' then ''''
      else case parse_date t of
        Some start \<Rightarrow> age_text ((now - start) div 1000)
      | None \<Rightarrow> ''NaNy'')"

section \<open>Sizes\<close>

text \<open>\<open>Math.floor(Math.log(n) / Math.log(k))\<close> for a whole number of at least one.\<close>

function power_of :: "nat \<Rightarrow> nat \<Rightarrow> nat" where
  "power_of k n = (if k < 2 \<or> n < k then 0 else Suc (power_of k (n div k)))"
  by pat_completeness auto
termination by (relation "measure snd") auto

declare power_of.simps [simp del]

text \<open>\<open>x.toFixed(1)\<close> for \<open>x \<ge> 0\<close>: the tenths, halves rounded up.\<close>

definition tenths :: "rat \<Rightarrow> nat" where
  "tenths x = nat \<lfloor>x * 10 + 1/2\<rfloor>"

definition show_tenths :: "nat \<Rightarrow> string" where
  "show_tenths n = show_nat (n div 10) @ ''.'' @ show_nat (n mod 10)"

definition formatBytes :: "nat option \<Rightarrow> string" where
  "formatBytes bytes =
     (case bytes of
        None \<Rightarrow> ''0 B''
      | Some n \<Rightarrow>
          if n = 0 then ''0 B''
          else let i = power_of 1000 n; amount = rat_of_nat n / 1000 ^ i in
            (if i > 0 then show_tenths (tenths amount) else show_nat n) @ '' '' @
            [''B'', ''KB'', ''MB'', ''GB'', ''TB''] ! min i 4)"

text \<open>The file browser: \<open>parseFloat\<close> drops a zero after the point, and \<open>sizes[i]\<close> may be out of range.\<close>

definition format_file_size :: "int \<Rightarrow> string" where
  "format_file_size bytes =
     (if bytes = 0 then ''0 B''
      else if bytes < 0 then ''-''
      else let i = power_of 1024 (nat bytes); n = tenths (rat_of_int bytes / 1024 ^ i) in
        (if n mod 10 = 0 then show_nat (n div 10) else show_tenths n) @ '' '' @
        (if i < 5 then [''B'', ''KB'', ''MB'', ''GB'', ''TB''] ! i else ''undefined''))"

definition formatCpu :: "rat option \<Rightarrow> string" where
  "formatCpu millicores =
     (case millicores of
        None \<Rightarrow> ''0m''
      | Some m \<Rightarrow>
          if m = 0 then ''0m''
          else if m \<ge> 1000 then show_tenths (tenths (m / 1000)) @ '' cores''
          else show_int \<lfloor>m + 1/2\<rfloor> @ ''m'')"

section \<open>Reading the texts\<close>

definition unit_seconds :: "char \<Rightarrow> int" where
  "unit_seconds u =
     (if u = CHR ''m'' then 60 else if u = CHR ''h'' then 3600 else if u = CHR ''d'' then 86400
      else if u = CHR ''y'' then 365 * 86400 else 1)"

definition read_age :: "string \<Rightarrow> int" where
  "read_age t = sum_list (map (\<lambda>p. int (read_nat (butlast p)) * unit_seconds (last p)) (split_on CHR '' '' t))"

definition age_precision :: "int \<Rightarrow> int" where
  "age_precision diff =
     (if diff < 60 then 1 else if diff < 24 * 3600 then 60 else if diff < 365 * 86400 then 3600 else 86400)"

lemma no_space_nat: "CHR '' '' \<notin> set (show_nat n)"
  using show_nat_digits [of "CHR '' ''" n] by (auto simp: is_digit_def)

lemma read_one: "0 \<le> a \<Longrightarrow> u \<noteq> CHR '' '' \<Longrightarrow> read_age (show_int a @ [u]) = a * unit_seconds u"
  using no_space_nat [of "nat a"]
  by (simp add: read_age_def show_int_def split_on_single read_show_nat)

lemma read_two:
  assumes "0 \<le> a" "0 \<le> b" "u \<noteq> CHR '' ''" "v \<noteq> CHR '' ''"
  shows "read_age (two_units a u b v) = a * unit_seconds u + b * unit_seconds v"
proof (cases "b > 0")
  case True
  have "split_on CHR '' '' ((show_nat (nat a) @ [u]) @ CHR '' '' # (show_nat (nat b) @ [v])) =
      [show_nat (nat a) @ [u], show_nat (nat b) @ [v]]"
    using no_space_nat assms by (subst split_on_append_sep) (auto simp: split_on_single)
  moreover have "two_units a u b v = (show_nat (nat a) @ [u]) @ CHR '' '' # (show_nat (nat b) @ [v])"
    using True assms by (simp add: two_units_def show_int_def)
  ultimately show ?thesis using assms by (simp only: read_age_def list.map butlast_snoc last_snoc read_show_nat) simp
next
  case False
  then show ?thesis using assms read_one [of a u] by (simp add: two_units_def)
qed

text \<open>
  Age truncated: an age reads as the whole units that have passed, never more than the true age and less than
  one of the smallest unit shown below it.
\<close>

theorem age_truncated:
  assumes "parse_date t = Some start" "t \<noteq> ''''" "start \<le> now"
  shows "let diff = (now - start) div 1000; r = read_age (formatAge parse_date now t) in
    r \<le> diff \<and> diff < r + age_precision diff"
proof -
  let ?d = "(now - start) div 1000"
  have d: "0 \<le> ?d" using assms(3) by simp
  have f: "formatAge parse_date now t = age_text ?d" using assms by (simp add: formatAge_def)
  have "read_age (age_text d) \<le> d \<and> d < read_age (age_text d) + age_precision d" if d0: "0 \<le> d" for d
  proof -
    define m where "m = d div 60"
    define h where "h = m div 60"
    define y where "y = h div 24"
    define z where "z = y div 365"
    define s where "s = d mod 60"
    define ms where "ms = m mod 60"
    define hs where "hs = h mod 24"
    define ys where "ys = y mod 365"
    have parts: "d = 60 * m + s" "m = 60 * h + ms" "h = 24 * y + hs" "y = 365 * z + ys"
      "0 \<le> s" "s < 60" "0 \<le> ms" "ms < 60" "0 \<le> hs" "hs < 24" "0 \<le> ys" "ys < 365"
      by (simp_all add: m_def h_def y_def z_def s_def ms_def hs_def ys_def)
    have pos: "0 \<le> m" "0 \<le> h" "0 \<le> y" "0 \<le> z" using d0 parts by linarith+
    have printed: "age_text d = (if d < 60 then show_int d @ [CHR ''s''] else if m < 60 then show_int m @ [CHR ''m'']
        else if h < 24 then two_units h CHR ''h'' ms CHR ''m'' else if y < 365 then two_units y CHR ''d'' hs CHR ''h''
        else two_units z CHR ''y'' ys CHR ''d'')"
      by (simp only: age_text_def Let_def m_def h_def y_def z_def ms_def hs_def ys_def)
    have units: "unit_seconds CHR ''s'' = 1" "unit_seconds CHR ''m'' = 60" "unit_seconds CHR ''h'' = 3600" "unit_seconds CHR ''d'' = 86400"
      "unit_seconds CHR ''y'' = 31536000" by (simp_all add: unit_seconds_def)
    have "read_age (age_text d) = (if d < 60 then d else if m < 60 then m * 60 else if h < 24 then h * 3600 + ms * 60
        else if y < 365 then y * 86400 + hs * 3600 else z * 31536000 + ys * 86400)"
      unfolding printed using d0 pos parts by (simp add: read_one read_two units)
    then show ?thesis unfolding age_precision_def using parts pos
      by (cases "d < 60"; cases "m < 60"; cases "h < 24"; cases "y < 365") (simp_all split: if_split)
  qed
  from this [OF d] show ?thesis by (simp add: f Let_def)
qed

theorem age_truncated_witness: "read_age (formatAge (\<lambda>_. Some 0) 200000000 ''1970-01-01T00:00:00Z'') \<le> 200000"
  using age_truncated [of "\<lambda>_. Some 0" "''1970-01-01T00:00:00Z''" 0 200000000] by (simp add: Let_def)

lemma power_of_small: "n < k \<Longrightarrow> power_of k n = 0"
  by (simp add: power_of.simps [of k n])

lemma power_of_step: "2 \<le> k \<Longrightarrow> k \<le> n \<Longrightarrow> power_of k n = Suc (power_of k (n div k))"
  by (simp add: power_of.simps [of k n])

lemma power_of_bounds: "2 \<le> k \<Longrightarrow> 1 \<le> n \<Longrightarrow> k ^ power_of k n \<le> n \<and> n < k ^ Suc (power_of k n)"
proof (induction k n rule: power_of.induct)
  case (1 k n)
  show ?case
  proof (cases "n < k")
    case True
    then show ?thesis using 1 by (simp add: power_of_small)
  next
    case False
    then have n: "1 \<le> n div k" "\<not> (k < 2 \<or> n < k)" using 1 by (simp_all add: div_greater_zero_iff Suc_leI)
    let ?i = "power_of k (n div k)"
    have IH: "k ^ ?i \<le> n div k" "n div k < k ^ Suc ?i" using 1(1) [OF n(2) 1(2) n(1)] by blast+
    have i: "power_of k n = Suc ?i" using n(2) by (simp add: power_of_step)
    have "k ^ Suc ?i \<le> n div k * k" unfolding power_Suc using mult_le_mono1 [OF IH(1), of k] by (simp only: mult.commute)
    also have "\<dots> \<le> n" by simp
    finally have lower: "k ^ Suc ?i \<le> n" .
    have "0 < k" using 1(2) by simp
    then have "n < k ^ Suc ?i * k" using IH(2) by (simp only: div_less_iff_less_mult)
    then have "n < k ^ Suc (Suc ?i)" by (simp only: power_Suc mult.commute)
    with lower show ?thesis unfolding i by blast
  qed
qed

text \<open>
  Size exact: below a thousand terabytes, the number shown is the size in the largest unit it reaches, rounded
  to a tenth.
\<close>

theorem size_exact:
  assumes "1 \<le> n" "n < 1000 ^ 5"
  shows "\<exists>i < 5. \<exists>shown. 1000 ^ i \<le> n \<and> n < 1000 ^ Suc i \<and>
    \<bar>of_nat shown / 10 - rat_of_nat n / 1000 ^ i\<bar> \<le> 1 / 20 \<and>
    formatBytes (Some n) = (if i > 0 then show_tenths shown else show_nat n) @ '' '' @ [''B'', ''KB'', ''MB'', ''GB'', ''TB''] ! i"
proof -
  let ?i = "power_of 1000 n"
  let ?x = "rat_of_nat n / 1000 ^ ?i"
  have b: "1000 ^ ?i \<le> n" "n < 1000 ^ Suc ?i" using power_of_bounds [of 1000 n] assms(1) by simp_all
  then have "(1000 :: nat) ^ ?i < 1000 ^ 5" using assms(2) by linarith
  then have i: "?i < 5" by (rule power_less_imp_less_exp [rotated]) simp
  have "0 \<le> ?x" by simp
  then have "of_nat (tenths ?x) = rat_of_int \<lfloor>?x * 10 + 1/2\<rfloor>" by (simp add: tenths_def)
  then have "\<bar>of_nat (tenths ?x) / 10 - ?x\<bar> \<le> 1 / 20" by linarith
  moreover have "formatBytes (Some n) = (if ?i > 0 then show_tenths (tenths ?x) else show_nat n) @ '' '' @
      [''B'', ''KB'', ''MB'', ''GB'', ''TB''] ! ?i"
    using assms(1) i by (simp add: formatBytes_def Let_def min_def)
  ultimately show ?thesis using i b by blast
qed

theorem size_exact_witness: "\<exists>i < 5. 1000 ^ i \<le> (1234567 :: nat) \<and> 1234567 < (1000 :: nat) ^ Suc i"
  using size_exact [of 1234567] by (simp del: power_Suc) blast

text \<open>A thousand terabytes and more keep the unit but lose the factor; the file browser has no unit for them.\<close>

theorem petabytes_lose_factor:
  "formatBytes (Some 5000000000000000) = ''5.0 TB'' \<and> format_file_size (5 * 1024 ^ 5) = ''5 undefined''"
proof -
  have p: "power_of 1000 5000000000000000 = 5" "power_of 1024 (5 * 1024 ^ 5) = 5"
    by (simp_all add: power_of_step power_of_small)
  have "tenths (rat_of_nat 5000000000000000 / 1000 ^ 5) = 50" "tenths (rat_of_int (5 * 1024 ^ 5) / 1024 ^ 5) = 50"
  proof -
    have "tenths 5 = 50" by (simp add: tenths_def floor_eq_iff nat_eq_iff)
    then show "tenths (rat_of_nat 5000000000000000 / 1000 ^ 5) = 50" "tenths (rat_of_int (5 * 1024 ^ 5) / 1024 ^ 5) = 50"
      by simp_all
  qed
  moreover have "show_nat 5 = ''5''" "show_nat 0 = ''0''" by code_simp+
  moreover have "nat (5 * 1024 ^ 5) = 5 * 1024 ^ 5" by simp
  ultimately show ?thesis
    using p by (simp add: formatBytes_def format_file_size_def Let_def show_tenths_def)
qed

end
