(* ===== verification/ResourceDiff.thy ===== *)
theory ResourceDiff
  imports JsStrings "HOL-Library.Sublist"
begin

text \<open>
  Comparing two resources (\<open>features/diagnostics/ResourceDiff.tsx\<close>): the numbers of the lines of a unified diff, and
  the same diff as two columns. The backend sends two lines of header and then every line of both documents with
  its mark.
\<close>

section \<open>One column\<close>

record diff_row =
  row_line :: string
  source_num :: "int option"
  target_num :: "int option"

text \<open>\<open>/@@ -(\d+)(?:,\d+)? \+(\d+)(?:,\d+)? @@/\<close>\<close>

definition skip_count :: "string \<Rightarrow> string" where
  "skip_count s =
     (case s of [] \<Rightarrow> s | c # t \<Rightarrow> if c = CHR '','' \<and> takeWhile is_digit t \<noteq> [] then dropWhile is_digit t else s)"

definition hunk_at :: "string \<Rightarrow> (nat \<times> nat) option" where
  "hunk_at s =
     (let r1 = drop 4 s; d1 = takeWhile is_digit r1; r2 = skip_count (dropWhile is_digit r1);
          r3 = drop 2 r2; d2 = takeWhile is_digit r3; r4 = skip_count (dropWhile is_digit r3)
      in if prefix ''@@ -'' s \<and> d1 \<noteq> [] \<and> prefix '' +'' r2 \<and> d2 \<noteq> [] \<and> prefix '' @@'' r4
         then Some (read_nat d1, read_nat d2) else None)"

fun parseHunkHeader :: "string \<Rightarrow> (nat \<times> nat) option" where
  "parseHunkHeader [] = None"
| "parseHunkHeader (c # cs) = (case hunk_at (c # cs) of Some h \<Rightarrow> Some h | None \<Rightarrow> parseHunkHeader cs)"

definition is_header :: "string \<Rightarrow> bool" where
  "is_header line \<longleftrightarrow> prefix ''---'' line \<or> prefix ''+++'' line \<or> prefix [CHR 0x5C] line"

fun processedLines :: "int \<Rightarrow> int \<Rightarrow> string list \<Rightarrow> diff_row list" where
  "processedLines n m [] = []"
| "processedLines n m (line # rest) =
     (if prefix ''@@'' line
      then (case parseHunkHeader line of
              Some (s, t) \<Rightarrow> \<lparr>row_line = line, source_num = None, target_num = None\<rparr> # processedLines (int s - 1) (int t - 1) rest
            | None \<Rightarrow> \<lparr>row_line = line, source_num = None, target_num = None\<rparr> # processedLines n m rest)
      else if is_header line then \<lparr>row_line = line, source_num = None, target_num = None\<rparr> # processedLines n m rest
      else if prefix ''-'' line then \<lparr>row_line = line, source_num = Some (n + 1), target_num = None\<rparr> # processedLines (n + 1) m rest
      else if prefix ''+'' line then \<lparr>row_line = line, source_num = None, target_num = Some (m + 1)\<rparr> # processedLines n (m + 1) rest
      else if prefix '' '' line
      then \<lparr>row_line = line, source_num = Some (n + 1), target_num = Some (m + 1)\<rparr> # processedLines (n + 1) (m + 1) rest
      else \<lparr>row_line = line, source_num = None, target_num = None\<rparr> # processedLines n m rest)"

definition unified_rows :: "string \<Rightarrow> diff_row list" where
  "unified_rows unifiedDiff = (if unifiedDiff = '''' then [] else processedLines 0 0 (split_on CHR 0x0A unifiedDiff))"

section \<open>Two columns\<close>

datatype side_kind = Removed | Added | Blank | Same

record side_line =
  lineNum :: "nat option"
  side_content :: string
  side_type :: side_kind

definition filler :: side_line where
  "filler = \<lparr>lineNum = None, side_content = '''', side_type = Blank\<rparr>"

text \<open>Row by row as long as one side has lines left.\<close>

fun pair_up :: "nat \<Rightarrow> nat \<Rightarrow> string list \<Rightarrow> string list \<Rightarrow> (side_line \<times> side_line) list" where
  "pair_up n m [] [] = []"
| "pair_up n m (d # ds) [] = (\<lparr>lineNum = Some (Suc n), side_content = d, side_type = Removed\<rparr>, filler) # pair_up (Suc n) m ds []"
| "pair_up n m [] (a # as) = (filler, \<lparr>lineNum = Some (Suc m), side_content = a, side_type = Added\<rparr>) # pair_up n (Suc m) [] as"
| "pair_up n m (d # ds) (a # as) =
     (\<lparr>lineNum = Some (Suc n), side_content = d, side_type = Removed\<rparr>, \<lparr>lineNum = Some (Suc m), side_content = a, side_type = Added\<rparr>)
       # pair_up (Suc n) (Suc m) ds as"

function side_by_side :: "nat \<Rightarrow> nat \<Rightarrow> string list \<Rightarrow> (side_line \<times> side_line) list" where
  "side_by_side n m [] = []"
| "side_by_side n m (line # rest) =
     (if is_header line \<or> prefix ''@@'' line then side_by_side n m rest
      else let deletions = takeWhile (prefix ''-'') (line # rest); after = dropWhile (prefix ''-'') (line # rest);
               additions = takeWhile (prefix ''+'') after; after' = dropWhile (prefix ''+'') after
        in if deletions \<noteq> [] \<or> additions \<noteq> []
           then pair_up n m (map tl deletions) (map tl additions) @
             side_by_side (n + length deletions) (m + length additions) after'
           else let c = (if prefix '' '' line then tl line else line) in
             (\<lparr>lineNum = Some (Suc n), side_content = c, side_type = Same\<rparr>, \<lparr>lineNum = Some (Suc m), side_content = c, side_type = Same\<rparr>)
               # side_by_side (Suc n) (Suc m) rest)"
  by pat_completeness auto
termination
proof (relation "measure (\<lambda>(n, m, lines). length lines)", goal_cases)
  case (3 n m line rest dels aft adds aft')
  have "length aft' + length adds = length aft" "length aft + length dels = length (line # rest)"
    unfolding 3 by (metis length_append add.commute takeWhile_dropWhile_id)+
  with 3(6) show ?case by (cases dels; cases adds) simp_all
qed auto

definition parseDiffToSideBySide :: "string \<Rightarrow> (side_line \<times> side_line) list" where
  "parseDiffToSideBySide unifiedDiff =
     (if unifiedDiff = '''' then []
      else let rawLines = split_on CHR 0x0A unifiedDiff in
        side_by_side 0 0 (if last rawLines = '''' then butlast rawLines else rawLines))"

section \<open>What a diff says\<close>

datatype edit = Keep string | Delete string | Insert string

fun edit_line :: "edit \<Rightarrow> string" where
  "edit_line (Keep s) = CHR '' '' # s"
| "edit_line (Delete s) = CHR ''-'' # s"
| "edit_line (Insert s) = CHR ''+'' # s"

definition source_lines :: "edit list \<Rightarrow> string list" where
  "source_lines es = List.map_filter (\<lambda>e. case e of Keep s \<Rightarrow> Some s | Delete s \<Rightarrow> Some s | Insert s \<Rightarrow> None) es"

definition target_lines :: "edit list \<Rightarrow> string list" where
  "target_lines es = List.map_filter (\<lambda>e. case e of Keep s \<Rightarrow> Some s | Insert s \<Rightarrow> Some s | Delete s \<Rightarrow> None) es"

text \<open>A line that would read as part of the header when it is marked.\<close>

fun unmistakable :: "edit \<Rightarrow> bool" where
  "unmistakable (Keep s) = (CHR 0x0A \<notin> set s)"
| "unmistakable (Delete s) = (CHR 0x0A \<notin> set s \<and> \<not> prefix ''--'' s)"
| "unmistakable (Insert s) = (CHR 0x0A \<notin> set s \<and> \<not> prefix ''++'' s)"

definition diff_text :: "string \<Rightarrow> string \<Rightarrow> edit list \<Rightarrow> string" where
  "diff_text source target es =
     concat (map (\<lambda>l. l @ [CHR 0x0A]) ((''--- '' @ source) # (''+++ '' @ target) # map edit_line es))"

lemma split_lines: "\<forall>l \<in> set ls. c \<notin> set l \<Longrightarrow> split_on c (concat (map (\<lambda>l. l @ [c]) ls)) = ls @ [[]]"
  by (induction ls) (simp_all add: split_on_append_sep)

lemma lines_of_diff:
  assumes "CHR 0x0A \<notin> set source" "CHR 0x0A \<notin> set target" "\<forall>e \<in> set es. unmistakable e"
  shows "split_on CHR 0x0A (diff_text source target es) =
    ((''--- '' @ source) # (''+++ '' @ target) # map edit_line es) @ ['''']"
proof -
  have "CHR 0x0A \<notin> set (edit_line e)" if "unmistakable e" for e using that by (cases e) auto
  then show ?thesis unfolding diff_text_def by (rule_tac split_lines) (use assms in auto)
qed

lemma not_header:
  assumes "unmistakable e"
  shows "\<not> is_header (edit_line e)" "\<not> prefix ''@@'' (edit_line e)"
  using assms by (cases e; simp add: is_header_def)+

definition numbered :: "(diff_row \<Rightarrow> int option) \<Rightarrow> diff_row list \<Rightarrow> (int \<times> string) list" where
  "numbered num rows = List.map_filter (\<lambda>r. map_option (\<lambda>k. (k, tl (row_line r))) (num r)) rows"

fun number_from :: "int \<Rightarrow> string list \<Rightarrow> (int \<times> string) list" where
  "number_from n [] = []"
| "number_from n (s # ss) = (n + 1, s) # number_from (n + 1) ss"

lemma processed_numbers:
  assumes "\<forall>e \<in> set es. unmistakable e"
  shows "numbered source_num (processedLines n m (map edit_line es @ [''''])) = number_from n (source_lines es) \<and>
    numbered target_num (processedLines n m (map edit_line es @ [''''])) = number_from m (target_lines es)"
  using assms
proof (induction es arbitrary: n m)
  case Nil
  then show ?case by (simp add: numbered_def source_lines_def target_lines_def is_header_def List.map_filter_simps)
next
  case (Cons e es)
  have "\<not> is_header (edit_line e)" "\<not> prefix ''@@'' (edit_line e)" using Cons.prems not_header by simp_all
  then show ?case
    using Cons by (cases e) (simp_all add: numbered_def source_lines_def target_lines_def List.map_filter_simps)
qed

text \<open>
  Rows numbered: in the view with one column, the rows with a number of the source are the lines of the source
  in their order with the right numbers, and so for the target.
\<close>

theorem rows_numbered:
  assumes "CHR 0x0A \<notin> set source" "CHR 0x0A \<notin> set target" "\<forall>e \<in> set es. unmistakable e"
  shows "numbered source_num (unified_rows (diff_text source target es)) = number_from 0 (source_lines es) \<and>
    numbered target_num (unified_rows (diff_text source target es)) = number_from 0 (target_lines es)"
proof -
  have ne: "diff_text source target es \<noteq> ''''" by (simp add: diff_text_def)
  have "unified_rows (diff_text source target es) =
      processedLines 0 0 ((''--- '' @ source) # (''+++ '' @ target) # map edit_line es @ [''''])"
    using ne lines_of_diff [OF assms] by (simp add: unified_rows_def)
  then have "numbered num (unified_rows (diff_text source target es)) = numbered num (processedLines 0 0 (map edit_line es @ ['''']))"
    if "num \<lparr>row_line = ''--- '' @ source, source_num = None, target_num = None\<rparr> = None"
      "num \<lparr>row_line = ''+++ '' @ target, source_num = None, target_num = None\<rparr> = None" for num
    using that by (simp add: is_header_def numbered_def List.map_filter_simps)
  then show ?thesis using processed_numbers [OF assms(3), of 0 0] by simp
qed

section \<open>The columns\<close>

definition column :: "(side_line \<times> side_line \<Rightarrow> side_line) \<Rightarrow> (side_line \<times> side_line) list \<Rightarrow> (int \<times> string) list" where
  "column side rows =
     List.map_filter (\<lambda>r. map_option (\<lambda>k. (int k, side_content (side r))) (lineNum (side r))) rows"

lemma column_append: "column side (xs @ ys) = column side xs @ column side ys"
  by (simp add: column_def List.map_filter_def)

lemma number_from_append: "number_from n (xs @ ys) = number_from n xs @ number_from (n + int (length xs)) ys"
  by (induction xs arbitrary: n) (simp_all add: algebra_simps)

lemma column_pair_up:
  "column fst (pair_up n m ds as) = number_from (int n) ds \<and> column snd (pair_up n m ds as) = number_from (int m) as"
  by (induction n m ds as rule: pair_up.induct) (simp_all add: column_def filler_def List.map_filter_simps algebra_simps)

lemma pair_up_rows: "(l, r) \<in> set (pair_up n m ds as) \<Longrightarrow> side_type l \<noteq> Same \<and> side_type r \<noteq> Same"
  by (induction n m ds as rule: pair_up.induct) (auto simp: filler_def)

lemma edit_groups:
  assumes "\<forall>e \<in> set es. unmistakable e"
  shows "takeWhile (prefix ''-'') (map edit_line es) = map edit_line (takeWhile (\<lambda>e. \<exists>s. e = Delete s) es)"
    "dropWhile (prefix ''-'') (map edit_line es) = map edit_line (dropWhile (\<lambda>e. \<exists>s. e = Delete s) es)"
    "takeWhile (prefix ''+'') (map edit_line es) = map edit_line (takeWhile (\<lambda>e. \<exists>s. e = Insert s) es)"
    "dropWhile (prefix ''+'') (map edit_line es) = map edit_line (dropWhile (\<lambda>e. \<exists>s. e = Insert s) es)"
proof -
  have "prefix ''-'' (edit_line e) \<longleftrightarrow> (\<exists>s. e = Delete s)" "prefix ''+'' (edit_line e) \<longleftrightarrow> (\<exists>s. e = Insert s)" for e
    by (cases e; simp)+
  then show "takeWhile (prefix ''-'') (map edit_line es) = map edit_line (takeWhile (\<lambda>e. \<exists>s. e = Delete s) es)"
    "dropWhile (prefix ''-'') (map edit_line es) = map edit_line (dropWhile (\<lambda>e. \<exists>s. e = Delete s) es)"
    "takeWhile (prefix ''+'') (map edit_line es) = map edit_line (takeWhile (\<lambda>e. \<exists>s. e = Insert s) es)"
    "dropWhile (prefix ''+'') (map edit_line es) = map edit_line (dropWhile (\<lambda>e. \<exists>s. e = Insert s) es)"
    by (simp_all add: takeWhile_map dropWhile_map comp_def)
qed

lemma deleted_lines:
  "\<forall>e \<in> set ds. \<exists>s. e = Delete s \<Longrightarrow> source_lines ds = map (tl \<circ> edit_line) ds \<and> target_lines ds = []"
  by (induction ds) (auto simp: source_lines_def target_lines_def List.map_filter_simps)

lemma inserted_lines:
  "\<forall>e \<in> set as. \<exists>s. e = Insert s \<Longrightarrow> target_lines as = map (tl \<circ> edit_line) as \<and> source_lines as = []"
  by (induction as) (auto simp: source_lines_def target_lines_def List.map_filter_simps)

lemma lines_append:
  "source_lines (xs @ ys) = source_lines xs @ source_lines ys" "target_lines (xs @ ys) = target_lines xs @ target_lines ys"
  by (simp_all add: source_lines_def target_lines_def List.map_filter_def)

definition rows_ok :: "(side_line \<times> side_line) list \<Rightarrow> bool" where
  "rows_ok rows \<longleftrightarrow> (\<forall>(l, r) \<in> set rows.
     (side_type l = Same \<longleftrightarrow> side_type r = Same) \<and> (side_type l = Same \<longrightarrow> side_content l = side_content r))"

lemma side_by_side_exact:
  assumes "\<forall>e \<in> set es. unmistakable e"
  shows "column fst (side_by_side n m (map edit_line es)) = number_from (int n) (source_lines es) \<and>
    column snd (side_by_side n m (map edit_line es)) = number_from (int m) (target_lines es) \<and>
    rows_ok (side_by_side n m (map edit_line es))"
  using assms
proof (induction es arbitrary: n m rule: length_induct)
  case (1 es)
  show ?case
  proof (cases es)
    case Nil
    then show ?thesis by (simp add: column_def source_lines_def target_lines_def rows_ok_def List.map_filter_simps)
  next
    case (Cons e rest)
    define ds where "ds = takeWhile (\<lambda>e. \<exists>s. e = Delete s) es"
    define mid where "mid = dropWhile (\<lambda>e. \<exists>s. e = Delete s) es"
    define as where "as = takeWhile (\<lambda>e. \<exists>s. e = Insert s) mid"
    define tail where "tail = dropWhile (\<lambda>e. \<exists>s. e = Insert s) mid"
    have es: "es = ds @ as @ tail" by (simp add: ds_def mid_def as_def tail_def)
    have ok: "\<forall>e \<in> set mid. unmistakable e" "\<forall>e \<in> set tail. unmistakable e"
      using 1(2) unfolding mid_def tail_def by (auto dest: set_dropWhileD)
    have h: "\<not> is_header (edit_line e)" "\<not> prefix ''@@'' (edit_line e)" using 1(2) Cons not_header by simp_all
    note g = edit_groups(1,2) [OF 1(2), folded ds_def mid_def] edit_groups(3,4) [OF ok(1), folded as_def tail_def]
    have c: "map edit_line es = edit_line e # map edit_line rest" by (simp add: Cons)
    have "side_by_side n m (map edit_line es) =
        (let deletions = takeWhile (prefix ''-'') (map edit_line es); after = dropWhile (prefix ''-'') (map edit_line es);
             additions = takeWhile (prefix ''+'') after; after' = dropWhile (prefix ''+'') after
         in if deletions \<noteq> [] \<or> additions \<noteq> []
            then pair_up n m (map tl deletions) (map tl additions) @
              side_by_side (n + length deletions) (m + length additions) after'
            else let c = (if prefix '' '' (edit_line e) then tl (edit_line e) else edit_line e) in
              (\<lparr>lineNum = Some (Suc n), side_content = c, side_type = Same\<rparr>, \<lparr>lineNum = Some (Suc m), side_content = c, side_type = Same\<rparr>)
                # side_by_side (Suc n) (Suc m) (map edit_line rest))"
      using h unfolding c side_by_side.simps(2) by (simp only: simp_thms if_False)
    note step = this [unfolded g Let_def length_map map_map]
    have dl: "source_lines ds = map (tl \<circ> edit_line) ds" "target_lines ds = []"
      using deleted_lines [of ds] by (auto simp: ds_def dest: set_takeWhileD)
    have al: "target_lines as = map (tl \<circ> edit_line) as" "source_lines as = []"
      using inserted_lines [of as] by (auto simp: as_def dest: set_takeWhileD)
    show ?thesis
    proof (cases "ds = [] \<and> as = []")
      case False
      then have "length tail < length es" unfolding es by auto
      then have IH: "column fst (side_by_side n' m' (map edit_line tail)) = number_from (int n') (source_lines tail) \<and>
          column snd (side_by_side n' m' (map edit_line tail)) = number_from (int m') (target_lines tail) \<and>
          rows_ok (side_by_side n' m' (map edit_line tail))" for n' m' using 1(1) ok(2) by blast
      have rec: "side_by_side n m (map edit_line es) =
          pair_up n m (map (tl \<circ> edit_line) ds) (map (tl \<circ> edit_line) as) @
          side_by_side (n + length ds) (m + length as) (map edit_line tail)"
        unfolding step using False by simp
      have "rows_ok (pair_up n m (map (tl \<circ> edit_line) ds) (map (tl \<circ> edit_line) as))"
        using pair_up_rows by (fastforce simp: rows_ok_def)
      then show ?thesis
        unfolding rec column_append using IH [of "n + length ds" "m + length as"] column_pair_up
        by (simp add: es lines_append dl al number_from_append rows_ok_def ball_Un)
    next
      case True
      then have k: "\<exists>s. e = Keep s" using Cons by (cases e) (auto simp: ds_def mid_def as_def)
      then obtain s where e: "e = Keep s" by blast
      have rec: "side_by_side n m (map edit_line es) =
          (\<lparr>lineNum = Some (Suc n), side_content = s, side_type = Same\<rparr>, \<lparr>lineNum = Some (Suc m), side_content = s, side_type = Same\<rparr>)
            # side_by_side (Suc n) (Suc m) (map edit_line rest)"
        unfolding step using True by (simp add: e)
      have "length rest < length es" "\<forall>e \<in> set rest. unmistakable e" using 1(2) Cons by simp_all
      then have IH: "column fst (side_by_side (Suc n) (Suc m) (map edit_line rest)) = number_from (int (Suc n)) (source_lines rest) \<and>
          column snd (side_by_side (Suc n) (Suc m) (map edit_line rest)) = number_from (int (Suc m)) (target_lines rest) \<and>
          rows_ok (side_by_side (Suc n) (Suc m) (map edit_line rest))" using 1(1) by blast
      then show ?thesis unfolding rec
        by (simp add: Cons e column_def source_lines_def target_lines_def rows_ok_def List.map_filter_simps algebra_simps)
    qed
  qed
qed

text \<open>
  Columns exact: in the view with two columns, the left one holds the lines of the source and the right one
  those of the target, each once, in order and with its number, and a row shows the same line on both sides where
  neither was changed.
\<close>

theorem columns_exact:
  assumes "CHR 0x0A \<notin> set source" "CHR 0x0A \<notin> set target" "\<forall>e \<in> set es. unmistakable e"
  shows "let rows = parseDiffToSideBySide (diff_text source target es) in
    column fst rows = number_from 0 (source_lines es) \<and> column snd rows = number_from 0 (target_lines es) \<and> rows_ok rows"
proof -
  have ne: "diff_text source target es \<noteq> ''''" by (simp add: diff_text_def)
  have "parseDiffToSideBySide (diff_text source target es) = side_by_side 0 0 (map edit_line es)"
    using ne lines_of_diff [OF assms] by (simp add: parseDiffToSideBySide_def Let_def is_header_def)
  then show ?thesis using side_by_side_exact [OF assms(3), of 0 0] by (simp add: Let_def)
qed

definition demo_edits :: "edit list" where
  "demo_edits = [Keep ''kind: Pod'', Delete ''image: a'', Delete ''x: 1'', Insert ''image: b'', Keep ''end'']"

lemma demo_unmistakable: "\<forall>e \<in> set demo_edits. unmistakable e"
  by (simp add: demo_edits_def)

theorem rows_numbered_witness:
  "numbered target_num (unified_rows (diff_text ''a'' ''b'' demo_edits)) = [(1, ''kind: Pod''), (2, ''image: b''), (3, ''end'')]"
  using rows_numbered [of "''a''" "''b''", OF _ _ demo_unmistakable, THEN conjunct2]
  by (simp add: demo_edits_def target_lines_def List.map_filter_simps)

theorem columns_exact_witness:
  "column fst (parseDiffToSideBySide (diff_text ''a'' ''b'' demo_edits)) =
     [(1, ''kind: Pod''), (2, ''image: a''), (3, ''x: 1''), (4, ''end'')]"
  using columns_exact [of "''a''" "''b''", OF _ _ demo_unmistakable]
  by (simp add: demo_edits_def source_lines_def List.map_filter_simps Let_def)

end
