(* ===== verification/Editors.thy ===== *)
theory Editors
  imports JsStrings Prelude
begin

text \<open>
  The editors of the bottom panel (\<open>components/shared/YamlEditor.tsx\<close>, \<open>SecretEditor.tsx\<close>, \<open>ConfigMapEditor.tsx\<close>): the
  text with its saves, answers and conflicts, and the entries of a secret or config map. The text area is a
  library component that keeps the shortcut it was given when it appeared; \<open>disk\<close> is what the cluster holds.
\<close>

section \<open>Editing a text\<close>

record yaml_editor =
  content :: string
  loading :: bool
  load_error :: bool
  saving :: bool
  hasConflict :: bool
  tabContext :: string
  currentContext :: string
  shortcut :: "(string \<times> bool \<times> bool) option"  \<comment> \<open>content, conflict and staleness when the text area appeared\<close>
  saves :: "string list"  \<comment> \<open>texts sent and not answered\<close>
  writes :: "(string \<times> string) list"  \<comment> \<open>context and text of every save\<close>

definition isStale :: "yaml_editor \<Rightarrow> bool" where
  "isStale s \<longleftrightarrow> tabContext s \<noteq> '''' \<and> tabContext s \<noteq> currentContext s"

definition open_editor :: "string \<Rightarrow> string \<Rightarrow> yaml_editor" where
  "open_editor tab ctx =
     \<lparr>content = '''', loading = True, load_error = False, saving = False, hasConflict = False, tabContext = tab,
      currentContext = ctx, shortcut = None, saves = [], writes = []\<rparr>"

text \<open>The text area appears with the first text that is loaded.\<close>

definition fetchYaml :: "string option \<Rightarrow> yaml_editor \<Rightarrow> yaml_editor" where
  "fetchYaml answer s =
     (case answer of
        Some yaml \<Rightarrow> s\<lparr>content := yaml, loading := False, hasConflict := False,
                       shortcut := (case shortcut s of None \<Rightarrow> Some (yaml, False, isStale s) | Some c \<Rightarrow> Some c)\<rparr>
      | None \<Rightarrow> s\<lparr>loading := False, load_error := True\<rparr>)"

definition handleReload :: "string option \<Rightarrow> yaml_editor \<Rightarrow> yaml_editor" where
  "handleReload answer s = (case answer of Some yaml \<Rightarrow> s\<lparr>content := yaml, hasConflict := False\<rparr> | None \<Rightarrow> s)"

definition type_text :: "string \<Rightarrow> yaml_editor \<Rightarrow> yaml_editor" where
  "type_text v s = (if isStale s then s else s\<lparr>content := v\<rparr>)"

definition handleSave :: "string \<Rightarrow> yaml_editor \<Rightarrow> yaml_editor" where
  "handleSave text' s = s\<lparr>saving := True, saves := saves s @ [text'], writes := writes s @ [(currentContext s, text')]\<rparr>"

text \<open>The refusal of a save is a conflict or another error; after a save the text is read again.\<close>

definition save_answered :: "string \<Rightarrow> bool option \<Rightarrow> string option \<Rightarrow> yaml_editor \<Rightarrow> yaml_editor" where
  "save_answered text' refused refreshed s =
     (let s' = s\<lparr>saves := remove1 text' (saves s), saving := False\<rparr> in
      case refused of
        Some conflict \<Rightarrow> if conflict then s'\<lparr>hasConflict := True\<rparr> else s'
      | None \<Rightarrow> (case refreshed of Some yaml \<Rightarrow> s'\<lparr>content := yaml, hasConflict := False\<rparr> | None \<Rightarrow> s'))"

definition save_button :: "yaml_editor \<Rightarrow> yaml_editor" where
  "save_button s = (if saving s \<or> hasConflict s \<or> isStale s \<or> loading s \<or> load_error s then s else handleSave (content s) s)"

definition force_save :: "yaml_editor \<Rightarrow> yaml_editor" where
  "force_save s = (if hasConflict s \<and> \<not> isStale s \<and> \<not> saving s \<and> \<not> loading s \<and> \<not> load_error s then handleSave (content s) s else s)"

text \<open>\<open>Ctrl+S\<close> runs the function the text area was given when it appeared.\<close>

definition save_key :: "yaml_editor \<Rightarrow> yaml_editor" where
  "save_key s =
     (case shortcut s of
        Some (text', conflict, stale) \<Rightarrow> if \<not> conflict \<and> \<not> stale then handleSave text' s else s
      | None \<Rightarrow> s)"

definition switch_editor :: "string \<Rightarrow> yaml_editor \<Rightarrow> yaml_editor" where
  "switch_editor ctx s = s\<lparr>currentContext := ctx\<rparr>"

text \<open>\<open>key\<close>: whether the shortcut is used.\<close>

inductive editor_step :: "bool \<Rightarrow> yaml_editor \<Rightarrow> yaml_editor \<Rightarrow> bool" for key where
  fetched: "loading s \<Longrightarrow> editor_step key s (fetchYaml answer s)"
| reload: "editor_step key s (handleReload answer s)"
| typing: "editor_step key s (type_text v s)"
| button: "editor_step key s (save_button s)"
| force: "editor_step key s (force_save s)"
| shortcut: "key \<Longrightarrow> editor_step key s (save_key s)"
| answered: "text' \<in> set (saves s) \<Longrightarrow> editor_step key s (save_answered text' refused refreshed s)"
| switch: "editor_step key s (switch_editor ctx s)"

section \<open>Entries of a secret or config map\<close>

record data_value =
  key_name :: string
  plain :: string
  base64Value :: string
  isBinary :: bool
  data_source :: string
  encoding :: string

record data_entry = data_value +
  entry_id :: string

record raw_value =
  raw_key :: "string option"
  raw_value :: "string option"
  raw_base64 :: "string option"
  raw_binary :: "bool option"
  raw_source :: "string option"
  raw_encoding :: "string option"

definition or_default :: "string option \<Rightarrow> string \<Rightarrow> string" where
  "or_default v d = (case v of Some s \<Rightarrow> if s = '''' then d else s | None \<Rightarrow> d)"

definition dataToEntries :: "nat \<Rightarrow> raw_value list \<Rightarrow> data_entry list" where
  "dataToEntries now entries =
     map (\<lambda>(i, e).
       let binary = (raw_binary e = Some True) in
       \<lparr>key_name = or_default (raw_key e) '''', plain = or_default (raw_value e) '''',
        base64Value = or_default (raw_base64 e) '''', isBinary = binary, data_source = or_default (raw_source e) ''data'',
        encoding = or_default (raw_encoding e) (if binary then ''base64'' else ''text''),
        entry_id = ''entry-'' @ show_nat now @ ''-'' @ show_nat i\<rparr>) (enumerate 0 entries)"

definition entryToData :: "data_entry \<Rightarrow> data_value" where
  "entryToData e =
     \<lparr>key_name = key_name e, plain = plain e, base64Value = base64Value e, isBinary = isBinary e, data_source = data_source e,
      encoding = (if encoding e = '''' then (if isBinary e then ''base64'' else ''text'') else encoding e)\<rparr>"

definition entriesToData :: "data_entry list \<Rightarrow> data_value list" where
  "entriesToData entries = map entryToData (filter (\<lambda>e. key_name e \<noteq> '''') entries)"

definition handleKeyChange :: "string \<Rightarrow> string \<Rightarrow> data_entry list \<Rightarrow> data_entry list" where
  "handleKeyChange eid newKey entries = map (\<lambda>e. if entry_id e = eid then e\<lparr>key_name := newKey\<rparr> else e) entries"

definition handleDeleteEntry :: "string \<Rightarrow> data_entry list \<Rightarrow> data_entry list" where
  "handleDeleteEntry eid entries = filter (\<lambda>e. entry_id e \<noteq> eid) entries"

text \<open>\<open>shown\<close>: whether the editor of secrets shows its values as base64.\<close>

definition secret_display :: "bool \<Rightarrow> data_entry \<Rightarrow> string" where
  "secret_display shown e = (if shown \<or> isBinary e \<or> encoding e = ''base64'' then base64Value e else plain e)"

definition set_secret :: "bool \<Rightarrow> data_entry \<Rightarrow> string \<Rightarrow> data_entry" where
  "set_secret shown e v =
     (if shown \<or> isBinary e \<or> encoding e = ''base64''
      then e\<lparr>base64Value := v, plain := '''', encoding := ''base64'', isBinary := True\<rparr>
      else e\<lparr>plain := v, encoding := ''text'', isBinary := False\<rparr>)"

definition map_display :: "data_entry \<Rightarrow> string" where
  "map_display e = (if data_source e = ''binaryData'' \<or> isBinary e \<or> encoding e = ''base64'' then base64Value e else plain e)"

definition set_map_value :: "data_entry \<Rightarrow> string \<Rightarrow> data_entry" where
  "set_map_value e v =
     (if data_source e = ''binaryData'' \<or> isBinary e \<or> encoding e = ''base64''
      then e\<lparr>base64Value := v, plain := '''', data_source := ''binaryData'', encoding := ''base64'', isBinary := True\<rparr>
      else e\<lparr>plain := v, encoding := ''text'', isBinary := False, data_source := ''data''\<rparr>)"

definition handleValueChange :: "(data_entry \<Rightarrow> data_entry) \<Rightarrow> string \<Rightarrow> data_entry list \<Rightarrow> data_entry list" where
  "handleValueChange patch eid entries = map (\<lambda>e. if entry_id e = eid then patch e else e) entries"

text \<open>\<open>NEW_KEY\<close>, \<open>NEW_KEY_1\<close>, \<open>NEW_KEY_2\<close>, ... until one is free.\<close>

definition numbered_key :: "nat \<Rightarrow> string" where
  "numbered_key n = (if n = 0 then ''NEW_KEY'' else ''NEW_KEY_'' @ show_nat n)"

lemma numbered_key_inj: "numbered_key m = numbered_key n \<Longrightarrow> m = n"
  by (auto simp: numbered_key_def dest: show_nat_inj split: if_splits)

function free_key :: "string list \<Rightarrow> nat \<Rightarrow> nat" where
  "free_key used n = (if numbered_key n \<in> set used then free_key used (Suc n) else n)"
  by pat_completeness auto
termination
proof (relation "measure (\<lambda>(used, n). card {k \<in> set used. \<exists>m \<ge> n. k = numbered_key m})", simp_all, goal_cases)
  case (1 used n)
  have "{k \<in> set used. \<exists>m \<ge> Suc n. k = numbered_key m} \<subset> {k \<in> set used. \<exists>m \<ge> n. k = numbered_key m}"
  proof (rule psubsetI)
    show "{k \<in> set used. \<exists>m \<ge> Suc n. k = numbered_key m} \<subseteq> {k \<in> set used. \<exists>m \<ge> n. k = numbered_key m}"
      using Suc_leD by blast
    have "numbered_key n \<notin> {k \<in> set used. \<exists>m \<ge> Suc n. k = numbered_key m}"
      using numbered_key_inj [of n] by (auto simp: Suc_le_eq)
    then show "{k \<in> set used. \<exists>m \<ge> Suc n. k = numbered_key m} \<noteq> {k \<in> set used. \<exists>m \<ge> n. k = numbered_key m}"
      using 1 by blast
  qed
  then show ?case by (intro psubset_card_mono) simp_all
qed

declare free_key.simps [simp del]

text \<open>\<open>nextId\<close> is counted up with every entry that is added.\<close>

definition handleAddKey :: "nat \<Rightarrow> data_entry list \<Rightarrow> data_entry list" where
  "handleAddKey nextId entries =
     entries @ [\<lparr>key_name = numbered_key (free_key (map key_name entries) 0), plain = '''', base64Value = '''', isBinary = False,
       data_source = ''data'', encoding = ''text'', entry_id = ''entry-'' @ show_nat (Suc nextId)\<rparr>]"

section \<open>Saving what is shown\<close>

lemma op_writes [simp]:
  "writes (fetchYaml answer s) = writes s" "writes (handleReload answer s) = writes s" "writes (type_text v s) = writes s"
  "writes (save_answered text' refused refreshed s) = writes s" "writes (switch_editor ctx s) = writes s"
  "tabContext (fetchYaml answer s) = tabContext s" "tabContext (handleReload answer s) = tabContext s"
  "tabContext (type_text v s) = tabContext s" "tabContext (save_answered text' refused refreshed s) = tabContext s"
  "tabContext (switch_editor ctx s) = tabContext s" "tabContext (save_button s) = tabContext s" "tabContext (force_save s) = tabContext s"
  by (simp_all add: fetchYaml_def handleReload_def type_text_def save_answered_def switch_editor_def save_button_def force_save_def
      handleSave_def Let_def split: option.split)

lemma save_writes:
  assumes "tabContext s \<noteq> ''''"
  shows "writes (save_button s) = writes s \<or> writes (save_button s) = writes s @ [(tabContext s, content s)] \<and> saving (save_button s)"
    "writes (force_save s) = writes s \<or> writes (force_save s) = writes s @ [(tabContext s, content s)] \<and> saving (force_save s)"
  using assms by (simp_all add: save_button_def force_save_def handleSave_def isStale_def)

lemma step_writes:
  assumes "editor_step False s t"
  shows "tabContext t = tabContext s \<and> (tabContext s \<noteq> '''' \<longrightarrow>
    writes t = writes s \<or> writes t = writes s @ [(tabContext s, content s)] \<and> saving t)"
  using assms
proof cases
  case button
  then show ?thesis using save_writes(1) [of s] by (simp only: op_writes) blast
next
  case force
  then show ?thesis using save_writes(2) [of s] by (simp only: op_writes) blast
qed simp_all

definition editor_ok :: "yaml_editor \<Rightarrow> bool" where
  "editor_ok s \<longleftrightarrow> (tabContext s \<noteq> '''' \<longrightarrow> (\<forall>w \<in> set (writes s). fst w = tabContext s))"

interpretation editor: transition_system "\<lambda>s. \<exists>tab ctx. s = open_editor tab ctx" "editor_step False" editor_ok
proof
  fix s assume "\<exists>tab ctx. s = open_editor tab ctx"
  then show "editor_ok s" by (auto simp: editor_ok_def open_editor_def)
next
  fix s t assume "editor_ok s" "editor_step False s t"
  then show "editor_ok t" using step_writes [of s t] unfolding editor_ok_def by fastforce
qed

text \<open>
  Writes own context: saving with the buttons, an editor writes only to the context its tab was opened in,
  whatever context is chosen meanwhile, and each save sends the text that is on the screen.
\<close>

theorem writes_own_context:
  assumes "(editor_step False)\<^sup>*\<^sup>* (open_editor tab ctx) s" "tabContext s \<noteq> ''''"
  shows "(\<forall>w \<in> set (writes s). fst w = tabContext s) \<and>
    (\<forall>t. editor_step False s t \<longrightarrow> writes t = writes s \<or> writes t = writes s @ [(tabContext s, content s)] \<and> saving t)"
proof -
  have "editor_ok s" by (rule editor.reachable_inv [OF _ assms(1)]) blast
  then show ?thesis using assms(2) step_writes unfolding editor_ok_def by blast
qed

lemma demo_saved:
  "(editor_step False)\<^sup>*\<^sup>* (open_editor ''dev'' ''dev'') (save_button (type_text ''b'' (fetchYaml (Some ''a'') (open_editor ''dev'' ''dev''))))"
proof -
  have "editor_step False (open_editor ''dev'' ''dev'') (fetchYaml (Some ''a'') (open_editor ''dev'' ''dev''))"
    by (rule editor_step.fetched) (simp add: open_editor_def)
  then show ?thesis by (meson editor_step.typing editor_step.button rtranclp.rtrancl_into_rtrancl rtranclp.rtrancl_refl)
qed

theorem writes_own_context_witness:
  "\<forall>w \<in> set (writes (save_button (type_text ''b'' (fetchYaml (Some ''a'') (open_editor ''dev'' ''dev''))))). fst w = ''dev''"
proof -
  let ?s = "save_button (type_text ''b'' (fetchYaml (Some ''a'') (open_editor ''dev'' ''dev'')))"
  have "tabContext ?s = ''dev''" by (simp add: save_button_def type_text_def fetchYaml_def open_editor_def handleSave_def isStale_def)
  then show ?thesis using writes_own_context [OF demo_saved] by simp
qed

text \<open>
  The shortcut saves the text as it was loaded: what has been typed is not sent, and lost when the text is read
  again after the save.
\<close>

theorem shortcut_drops_edits:
  "let s = type_text ''new'' (fetchYaml (Some ''old'') (open_editor ''dev'' ''dev''));
       t = save_answered ''old'' None (Some ''old'') (save_key s)
   in content s = ''new'' \<and> writes t = [(''dev'', ''old'')] \<and> content t = ''old''"
  by (simp add: type_text_def fetchYaml_def open_editor_def save_answered_def save_key_def handleSave_def isStale_def)

text \<open>It also works in a tab that is shown as read-only, and writes to the cluster that is current now.\<close>

theorem shortcut_crosses_clusters:
  "let s = switch_editor ''prod'' (fetchYaml (Some ''old'') (open_editor ''dev'' ''dev''))
   in isStale s \<and> writes (save_key s) = [(''prod'', ''old'')]"
  by (simp add: switch_editor_def fetchYaml_def open_editor_def save_key_def handleSave_def isStale_def)

text \<open>What is typed while a save is under way is overwritten by its answer.\<close>

theorem typed_while_saving_lost:
  "let s = save_button (type_text ''b'' (fetchYaml (Some ''a'') (open_editor ''dev'' ''dev'')));
       t = type_text ''bc'' s
   in content t = ''bc'' \<and> content (save_answered ''b'' None (Some ''b'') t) = ''b''"
  by (simp add: type_text_def fetchYaml_def open_editor_def save_answered_def save_button_def handleSave_def isStale_def)

section \<open>Entries\<close>

definition normal :: "raw_value \<Rightarrow> data_value \<Rightarrow> bool" where
  "normal r v \<longleftrightarrow> r = \<lparr>raw_key = Some (key_name v), raw_value = Some (plain v), raw_base64 = Some (base64Value v),
      raw_binary = Some (isBinary v), raw_source = Some (data_source v), raw_encoding = Some (encoding v)\<rparr> \<and>
    key_name v \<noteq> '''' \<and> data_source v \<noteq> '''' \<and> encoding v \<noteq> ''''"

text \<open>
  Unchanged saves same: entries that are loaded and saved without a change are sent back as they came, in the
  same order.
\<close>

theorem unchanged_saves_same:
  assumes "list_all2 normal raws vals"
  shows "entriesToData (dataToEntries now raws) = vals"
proof -
  have "map entryToData (filter (\<lambda>e. key_name e \<noteq> '''') (map (\<lambda>(i, e).
       let binary = (raw_binary e = Some True) in
       \<lparr>key_name = or_default (raw_key e) '''', plain = or_default (raw_value e) '''',
        base64Value = or_default (raw_base64 e) '''', isBinary = binary, data_source = or_default (raw_source e) ''data'',
        encoding = or_default (raw_encoding e) (if binary then ''base64'' else ''text''),
        entry_id = ''entry-'' @ show_nat now @ ''-'' @ show_nat i\<rparr>) (enumerate n raws))) = vals" for n
    using assms
  proof (induction raws vals arbitrary: n rule: list_all2_induct)
    case (Cons r rs v vs)
    from Cons(1) have "(if key_name v \<noteq> '''' then v else v) = v" by simp
    with Cons show ?case by (simp add: normal_def or_default_def entryToData_def Let_def)
  qed simp
  then show ?thesis by (simp add: entriesToData_def dataToEntries_def)
qed

theorem unchanged_saves_same_witness:
  "entriesToData (dataToEntries 7
     [\<lparr>raw_key = Some ''user'', raw_value = Some ''jane'', raw_base64 = Some ''amFuZQ=='', raw_binary = Some False,
       raw_source = Some ''data'', raw_encoding = Some ''text''\<rparr>]) =
   [\<lparr>key_name = ''user'', plain = ''jane'', base64Value = ''amFuZQ=='', isBinary = False, data_source = ''data'', encoding = ''text''\<rparr>]"
  by (rule unchanged_saves_same) (simp add: normal_def)

lemma free_key_fresh: "numbered_key (free_key used n) \<notin> set used"
  by (induction used n rule: free_key.induct) (subst free_key.simps, simp)

text \<open>
  Added key fresh: adding a key ends, and gives a new entry a key and an id no other entry has; the other
  entries stay as they are.
\<close>

theorem added_key_fresh:
  assumes "distinct (map key_name entries)" "distinct (map entry_id entries)"
    and "\<forall>e \<in> set entries. (\<exists>k \<le> nextId. entry_id e = ''entry-'' @ show_nat k) \<or>
      (\<exists>m i. entry_id e = ''entry-'' @ show_nat m @ ''-'' @ show_nat i)"
  shows "distinct (map key_name (handleAddKey nextId entries)) \<and> distinct (map entry_id (handleAddKey nextId entries)) \<and>
    take (length entries) (handleAddKey nextId entries) = entries \<and> length (handleAddKey nextId entries) = Suc (length entries)"
proof -
  have "numbered_key (free_key (map key_name entries) 0) \<notin> key_name ` set entries"
    using free_key_fresh [of "map key_name entries" 0] by simp
  moreover have "''entry-'' @ show_nat (Suc nextId) \<notin> entry_id ` set entries"
  proof
    assume "''entry-'' @ show_nat (Suc nextId) \<in> entry_id ` set entries"
    then obtain e where e: "e \<in> set entries" "entry_id e = ''entry-'' @ show_nat (Suc nextId)" by fastforce
    from assms(3) e(1) consider k where "k \<le> nextId" "entry_id e = ''entry-'' @ show_nat k"
      | m i where "entry_id e = ''entry-'' @ show_nat m @ ''-'' @ show_nat i" by blast
    then show False
    proof cases
      case 1
      then show False using e(2) show_nat_inj by fastforce
    next
      case 2
      then have "CHR ''-'' \<in> set (show_nat (Suc nextId))" using e(2) by simp
      then show False using show_nat_digits [of "CHR ''-''"] by (simp add: is_digit_def)
    qed
  qed
  ultimately show ?thesis using assms(1,2) by (simp add: handleAddKey_def)
qed

theorem added_key_fresh_witness: "length (handleAddKey 0 []) = 1"
  using added_key_fresh [of "[]" 0] by simp

text \<open>A value that is entered is shown as it was entered, in both editors.\<close>

lemma entered_shown: "secret_display shown (set_secret shown e v) = v" "map_display (set_map_value e v) = v"
  by (simp_all add: secret_display_def set_secret_def map_display_def set_map_value_def)

text \<open>
  A secret's value that was changed as plain text keeps its old base64 form: switching to base64 shows the value
  before the change, although the change is what will be saved.
\<close>

theorem old_base64_shown:
  "let e = \<lparr>key_name = ''password'', plain = ''old'', base64Value = ''b2xk'', isBinary = False, data_source = ''data'',
        encoding = ''text'', entry_id = ''entry-1''\<rparr>;
       e' = set_secret False e ''new''
   in secret_display True e' = ''b2xk'' \<and> plain (entryToData e') = ''new'' \<and> encoding (entryToData e') = ''text''"
  by (simp add: set_secret_def secret_display_def entryToData_def)

end
