(* ===== verification/DetailLinks.thy ===== *)
theory DetailLinks
  imports FilterEngine
begin

text \<open>
  The links of the detail views (\<open>components/shared/*Details.tsx\<close>, \<open>PodInfoTab.tsx\<close>): each opens the
  list of another kind with a search in it. What such a link shows is what the parser and the field
  table of that kind make of the search, so the properties here join the links to the search
  language. \<open>UIContext.tsx\<close> hands the search over and \<open>ResourceList.tsx\<close> takes it up.
\<close>

section \<open>The searches\<close>

text \<open>\<open>name:"value"\<close>\<close>

definition quoted_search :: "string \<Rightarrow> string \<Rightarrow> string" where
  "quoted_search f v = f @ '':'' @ [CHR 0x22] @ v @ [CHR 0x22]"

text \<open>
  \<open>handleViewPods\<close> of deployments, stateful sets, daemon sets and replica sets: the view and the
  search, or nothing where there is no selector.
\<close>

definition selector_text :: "(string \<times> string) list \<Rightarrow> string" where
  "selector_text selector = join '','' (map (\<lambda>(k, v). k @ ''='' @ v) selector)"

definition handleViewPods :: "(string \<times> string) list \<Rightarrow> (string \<times> string) option" where
  "handleViewPods selector =
     (if selector \<noteq> [] then Some (''pods'', quoted_search ''labels'' (selector_text selector)) else None)"

definition job_handleViewPods :: "string \<Rightarrow> string \<times> string" where
  "job_handleViewPods name = (''pods'', quoted_search ''job-name'' name)"

definition handleViewJobs :: "string \<Rightarrow> string \<times> string" where
  "handleViewJobs name = (''jobs'', quoted_search ''owner'' name)"

definition node_handleViewPods :: "string \<Rightarrow> string \<times> string" where
  "node_handleViewPods name = (''pods'', quoted_search ''node'' name)"

definition handleControllerClick :: "string \<Rightarrow> string \<Rightarrow> string \<times> string" where
  "handleControllerClick controllerViewId uid = (controllerViewId, quoted_search ''uid'' uid)"

definition handleViewService :: "string \<Rightarrow> string \<Rightarrow> string \<times> string" where
  "handleViewService namespace serviceName =
     (''services'', quoted_search ''name'' serviceName @ '' '' @ quoted_search ''namespace'' namespace)"

section \<open>Handing the search over\<close>

text \<open>
  The state that triggers a render and the refs beside it. A list that is shown takes the search up
  in an effect that runs when \<open>pendingSearch\<close> changes.
\<close>

record navigation =
  activeView :: string
  pendingSearch :: "string option"
  pendingSearchRef :: "string option"
  pendingAutoOpenRef :: bool

record list_search =
  searchInput :: string
  searchTerm :: string
  autoOpenDetails :: bool

definition navigateWithSearch :: "string \<Rightarrow> string \<Rightarrow> bool \<Rightarrow> navigation \<Rightarrow> navigation" where
  "navigateWithSearch view search auto n =
     n\<lparr>pendingSearchRef := Some search, pendingAutoOpenRef := auto, pendingSearch := Some search, activeView := view\<rparr>"

definition consumePendingSearch :: "navigation \<Rightarrow> (string option \<times> bool) \<times> navigation" where
  "consumePendingSearch n =
     ((pendingSearchRef n, pendingAutoOpenRef n),
      n\<lparr>pendingSearchRef := None, pendingAutoOpenRef := False, pendingSearch := None\<rparr>)"

definition truthy_text :: "string option \<Rightarrow> bool" where
  "truthy_text t = (case t of Some s \<Rightarrow> s \<noteq> '''' | None \<Rightarrow> False)"

definition take_search :: "navigation \<times> list_search \<Rightarrow> navigation \<times> list_search" where
  "take_search s =
     (case s of (n, l) \<Rightarrow>
        if truthy_text (pendingSearch n)
        then (case consumePendingSearch n of ((search, auto), n') \<Rightarrow>
                (n', case search of
                       Some t \<Rightarrow> if t \<noteq> '''' then l\<lparr>searchInput := t, searchTerm := t, autoOpenDetails := auto \<or> autoOpenDetails l\<rparr> else l
                     | None \<Rightarrow> l))
        else (n, l))"

text \<open>
  Link carried out: the list the link opens searches for what the link says, and runs of the effect
  after the first change nothing, so what the user types then stays.
\<close>
theorem link_carried_out:
  assumes "search \<noteq> ''''"
  shows "let (n, l') = take_search (navigateWithSearch view search auto n0, l) in
    activeView n = view \<and> searchTerm l' = search \<and> searchInput l' = search \<and>
    (\<forall>typed. take_search (n, typed) = (n, typed))"
  using assms
  by (simp add: take_search_def navigateWithSearch_def consumePendingSearch_def truthy_text_def)

theorem link_carried_out_witness:
  "searchTerm (snd (take_search (navigateWithSearch ''pods'' ''x'' True
     \<lparr>activeView = ''nodes'', pendingSearch = None, pendingSearchRef = None, pendingAutoOpenRef = False\<rparr>,
     \<lparr>searchInput = '''', searchTerm = '''', autoOpenDetails = False\<rparr>))) = ''x''"
  using link_carried_out [of "''x''" "''pods''" True
      "\<lparr>activeView = ''nodes'', pendingSearch = None, pendingSearchRef = None, pendingAutoOpenRef = False\<rparr>"
      "\<lparr>searchInput = '''', searchTerm = '''', autoOpenDetails = False\<rparr>"]
  by (simp add: case_prod_unfold Let_def)

section \<open>Fields every table has\<close>

lemma spread_other: "k \<notin> fst ` set ext \<Longrightarrow> map_of (spread base ext) k = map_of base k"
  unfolding spread_def by (induction ext arbitrary: base) (auto simp: update_conv')

lemma uid_in_tables: "list_all (\<lambda>e. map_of (snd e) ''uid'' = map_of commonFields ''uid'') registry"
  by (simp add: registry_def field_defs spread_other)

lemma name_in_tables: "list_all (\<lambda>e. map_of (snd e) ''name'' = map_of commonFields ''name'') registry"
  by (simp add: registry_def field_defs spread_other)

lemma lookup_common:
  assumes "list_all (\<lambda>e. map_of (snd e) k = map_of commonFields k) registry" "map_of commonFields k = Some f" "lower k = k"
  shows "getFieldByName rt k = Found f"
proof -
  have "map_of (getFieldsForResource rt) k = Some f"
  proof (cases "map_of registry rt")
    case (Some t)
    then have "(rt, t) \<in> set registry" by (rule map_of_SomeD)
    with assms(1,2) have "map_of t k = Some f" by (force simp: list_all_iff)
    with Some show ?thesis by (simp add: getFieldsForResource_def)
  qed (simp add: getFieldsForResource_def assms(2))
  with assms(3) show ?thesis by (simp add: getFieldByName_def)
qed

lemma lookup_uid: "getFieldByName rt ''uid'' = Found (field (\<lambda>item. path_str item [''metadata'', ''uid''] '''') [])"
proof (rule lookup_common [OF uid_in_tables])
  show "lower ''uid'' = ''uid''" by code_simp
qed (simp add: commonFields_def)

lemma lookup_field:
  assumes "map_of (getFieldsForResource rt) k = Some d" "n \<in> set (k # aliases d)" "lower n = n"
  shows "getFieldByName rt n = Found d"
  by (rule advertised_found [OF map_of_SomeD [OF assms(1)] assms(2,3)])

lemma tables_of_links:
  "getFieldsForResource ''pods'' = podFields" "getFieldsForResource ''jobs'' = jobFields"
  by (simp_all add: getFieldsForResource_def registry_def)

lemma pod_fields:
  "map_of podFields ''labels'' = Some (field (\<lambda>item. entries_path item [''metadata'', ''labels'']) [''label'', ''l''])"
  "map_of podFields ''nodename'' = Some (field (\<lambda>pod. path_str pod [''spec'', ''nodeName''] '''') [''node''])"
  by (simp_all add: podFields_def commonFields_def spread_def)

lemma job_fields:
  "map_of jobFields ''controlledby'' = Some (field (\<lambda>item. controller_field ''kind'' item) [''controller'', ''owner''])"
  by (simp add: jobFields_def commonFields_def spread_def)

section \<open>What the links show\<close>

text \<open>Names, label keys and label values are made of letters, digits and \<open>-./_\<close>.\<close>

definition plain_char :: "char \<Rightarrow> bool" where
  "plain_char c \<longleftrightarrow> is_word c \<or> c \<in> set ''-./''"

definition plain_text :: "string \<Rightarrow> bool" where
  "plain_text s \<longleftrightarrow> list_all plain_char s"

lemma plain_char_not: "plain_char c \<Longrightarrow> not_space c \<and> c \<noteq> CHR 0x22 \<and> c \<noteq> CHR '',''"
  by (auto simp: plain_char_def is_word_def is_alpha_def is_digit_def is_space_def not_space_def Let_def)

lemma value_ok:
  assumes "f \<noteq> []" "list_all is_word f" "list_all (\<lambda>c. not_space c \<and> c \<noteq> CHR 0x22) v"
  shows "term_ok (QuotedField f v)"
proof -
  have "list_all not_space v" "CHR 0x22 \<notin> set v" using assms(3) by (auto simp: list_all_iff)
  then show ?thesis using assms(1,2) no_or_nonspace [of v "[]"] by simp
qed

lemma quoted_selects:
  assumes "getFieldByName rt n = Found d" "lower n = n" "term_ok (QuotedField n v)" "extractor d item = Some (JStr x)"
  shows "createFilter mk rx rt (quoted_search n v) item = Some (str_includes (lower x) (lower v))"
proof -
  have "query_ok [[QuotedField n v]]" using assms(3) by (simp add: query_ok_def)
  from createFilter_query [OF this, of mk rx rt item] matchCondition_field [OF assms(1,4), of rx v] assms(2)
  show ?thesis by (simp add: query_text_def quoted_search_def matchGroups_def)
qed

lemma plain_value: "plain_text v \<Longrightarrow> list_all (\<lambda>c. not_space c \<and> c \<noteq> CHR 0x22) v"
  using plain_char_not by (auto simp: plain_text_def list_all_iff)

lemma link_words: "lower ''uid'' = ''uid''" "lower ''labels'' = ''labels''" "lower ''node'' = ''node''" "lower ''owner'' = ''owner''"
  "list_all is_word ''uid''" "list_all is_word ''labels''" "list_all is_word ''node''" "list_all is_word ''owner''"
  "list_all is_word ''e''" "lower ''e'' = ''e''"
  by code_simp+

lemma includes_same_length: "length s = length t \<Longrightarrow> str_includes s t \<longleftrightarrow> s = t"
  by (auto simp: str_includes_iff dest: sublist_length_le) (auto simp: sublist_def)

lemma includes_lower: "str_includes s t \<Longrightarrow> str_includes (lower s) (lower t)"
  by (auto simp: str_includes_iff sublist_def) blast

lemma includes_join: "t \<in> set ss \<Longrightarrow> str_includes (join sep ss) t"
proof (induction ss)
  case (Cons u ss)
  show ?case
  proof (cases "ss = []")
    case False
    then have j: "join sep (u # ss) = u @ sep @ join sep ss" by (rule join_Cons)
    from Cons consider "t = u" | "str_includes (join sep ss) t" by auto
    then show ?thesis
    proof cases
      case 1
      then show ?thesis unfolding j str_includes_iff sublist_def by (metis append_Nil)
    next
      case 2
      then obtain ps qs where "join sep ss = ps @ t @ qs" by (auto simp: str_includes_iff sublist_def)
      then have "u @ sep @ join sep ss = (u @ sep @ ps) @ t @ qs" by simp
      then show ?thesis unfolding j str_includes_iff sublist_def by blast
    qed
  qed (use Cons in simp)
qed simp

text \<open>
  Controller link exact: the link to the controller of a resource shows, in whatever list it opens,
  exactly the items with the uid of the controller (uids have one length and are in lower case).
\<close>
theorem controller_link_exact:
  assumes "plain_text uid" "path_str item [''metadata'', ''uid''] '''' = Some (JStr u)" "length u = length uid"
    and "lower u = u" "lower uid = uid"
  shows "createFilter mk rx view (snd (handleControllerClick view uid)) item = Some (u = uid)"
proof -
  have "term_ok (QuotedField ''uid'' uid)" using value_ok [OF _ link_words(5) plain_value [OF assms(1)]] by simp
  from quoted_selects [OF lookup_uid link_words(1) this, of item u mk rx view] assms(2,4,5)
  have "createFilter mk rx view (quoted_search ''uid'' uid) item = Some (str_includes u uid)" by simp
  with includes_same_length [OF assms(3)] show ?thesis by (simp add: handleControllerClick_def)
qed

theorem controller_link_exact_witness:
  "createFilter (\<lambda>p f. Some p) (\<lambda>p s. False) ''deployments'' (snd (handleControllerClick ''deployments'' ''ab-1''))
     (JObj [(''metadata'', JObj [(''uid'', JStr ''ab-2'')])]) = Some False"
proof -
  have p: "plain_text ''ab-1''" "lower ''ab-2'' = ''ab-2''" "lower ''ab-1'' = ''ab-1''" by code_simp+
  have u: "path_str (JObj [(''metadata'', JObj [(''uid'', JStr ''ab-2'')])]) [''metadata'', ''uid''] '''' = Some (JStr ''ab-2'')"
    by (simp add: path_or_def jpath_def jget_def jopt_def jor_def)
  show ?thesis by (subst controller_link_exact [OF p(1) u _ p(2,3)]) simp_all
qed

section \<open>Links to pods\<close>

definition label_text :: "(string \<times> string) list \<Rightarrow> string list" where
  "label_text ls = map (\<lambda>(k, v). k @ ''='' @ v) ls"

definition has_labels :: "jsv \<Rightarrow> (string \<times> string) list \<Rightarrow> bool" where
  "has_labels pod ls \<longleftrightarrow> jpath pod [''metadata'', ''labels''] = Some (JObj (map (\<lambda>(k, v). (k, JStr v)) ls))"

definition plain_labels :: "(string \<times> string) list \<Rightarrow> bool" where
  "plain_labels ls \<longleftrightarrow> (\<forall>(k, v) \<in> set ls. plain_text k \<and> plain_text v)"

lemma labels_extracted:
  assumes "has_labels pod ls"
  shows "entries_path pod [''metadata'', ''labels''] = Some (JStr (join '' '' (label_text ls)))"
proof -
  have "(\<lambda>(k, x). k @ ''='' @ jstring x) \<circ> (\<lambda>(k, v). (k, JStr v)) = (\<lambda>(k, v). k @ ''='' @ v)" by auto
  with assms show ?thesis
    by (simp add: has_labels_def entries_path_def entries_join_def path_or_def jor_def label_text_def)
qed

lemma set_join: "set (join sep ss) \<subseteq> set sep \<union> (\<Union>s \<in> set ss. set s)"
  by (induction sep ss rule: join.induct) auto

lemma label_chars:
  assumes "plain_labels ls" "c \<in> set (join sep (label_text ls))"
  shows "c \<in> set sep \<or> plain_char c \<or> c = CHR ''=''"
  using assms set_join [of sep "label_text ls"]
  by (fastforce simp: label_text_def plain_labels_def plain_text_def list_all_iff)

lemma selector_ok:
  assumes "plain_labels sel"
  shows "term_ok (QuotedField ''labels'' (selector_text sel))"
proof -
  have "not_space c \<and> c \<noteq> CHR 0x22" if "c \<in> set (selector_text sel)" for c
    using label_chars [OF assms, of c "'',''"] that plain_char_not [of c]
    by (auto simp: selector_text_def label_text_def not_space_def is_space_def)
  then have "list_all (\<lambda>c. not_space c \<and> c \<noteq> CHR 0x22) (selector_text sel)" by (simp add: list_all_iff)
  from value_ok [OF _ link_words(6) this] show ?thesis by simp
qed

lemma selector_selects:
  assumes "plain_labels sel" "has_labels pod ls" "sel \<noteq> []"
  shows "createFilter mk rx ''pods'' (snd (the (handleViewPods sel))) pod =
    Some (str_includes (lower (join '' '' (label_text ls))) (lower (selector_text sel)))"
proof -
  have "getFieldByName ''pods'' ''labels'' = Found (field (\<lambda>item. entries_path item [''metadata'', ''labels'']) [''label'', ''l''])"
    by (rule lookup_field [where k = "''labels''"]) (simp_all add: tables_of_links pod_fields link_words)
  from quoted_selects [OF this link_words(2) selector_ok [OF assms(1)]] labels_extracted [OF assms(2)] assms(3)
  show ?thesis by (simp add: handleViewPods_def)
qed

text \<open>
  One label link: for a selector of one label the link of a workload to its pods shows every pod
  that has the label.
\<close>
theorem one_label_link:
  assumes "plain_labels [(k, v)]" "has_labels pod ls" "(k, v) \<in> set ls"
  shows "createFilter mk rx ''pods'' (snd (the (handleViewPods [(k, v)]))) pod = Some True"
proof -
  have "k @ ''='' @ v \<in> set (label_text ls)" using assms(3) by (force simp: label_text_def)
  then have "str_includes (lower (join '' '' (label_text ls))) (lower (k @ ''='' @ v))"
    by (intro includes_lower includes_join)
  then show ?thesis by (subst selector_selects [OF assms(1,2)]) (simp_all add: selector_text_def)
qed

lemma comma_lower: "to_lower d = CHR '','' \<Longrightarrow> d = CHR '',''"
proof (rule ccontr)
  assume l: "to_lower d = CHR '',''" and n: "d \<noteq> CHR '',''"
  then have u: "to_lower d = char_of (of_char d + (32 :: nat))" "(of_char d :: nat) \<le> 222"
    by (auto simp: to_lower_def Let_def split: if_splits)
  then have "of_char (to_lower d) = (of_char d + 32 :: nat)" by (simp add: of_char_of)
  moreover have "of_char (CHR '','') = (44 :: nat)" by simp
  ultimately have "of_char d = (12 :: nat)" unfolding l by simp
  with u l show False by (auto simp: to_lower_def Let_def split: if_splits)
qed

text \<open>
  Several labels link: for a selector of more than one label the link shows no pod at all: it joins
  the labels by commas, the field of the search by blanks, and no label contains a comma.
\<close>
theorem several_labels_link:
  assumes "plain_labels sel" "2 \<le> length sel" "has_labels pod ls" "plain_labels ls"
  shows "createFilter mk rx ''pods'' (snd (the (handleViewPods sel))) pod = Some False"
proof -
  have "CHR '','' \<in> set (selector_text sel)"
    using assms(2) by (cases sel; cases "tl sel") (auto simp: selector_text_def split: prod.splits)
  moreover have "to_lower CHR '','' = CHR '',''" by code_simp
  ultimately have comma: "CHR '','' \<in> set (lower (selector_text sel))" unfolding lower_def by force
  have "c \<noteq> CHR '',''" if "c \<in> set (lower (join '' '' (label_text ls)))" for c
  proof -
    from that obtain d where d: "d \<in> set (join '' '' (label_text ls))" "c = to_lower d" by (auto simp: lower_def)
    with label_chars [OF assms(4), of d "'' ''"] plain_char_not [of d] have "d \<noteq> CHR '',''" by auto
    with d(2) comma_lower [of d] show ?thesis by auto
  qed
  with comma have "\<not> str_includes (lower (join '' '' (label_text ls))) (lower (selector_text sel))"
    by (fastforce simp: str_includes_iff sublist_def)
  with selector_selects [OF assms(1,3)] assms(2) show ?thesis by (cases sel) auto
qed

text \<open>
  Two labels, none shown: a pod with exactly the two labels the deployment selects by is not shown.
\<close>
theorem several_labels_link_witness:
  "createFilter (\<lambda>p f. Some p) (\<lambda>p s. False) ''pods'' (snd (the (handleViewPods [(''app'', ''web''), (''tier'', ''front'')])))
     (JObj [(''metadata'', JObj [(''labels'', JObj [(''app'', JStr ''web''), (''tier'', JStr ''front'')])])]) = Some False"
proof -
  have l: "plain_labels [(''app'', ''web''), (''tier'', ''front'')]"
    unfolding plain_labels_def by code_simp
  have h: "has_labels (JObj [(''metadata'', JObj [(''labels'', JObj [(''app'', JStr ''web''), (''tier'', JStr ''front'')])])])
      [(''app'', ''web''), (''tier'', ''front'')]"
    by (simp add: has_labels_def jpath_def jget_def jopt_def)
  show ?thesis by (rule several_labels_link [OF l _ h l]) simp
qed

section \<open>Links of jobs and nodes\<close>

lemma read_job_name: "next_condition mk (''job-name:'' @ CHR 0x22 # r) = Some (Plain (TextVal ''job-nam''), 7)"
  by (simp add: parser_defs js_defs eval_nat_numeral)

lemma parse_job_name:
  assumes "plain_text v"
  shows "parseQuery mk (quoted_search ''job-name'' v) = [[Plain (TextVal ''job-nam''), Field ''e'' (TextVal v)]]"
proof -
  let ?q = "''job-name:'' @ CHR 0x22 # v @ [CHR 0x22]" and ?e = "term_text (QuotedField ''e'' v)"
  have q: "quoted_search ''job-name'' v = ?q" by (simp add: quoted_search_def)
  have t: "trim_start ?q = ?q" "trim_start ?e = ?e" by (simp_all add: trim_start_id is_space_def)
  have ok: "term_ok (QuotedField ''e'' v)" using value_ok [OF _ link_words(9) plain_value [OF assms]] by simp
  have "next_condition mk ?e = Some (Field ''e'' (TextVal v), length ?e)"
    using readsD [OF term_reads [OF ok], of "[]" mk] link_words(10) by simp
  from parseSegment_step [of mk ?e, unfolded t(2), OF this]
  have e: "parseSegment mk ?e = [Field ''e'' (TextVal v)]" by simp
  from parseSegment_step [of mk ?q, unfolded t(1), OF read_job_name] e
  have seg: "parseSegment mk ?q = [Plain (TextVal ''job-nam''), Field ''e'' (TextVal v)]"
    by (simp add: eval_nat_numeral)
  have "list_all not_space ?q"
    using plain_value [OF assms] by (auto simp: list_all_iff not_space_def is_space_def)
  from parseQuery_single [OF this, of mk] seg show ?thesis by (simp add: q)
qed

lemma no_field_e: "getFieldByName ''pods'' ''e'' = NotFound"
proof (rule lookup_missing)
  show "lower ''e'' \<notin> set (table_names (getFieldsForResource ''pods''))"
    by (simp add: link_words tables_of_links podFields_def commonFields_def spread_def table_names_def)
  show "lower ''e'' \<notin> set object_prototype_names"
    by (simp add: link_words object_prototype_names_def)
qed

text \<open>
  Job link shows nothing: the link of a job to its pods shows no pod, whatever its labels: a field name
  of the search has no hyphen, so \<open>job-name:"x"\<close> is read as text of the name and a condition on a
  field that pods do not have.
\<close>
theorem job_link_shows_nothing:
  assumes "plain_text name" "path_str pod [''metadata'', ''name''] '''' = Some (JStr podName)"
  shows "createFilter mk rx ''pods'' (snd (job_handleViewPods name)) pod = Some False"
proof -
  have "matchCondition rx pod (Plain (TextVal ''job-nam'')) ''pods'' = Some (str_includes (lower podName) (lower ''job-nam''))"
    by (rule matchCondition_word [OF assms(2)])
  then show ?thesis
    using parse_job_name [OF assms(1), of mk] no_field_e
    by (simp add: job_handleViewPods_def createFilter_def matchGroups_def matchCondition_def [of _ _ "Field ''e'' _"])
qed

theorem job_link_shows_nothing_witness:
  "createFilter (\<lambda>p f. Some p) (\<lambda>p s. False) ''pods'' (snd (job_handleViewPods ''backup''))
     (JObj [(''metadata'', JObj [(''name'', JStr ''backup-x1''), (''labels'', JObj [(''job-name'', JStr ''backup'')])])]) = Some False"
proof -
  have p: "plain_text ''backup''" by code_simp
  show ?thesis
    by (rule job_link_shows_nothing [OF p]) (simp add: path_or_def jpath_def jget_def jopt_def jor_def)
qed

text \<open>
  Cron job link reads the kind: the link of a cron job to its jobs compares its name with the kind
  of the owner, so of the jobs it started it shows all when the word CronJob contains its name, and
  otherwise none.
\<close>
theorem cron_job_link_reads_kind:
  assumes "plain_text name" "find_controller job = Some owner" "truthy owner" "jget owner ''kind'' = Some (JStr ''CronJob'')"
  shows "createFilter mk rx ''jobs'' (snd (handleViewJobs name)) job = Some (str_includes ''cronjob'' (lower name))"
proof -
  have "getFieldByName ''jobs'' ''owner'' = Found (field (\<lambda>item. controller_field ''kind'' item) [''controller'', ''owner''])"
    by (rule lookup_field [where k = "''controlledby''"]) (simp_all add: tables_of_links job_fields link_words)
  moreover have "term_ok (QuotedField ''owner'' name)"
    using value_ok [OF _ link_words(8) plain_value [OF assms(1)]] by simp
  moreover have "controller_field ''kind'' job = Some (JStr ''CronJob'')"
    using assms(2-4) by (simp add: controller_field_def)
  moreover have "lower ''CronJob'' = ''cronjob''" by code_simp
  ultimately show ?thesis
    using quoted_selects [of "''jobs''" "''owner''" _ name job "''CronJob''" mk rx] link_words(4) by (simp add: handleViewJobs_def)
qed

theorem cron_job_link_reads_kind_witness:
  "createFilter (\<lambda>p f. Some p) (\<lambda>p s. False) ''jobs'' (snd (handleViewJobs ''backup''))
     (JObj [(''metadata'', JObj [(''ownerReferences'', JArr [JObj [(''kind'', JStr ''CronJob''), (''name'', JStr ''backup''), (''controller'', JBool True)]])])]) =
     Some False"
proof -
  have p: "plain_text ''backup''" and n: "\<not> str_includes ''cronjob'' (lower ''backup'')" by code_simp+
  let ?o = "JObj [(''kind'', JStr ''CronJob''), (''name'', JStr ''backup''), (''controller'', JBool True)]"
  have f: "find_controller (JObj [(''metadata'', JObj [(''ownerReferences'', JArr [?o])])]) = Some ?o"
    by (simp add: find_controller_def path_or_def jpath_def jget_def jopt_def jor_def)
  have k: "truthy ?o" "jget ?o ''kind'' = Some (JStr ''CronJob'')" by (simp_all add: jget_def)
  show ?thesis unfolding cron_job_link_reads_kind [OF p f k] by (simp only: n)
qed

text \<open>
  Node link shows more: the link of a node to its pods shows the pods of every node whose name
  contains the name of the node, as \<open>worker-1\<close> and \<open>worker-10\<close>.
\<close>
theorem node_link_by_part:
  assumes "plain_text name" "path_str pod [''spec'', ''nodeName''] '''' = Some (JStr node)"
  shows "createFilter mk rx ''pods'' (snd (node_handleViewPods name)) pod = Some (str_includes (lower node) (lower name))"
proof -
  have "getFieldByName ''pods'' ''node'' = Found (field (\<lambda>pod. path_str pod [''spec'', ''nodeName''] '''') [''node''])"
    by (rule lookup_field [where k = "''nodename''"]) (simp_all add: tables_of_links pod_fields link_words)
  moreover have "term_ok (QuotedField ''node'' name)"
    using value_ok [OF _ link_words(7) plain_value [OF assms(1)]] by simp
  ultimately show ?thesis
    using quoted_selects [of "''pods''" "''node''" _ name pod node mk rx] link_words(3) assms(2)
    by (simp add: node_handleViewPods_def)
qed

theorem node_link_by_part_witness:
  "createFilter (\<lambda>p f. Some p) (\<lambda>p s. False) ''pods'' (snd (node_handleViewPods ''worker-1''))
     (JObj [(''spec'', JObj [(''nodeName'', JStr ''worker-10'')])]) = Some True"
proof -
  have p: "plain_text ''worker-1''" and n: "str_includes (lower ''worker-10'') (lower ''worker-1'')" by code_simp+
  have "path_str (JObj [(''spec'', JObj [(''nodeName'', JStr ''worker-10'')])]) [''spec'', ''nodeName''] '''' = Some (JStr ''worker-10'')"
    by (simp add: path_or_def jpath_def jget_def jopt_def jor_def)
  from node_link_by_part [OF p this] n show ?thesis by simp
qed

end
