(* ===== verification/ViewRouting.thy ===== *)
theory ViewRouting
  imports PodStatus SidebarLayout AiNavigation
begin

text \<open>
  Which list the application shows for the id of a view (\<open>parsedCRView\<close> and \<open>renderContent\<close> of
  \<open>App.tsx\<close>), and the ids the rest of the program produces: the items of the menu, the links to an
  owner, to the object of an event and to a node of a dependency graph, and the ids of custom
  resources. A component is kept as its name.
\<close>

record cr_view =
  view_group :: string
  view_version :: string
  view_resource :: string
  view_kind :: string
  view_namespaced :: bool

definition parsedCRView :: "string option \<Rightarrow> cr_view option" where
  "parsedCRView activeView =
     (case activeView of
        None \<Rightarrow> None
      | Some v \<Rightarrow>
          if \<not> starts_with v ''cr:'' then None
          else let parts = split_on CHR '':'' v in
               if length parts \<noteq> 6 then None
               else Some \<lparr>view_group = parts ! 1, view_version = parts ! 2, view_resource = parts ! 3,
                          view_kind = parts ! 4, view_namespaced = (parts ! 5 = ''true'')\<rparr>)"

text \<open>The cases of the switch.\<close>

definition view_cases :: "(string, string) js_map" where
  "view_cases = [
     (''pods'', ''PodList''), (''deployments'', ''DeploymentList''), (''statefulsets'', ''StatefulSetList''),
     (''daemonsets'', ''DaemonSetList''), (''replicasets'', ''ReplicaSetList''), (''jobs'', ''JobList''),
     (''cronjobs'', ''CronJobList''), (''nodes'', ''NodeList''), (''namespaces'', ''NamespaceList''),
     (''events'', ''EventList''), (''metrics'', ''MetricsOverview''), (''metrics-overview'', ''MetricsOverview''),
     (''metrics-settings'', ''MetricsList''), (''flow-timeline'', ''FlowTimeline''),
     (''multi-log-viewer'', ''MultiLogViewer''), (''resource-diff'', ''ResourceDiff''),
     (''rbac-checker'', ''RBACChecker''), (''issue-detector'', ''IssueDetector''), (''scratchpad'', ''ScratchPad''),
     (''services'', ''ServiceList''), (''ingresses'', ''IngressList''), (''ingressclasses'', ''IngressClassList''),
     (''configmaps'', ''ConfigMapList''), (''secrets'', ''SecretList''), (''pvcs'', ''PVCList''), (''pvs'', ''PVList''),
     (''storageclasses'', ''StorageClassList''), (''crds'', ''CRDList''), (''portforwards'', ''PortForwardList''),
     (''helmreleases'', ''HelmReleaseList''), (''helmrepos'', ''HelmRepoList''),
     (''serviceaccounts'', ''ServiceAccountList''), (''roles'', ''RoleList''), (''clusterroles'', ''ClusterRoleList''),
     (''rolebindings'', ''RoleBindingList''), (''clusterrolebindings'', ''ClusterRoleBindingList''),
     (''networkpolicies'', ''NetworkPolicyList''), (''endpoints'', ''EndpointsList''),
     (''endpointslices'', ''EndpointSliceList''), (''hpas'', ''HPAList''), (''pdbs'', ''PDBList''),
     (''resourcequotas'', ''ResourceQuotaList''), (''limitranges'', ''LimitRangeList''),
     (''validatingwebhooks'', ''ValidatingWebhookList''), (''mutatingwebhooks'', ''MutatingWebhookList''),
     (''priorityclasses'', ''PriorityClassList''), (''embedded-browser'', ''EmbeddedBrowser''),
     (''leases'', ''LeaseList''), (''csidrivers'', ''CSIDriverList''), (''csinodes'', ''CSINodeList'')]"

datatype shown_view = CustomResources cr_view | Component string | UnknownView string

definition renderContent :: "string \<Rightarrow> shown_view" where
  "renderContent activeView =
     (case parsedCRView (Some activeView) of
        Some crdInfo \<Rightarrow> CustomResources crdInfo
      | None \<Rightarrow>
          (case map_get view_cases activeView of
             Some c \<Rightarrow> Component c
           | None \<Rightarrow> UnknownView activeView))"

section \<open>Tables of the links\<close>

text \<open>The table of \<open>EventDetails.tsx\<close> and the one of \<open>DependencyGraph.tsx\<close>.\<close>

definition event_kindToView :: "(string, string) js_map" where
  "event_kindToView = [
     (''Pod'', ''pods''), (''Deployment'', ''deployments''), (''ReplicaSet'', ''replicasets''),
     (''StatefulSet'', ''statefulsets''), (''DaemonSet'', ''daemonsets''), (''Job'', ''jobs''),
     (''CronJob'', ''cronjobs''), (''Service'', ''services''), (''ConfigMap'', ''configmaps''),
     (''Secret'', ''secrets''), (''Node'', ''nodes''), (''Namespace'', ''namespaces''),
     (''PersistentVolumeClaim'', ''pvcs''), (''PersistentVolume'', ''pvs''), (''Ingress'', ''ingresses'')]"

definition graph_kindToView :: "(string, string) js_map" where
  "graph_kindToView = [
     (''Pod'', ''pods''), (''Deployment'', ''deployments''), (''StatefulSet'', ''statefulsets''),
     (''DaemonSet'', ''daemonsets''), (''ReplicaSet'', ''replicasets''), (''Job'', ''jobs''), (''CronJob'', ''cronjobs''),
     (''ConfigMap'', ''configmaps''), (''Secret'', ''secrets''), (''Service'', ''services''),
     (''PersistentVolumeClaim'', ''pvcs''), (''PersistentVolume'', ''pvs''), (''StorageClass'', ''storageclasses''),
     (''Ingress'', ''ingresses''), (''IngressClass'', ''ingressclasses''), (''Endpoints'', ''endpoints''),
     (''NetworkPolicy'', ''networkpolicies''), (''PriorityClass'', ''priorityclasses''),
     (''ServiceAccount'', ''serviceaccounts''), (''HorizontalPodAutoscaler'', ''hpas''),
     (''PodDisruptionBudget'', ''pdbs'')]"

section \<open>Every menu item leads somewhere\<close>

definition opens :: "string \<Rightarrow> bool" where
  "opens v \<longleftrightarrow> (\<exists>c. renderContent v = Component c)"

lemma opens_case:
  assumes "\<not> starts_with v ''cr:''" "map_has view_cases v"
  shows "opens v"
  using assms by (auto simp: opens_def renderContent_def parsedCRView_def map_has_def)

text \<open>
  Menu items open: for every item of the menu's registry, for every entry of the tables of the event
  view and of the dependency graph, and for every kind the assistant's links know, the application
  has a component to show.
\<close>
theorem menu_items_open:
  "(i \<in> fst ` set ALL_MENU_ITEMS \<or> i \<in> snd ` set event_kindToView \<or> i \<in> snd ` set graph_kindToView \<or>
    i \<in> snd ` set kindToViewName) \<longrightarrow> opens i"
proof -
  have "list_all (\<lambda>i. \<not> starts_with i ''cr:'' \<and> map_has view_cases i)
      (map fst ALL_MENU_ITEMS @ map snd event_kindToView @ map snd graph_kindToView @ map snd kindToViewName)"
    by code_simp
  then show ?thesis by (auto simp: list_all_iff intro: opens_case)
qed

theorem menu_items_open_witness: "opens ''pvcs''"
  using menu_items_open [of "''pvcs''"] by (simp add: event_kindToView_def)

text \<open>
  Owner links unknown: of the kinds the links to an owner know, exactly persistent volumes, their
  claims and the two kinds of webhook configurations lead to a view the application does not have.
\<close>
theorem owner_links_unknown:
  assumes "(k, v) \<in> set kindToView"
  shows "opens v \<longleftrightarrow> k \<notin> {''PersistentVolumeClaim'', ''PersistentVolume'', ''ValidatingWebhookConfiguration'',
    ''MutatingWebhookConfiguration''}"
proof -
  have "list_all (\<lambda>(k, v). \<not> starts_with v ''cr:'' \<and> (map_has view_cases v \<longleftrightarrow>
      \<not> List.member [''PersistentVolumeClaim'', ''PersistentVolume'', ''ValidatingWebhookConfiguration'',
        ''MutatingWebhookConfiguration''] k)) kindToView"
    by code_simp
  then have kv: "\<not> starts_with v ''cr:''" "map_has view_cases v \<longleftrightarrow> k \<notin> {''PersistentVolumeClaim'', ''PersistentVolume'',
      ''ValidatingWebhookConfiguration'', ''MutatingWebhookConfiguration''}"
    using assms by (auto simp: list_all_iff)
  have "opens v \<longleftrightarrow> map_has view_cases v"
    using kv(1) by (auto simp: opens_def renderContent_def parsedCRView_def map_has_def split: option.splits)
  with kv(2) show ?thesis by simp
qed

theorem owner_links_unknown_witness: "\<not> opens ''pvc''"
  using owner_links_unknown [of "''PersistentVolumeClaim''" "''pvc''"] by (simp add: kindToView_def)

section \<open>Custom resources\<close>

lemma split_on_chars: "p \<in> set (split_on d s) \<Longrightarrow> set p \<subseteq> set s"
  by (induction d s arbitrary: p rule: split_on.induct) (fastforce split: if_splits list.splits)+

lemma api_version_chars:
  assumes "parse_api_version av = (grp, version)"
  shows "set grp \<subseteq> set av" "set version \<subseteq> set av"
proof -
  let ?ps = "split_on CHR ''/'' av"
  have part: "k < length ?ps \<Longrightarrow> set (?ps ! k) \<subseteq> set av" for k by (rule split_on_chars [where d = "CHR ''/''"]) (rule nth_mem)
  have "set (?ps ! 0) \<subseteq> set av" by (intro part) (simp add: Suc_le_eq)
  with part [of 1] show "set grp \<subseteq> set av" "set version \<subseteq> set av"
    using assms unfolding parse_api_version_def Let_def by (cases "length ?ps = 2"; simp; blast)+
qed

lemma custom_view_read:
  assumes "\<forall>s \<in> {grp, version, plural, knd}. CHR '':'' \<notin> set s"
  shows "renderContent (''cr:'' @ grp @ '':'' @ version @ '':'' @ plural @ '':'' @ knd @ '':'' @
      (if scoped then ''true'' else ''false'')) =
    CustomResources \<lparr>view_group = grp, view_version = version, view_resource = plural, view_kind = knd,
      view_namespaced = scoped\<rparr>"
proof -
  let ?parts = "[''cr'', grp, version, plural, knd, if scoped then ''true'' else ''false'']"
  have v: "''cr:'' @ grp @ '':'' @ version @ '':'' @ plural @ '':'' @ knd @ '':'' @ (if scoped then ''true'' else ''false'') =
      join [CHR '':''] ?parts" by simp
  have "split_on CHR '':'' (join [CHR '':''] ?parts) = ?parts"
    using assms by (intro split_on_join) auto
  moreover have "starts_with (join [CHR '':''] ?parts) ''cr:''" by simp
  ultimately show ?thesis unfolding v renderContent_def parsedCRView_def option.case Let_def by simp
qed

text \<open>
  Custom owner round trip: the link to an owner that is a custom resource leads to the list of its
  definition: the group, version, plural and kind the link is made of are the ones the application
  reads from it (names of the cluster hold no colon).
\<close>
theorem custom_owner_roundtrip:
  assumes "getOwnerViewId (Some r) crds = Some v" "map_get kindToView (kind r) = None" "apiVersion r = Some av"
    and "CHR '':'' \<notin> set av" "CHR '':'' \<notin> set (kind r)" "\<forall>c \<in> set crds. CHR '':'' \<notin> set (crd.crd_plural c)"
  shows "\<exists>c \<in> set crds. crd.crd_kind c = kind r \<and> crd_group c = fst (parse_api_version av) \<and>
    renderContent v = CustomResources
      \<lparr>view_group = crd_group c, view_version = snd (parse_api_version av), view_resource = crd.crd_plural c,
       view_kind = kind r, view_namespaced = (crd_scope c = ''Namespaced'')\<rparr>"
proof -
  obtain grp version where p: "parse_api_version av = (grp, version)" by (cases "parse_api_version av")
  from assms(1-3) p obtain c where
    c: "List.find (\<lambda>c. crd_group c = grp \<and> crd.crd_kind c = kind r) crds = Some c" and
    v: "v = ''cr:'' @ grp @ '':'' @ version @ '':'' @ crd.crd_plural c @ '':'' @ kind r @ '':'' @
          (if crd_scope c = ''Namespaced'' then ''true'' else ''false'')"
    by (auto simp: getOwnerViewId_def split: if_splits option.splits)
  then have "c \<in> set crds" "crd_group c = grp" "crd.crd_kind c = kind r" by (auto simp: find_Some_iff)
  moreover have "\<forall>s \<in> {grp, version, crd.crd_plural c, kind r}. CHR '':'' \<notin> set s"
    using api_version_chars [OF p] assms(4-6) \<open>c \<in> set crds\<close> by auto
  ultimately show ?thesis using custom_view_read [of grp version "crd.crd_plural c" "kind r"] p
    unfolding v by (intro bexI [of _ c]) auto
qed

theorem custom_owner_roundtrip_witness:
  "renderContent ''cr:argoproj.io:v1alpha1:applications:Application:true'' =
     CustomResources \<lparr>view_group = ''argoproj.io'', view_version = ''v1alpha1'', view_resource = ''applications'',
       view_kind = ''Application'', view_namespaced = True\<rparr>"
proof -
  let ?r = "\<lparr>apiVersion = Some ''argoproj.io/v1alpha1'', kind = ''Application''\<rparr>"
  let ?c = "\<lparr>crd_group = ''argoproj.io'', crd_kind = ''Application'', crd_plural = ''applications'', crd_scope = ''Namespaced''\<rparr>"
  have a: "parse_api_version ''argoproj.io/v1alpha1'' = (''argoproj.io'', ''v1alpha1'')" by code_simp
  have k: "map_get kindToView (kind ?r) = None" by (simp add: kindToView_def)
  have v: "getOwnerViewId (Some ?r) [?c] = Some ''cr:argoproj.io:v1alpha1:applications:Application:true''"
    using k by (simp add: getOwnerViewId_def a)
  from custom_owner_roundtrip [OF v k, of "''argoproj.io/v1alpha1''"] a show ?thesis by simp
qed

end
