(* ===== verification/Spec2Isabelle.thy ===== *)
theory Spec2Isabelle
  imports Highlight FilterEngine ResourceSync NamespaceQuery PollingBudget Tabs Selection SavedViews PodStatus
    Quantities SidebarLayout SidebarSearch Snapshots Connection NamespaceOptions LogText LogHighlight Settings BulkActions
    WatchSubscription AiNavigation LogStream LogSearch ResourceTable ColumnWidths PodNotifications Topology EventBridge PortForwards ClusterContexts ConnectionErrors CompletionPolling IssueScan FormState NodeMemory TimePicker Formatting ResourceDiff Editors QueryParserProps AiChat DetailLinks ViewRouting
begin

text \<open>
  Kubikles is a desktop client for Kubernetes: a Go process talks to the clusters, and a TypeScript frontend
  (\<open>src/frontend/src\<close>) shows and changes what they hold. This development models the logic of the frontend.
  The backend, the browser and the libraries enter only as what the modelled code sees of them: results and
  events that arrive in some order, or parameters of the definitions.

  \<^bold>\<open>How the parts fit.\<close> A view asks for the resources of a namespace scope (\<open>NamespaceQuery\<close>), keeps a list
  that it patches with watch events (\<open>ResourceSync\<close>, \<open>ResourceEvents\<close>, \<open>WatchSubscription\<close>) and falls back to
  polling when watches fail (\<open>Connection\<close>, \<open>PollingBudget\<close>). The list is shown in a table (\<open>ResourceTable\<close>,
  \<open>ColumnWidths\<close>, \<open>Selection\<close>, \<open>SavedViews\<close>) filtered by the search language (\<open>QueryParser\<close>, \<open>FilterEngine\<close> and the
  field tables). Around it are the tabs, the sidebar, the log viewer, bulk actions, the AI chat and the settings.

  \<^bold>\<open>Foundations.\<close>
  \<^item> \<open>Prelude\<close>: rule collections, list facts, and three interfaces. \<open>machine\<close> (operations keep an invariant) and
    \<open>transition_system\<close> (steps keep an invariant) carry an invariant over every run, and are interpreted on each
    stateful component; \<open>keyed_store\<close> states the laws of a dictionary and is interpreted on \<open>JsMap\<close>.
  \<^item> \<open>JsMap\<close>, \<open>JsStrings\<close>, \<open>JsValue\<close>: the parts of JavaScript the code uses. A dictionary is an association list in
    insertion order; a string is a list of code units below 256; \<open>jsv\<close> is a JSON document, and a result
    \<open>None\<close> of type \<open>jsv option\<close> is a thrown \<open>TypeError\<close>.

  \<^bold>\<open>Search\<close> (\<open>utils/search\<close>).
  \<^item> \<open>QueryParser\<close>, \<open>QueryParserProps\<close>: \<open>queryParser.ts\<close>, a scanner that consumes the query from the left and
    ends because every token is consumed; every part of a query yields a condition, and printed queries parse back.
  \<^item> \<open>FilterEngine\<close>: \<open>filterEngine.ts\<close>; a filter is the disjunction of the conjunctions of the parsed groups.
  \<^item> \<open>FieldsCommon\<close>, \<open>FieldsCluster\<close>, \<open>FieldsConfig\<close>, \<open>FieldRegistry\<close>: \<open>fieldMappings/*.ts\<close>, one table of
    extractors per kind and the lookup of names and aliases. \<open>Highlight\<close>: \<open>highlightTokens.ts\<close>.

  \<^bold>\<open>Lists and watches.\<close>
  \<^item> \<open>ResourceEvents\<close>: \<open>hooks/useResourceEventHandler.tsx\<close>, events over a list; the abstract specification is a
    partial map from ids to objects, and a batch refines the single updates.
  \<^item> \<open>ResourceSync\<close>: \<open>hooks/useResource.tsx\<close>, one mounted hook with its list call, pages and journal as a step
    relation; whatever the interleaving, the view ends with the state of the cluster.
  \<^item> \<open>WatchSubscription\<close>: \<open>hooks/useResourceWatcher.tsx\<close>, subscribing with answers and cleanup in any order, and
    the delivery of single events and batches to the handler of the resource hook, which meets the contract
    \<open>batch_handler\<close> of the watcher.
  \<^item> \<open>NamespaceQuery\<close>: \<open>utils/namespaceQuery.ts\<close>, the choice of a scope and a pool of workers whose steps
    interleave; the pool ends, and a failed namespace fails the whole list.
  \<^item> \<open>PollingBudget\<close>: \<open>utils/pollingBudget.ts\<close>, \<open>context/contextSwitch.ts\<close>. \<open>Connection\<close>:
    \<open>utils/streamingCompatibility.ts\<close> and the watcher handlers of \<open>context/K8sContext.tsx\<close>. \<open>NamespaceOptions\<close>: the
    namespaces offered and chosen there. \<open>Snapshots\<close>: \<open>utils/resourceSnapshots.ts\<close>.

  \<^bold>\<open>Tables and pods.\<close>
  \<^item> \<open>ResourceTable\<close>, \<open>ColumnWidths\<close>: \<open>components/shared/ResourceList.tsx\<close>, \<open>resourceListColumns.ts\<close>: values, filters and
    order of rows, columns, saved table views, widths. \<open>Selection\<close>: \<open>hooks/useSelection.tsx\<close>. \<open>SavedViews\<close>:
    \<open>hooks/useSavedViews.tsx\<close>. \<open>BulkActions\<close>: \<open>hooks/useBulkActions.tsx\<close>, the loop of a run interleaved with the dialog.
  \<^item> \<open>PodStatus\<close>: \<open>utils/k8s-helpers.ts\<close>, \<open>utils/owner-navigation.ts\<close>. \<open>Quantities\<close>: \<open>utils/resourceQuantities.ts\<close>;
    the requests of a pod equal the formula of the scheduler. \<open>Topology\<close>:
    \<open>features/cluster/topology/topologyUtils.ts\<close>, with the namespace hash on 32-bit words.
  \<^item> \<open>PodNotifications\<close>: \<open>hooks/usePodNotifications.tsx\<close>, \<open>context/NotificationContext.tsx\<close>, runs of an effect that
    compares snapshots.

  \<^bold>\<open>Connection and context.\<close>
  \<^item> \<open>EventBridge\<close>: \<open>lib/wailsjs-adapter\<close>, calls of the backend, event listeners, and the socket that reconnects.
    \<open>PortForwards\<close>: \<open>hooks/usePortForwards.tsx\<close>, \<open>hooks/useIngressForward.tsx\<close>; the view of the forwards refines a
    map from ids to states, with React's deferred updates as an explicit queue.
  \<^item> \<open>ClusterContexts\<close>, \<open>ConnectionErrors\<close>: \<open>context/K8sContext.tsx\<close>, the contexts, the namespaces saved for each with the
    effects after every rendering, the cached custom resource definitions, and the advice on errors.
  \<^item> \<open>CompletionPolling\<close>: \<open>utils/completionPolling.ts\<close>, \<open>hooks/useCompletionPolling.ts\<close>, rounds of polls as steps.
    \<open>IssueScan\<close>: \<open>context/IssueDetectorContext.tsx\<close>, scans and answers as steps.

  \<^bold>\<open>Dialogs and details.\<close>
  \<^item> \<open>FormState\<close>: \<open>lib/validation/hooks/useForm.ts\<close>, forms as a step relation over any schema. \<open>TimePicker\<close>: the dialog
    that jumps to a time in the logs. \<open>Formatting\<close>: \<open>utils/formatting.ts\<close>.
  \<^item> \<open>Editors\<close>: \<open>components/shared/YamlEditor.tsx\<close>, \<open>SecretEditor.tsx\<close>, \<open>ConfigMapEditor.tsx\<close>, the text with its saves and
    the shortcut that keeps the function it was given, and the entries of secrets and config maps.
  \<^item> \<open>ResourceDiff\<close>: \<open>features/diagnostics/ResourceDiff.tsx\<close>; both views of a diff read back to the documents it was made
    from. \<open>NodeMemory\<close>: \<open>components/shared/nodeMemoryDiagnostics.ts\<close>.
  \<^item> \<open>DetailLinks\<close>: the links of the detail views (\<open>components/shared/*Details.tsx\<close>) joined to the parser and the
    field tables they meet in the list they open. \<open>ViewRouting\<close>: \<open>App.tsx\<close>, the component for the id of a view,
    with the tables of ids the links and the menu produce.

  \<^bold>\<open>Logs\<close> (\<open>components/shared/log-viewer\<close>). \<open>LogText\<close> and \<open>LogHighlight\<close>: \<open>logUtils.ts\<close>; \<open>LogStream\<close>: \<open>useLogStream.ts\<close>,
  calls and their answers as steps; \<open>LogSearch\<close>: \<open>useLogSearch.ts\<close> and the choice of a target.

  \<^bold>\<open>Application.\<close> \<open>Tabs\<close>: \<open>context/UIContext.tsx\<close>, \<open>components/layout/BottomPanel.tsx\<close>. \<open>SidebarLayout\<close>,
  \<open>SidebarSearch\<close>: \<open>constants/\<close>, the layout editor, \<open>sidebarSearch.ts\<close>. \<open>Settings\<close>: \<open>context/ConfigContext.tsx\<close>.
  \<open>AiChat\<close>, \<open>AiNavigation\<close>: \<open>context/AIChatContext.tsx\<close>, \<open>utils/aiChatBlocks.ts\<close>, \<open>components/layout/navUtils.ts\<close>;
  React's deferred state updates are an explicit queue there, because refs are read when an update runs.

  \<^bold>\<open>What the lemmas show.\<close> Each theory proves first that its operations keep a well-formedness invariant (ids and
  keys stay distinct, indices in range), then what the component promises, on every branch, and where the
  code breaks a promise a theorem on a concrete input that shows it. The theorems that are claims about the
  program carry their number in the text before them; a theorem with hypotheses is followed by its
  \<open>_witness\<close>, which applies it to concrete data.

  \<^bold>\<open>Bounds and recursion.\<close> No definition takes fuel: loops over lists are structural, the scanners end by the
  length of their input, and loops whose length depends on other parties (workers, streams, runs) are step
  relations, for which the termination theorems give a measure. Numbers of Kubernetes documents are integers
  or exact rationals; rounding of floating point numbers is not modelled. The hash of the topology is a word.

  \<^bold>\<open>Parameters.\<close> A compiled regular expression, the collation of the locale, the conversion of texts to numbers, the
  size of a snapshot, schema checks, and the answers of the backend are arguments of the definitions.

  \<^bold>\<open>Not modelled.\<close> React components that only render (\<open>components/\<close>, \<open>features/\<close>, the icons, menus and dialogs):
  their content is markup and calls of the hooks above. The bindings under \<open>wailsjs/\<close> are generated;
  \<open>types/k8s.ts\<close> declares interfaces without code. The Go backend is another program. The hooks for metrics and
  Helm releases fetch from the backend and store the answer. The schemas of \<open>lib/validation\<close> are objects of a
  library. Playing sounds, dragging, storage quotas and console output are effects without a result the code reads.
\<close>

end
